(* ===== verification/Prelude.thy ===== *)
theory Prelude
  imports Complex_Main "HOL-Library.AList" "HOL-Library.List_Lexorder"
begin

text \<open>
  Shared vocabulary of the development: Python exceptions as values of a sum type, dictionaries
  as insertion-ordered association lists, texts as lists of Unicode code points, and the generic
  lemmas on lists, folds and dictionaries that the component theories use.
\<close>

subsection \<open>Lemma collections\<close>

named_theorems bind_simps \<open>case distinctions for the exception sum\<close>
named_theorems dict_simps \<open>reading and writing association-list dictionaries\<close>

subsection \<open>Exceptions as values\<close>

text \<open>
  The exception classes the modelled code raises or catches, each with its message where the code
  builds one. An operation that may raise returns \<open>exn + 'a\<close>; the state of an operation that
  raises inside a store transaction is the state before it, because the transaction is rolled back.
\<close>

datatype exn =
    ValueError string
  | KeyError string
  | RuntimeError string
  | FileNotFoundError
  | FileExistsError string
  | JobInterrupted string
  | SequenceConflict nat nat
  | HelperError string
  | HelperOutput "int list"  \<comment> \<open>a \<open>HelperError\<close> whose text a process printed\<close>
  | SandboxError string
  | ContextCapacityError
  | RecursionError
  | OSError string
  | TimeoutExpired
  | PermissionError string
  | TypeError string
  | StopIteration
  | AttributeError string
  | RuntimeText "int list"  \<comment> \<open>a \<open>RuntimeError\<close> whose message holds text of the input\<close>
  | WorkspaceError "int list"
  | ValueText "int list"  \<comment> \<open>a \<open>ValueError\<close> whose message holds text of the input\<close>
  | HTTPException nat string

type_synonym 'a result = "exn + 'a"

definition bindE :: "'a result \<Rightarrow> ('a \<Rightarrow> 'b result) \<Rightarrow> 'b result" where
  "bindE m f = (case m of Inl e \<Rightarrow> Inl e | Inr x \<Rightarrow> f x)"

definition guardE :: "bool \<Rightarrow> exn \<Rightarrow> 'a result \<Rightarrow> 'a result" where
  \<comment> \<open>\<open>if b: raise e\<close>, then the rest of the code\<close>
  "guardE b e k = (if b then Inl e else k)"

lemma bindE_Inl [simp]: "bindE (Inl e) f = Inl e"
  by (simp add: bindE_def)

lemma bindE_Inr [simp]: "bindE (Inr x) f = f x"
  by (simp add: bindE_def)

lemma bindE_eq_Inr [bind_simps]: "bindE m f = Inr y \<longleftrightarrow> (\<exists>x. m = Inr x \<and> f x = Inr y)"
  by (simp add: bindE_def split: sum.splits)

lemma bindE_eq_Inl [bind_simps]:
  "bindE m f = Inl e \<longleftrightarrow> m = Inl e \<or> (\<exists>x. m = Inr x \<and> f x = Inl e)"
  by (auto simp add: bindE_def split: sum.splits)

lemma guardE_eq_Inr [bind_simps]: "guardE b e k = Inr y \<longleftrightarrow> \<not> b \<and> k = Inr y"
  by (simp add: guardE_def)

lemma guardE_eq_Inl [bind_simps]: "guardE b e k = Inl e' \<longleftrightarrow> (b \<and> e' = e) \<or> (\<not> b \<and> k = Inl e')"
  by (auto simp add: guardE_def)

lemma guardE_simps [simp]: "guardE True e k = Inl e" "guardE False e k = k"
  by (simp_all add: guardE_def)

subsection \<open>Clocks, texts and identifiers\<close>

text \<open>
  Clock readings are real numbers (Python floats, rounding aside). Strings the code only stores,
  compares and passes on are Isabelle strings. Texts whose characters the code looks at (paths,
  prompts, tool output, patterns) are lists of Unicode code points, so that \<open>length\<close> counts what
  \<open>len\<close> counts.
\<close>

type_synonym time = real

type_synonym pytext = "int list"

definition u :: "string \<Rightarrow> pytext" where
  "u s = map of_char s"

lemma u_Nil [simp]: "u [] = []"
  by (simp add: u_def)

lemma u_Cons [simp]: "u (c # s) = of_char c # u s"
  by (simp add: u_def)

lemma u_append [simp]: "u (s @ t) = u s @ u t"
  by (simp add: u_def)

lemma length_u [simp]: "length (u s) = length s"
  by (simp add: u_def)

lemma u_eq_iff [simp]: "u s = u t \<longleftrightarrow> s = t"
  by (auto simp add: u_def inj_map_eq_map inj_def)

subsection \<open>Dictionaries\<close>

text \<open>
  A Python dictionary is an association list in insertion order: assigning to a key that is
  present replaces the value in place, a new key goes to the end. \<open>AList.update\<close> is that
  operation.
\<close>

type_synonym ('k, 'v) dict = "('k \<times> 'v) list"

abbreviation dget :: "('k, 'v) dict \<Rightarrow> 'k \<Rightarrow> 'v option" where
  "dget d k \<equiv> map_of d k"

abbreviation dput :: "'k \<Rightarrow> 'v \<Rightarrow> ('k, 'v) dict \<Rightarrow> ('k, 'v) dict" where
  "dput k v d \<equiv> AList.update k v d"

abbreviation dkeys :: "('k, 'v) dict \<Rightarrow> 'k list" where
  "dkeys d \<equiv> map fst d"

abbreviation dvals :: "('k, 'v) dict \<Rightarrow> 'v list" where
  "dvals d \<equiv> map snd d"

lemma dget_dput [dict_simps]: "dget (dput k v d) k' = (if k' = k then Some v else dget d k')"
  by (simp add: update_conv')

lemma dkeys_dput [dict_simps]:
  "dkeys (dput k v d) = (if k \<in> set (dkeys d) then dkeys d else dkeys d @ [k])"
  by (simp add: update_keys)

lemma distinct_dput [dict_simps]: "distinct (dkeys (dput k v d)) = distinct (dkeys d)"
  by (auto simp add: update_keys)

lemma dget_None_iff: "dget d k = None \<longleftrightarrow> k \<notin> set (dkeys d)"
  by (simp add: map_of_eq_None_iff)

lemma dget_Some_in: "dget d k = Some v \<Longrightarrow> k \<in> set (dkeys d)"
  by (metis dget_None_iff option.distinct(1))

lemma dput_present_map:
  assumes "distinct (dkeys d)" and "k \<in> set (dkeys d)"
  shows "dput k v d = map (\<lambda>(k', w). (k', if k' = k then v else w)) d"
  using assms
proof (induction d)
  case Nil
  then show ?case by simp
next
  case (Cons p d)
  obtain a b where p: "p = (a, b)" by force
  show ?case
  proof (cases "a = k")
    case True
    with Cons.prems p have "k \<notin> fst ` set d" by auto
    then have "map (\<lambda>(k', w). (k', if k' = k then v else w)) d = d"
      by (intro map_idI) (auto simp: image_iff)
    with True p show ?thesis by simp
  next
    case False
    with Cons p show ?thesis by simp
  qed
qed

lemma dput_absent: "k \<notin> set (dkeys d) \<Longrightarrow> dput k v d = d @ [(k, v)]"
  by (induction d) auto

lemma set_dvals_dput:
  "distinct (dkeys d) \<Longrightarrow> x \<in> set (dvals (dput k v d)) \<Longrightarrow> x = v \<or> x \<in> set (dvals d)"
  by (induction d) (auto split: if_splits)

lemma dput_memD:
  "distinct (dkeys d) \<Longrightarrow> (k', w) \<in> set (dput k v d) \<Longrightarrow>
     (k' = k \<and> w = v) \<or> (k' \<noteq> k \<and> (k', w) \<in> set d)"
  by (induction d) (auto split: if_splits simp: rev_image_eqI)

lemma length_dput [dict_simps]:
  "length (dput k v d) = (if k \<in> set (dkeys d) then length d else Suc (length d))"
  by (induction d) auto

subsection \<open>Searching lists\<close>

text \<open>\<open>next((x for x in xs if p x), None)\<close>\<close>

fun first_such :: "('a \<Rightarrow> bool) \<Rightarrow> 'a list \<Rightarrow> 'a option" where
  "first_such p [] = None"
| "first_such p (x # xs) = (if p x then Some x else first_such p xs)"

lemma first_such_Some: "first_such p xs = Some x \<Longrightarrow> x \<in> set xs \<and> p x"
  by (induction xs) (auto split: if_splits)

lemma first_such_None_iff: "first_such p xs = None \<longleftrightarrow> (\<forall>x\<in>set xs. \<not> p x)"
  by (induction xs) auto

lemma first_such_find: "first_such p xs = List.find p xs"
  by (induction xs) auto

lemma first_such_append:
  "first_such p (xs @ ys) = (case first_such p xs of None \<Rightarrow> first_such p ys | Some x \<Rightarrow> Some x)"
  by (induction xs) auto

subsection \<open>Counting\<close>

lemma sum_list_filter_le:
  fixes f :: "'a \<Rightarrow> nat"
  shows "sum_list (map f (filter p xs)) \<le> sum_list (map f xs)"
  by (induction xs) auto

lemma distinct_filter_le_one:
  assumes "length (filter p xs) \<le> 1" and "x \<in> set xs" and "y \<in> set xs" and "p x" and "p y"
  shows "x = y"
proof -
  have "x \<in> set (filter p xs)" "y \<in> set (filter p xs)" using assms by auto
  moreover obtain zs where "filter p xs = zs" "length zs \<le> 1" using assms(1) by simp
  ultimately show ?thesis by (cases zs) auto
qed

end
