(* ===== verification/Py_Text.thy ===== *)
theory Py_Text
  imports Prelude "HOL-Library.Sublist"
begin

text \<open>
  The string operations of the Python standard library that the modelled code uses, on lists of
  code points: stripping and splitting, POSIX path components, and UTF-8 with the decoder's
  \<open>errors="ignore"\<close> mode. Case folding is exact on ASCII letters and leaves other letters alone.
\<close>

subsection \<open>White space, case, prefixes\<close>

definition is_space :: "int \<Rightarrow> bool" where
  \<comment> \<open>\<open>str.isspace\<close>, and \<open>\s\<close> of a text pattern\<close>
  "is_space c \<longleftrightarrow> (9 \<le> c \<and> c \<le> 13) \<or> (28 \<le> c \<and> c \<le> 32) \<or> c = 133 \<or> c = 160 \<or> c = 5760
     \<or> (8192 \<le> c \<and> c \<le> 8202) \<or> c = 8232 \<or> c = 8233 \<or> c = 8239 \<or> c = 8287 \<or> c = 12288"

definition lstrip :: "pytext \<Rightarrow> pytext" where
  "lstrip = dropWhile is_space"

definition rstrip :: "pytext \<Rightarrow> pytext" where
  "rstrip t = rev (dropWhile is_space (rev t))"

definition strip :: "pytext \<Rightarrow> pytext" where
  "strip t = rstrip (lstrip t)"

definition lower_char :: "int \<Rightarrow> int" where
  "lower_char c = (if 65 \<le> c \<and> c \<le> 90 then c + 32 else c)"

definition lower :: "pytext \<Rightarrow> pytext" where
  "lower = map lower_char"

definition starts_with :: "pytext \<Rightarrow> pytext \<Rightarrow> bool" where
  "starts_with p t \<longleftrightarrow> take (length p) t = p"

definition ends_with :: "pytext \<Rightarrow> pytext \<Rightarrow> bool" where
  "ends_with p t \<longleftrightarrow> starts_with (rev p) (rev t)"

definition remove_suffix :: "pytext \<Rightarrow> pytext \<Rightarrow> pytext" where
  "remove_suffix p t = (if p \<noteq> [] \<and> ends_with p t then take (length t - length p) t else t)"

fun contains :: "pytext \<Rightarrow> pytext \<Rightarrow> bool" where
  "contains p [] = (p = [])"
| "contains p (c # t) = (starts_with p (c # t) \<or> contains p t)"

lemma starts_with_prefix: "starts_with p t \<longleftrightarrow> prefix p t"
  by (metis append_eq_conv_conj prefix_def starts_with_def)

lemma length_lstrip: "length (lstrip t) \<le> length t"
  by (simp add: lstrip_def length_dropWhile_le)

lemma length_strip: "length (strip t) \<le> length t"
proof -
  have "length (rstrip x) \<le> length x" for x
    unfolding rstrip_def by (metis length_dropWhile_le length_rev)
  then show ?thesis unfolding strip_def using length_lstrip le_trans by blast
qed

lemma strip_ends:
  "strip t \<noteq> [] \<Longrightarrow> \<not> is_space (last (strip t))"
  unfolding strip_def rstrip_def
  by (metis dropWhile_eq_Nil_conv hd_dropWhile last_rev rev_is_Nil_conv set_rev)

subsection \<open>Splitting and joining\<close>

definition is_linebreak :: "int \<Rightarrow> bool" where
  "is_linebreak c \<longleftrightarrow> (10 \<le> c \<and> c \<le> 13) \<or> (28 \<le> c \<and> c \<le> 30) \<or> c = 133 \<or> c = 8232 \<or> c = 8233"

fun splitlines_from :: "pytext \<Rightarrow> pytext \<Rightarrow> pytext list" where
  \<comment> \<open>the second argument is the line read so far, reversed\<close>
  "splitlines_from [] cur = (if cur = [] then [] else [rev cur])"
| "splitlines_from (c # t) cur =
     (if c = 13 \<and> t \<noteq> [] \<and> hd t = 10 then rev cur # splitlines_from (tl t) []
      else if is_linebreak c then rev cur # splitlines_from t []
      else splitlines_from t (c # cur))"

definition splitlines :: "pytext \<Rightarrow> pytext list" where
  "splitlines t = splitlines_from t []"

fun split_on :: "int \<Rightarrow> pytext \<Rightarrow> pytext list" where
  \<comment> \<open>\<open>t.split(sep)\<close> for a one-character separator\<close>
  "split_on s [] = [[]]"
| "split_on s (c # t) =
     (if c = s then [] # split_on s t
      else (case split_on s t of [] \<Rightarrow> [[c]] | w # ws \<Rightarrow> (c # w) # ws))"

fun split_ws_from :: "pytext \<Rightarrow> pytext \<Rightarrow> pytext list" where
  "split_ws_from [] cur = (if cur = [] then [] else [rev cur])"
| "split_ws_from (c # t) cur =
     (if is_space c then (if cur = [] then split_ws_from t [] else rev cur # split_ws_from t [])
      else split_ws_from t (c # cur))"

definition split_ws :: "pytext \<Rightarrow> pytext list" where
  \<comment> \<open>\<open>t.split()\<close>\<close>
  "split_ws t = split_ws_from t []"

fun join :: "pytext \<Rightarrow> pytext list \<Rightarrow> pytext" where
  "join sep [] = []"
| "join sep [w] = w"
| "join sep (w # v # ws) = w @ sep @ join sep (v # ws)"

lemma split_on_not_Nil [simp]: "split_on s t \<noteq> []"
  by (induction t) (auto split: list.splits)

lemma join_split_on: "join [s] (split_on s t) = t"
proof (induction t)
  case Nil
  then show ?case by simp
next
  case (Cons c t)
  obtain w ws where ws: "split_on s t = w # ws"
    by (metis neq_Nil_conv split_on_not_Nil)
  with Cons show ?case by (cases ws) auto
qed

lemma split_on_no_sep: "w \<in> set (split_on s t) \<Longrightarrow> s \<notin> set w"
proof (induction t arbitrary: w)
  case Nil
  then show ?case by simp
next
  case (Cons c t)
  obtain v vs where vs: "split_on s t = v # vs"
    by (metis neq_Nil_conv split_on_not_Nil)
  with Cons show ?case by (auto split: if_splits)
qed

lemma join_length_bound:
  "length (join sep ws) \<le> sum_list (map length ws) + length sep * (length ws - 1)"
  by (induction sep ws rule: join.induct) auto

subsection \<open>POSIX paths\<close>

text \<open>
  \<open>pathlib\<close> splits at slashes and drops empty components and single dots; a leading slash makes
  the path absolute. Double dots are kept as components.
\<close>

definition slash :: int where
  "slash = 47"

definition is_absolute :: "pytext \<Rightarrow> bool" where
  "is_absolute p \<longleftrightarrow> (case p of [] \<Rightarrow> False | c # _ \<Rightarrow> c = slash)"

definition path_parts :: "pytext \<Rightarrow> pytext list" where
  \<comment> \<open>\<open>Path(p).parts\<close> without the root component\<close>
  "path_parts p = filter (\<lambda>w. w \<noteq> [] \<and> w \<noteq> u ''.'') (split_on slash p)"

definition as_posix :: "pytext \<Rightarrow> pytext" where
  "as_posix p =
     (if is_absolute p then slash # join [slash] (path_parts p)
      else if path_parts p = [] then u ''.'' else join [slash] (path_parts p))"

definition path_name :: "pytext \<Rightarrow> pytext" where
  "path_name p = (case path_parts p of [] \<Rightarrow> [] | w # ws \<Rightarrow> last (w # ws))"

definition dotdot :: pytext where
  "dotdot = u ''..''"

definition dotgit :: pytext where
  "dotgit = u ''.git''"

definition path_suffix :: "pytext \<Rightarrow> pytext" where
  \<comment> \<open>\<open>Path(p).suffix\<close>: from the last dot of the name, unless it is the first or last character\<close>
  "path_suffix p =
     (let n = path_name p; tail = takeWhile (\<lambda>c. c \<noteq> 46) (rev n)
      in if length tail + 1 < length n \<and> tail \<noteq> [] then 46 # rev tail else [])"

text \<open>
  The lexical meaning of a list of components below a root: a double dot removes the component
  before it. A list without double dots only ever extends the root.
\<close>

fun resolve_from :: "pytext list \<Rightarrow> pytext list \<Rightarrow> pytext list" where
  \<comment> \<open>the directory stack, reversed, and the components still to walk\<close>
  "resolve_from st [] = rev st"
| "resolve_from st (w # ws) = (if w = dotdot then resolve_from (tl st) ws else resolve_from (w # st) ws)"

lemma resolve_from_append:
  "dotdot \<notin> set ws \<Longrightarrow> resolve_from st ws = rev st @ ws"
  by (induction ws arbitrary: st) auto

lemma path_parts_nonempty: "w \<in> set (path_parts p) \<Longrightarrow> w \<noteq> [] \<and> slash \<notin> set w"
  by (auto simp: path_parts_def dest: split_on_no_sep)

subsection \<open>UTF-8\<close>

definition valid_cp :: "int \<Rightarrow> bool" where
  "valid_cp c \<longleftrightarrow> 0 \<le> c \<and> c < 1114112 \<and> \<not> (55296 \<le> c \<and> c < 57344)"

definition enc :: "int \<Rightarrow> int list" where
  "enc c = (if c < 128 then [c]
     else if c < 2048 then [192 + c div 64, 128 + c mod 64]
     else if c < 65536 then [224 + c div 4096, 128 + c div 64 mod 64, 128 + c mod 64]
     else [240 + c div 262144, 128 + c div 4096 mod 64, 128 + c div 64 mod 64, 128 + c mod 64])"

definition utf8 :: "pytext \<Rightarrow> int list" where
  "utf8 t = concat (map enc t)"

definition cont :: "int \<Rightarrow> bool" where
  "cont b \<longleftrightarrow> 128 \<le> b \<and> b < 192"

fun decode_ignore :: "int list \<Rightarrow> pytext" where
  \<comment> \<open>\<open>bytes.decode("utf-8", errors="ignore")\<close>\<close>
  "decode_ignore [] = []"
| "decode_ignore (b # bs) =
    (if b < 128 then b # decode_ignore bs
     else if 194 \<le> b \<and> b < 224 then
       (case bs of c1 # r \<Rightarrow>
          if cont c1 then ((b - 192) * 64 + (c1 - 128)) # decode_ignore r else decode_ignore bs
        | [] \<Rightarrow> [])
     else if 224 \<le> b \<and> b < 240 then
       (case bs of c1 # c2 # r \<Rightarrow>
          if cont c1 \<and> cont c2 \<and> (b = 224 \<longrightarrow> 160 \<le> c1) \<and> (b = 237 \<longrightarrow> c1 < 160)
          then ((b - 224) * 4096 + (c1 - 128) * 64 + (c2 - 128)) # decode_ignore r
          else decode_ignore bs
        | _ \<Rightarrow> decode_ignore bs)
     else if 240 \<le> b \<and> b < 245 then
       (case bs of c1 # c2 # c3 # r \<Rightarrow>
          if cont c1 \<and> cont c2 \<and> cont c3 \<and> (b = 240 \<longrightarrow> 144 \<le> c1) \<and> (b = 244 \<longrightarrow> c1 < 144)
          then ((b - 240) * 262144 + (c1 - 128) * 4096 + (c2 - 128) * 64 + (c3 - 128))
               # decode_ignore r
          else decode_ignore bs
        | _ \<Rightarrow> decode_ignore bs)
     else decode_ignore bs)"

lemma utf8_Nil [simp]: "utf8 [] = []"
  by (simp add: utf8_def)

lemma utf8_Cons [simp]: "utf8 (c # t) = enc c @ utf8 t"
  by (simp add: utf8_def)

lemma utf8_append [simp]: "utf8 (s @ t) = utf8 s @ utf8 t"
  by (simp add: utf8_def)

lemma length_enc_pos: "0 < length (enc c)"
  by (simp add: enc_def)

lemma length_utf8_ge: "length t \<le> length (utf8 t)"
proof (induction t)
  case (Cons c t)
  have "0 < length (enc c)" by (rule length_enc_pos)
  with Cons show ?case unfolding utf8_Cons length_append list.size by linarith
qed simp

lemma cont_mod [simp]: "cont (128 + c mod 64)"
  by (simp add: cont_def)

text \<open>One multi-byte sequence is decoded in one step; a stray continuation byte is dropped.\<close>

lemma decode_step1: "b < 128 \<Longrightarrow> decode_ignore (b # bs) = b # decode_ignore bs"
  by simp

lemma decode_step2:
  "194 \<le> b \<Longrightarrow> b < 224 \<Longrightarrow> cont c1 \<Longrightarrow>
   decode_ignore (b # c1 # r) = ((b - 192) * 64 + (c1 - 128)) # decode_ignore r"
  by simp

lemma decode_step3:
  "224 \<le> b \<Longrightarrow> b < 240 \<Longrightarrow> cont c1 \<Longrightarrow> cont c2 \<Longrightarrow> (b = 224 \<Longrightarrow> 160 \<le> c1) \<Longrightarrow> (b = 237 \<Longrightarrow> c1 < 160) \<Longrightarrow>
   decode_ignore (b # c1 # c2 # r) =
     ((b - 224) * 4096 + (c1 - 128) * 64 + (c2 - 128)) # decode_ignore r"
  by (subst decode_ignore.simps) simp

lemma decode_step4:
  "240 \<le> b \<Longrightarrow> b < 245 \<Longrightarrow> cont c1 \<Longrightarrow> cont c2 \<Longrightarrow> cont c3 \<Longrightarrow> (b = 240 \<Longrightarrow> 144 \<le> c1) \<Longrightarrow>
   (b = 244 \<Longrightarrow> c1 < 144) \<Longrightarrow>
   decode_ignore (b # c1 # c2 # c3 # r) =
     ((b - 240) * 262144 + (c1 - 128) * 4096 + (c2 - 128) * 64 + (c3 - 128)) # decode_ignore r"
  by (subst decode_ignore.simps) simp

lemma decode_skip: "cont c \<Longrightarrow> decode_ignore (c # bs) = decode_ignore bs"
  by (subst decode_ignore.simps) (simp add: cont_def)

lemma decode_lead: "194 \<le> b \<Longrightarrow> decode_ignore [b] = []"
  by simp

lemma decode_lead2: "224 \<le> b \<Longrightarrow> cont c1 \<Longrightarrow> decode_ignore [b, c1] = []"
  by (subst decode_ignore.simps) (simp add: decode_skip del: decode_ignore.simps(2))

lemma decode_lead3: "240 \<le> b \<Longrightarrow> cont c1 \<Longrightarrow> cont c2 \<Longrightarrow> decode_ignore [b, c1, c2] = []"
  by (subst decode_ignore.simps) (simp add: decode_skip del: decode_ignore.simps(2))

lemma digits64:
  fixes c :: int
  shows "c div 64 * 64 + c mod 64 = c"
    and "c div 4096 * 4096 + c div 64 mod 64 * 64 + c mod 64 = c"
    and "c div 262144 * 262144 + c div 4096 mod 64 * 4096 + c div 64 mod 64 * 64 + c mod 64 = c"
proof -
  show 1: "c div 64 * 64 + c mod 64 = c" by simp
  have 2: "c div 4096 * 64 + c div 64 mod 64 = c div 64"
    using div_mult_mod_eq [of "c div 64" 64] by (simp add: zdiv_zmult2_eq [symmetric])
  have 3: "c div 262144 * 64 + c div 4096 mod 64 = c div 4096"
    using div_mult_mod_eq [of "c div 4096" 64] by (simp add: zdiv_zmult2_eq [symmetric])
  show "c div 4096 * 4096 + c div 64 mod 64 * 64 + c mod 64 = c" using 1 2 by linarith
  show "c div 262144 * 262144 + c div 4096 mod 64 * 4096 + c div 64 mod 64 * 64 + c mod 64 = c"
    using 1 2 3 by linarith
qed

lemma decode_enc:
  assumes "valid_cp c"
  shows "decode_ignore (enc c @ bs) = c # decode_ignore bs"
proof -
  have v: "0 \<le> c" "c < 1114112" "c < 55296 \<or> 57344 \<le> c" using assms by (auto simp: valid_cp_def)
  consider "c < 128" | "128 \<le> c" "c < 2048" | "2048 \<le> c" "c < 65536" | "65536 \<le> c" by linarith
  then show ?thesis
  proof cases
    case 1
    then show ?thesis by (simp add: enc_def)
  next
    case 2
    have "decode_ignore ((192 + c div 64) # (128 + c mod 64) # bs) = c # decode_ignore bs"
      using 2 by (subst decode_step2) auto
    with 2 show ?thesis by (simp add: enc_def del: decode_ignore.simps(2))
  next
    case 3
    have lo: "224 + c div 4096 = 224 \<Longrightarrow> 160 \<le> 128 + c div 64 mod 64"
      using 3 digits64(2) [of c] pos_mod_bound [of 64 c] by linarith
    have hi: "224 + c div 4096 = 237 \<Longrightarrow> 128 + c div 64 mod 64 < 160"
      using v digits64(2) [of c] pos_mod_sign [of 64 c] pos_mod_bound [of 64 c]
        pos_mod_sign [of 64 "c div 64"] pos_mod_bound [of 64 "c div 64"] by linarith
    have "decode_ignore ((224 + c div 4096) # (128 + c div 64 mod 64) # (128 + c mod 64) # bs)
        = c # decode_ignore bs"
      using 3 lo hi digits64(2) [of c] by (subst decode_step3) auto
    with 3 show ?thesis by (simp add: enc_def del: decode_ignore.simps(2))
  next
    case 4
    have lo: "240 + c div 262144 = 240 \<Longrightarrow> 144 \<le> 128 + c div 4096 mod 64"
      using 4 digits64(3) [of c] pos_mod_bound [of 64 c] pos_mod_bound [of 64 "c div 64"]
      by linarith
    have hi: "240 + c div 262144 = 244 \<Longrightarrow> 128 + c div 4096 mod 64 < 144"
      using v digits64(3) [of c] pos_mod_sign [of 64 c] pos_mod_sign [of 64 "c div 64"] by linarith
    have "240 + c div 262144 < 245" "240 \<le> 240 + c div 262144" using 4 v by linarith+
    then have "decode_ignore ((240 + c div 262144) # (128 + c div 4096 mod 64)
          # (128 + c div 64 mod 64) # (128 + c mod 64) # bs)
        = ((240 + c div 262144 - 240) * 262144 + (128 + c div 4096 mod 64 - 128) * 4096
           + (128 + c div 64 mod 64 - 128) * 64 + (128 + c mod 64 - 128)) # decode_ignore bs"
      using lo hi by (intro decode_step4 cont_mod)
    moreover have "(240 + c div 262144 - 240) * 262144 + (128 + c div 4096 mod 64 - 128) * 4096
           + (128 + c div 64 mod 64 - 128) * 64 + (128 + c mod 64 - 128) = c"
      using digits64(3) [of c] by (simp only: add_diff_cancel_left')
    ultimately have "decode_ignore ((240 + c div 262144) # (128 + c div 4096 mod 64)
          # (128 + c div 64 mod 64) # (128 + c mod 64) # bs) = c # decode_ignore bs"
      by (simp only:)
    with 4 show ?thesis by (simp add: enc_def del: decode_ignore.simps(2))
  qed
qed

lemma decode_incomplete:
  assumes "valid_cp c" and "n < length (enc c)"
  shows "decode_ignore (take n (enc c)) = []"
proof (cases "n = 0")
  case False
  note len = assms(2)
  consider "c < 128" | "128 \<le> c" "c < 2048" | "2048 \<le> c" "c < 65536" | "65536 \<le> c" by linarith
  then show ?thesis
  proof cases
    case 1
    with False len show ?thesis by (simp add: enc_def)
  next
    case 2
    then have "n = 1" using False len by (simp add: enc_def)
    with 2 show ?thesis by (simp add: enc_def)
  next
    case 3
    then have "n = 1 \<or> n = 2" using False len by (auto simp: enc_def)
    moreover have "224 \<le> 224 + c div 4096" using 3 by simp
    ultimately show ?thesis using 3
      by (auto simp: enc_def numeral_2_eq_2 decode_lead decode_lead2 simp del: decode_ignore.simps(2))
  next
    case 4
    then have "n = 1 \<or> n = 2 \<or> n = 3" using False len by (auto simp: enc_def)
    moreover have "240 \<le> 240 + c div 262144" using 4 by simp
    ultimately show ?thesis using 4
      by (auto simp: enc_def numeral_2_eq_2 numeral_3_eq_3 decode_lead decode_lead2 decode_lead3
          simp del: decode_ignore.simps(2))
  qed
qed simp

lemma decode_utf8: "list_all valid_cp t \<Longrightarrow> decode_ignore (utf8 t) = t"
  by (induction t) (auto simp: decode_enc simp del: decode_ignore.simps(2))

text \<open>
  Cutting an encoded text at a byte count and decoding it gives the longest prefix of the text
  whose encoding fits.
\<close>

lemma decode_take_utf8:
  assumes "list_all valid_cp t"
  shows "\<exists>k. decode_ignore (take n (utf8 t)) = take k t \<and> length (utf8 (take k t)) \<le> n"
  using assms
proof (induction t arbitrary: n)
  case Nil
  then show ?case by simp
next
  case (Cons c t)
  then have v: "valid_cp c" and t: "list_all valid_cp t" by auto
  show ?case
  proof (cases "length (enc c) \<le> n")
    case True
    obtain k where k: "decode_ignore (take (n - length (enc c)) (utf8 t)) = take k t"
      "length (utf8 (take k t)) \<le> n - length (enc c)"
      using Cons.IH [OF t] by blast
    have "decode_ignore (take n (utf8 (c # t))) = take (Suc k) (c # t)"
      using True k(1) decode_enc [OF v] by simp
    moreover have "length (utf8 (take (Suc k) (c # t))) \<le> n" using True k(2) by simp
    ultimately show ?thesis by blast
  next
    case False
    then have "decode_ignore (take n (utf8 (c # t))) = take 0 (c # t)"
      using decode_incomplete [OF v, of n] by simp
    then show ?thesis by (metis le0 list.size(3) take0 utf8_Nil)
  qed
qed

end
