(* ===== verification/Path_Guard.thy ===== *)
theory Path_Guard
  imports Py_Text
begin

text \<open>
  The interface of the path checks. Several components take a path from a model, a client or an
  archive and must not leave a directory; each has its own check, and all of them promise the same:
  an accepted path is the root extended by components that are neither empty nor a double dot. What
  follows from the promise is proved once here.
\<close>

type_synonym path = "pytext list"  \<comment> \<open>the components of an absolute path\<close>

definition path_text :: "path \<Rightarrow> pytext" where
  \<comment> \<open>\<open>str(path)\<close>\<close>
  "path_text p = slash # join [slash] p"

definition join_path :: "path \<Rightarrow> pytext \<Rightarrow> path" where
  \<comment> \<open>\<open>base / relative\<close>: an absolute path on the right takes over\<close>
  "join_path base relative = (if is_absolute relative then path_parts relative else base @ path_parts relative)"

definition relative_to :: "path \<Rightarrow> path \<Rightarrow> bool" where
  \<comment> \<open>\<open>p.is_relative_to(base)\<close>\<close>
  "relative_to base p \<longleftrightarrow> take (length base) p = base"

definition safe_component :: "pytext \<Rightarrow> bool" where
  "safe_component w \<longleftrightarrow> w \<noteq> [] \<and> w \<noteq> dotdot \<and> slash \<notin> set w"

locale path_guard =
  fixes root :: "'a \<Rightarrow> pytext list"
    and check :: "'a \<Rightarrow> pytext list result"
  assumes accepted: "check x = Inr p \<Longrightarrow> \<exists>ws. p = root x @ ws \<and> list_all safe_component ws"
    and root_safe: "check x = Inr p \<Longrightarrow> list_all safe_component (root x)"
begin

lemma accepted_components:
  assumes "check x = Inr p"
  shows "list_all safe_component p"
  using accepted [OF assms] root_safe [OF assms] by auto

lemma resolves_to_itself:
  assumes "check x = Inr p"
  shows "resolve_from [] p = p"
proof -
  have "dotdot \<notin> set p" using accepted_components [OF assms] by (auto simp: list_all_iff safe_component_def)
  then show ?thesis by (simp add: resolve_from_append)
qed

lemma confined:
  assumes "check x = Inr p"
  shows "take (length (root x)) (resolve_from [] p) = root x"
  unfolding resolves_to_itself [OF assms] using accepted [OF assms] by auto

lemma distinct_roots:
  \<comment> \<open>paths accepted under roots of the same depth stay apart\<close>
  assumes "check x = Inr p" "check y = Inr q" "root x \<noteq> root y" "length (root x) = length (root y)"
  shows "p \<noteq> q"
  using confined [OF assms(1)] confined [OF assms(2)] assms(3,4) by auto

end

lemma path_parts_safe:
  "dotdot \<notin> set (path_parts p) \<Longrightarrow> list_all safe_component (path_parts p)"
  using path_parts_nonempty [of _ p] by (auto simp: list_all_iff safe_component_def)

end
