(* ===== verification/Py_Regex.thy ===== *)
theory Py_Regex
  imports Py_Text
begin

text \<open>
  The part of Python's \<open>re\<close> module that the modelled code uses: a backtracking matcher that
  lists the ways a pattern can match at a position in the order Python tries them (so the first is
  the match Python reports), and \<open>search\<close>, \<open>fullmatch\<close> and \<open>sub\<close> on top of it. A position is
  the text before it (reversed), the text after it, and the groups captured so far.
\<close>

subsection \<open>Character classes\<close>

definition is_digit :: "int \<Rightarrow> bool" where
  "is_digit c \<longleftrightarrow> 48 \<le> c \<and> c \<le> 57"

definition is_upper :: "int \<Rightarrow> bool" where
  "is_upper c \<longleftrightarrow> 65 \<le> c \<and> c \<le> 90"

definition is_lower :: "int \<Rightarrow> bool" where
  "is_lower c \<longleftrightarrow> 97 \<le> c \<and> c \<le> 122"

definition is_alnum :: "int \<Rightarrow> bool" where
  "is_alnum c \<longleftrightarrow> is_digit c \<or> is_upper c \<or> is_lower c"

definition is_word :: "int \<Rightarrow> bool" where
  \<comment> \<open>\<open>\w\<close>: exact on ASCII and Latin-1; above it the alphabetic blocks (Latin, Greek, Cyrillic,
      kana, the Han ideographs, Hangul) are taken as a whole\<close>
  "is_word c \<longleftrightarrow> is_alnum c \<or> c = 95 \<or> c \<in> {170, 178, 179, 181, 185, 186, 188, 189, 190}
     \<or> (192 \<le> c \<and> c \<le> 687 \<and> c \<noteq> 215 \<and> c \<noteq> 247) \<or> (880 \<le> c \<and> c \<le> 1153) \<or> (1162 \<le> c \<and> c \<le> 1327)
     \<or> (12353 \<le> c \<and> c \<le> 12543) \<or> (13312 \<le> c \<and> c \<le> 40959) \<or> (44032 \<le> c \<and> c \<le> 55203)"

definition ci :: "int \<Rightarrow> int \<Rightarrow> bool" where
  \<comment> \<open>a lower-case ASCII letter under \<open>(?i)\<close>, with the non-ASCII letters that fold to it\<close>
  "ci l c \<longleftrightarrow> lower_char c = l \<or> (l = 107 \<and> c = 8490) \<or> (l = 115 \<and> c = 383)
     \<or> (l = 105 \<and> (c = 304 \<or> c = 305))"

subsection \<open>Patterns and matching\<close>

datatype re =
    REps
  | RChar "int \<Rightarrow> bool"
  | RSeq re re
  | RAlt re re
  | RStar bool re  \<comment> \<open>greedy when the flag is set, lazy otherwise\<close>
  | RBound         \<comment> \<open>\<open>\b\<close>\<close>
  | RGroup nat re

type_synonym mstate = "pytext \<times> pytext \<times> (nat \<times> pytext) list"

definition bef :: "mstate \<Rightarrow> pytext" where
  "bef s = fst s"

definition aft :: "mstate \<Rightarrow> pytext" where
  "aft s = fst (snd s)"

definition at_bound :: "pytext \<Rightarrow> pytext \<Rightarrow> bool" where
  "at_bound b a \<longleftrightarrow>
     (case b of [] \<Rightarrow> False | c # _ \<Rightarrow> is_word c) \<noteq> (case a of [] \<Rightarrow> False | c # _ \<Rightarrow> is_word c)"

function mstar :: "bool \<Rightarrow> (mstate \<Rightarrow> mstate list) \<Rightarrow> mstate \<Rightarrow> mstate list" where
  "mstar g f s =
     (let more = concat (map (mstar g f) (filter (\<lambda>s'. length (aft s') < length (aft s)) (f s)))
      in if g then more @ [s] else s # more)"
  by pat_completeness auto
termination by (relation "measure (\<lambda>(g, f, s). length (aft s))") auto

declare mstar.simps [simp del]

primrec matches :: "re \<Rightarrow> mstate \<Rightarrow> mstate list" where
  "matches REps s = [s]"
| "matches (RChar p) s =
     (case s of (b, a, caps) \<Rightarrow>
        (case a of [] \<Rightarrow> [] | c # t \<Rightarrow> if p c then [(c # b, t, caps)] else []))"
| "matches (RSeq r1 r2) s = concat (map (matches r2) (matches r1 s))"
| "matches (RAlt r1 r2) s = matches r1 s @ matches r2 s"
| "matches (RStar g r) s = mstar g (matches r) s"
| "matches RBound s = (if at_bound (bef s) (aft s) then [s] else [])"
| "matches (RGroup i r) s =
     map (\<lambda>(b, a, caps). (b, a, (i, rev (take (length b - length (bef s)) b)) # caps)) (matches r s)"

definition match_at :: "re \<Rightarrow> pytext \<Rightarrow> pytext \<Rightarrow> mstate option" where
  \<comment> \<open>\<open>pattern.match\<close> at the position between the two texts\<close>
  "match_at r b a = (case matches r (b, a, []) of [] \<Rightarrow> None | s # _ \<Rightarrow> Some s)"

definition group :: "nat \<Rightarrow> mstate \<Rightarrow> pytext" where
  "group i s = (case map_of (snd (snd s)) i of None \<Rightarrow> [] | Some t \<Rightarrow> t)"

fun search_from :: "re \<Rightarrow> pytext \<Rightarrow> pytext \<Rightarrow> mstate option" where
  "search_from r b [] = match_at r b []"
| "search_from r b (c # t) =
     (case match_at r b (c # t) of Some s \<Rightarrow> Some s | None \<Rightarrow> search_from r (c # b) t)"

definition search :: "re \<Rightarrow> pytext \<Rightarrow> mstate option" where
  "search r t = search_from r [] t"

definition fullmatch :: "re \<Rightarrow> pytext \<Rightarrow> mstate option" where
  "fullmatch r t = first_such (\<lambda>s. aft s = []) (matches r ([], t, []))"

subsection \<open>Substitution\<close>

text \<open>
  \<open>pattern.sub\<close> scans from the left and replaces each leftmost match; the patterns of the code
  match no empty text, and an empty match would be skipped here. \<open>sub_cuts\<close> is the same scan
  with its decisions kept: a character copied, or a stretch replaced.
\<close>

datatype piece = Kept int | Cut pytext mstate

function pieces :: "re \<Rightarrow> pytext \<Rightarrow> pytext \<Rightarrow> piece list" where
  "pieces r b [] = []"
| "pieces r b (c # t) =
     (case match_at r b (c # t) of
        None \<Rightarrow> Kept c # pieces r (c # b) t
      | Some s \<Rightarrow>
          if length (aft s) < length (c # t)
          then Cut (take (length (c # t) - length (aft s)) (c # t)) s # pieces r (bef s) (aft s)
          else Kept c # pieces r (c # b) t)"
  by pat_completeness auto
termination by (relation "measure (\<lambda>(r, b, a). length a)") auto

definition sub :: "re \<Rightarrow> (mstate \<Rightarrow> pytext) \<Rightarrow> pytext \<Rightarrow> pytext" where
  "sub r repl t = concat (map (\<lambda>p. case p of Kept c \<Rightarrow> [c] | Cut w s \<Rightarrow> repl s) (pieces r [] t))"

subsection \<open>Pattern building\<close>

definition lit :: "pytext \<Rightarrow> re" where
  "lit t = foldr (\<lambda>c r. RSeq (RChar (\<lambda>x. x = c)) r) t REps"

definition lit_ci :: "pytext \<Rightarrow> re" where
  "lit_ci t = foldr (\<lambda>c r. RSeq (RChar (ci c)) r) t REps"

primrec rep :: "nat \<Rightarrow> re \<Rightarrow> re" where
  "rep 0 r = REps"
| "rep (Suc n) r = RSeq r (rep n r)"

definition star :: "(int \<Rightarrow> bool) \<Rightarrow> re" where
  "star p = RStar True (RChar p)"

definition at_least :: "nat \<Rightarrow> (int \<Rightarrow> bool) \<Rightarrow> re" where
  "at_least n p = RSeq (rep n (RChar p)) (star p)"

definition opt :: "re \<Rightarrow> re" where
  "opt r = RAlt r REps"

primrec seqs :: "re list \<Rightarrow> re" where
  "seqs [] = REps"
| "seqs (r # rs) = RSeq r (seqs rs)"

primrec alts :: "re \<Rightarrow> re list \<Rightarrow> re" where
  "alts r [] = r"
| "alts r (q # qs) = RAlt r (alts q qs)"

subsection \<open>A match consumes a stretch of the text\<close>

definition extends :: "mstate \<Rightarrow> mstate \<Rightarrow> bool" where
  "extends s s' \<longleftrightarrow> (\<exists>w. aft s = w @ aft s' \<and> bef s' = rev w @ bef s)"

lemma extends_refl: "extends s s"
  by (simp add: extends_def)

lemma extends_trans: "extends s s' \<Longrightarrow> extends s' s'' \<Longrightarrow> extends s s''"
  unfolding extends_def by (metis append.assoc rev_append)

lemma mstar_extends:
  assumes "\<And>x y. y \<in> set (f x) \<Longrightarrow> extends x y" and "s' \<in> set (mstar g f s)"
  shows "extends s s'"
  using assms
proof (induction g f s arbitrary: s' rule: mstar.induct)
  case (1 g f s)
  from 1(3) consider "s' = s" | y where "y \<in> set (f s)" "length (aft y) < length (aft s)"
    "s' \<in> set (mstar g f y)"
    by (subst (asm) mstar.simps) (auto simp: Let_def split: if_splits)
  then show ?case
  proof cases
    case 1
    then show ?thesis by (simp add: extends_refl)
  next
    case 2
    then have "extends y s'" using "1.IH" "1.prems"(1) by auto
    with 2 "1.prems"(1) show ?thesis using extends_trans by blast
  qed
qed

lemma matches_extends: "s' \<in> set (matches r s) \<Longrightarrow> extends s s'"
proof (induction r arbitrary: s s')
  case (RChar p)
  then show ?case
    by (auto simp: extends_def aft_def bef_def split: prod.splits list.splits if_splits)
next
  case (RSeq r1 r2)
  then obtain y where "y \<in> set (matches r1 s)" "s' \<in> set (matches r2 y)" by auto
  with RSeq.IH show ?case using extends_trans by blast
next
  case (RStar g r)
  then show ?case using mstar_extends [of "matches r" s' g s] by auto
next
  case (RGroup i r)
  then obtain b a caps where *: "(b, a, caps) \<in> set (matches r s)" and
    "s' = (b, a, (i, rev (take (length b - length (bef s)) b)) # caps)" by auto
  with RGroup.IH [OF *] show ?case by (simp add: extends_def aft_def bef_def)
qed (auto simp: extends_refl split: if_splits)

lemma match_at_extends: "match_at r b a = Some s \<Longrightarrow> extends (b, a, []) s"
proof -
  assume "match_at r b a = Some s"
  then have "s \<in> set (matches r (b, a, []))"
    unfolding match_at_def by (cases "matches r (b, a, [])") auto
  then show ?thesis by (rule matches_extends)
qed

lemma match_at_split:
  assumes "match_at r b a = Some s"
  shows "take (length a - length (aft s)) a @ aft s = a"
    and "bef s = rev (take (length a - length (aft s)) a) @ b"
proof -
  obtain w where "a = w @ aft s" "bef s = rev w @ b"
    using match_at_extends [OF assms] by (auto simp: extends_def aft_def bef_def)
  then show "take (length a - length (aft s)) a @ aft s = a"
    and "bef s = rev (take (length a - length (aft s)) a) @ b"
    by (metis add_diff_cancel_right' append_eq_conv_conj length_append)+
qed

subsection \<open>The scan covers the text, and every place where the pattern matches\<close>

primrec source :: "piece \<Rightarrow> pytext" where
  "source (Kept c) = [c]"
| "source (Cut w s) = w"

lemma pieces_source: "concat (map source (pieces r b a)) = a"
proof (induction r b a rule: pieces.induct)
  case (2 r b c t)
  then show ?case
    using match_at_split(1) [of r b "c # t"] by (auto split: option.splits)
qed simp

text \<open>
  A kept character is one at which the pattern does not match in its context, so whatever the scan
  copies starts no match.
\<close>

lemma kept_no_match:
  assumes "pieces r b a = ps @ Kept c # qs"
    and nonempty: "\<And>b a s. match_at r b a = Some s \<Longrightarrow> length (aft s) < length a"
  shows "match_at r (rev (concat (map source ps)) @ b) (c # concat (map source qs)) = None"
  using assms
proof (induction r b a arbitrary: ps rule: pieces.induct)
  case (1 r b)
  then show ?case by simp
next
  case (2 r b d t)
  show ?case
  proof (cases "match_at r b (d # t)")
    case None
    with "2.prems"(1) have eq: "Kept d # pieces r (d # b) t = ps @ Kept c # qs" by simp
    show ?thesis
    proof (cases ps)
      case Nil
      with eq have "c = d" "qs = pieces r (d # b) t" by auto
      with None Nil show ?thesis by (simp add: pieces_source)
    next
      case (Cons p ps')
      with eq have "p = Kept d" "pieces r (d # b) t = ps' @ Kept c # qs" by auto
      with "2.IH"(1) [OF None _ "2.prems"(2)] Cons show ?thesis by simp
    qed
  next
    case (Some s)
    have lt: "length (aft s) < length (d # t)" using "2.prems"(2) Some by blast
    with "2.prems"(1) Some have eq: "Cut (take (length (d # t) - length (aft s)) (d # t)) s
        # pieces r (bef s) (aft s) = ps @ Kept c # qs" by simp
    then obtain ps' where ps: "ps = Cut (take (length (d # t) - length (aft s)) (d # t)) s # ps'"
      and rest: "pieces r (bef s) (aft s) = ps' @ Kept c # qs"
      by (cases ps) auto
    have "match_at r (rev (concat (map source ps')) @ bef s) (c # concat (map source qs)) = None"
      using "2.IH"(2) [OF Some lt rest "2.prems"(2)] by simp
    with ps match_at_split(2) [OF Some] show ?thesis by simp
  qed
qed

lemma pieces_no_match:
  "(\<And>i. i < length a \<Longrightarrow> match_at r (rev (take i a) @ b) (drop i a) = None) \<Longrightarrow>
   pieces r b a = map Kept a"
proof (induction a arbitrary: b)
  case (Cons c t)
  have "match_at r b (c # t) = None" using Cons.prems [of 0] by simp
  moreover have "pieces r (c # b) t = map Kept t"
    using Cons.prems [of "Suc _"] by (intro Cons.IH) force
  ultimately show ?case by simp
qed simp

lemma sub_no_match:
  assumes "\<And>i. i < length t \<Longrightarrow> match_at r (rev (take i t)) (drop i t) = None"
  shows "sub r repl t = t"
proof -
  have "concat (map (\<lambda>p. case p of Kept c \<Rightarrow> [c] | Cut w s \<Rightarrow> repl s) (map Kept xs)) = xs" for xs
    by (induction xs) auto
  then show ?thesis unfolding sub_def using pieces_no_match [of t r "[]"] assms by simp
qed

text \<open>A pattern that starts with a character of a class matches only where such a character is.\<close>

lemma match_at_RChar_first:
  "match_at (RSeq (RChar p) r) b a = Some s \<Longrightarrow> \<exists>c t. a = c # t \<and> p c"
  by (auto simp: match_at_def split: list.splits if_splits)

lemma match_at_bound_first:
  "match_at (RSeq RBound (RSeq (RChar p) r)) b a = Some s \<Longrightarrow> \<exists>c t. a = c # t \<and> p c"
  by (auto simp: match_at_def bef_def aft_def split: list.splits if_splits)

end
