(* ===== verification/Json.thy ===== *)
theory Json
  imports Py_Text
begin

text \<open>
  JSON values as Python's \<open>json\<close> module reads and writes them: objects keep insertion order,
  equality of objects ignores it, and \<open>dumps\<close> with \<open>sort_keys\<close> writes a canonical text. The last
  section proves that two well-formed values with the same canonical text are the same value up to
  key order, which is what a fingerprint of a canonical text rests on.
\<close>

subsection \<open>Values\<close>

datatype json =
    JNull
  | JBool bool
  | JInt int
  | JFloat pytext  \<comment> \<open>a float, by the digits Python prints for it\<close>
  | JStr pytext
  | JList "json list"
  | JObj "(pytext \<times> json) list"

lemma size_json_obj [termination_simp]:
  "kv \<in> set kvs \<Longrightarrow> size (snd kv) < Suc (size_list (size_prod (\<lambda>_. 0) size) kvs)"
proof (induction kvs)
  case (Cons p kvs)
  then show ?case by (cases p) auto
qed simp

fun norm :: "json \<Rightarrow> json" where
  \<comment> \<open>the form in which Python's \<open>==\<close> is equality: key order forgotten, \<open>True == 1\<close>\<close>
  "norm (JBool b) = JInt (if b then 1 else 0)"
| "norm (JList xs) = JList (map norm xs)"
| "norm (JObj kvs) = JObj (sort_key fst (map (\<lambda>kv. (fst kv, norm (snd kv))) kvs))"
| "norm v = v"

definition py_eq :: "json \<Rightarrow> json \<Rightarrow> bool" where
  "py_eq v w \<longleftrightarrow> norm v = norm w"

lemma py_eq_refl [simp]: "py_eq v v"
  by (simp add: py_eq_def)

lemma py_eq_sym: "py_eq v w \<Longrightarrow> py_eq w v"
  by (simp add: py_eq_def)

lemma py_eq_trans: "py_eq v w \<Longrightarrow> py_eq w x \<Longrightarrow> py_eq v x"
  by (simp add: py_eq_def)

fun truthy :: "json \<Rightarrow> bool" where
  \<comment> \<open>\<open>bool(v)\<close>\<close>
  "truthy JNull = False"
| "truthy (JBool b) = b"
| "truthy (JInt i) = (i \<noteq> 0)"
| "truthy (JFloat t) = (t \<noteq> u ''0.0'' \<and> t \<noteq> u ''-0.0'')"
| "truthy (JStr t) = (t \<noteq> [])"
| "truthy (JList xs) = (xs \<noteq> [])"
| "truthy (JObj kvs) = (kvs \<noteq> [])"

fun is_obj :: "json \<Rightarrow> bool" where
  "is_obj (JObj _) = True"
| "is_obj _ = False"

fun entries :: "json \<Rightarrow> (pytext \<times> json) list" where
  "entries (JObj kvs) = kvs"
| "entries _ = []"

fun items :: "json \<Rightarrow> json list" where
  "items (JList xs) = xs"
| "items _ = []"

definition field :: "string \<Rightarrow> json \<Rightarrow> json" where
  \<comment> \<open>\<open>v.get(k)\<close>\<close>
  "field k v = (case dget (entries v) (u k) of None \<Rightarrow> JNull | Some w \<Rightarrow> w)"

definition with_field :: "string \<Rightarrow> json \<Rightarrow> json \<Rightarrow> json" where
  \<comment> \<open>\<open>v[k] = w\<close>\<close>
  "with_field k w v = JObj (dput (u k) w (entries v))"

lemma field_with_field [simp]:
  "field k (with_field k' w v) = (if k = k' then w else field k v)"
  by (simp add: field_def with_field_def update_conv')

subsection \<open>Printing\<close>

fun nat_repr :: "nat \<Rightarrow> pytext" where
  "nat_repr n = (if n < 10 then [48 + int n] else nat_repr (n div 10) @ [48 + int (n mod 10)])"

declare nat_repr.simps [simp del]

definition int_repr :: "int \<Rightarrow> pytext" where
  "int_repr i = (if i < 0 then 45 # nat_repr (nat (- i)) else nat_repr (nat i))"

definition hex_digit :: "int \<Rightarrow> int" where
  "hex_digit d = (if d < 10 then 48 + d else 87 + d)"

definition esc_char :: "int \<Rightarrow> pytext" where
  "esc_char c = (if c = 34 then [92, 34] else if c = 92 then [92, 92]
     else if c = 10 then [92, 110] else if c = 13 then [92, 114] else if c = 9 then [92, 116]
     else if c = 8 then [92, 98] else if c = 12 then [92, 102]
     else if c < 32 then [92, 117, 48, 48, hex_digit (c div 16), hex_digit (c mod 16)] else [c])"

definition quote :: "pytext \<Rightarrow> pytext" where
  "quote t = 34 # concat (map esc_char t) @ [34]"

fun dumps :: "pytext \<Rightarrow> pytext \<Rightarrow> json \<Rightarrow> pytext" where
  \<comment> \<open>\<open>json.dumps(v, ensure_ascii=False, separators=(item, key))\<close>\<close>
  "dumps si sk JNull = u ''null''"
| "dumps si sk (JBool b) = (if b then u ''true'' else u ''false'')"
| "dumps si sk (JInt i) = int_repr i"
| "dumps si sk (JFloat t) = t"
| "dumps si sk (JStr t) = quote t"
| "dumps si sk (JList xs) = 91 # join si (map (dumps si sk) xs) @ [93]"
| "dumps si sk (JObj kvs) =
     123 # join si (map (\<lambda>kv. quote (fst kv) @ sk @ dumps si sk (snd kv)) kvs) @ [125]"

fun sort_keys :: "json \<Rightarrow> json" where
  "sort_keys (JList xs) = JList (map sort_keys xs)"
| "sort_keys (JObj kvs) = JObj (sort_key fst (map (\<lambda>kv. (fst kv, sort_keys (snd kv))) kvs))"
| "sort_keys v = v"

definition canonical :: "json \<Rightarrow> pytext" where
  \<comment> \<open>\<open>json.dumps(v, ensure_ascii=False, sort_keys=True, separators=(",", ":"))\<close>\<close>
  "canonical v = dumps [44] [58] (sort_keys v)"

definition dumps_default :: "json \<Rightarrow> pytext" where
  "dumps_default v = dumps (u '', '') (u '': '') v"

subsection \<open>Well-formed values\<close>

definition num_char :: "int \<Rightarrow> bool" where
  "num_char c \<longleftrightarrow> (48 \<le> c \<and> c \<le> 57) \<or> c = 45 \<or> c = 43 \<or> c = 46 \<or> c = 101"

fun wf_json :: "json \<Rightarrow> bool" where
  \<comment> \<open>strings of code points; finite floats, printed with a point or an exponent\<close>
  "wf_json (JFloat t) \<longleftrightarrow> list_all num_char t \<and> (46 \<in> set t \<or> 101 \<in> set t)"
| "wf_json (JStr t) \<longleftrightarrow> list_all (\<lambda>c. 0 \<le> c) t"
| "wf_json (JList xs) \<longleftrightarrow> list_all wf_json xs"
| "wf_json (JObj kvs) \<longleftrightarrow>
     list_all (\<lambda>kv. list_all (\<lambda>c. 0 \<le> c) (fst kv) \<and> wf_json (snd kv)) kvs"
| "wf_json v \<longleftrightarrow> True"

lemma wf_sort_keys: "wf_json v \<Longrightarrow> wf_json (sort_keys v)"
  by (induction v rule: sort_keys.induct) (auto simp: list_all_iff)

subsection \<open>Numbers and strings can be read back\<close>

definition digits_val :: "pytext \<Rightarrow> nat" where
  "digits_val t = foldl (\<lambda>a c. 10 * a + nat (c - 48)) 0 t"

lemma digits_nat_repr: "digits_val (nat_repr n) = n"
proof (induction n rule: nat_repr.induct)
  case (1 n)
  show ?case
  proof (cases "n < 10")
    case True
    then show ?thesis by (subst nat_repr.simps) (simp add: digits_val_def)
  next
    case False
    have "digits_val (nat_repr n) = 10 * digits_val (nat_repr (n div 10)) + nat (int (n mod 10))"
      using False by (subst nat_repr.simps) (simp add: digits_val_def)
    with 1 [OF False] show ?thesis by simp
  qed
qed

lemma nat_repr_digits: "list_all (\<lambda>c. 48 \<le> c \<and> c \<le> 57) (nat_repr n)"
proof (induction n rule: nat_repr.induct)
  case (1 n)
  then show ?case by (subst nat_repr.simps) auto
qed

lemma nat_repr_nonempty: "nat_repr n \<noteq> []"
  by (subst nat_repr.simps) simp

lemma nat_repr_hd: "45 \<noteq> hd (nat_repr n)"
proof -
  have "hd (nat_repr n) \<in> set (nat_repr n)" using nat_repr_nonempty by (rule hd_in_set)
  with nat_repr_digits [of n] show ?thesis by (auto simp: list_all_iff)
qed

lemma int_repr_inj: "int_repr i = int_repr j \<longleftrightarrow> i = j"
proof
  assume eq: "int_repr i = int_repr j"
  have head: "x \<noteq> 45 # y" if "x = nat_repr n" for x y n
    using that nat_repr_hd [of n] by auto
  have nat: "nat_repr n = nat_repr m \<longleftrightarrow> n = m" for n m
    using digits_nat_repr by metis
  have "nat_repr n \<noteq> 45 # y" "45 # y \<noteq> nat_repr n" for n y
    using head [of "nat_repr n" n y] by auto
  with eq show "i = j"
    unfolding int_repr_def by (auto simp: nat split: if_splits)
qed simp

lemma int_repr_chars: "list_all num_char (int_repr i)" "46 \<notin> set (int_repr i)" "101 \<notin> set (int_repr i)"
proof -
  have "c \<in> set (int_repr i) \<Longrightarrow> c = 45 \<or> 48 \<le> c \<and> c \<le> 57" for c
    using nat_repr_digits [of "nat (- i)"] nat_repr_digits [of "nat i"]
    by (auto simp: int_repr_def list_all_iff split: if_splits)
  then show "list_all num_char (int_repr i)" "46 \<notin> set (int_repr i)" "101 \<notin> set (int_repr i)"
    by (fastforce simp: list_all_iff num_char_def)+
qed

lemma int_repr_nonempty: "int_repr i \<noteq> []"
  by (simp add: int_repr_def nat_repr_nonempty)

lemma hex_inj: "0 \<le> a \<Longrightarrow> a < 16 \<Longrightarrow> 0 \<le> b \<Longrightarrow> b < 16 \<Longrightarrow> hex_digit a = hex_digit b \<Longrightarrow> a = b"
  by (auto simp: hex_digit_def split: if_splits)

lemma esc_char_cases:
  obtains (short) k where "esc_char c = [92, k]" "k \<noteq> 117"
      "(c, k) \<in> {(34, 34), (92, 92), (10, 110), (13, 114), (9, 116), (8, 98), (12, 102)}"
  | (control) "c < 32" "esc_char c = [92, 117, 48, 48, hex_digit (c div 16), hex_digit (c mod 16)]"
  | (plain) "esc_char c = [c]" "c \<noteq> 92" "c \<noteq> 34"
proof -
  consider "c \<in> {34, 92, 10, 13, 9, 8, 12}" | "c \<notin> {34, 92, 10, 13, 9, 8, 12}" "c < 32"
    | "c \<notin> {34, 92, 10, 13, 9, 8, 12}" "\<not> c < 32" by blast
  then show thesis
  proof cases
    case 1
    then show ?thesis using short by (auto simp: esc_char_def)
  next
    case 2
    then show ?thesis using control by (simp add: esc_char_def)
  next
    case 3
    then show ?thesis using plain by (simp add: esc_char_def)
  qed
qed

lemma esc_char_prefix:
  assumes "0 \<le> c" "0 \<le> d" "esc_char c @ x = esc_char d @ y"
  shows "c = d \<and> x = y"
proof (cases c rule: esc_char_cases)
  case (short k)
  then show ?thesis using assms(3) by (cases d rule: esc_char_cases) auto
next
  case c: control
  show ?thesis
  proof (cases d rule: esc_char_cases)
    case control
    then have "c div 16 = d div 16" "c mod 16 = d mod 16" "x = y"
      using c assms by (auto intro!: hex_inj)
    then show ?thesis by (metis div_mult_mod_eq)
  qed (use c assms(3) in auto)
next
  case plain
  then show ?thesis using assms(3) by (cases d rule: esc_char_cases) auto
qed

lemma esc_char_no_quote: "0 \<le> c \<Longrightarrow> esc_char c @ x \<noteq> 34 # y"
  by (auto simp: esc_char_def)

lemma quote_prefix:
  assumes "list_all (\<lambda>c. 0 \<le> c) s" "list_all (\<lambda>c. 0 \<le> c) t" "quote s @ x = quote t @ y"
  shows "s = t \<and> x = y"
proof -
  have "concat (map esc_char s) @ 34 # x = concat (map esc_char t) @ 34 # y"
    using assms(3) by (simp add: quote_def)
  with assms(1,2) show ?thesis
  proof (induction s arbitrary: t)
    case Nil
    then show ?case using esc_char_no_quote by (cases t) (auto, metis)
  next
    case (Cons c s)
    show ?case
    proof (cases t)
      case Nil
      with Cons.prems esc_char_no_quote show ?thesis by auto
    next
      case t: (Cons d t')
      with Cons.prems have "c = d \<and> concat (map esc_char s) @ 34 # x = concat (map esc_char t') @ 34 # y"
        by (intro esc_char_prefix) auto
      with Cons t show ?thesis by auto
    qed
  qed
qed

subsection \<open>The compact text determines the value\<close>

text \<open>
  A value is followed by the end of the text, a comma, or a closing bracket; up to there the text of
  a number is determined, and all other texts are closed by their own delimiter.
\<close>

definition delim :: "pytext \<Rightarrow> bool" where
  "delim r \<longleftrightarrow> r = [] \<or> hd r \<in> {44, 93, 125}"

lemma number_prefix:
  assumes "list_all num_char s" "list_all num_char t" "delim x" "delim y" "s @ x = t @ y"
  shows "s = t \<and> x = y"
proof -
  have d: "takeWhile num_char z = []" if "delim z" for z
    using that by (cases z) (auto simp: delim_def num_char_def)
  have "takeWhile num_char (s @ x) = s" "takeWhile num_char (t @ y) = t"
    using assms(1,2) d [OF assms(3)] d [OF assms(4)] by (simp_all add: list_all_iff)
  with assms(5) show ?thesis by auto
qed

datatype shape = SWord int | SNum | SStr | SList | SObj

fun shape_of :: "json \<Rightarrow> shape" where
  "shape_of JNull = SWord 110"
| "shape_of (JBool b) = SWord (if b then 116 else 102)"
| "shape_of (JInt i) = SNum"
| "shape_of (JFloat t) = SNum"
| "shape_of (JStr t) = SStr"
| "shape_of (JList xs) = SList"
| "shape_of (JObj kvs) = SObj"

definition shape_of_char :: "int \<Rightarrow> shape" where
  "shape_of_char c = (if num_char c then SNum else if c = 34 then SStr else if c = 91 then SList
     else if c = 123 then SObj else SWord c)"

lemma dumps_shape:
  assumes "wf_json v"
  shows "\<exists>c t. dumps si sk v = c # t \<and> shape_of_char c = shape_of v"
proof (cases v)
  case (JInt i)
  obtain c t where "int_repr i = c # t" using int_repr_nonempty by (cases "int_repr i") auto
  moreover from this have "num_char c" using int_repr_chars(1) [of i] by simp
  ultimately show ?thesis using JInt by (simp add: shape_of_char_def)
next
  case (JFloat t)
  with assms show ?thesis by (cases t) (auto simp: shape_of_char_def)
qed (auto simp: shape_of_char_def num_char_def quote_def)

lemma dumps_not_closing: "wf_json v \<Longrightarrow> dumps si sk v @ x \<noteq> 93 # y"
  using dumps_shape [of v si sk] by (cases v) (auto simp: shape_of_char_def num_char_def split: if_splits)

lemma dumps_nonempty: "wf_json v \<Longrightarrow> dumps si sk v \<noteq> []"
  using dumps_shape [of v si sk] by auto

definition readable :: "('a \<Rightarrow> pytext) \<Rightarrow> ('a \<Rightarrow> bool) \<Rightarrow> 'a \<Rightarrow> bool" where
  \<comment> \<open>the text of \<open>v\<close>, followed by a delimiter, is the text of no other value\<close>
  "readable f ok v \<longleftrightarrow>
     (\<forall>w x y. ok w \<longrightarrow> delim x \<longrightarrow> delim y \<longrightarrow> f v @ x = f w @ y \<longrightarrow> v = w \<and> x = y)"

lemma readable_join:
  assumes r: "\<forall>v\<in>set vs. readable f ok v" and ok: "list_all ok vs" "list_all ok ws"
    and close: "c \<in> {93, 125}" and start: "\<And>v z y. ok v \<Longrightarrow> f v @ z \<noteq> c # y"
    and eq: "join [44] (map f vs) @ c # x = join [44] (map f ws) @ c # y"
  shows "vs = ws \<and> x = y"
  using assms(1-3) eq
proof (induction vs arbitrary: ws)
  case Nil
  show ?case
  proof (cases ws)
    case (Cons w ws')
    have "\<exists>z. join [44] (map f ws) @ c # y = f w @ z" using Cons by (cases ws') auto
    with Nil Cons start show ?thesis by (metis append_Nil join.simps(1) list.pred_inject(2) list.simps(8))
  qed (use Nil in simp)
next
  case (Cons v vs)
  obtain a where a: "join [44] (map f (v # vs)) @ c # x = f v @ a" "delim a"
    "vs = [] \<Longrightarrow> a = c # x" "vs \<noteq> [] \<Longrightarrow> a = 44 # join [44] (map f vs) @ c # x"
    using close by (cases vs) (auto simp: delim_def)
  show ?case
  proof (cases ws)
    case Nil
    with Cons.prems a start show ?thesis by (metis append_Nil join.simps(1) list.pred_inject(2) list.simps(8))
  next
    case ws: (Cons w ws')
    obtain b where b: "join [44] (map f ws) @ c # y = f w @ b" "delim b"
      "ws' = [] \<Longrightarrow> b = c # y" "ws' \<noteq> [] \<Longrightarrow> b = 44 # join [44] (map f ws') @ c # y"
      using close ws by (cases ws') (auto simp: delim_def)
    have "readable f ok v" "ok w" using Cons.prems ws by auto
    then have vw: "v = w" "a = b" using a b Cons.prems(4) unfolding readable_def by auto
    have c: "c \<noteq> 44" using close by auto
    show ?thesis
    proof (cases "vs = [] \<or> ws' = []")
      case True
      with vw a b ws c show ?thesis by (cases "vs = []"; cases "ws' = []") auto
    next
      case False
      then have "vs = ws' \<and> x = y"
        using Cons.IH [of ws'] Cons.prems ws vw a b by auto
      with vw ws show ?thesis by simp
    qed
  qed
qed

abbreviation item_text :: "pytext \<times> json \<Rightarrow> pytext" where
  "item_text kv \<equiv> quote (fst kv) @ [58] @ dumps [44] [58] (snd kv)"

abbreviation item_ok :: "pytext \<times> json \<Rightarrow> bool" where
  "item_ok kv \<equiv> list_all (\<lambda>c. 0 \<le> c) (fst kv) \<and> wf_json (snd kv)"

lemma readable_item:
  assumes "item_ok kv" "readable (dumps [44] [58]) wf_json (snd kv)"
  shows "readable item_text item_ok kv"
  unfolding readable_def
proof (intro allI impI)
  fix w x y
  assume w: "item_ok w" and d: "delim x" "delim y" and eq: "item_text kv @ x = item_text w @ y"
  have "fst kv = fst w \<and> 58 # dumps [44] [58] (snd kv) @ x = 58 # dumps [44] [58] (snd w) @ y"
    using assms(1) w eq by (intro quote_prefix) auto
  with assms(2) w d show "kv = w \<and> x = y" unfolding readable_def by (auto simp: prod_eq_iff)
qed

lemma dumps_readable: "wf_json v \<Longrightarrow> readable (dumps [44] [58]) wf_json v"
proof (induction v)
  case (JList vs)
  have r: "\<forall>v\<in>set vs. readable (dumps [44] [58]) wf_json v" using JList by (auto simp: list_all_iff)
  show ?case unfolding readable_def
  proof (intro allI impI)
    fix w x y
    assume w: "wf_json w" and eq: "dumps [44] [58] (JList vs) @ x = dumps [44] [58] w @ y"
    have "shape_of w = SList" using dumps_shape [OF w, of "[44]" "[58]"] eq by (auto simp: shape_of_char_def num_char_def)
    then obtain ws where ws: "w = JList ws" by (cases w) auto
    have "vs = ws \<and> x = y"
      using eq ws w JList.prems dumps_not_closing
      by (intro readable_join [OF r, of ws 93]) auto
    with ws show "JList vs = w \<and> x = y" by simp
  qed
next
  case (JObj kvs)
  have r: "\<forall>kv\<in>set kvs. readable item_text item_ok kv"
  proof
    fix kv
    assume kv: "kv \<in> set kvs"
    then have "item_ok kv" using JObj.prems by (auto simp: list_all_iff)
    moreover have "readable (dumps [44] [58]) wf_json (snd kv)"
      using JObj.IH [OF kv] \<open>item_ok kv\<close> by (cases kv) auto
    ultimately show "readable item_text item_ok kv" by (rule readable_item)
  qed
  show ?case unfolding readable_def
  proof (intro allI impI)
    fix w x y
    assume w: "wf_json w" and eq: "dumps [44] [58] (JObj kvs) @ x = dumps [44] [58] w @ y"
    have "shape_of w = SObj" using dumps_shape [OF w, of "[44]" "[58]"] eq by (auto simp: shape_of_char_def num_char_def)
    then obtain ws where ws: "w = JObj ws" by (cases w) auto
    have "kvs = ws \<and> x = y"
    proof (rule readable_join [OF r, of ws 125])
      show "item_text v @ z \<noteq> 125 # y" for v z y by (simp add: quote_def)
    qed (use eq ws w JObj.prems in auto)
    with ws show "JObj kvs = w \<and> x = y" by simp
  qed
next
  case (JStr t)
  show ?case unfolding readable_def
  proof (intro allI impI)
    fix w x y
    assume w: "wf_json w" and eq: "dumps [44] [58] (JStr t) @ x = dumps [44] [58] w @ y"
    have "shape_of w = SStr" using dumps_shape [OF w, of "[44]" "[58]"] eq by (auto simp: shape_of_char_def num_char_def quote_def)
    then obtain t' where "w = JStr t'" by (cases w) auto
    with eq w JStr quote_prefix [of t t' x y] show "JStr t = w \<and> x = y" by auto
  qed
next
  case (JInt i)
  show ?case unfolding readable_def
  proof (intro allI impI)
    fix w x y
    assume w: "wf_json w" and d: "delim x" "delim y" and eq: "dumps [44] [58] (JInt i) @ x = dumps [44] [58] w @ y"
    obtain c t where ct: "int_repr i = c # t" using int_repr_nonempty by (cases "int_repr i") auto
    then have "num_char c" using int_repr_chars(1) [of i] by simp
    with ct have "shape_of w = SNum" using dumps_shape [OF w, of "[44]" "[58]"] eq by (auto simp: shape_of_char_def)
    then have num: "list_all num_char (dumps [44] [58] w)" using w int_repr_chars by (cases w) auto
    then have "int_repr i = dumps [44] [58] w \<and> x = y"
      using number_prefix [OF int_repr_chars(1) num d] eq by simp
    then show "JInt i = w \<and> x = y" using \<open>shape_of w = SNum\<close> w int_repr_chars(2,3) [of i]
      by (cases w) (auto simp: int_repr_inj)
  qed
next
  case (JFloat t)
  show ?case unfolding readable_def
  proof (intro allI impI)
    fix w x y
    assume w: "wf_json w" and d: "delim x" "delim y" and eq: "dumps [44] [58] (JFloat t) @ x = dumps [44] [58] w @ y"
    obtain c t' where ct: "t = c # t'" "num_char c" using JFloat by (cases t) auto
    then have "shape_of w = SNum" using dumps_shape [OF w, of "[44]" "[58]"] eq by (auto simp: shape_of_char_def)
    then have num: "list_all num_char (dumps [44] [58] w)" using w int_repr_chars by (cases w) auto
    have "list_all num_char t" using JFloat by simp
    then have "t = dumps [44] [58] w \<and> x = y"
      using number_prefix [OF _ num d] eq by simp
    then show "JFloat t = w \<and> x = y" using \<open>shape_of w = SNum\<close> w JFloat int_repr_chars(2,3)
      by (cases w) auto
  qed
next
  case JNull
  show ?case unfolding readable_def
  proof (intro allI impI)
    fix w x y
    assume w: "wf_json w" and eq: "dumps [44] [58] JNull @ x = dumps [44] [58] w @ y"
    have "shape_of w = SWord 110" using dumps_shape [OF w, of "[44]" "[58]"] eq by (auto simp: shape_of_char_def num_char_def)
    then have "w = JNull" by (cases w) (auto split: if_splits)
    with eq show "JNull = w \<and> x = y" by simp
  qed
next
  case (JBool b)
  show ?case unfolding readable_def
  proof (intro allI impI)
    fix w x y
    assume w: "wf_json w" and eq: "dumps [44] [58] (JBool b) @ x = dumps [44] [58] w @ y"
    have "shape_of w = SWord (if b then 116 else 102)"
      using dumps_shape [OF w, of "[44]" "[58]"] eq by (auto simp: shape_of_char_def num_char_def split: if_splits)
    then have "w = JBool b" by (cases w) (auto split: if_splits)
    with eq show "JBool b = w \<and> x = y" by simp
  qed
qed

lemma canonical_inj:
  assumes "wf_json v" "wf_json w" "canonical v = canonical w"
  shows "sort_keys v = sort_keys w"
  using dumps_readable [OF wf_sort_keys [OF assms(1)]] wf_sort_keys [OF assms(2)] assms(3)
  unfolding readable_def canonical_def by (auto simp: delim_def)

lemma insort_key_map: "insort_key f (h x) (map h xs) = map h (insort_key (\<lambda>a. f (h a)) x xs)"
  by (induction xs) auto

lemma sort_key_map: "sort_key f (map h xs) = map h (sort_key (\<lambda>a. f (h a)) xs)"
  by (induction xs) (simp_all add: insort_key_map)

lemma norm_sort_keys: "norm (sort_keys v) = norm v"
proof (induction v rule: sort_keys.induct)
  case (2 kvs)
  let ?n = "\<lambda>kv. (fst kv, norm (snd kv))" and ?s = "\<lambda>kv. (fst kv, sort_keys (snd kv))"
  have "map ?n (map ?s kvs) = map ?n kvs" using 2 by simp
  moreover have "sort_key fst (map ?n (sort_key fst (map ?s kvs))) = sort_key fst (map ?n (map ?s kvs))"
    by (simp add: sort_key_map comp_def sort_key_id_if_sorted)
  ultimately show ?case by (simp only: norm.simps sort_keys.simps json.inject)
qed auto

lemma canonical_py_eq: "wf_json v \<Longrightarrow> wf_json w \<Longrightarrow> canonical v = canonical w \<Longrightarrow> py_eq v w"
  unfolding py_eq_def by (metis canonical_inj norm_sort_keys)

end
