(* ===== verification/Sessions.thy ===== *)
theory Sessions
  imports Policy
begin

text \<open>
  \<open>sessions.py\<close>: the append-only event store and the task session on top of it. The database holds
  one row per session and one row per event, as the two tables do. \<open>LightAgent\<close>'s session class is
  a library: its validation, its constructor and its \<open>append\<close> are the record \<open>lightagent\<close> that the
  operations take, and \<open>lightagent_ok\<close> states what the code relies on.
\<close>

subsection \<open>Sessions, rows and the library\<close>

record event =
  ev_id :: string
  ev_seq :: nat
  ev_type :: string
  ev_data :: json

record session =
  se_id :: string
  se_meta :: json
  se_created :: string
  se_updated :: string
  se_version :: int
  se_events :: "event list"

record srow =
  \<comment> \<open>a row of the table \<open>sessions\<close>\<close>
  sr_meta :: json
  sr_created :: string
  sr_updated :: string
  sr_version :: int

record erow =
  \<comment> \<open>a row of the table \<open>session_events\<close>\<close>
  er_session :: string
  er_seq :: nat
  er_id :: string
  er_payload :: event

record db =
  db_sessions :: "(string, srow) dict"
  db_events :: "erow list"

record lightagent =
  la_new :: "string \<Rightarrow> session"
  la_append :: "session \<Rightarrow> string \<Rightarrow> json \<Rightarrow> event"
  la_validate :: "session \<Rightarrow> exn option"

definition lightagent_ok :: "lightagent \<Rightarrow> bool" where
  \<comment> \<open>a new session is empty and valid; \<open>append\<close> makes an event of the type and data asked for, with
      the next sequence number and an id of its own; sessions with distinct event ids are valid\<close>
  "lightagent_ok la \<longleftrightarrow>
     (\<forall>sid. se_id (la_new la sid) = sid \<and> se_events (la_new la sid) = [])
     \<and> (\<forall>s t d. ev_type (la_append la s t d) = t \<and> ev_data (la_append la s t d) = d
          \<and> ev_seq (la_append la s t d) = length (se_events s) + 1
          \<and> ev_id (la_append la s t d) \<notin> ev_id ` set (se_events s))
     \<and> (\<forall>s. distinct (map ev_id (se_events s)) \<longrightarrow> la_validate la s = None)"

subsection \<open>The atomic session store\<close>

definition rows_of :: "string \<Rightarrow> db \<Rightarrow> erow list" where
  "rows_of sid d = sort_key er_seq (filter (\<lambda>r. er_session r = sid) (db_events d))"

definition load :: "db \<Rightarrow> string \<Rightarrow> session option" where
  "load d sid =
     (case dget (db_sessions d) sid of
        None \<Rightarrow> None
      | Some row \<Rightarrow> Some \<lparr>se_id = sid, se_meta = sr_meta row, se_created = sr_created row,
          se_updated = sr_updated row, se_version = sr_version row,
          se_events = map er_payload (rows_of sid d)\<rparr>)"

fun additions :: "string set \<Rightarrow> nat \<Rightarrow> event list \<Rightarrow> event list" where
  \<comment> \<open>the events not known yet, renumbered after the \<open>n\<close> persisted ones, their data redacted\<close>
  "additions known n [] = []"
| "additions known n (e # es) =
     (if ev_id e \<in> known then additions known n es
      else e\<lparr>ev_seq := n + 1, ev_data := redact_value (ev_data e)\<rparr> # additions known (n + 1) es)"

definition updated_with :: "json \<Rightarrow> json \<Rightarrow> json" where
  \<comment> \<open>\<open>d.update(e)\<close>\<close>
  "updated_with d e = JObj (fold (\<lambda>kv. dput (fst kv) (snd kv)) (entries e) (entries d))"

definition save :: "lightagent \<Rightarrow> db \<Rightarrow> session \<Rightarrow> (db \<times> session) result" where
  "save la d s =
     (case la_validate la s of
        Some e \<Rightarrow> Inl e
      | None \<Rightarrow>
          (let persisted = load d (se_id s);
               known = (case persisted of None \<Rightarrow> {} | Some p \<Rightarrow> set (map ev_id (se_events p)));
               merged = (case persisted of
                   Some p \<Rightarrow> p
                 | None \<Rightarrow> \<lparr>se_id = se_id s, se_meta = redact_value (se_meta s),
                     se_created = se_created s, se_updated = se_updated s,
                     se_version = se_version s, se_events = []\<rparr>);
               added = additions known (length (se_events merged)) (se_events s);
               meta = updated_with (se_meta merged) (redact_value (se_meta s));
               row = (case dget (db_sessions d) (se_id s) of
                   Some r \<Rightarrow> r\<lparr>sr_meta := meta, sr_updated := se_updated s\<rparr>
                 | None \<Rightarrow> \<lparr>sr_meta = meta, sr_created = se_created merged,
                     sr_updated = se_updated s, sr_version = se_version merged\<rparr>)
           in Inr (d\<lparr>db_sessions := dput (se_id s) row (db_sessions d),
                     db_events := db_events d @ map (\<lambda>e. \<lparr>er_session = se_id s, er_seq = ev_seq e,
                       er_id = ev_id e, er_payload = e\<rparr>) added\<rparr>,
                   s\<lparr>se_events := se_events merged @ added, se_meta := meta\<rparr>)))"

definition create :: "lightagent \<Rightarrow> db \<Rightarrow> session \<Rightarrow> (db \<times> session) result" where
  "create la d s =
     guardE (load d (se_id s) \<noteq> None) (ValueError ''session already exists'') (save la d s)"

definition append_if_sequence ::
  "lightagent \<Rightarrow> db \<Rightarrow> string \<Rightarrow> string \<Rightarrow> json \<Rightarrow> nat option \<Rightarrow> pytext option \<Rightarrow> (db \<times> event) result" where
  "append_if_sequence la d sid kind data expected key =
     (let s = (case load d sid of Some p \<Rightarrow> p | None \<Rightarrow> la_new la sid);
          keyed = (key \<notin> {None, Some []});
          dup = (if keyed
                 then first_such (\<lambda>e. field ''idempotency_key'' (ev_data e) = JStr (the key)) (se_events s)
                 else None)
      in case dup of
           Some e \<Rightarrow> Inr (d, e)
         | None \<Rightarrow>
             guardE (expected \<noteq> None \<and> length (se_events s) \<noteq> the expected)
               (SequenceConflict (the expected) (length (se_events s)))
               (let payload = redact_value data;
                    payload = (if keyed then with_field ''idempotency_key'' (JStr (the key)) payload
                               else payload);
                    e = la_append la s kind payload
                in bindE (save la d (s\<lparr>se_events := se_events s @ [e]\<rparr>)) (\<lambda>(d', _). Inr (d', e))))"

subsection \<open>Task sessions\<close>

definition STATE_UPDATED :: string where
  "STATE_UPDATED = ''lightworker.state.updated''"

definition events :: "db \<Rightarrow> string \<Rightarrow> event list" where
  "events d run = (case load d run of None \<Rightarrow> [] | Some s \<Rightarrow> se_events s)"

definition is_state :: "pytext \<Rightarrow> event \<Rightarrow> bool" where
  "is_state name e \<longleftrightarrow> ev_type e = STATE_UPDATED \<and> field ''name'' (ev_data e) = JStr name"

definition state :: "db \<Rightarrow> string \<Rightarrow> pytext \<Rightarrow> json" where
  \<comment> \<open>Python's \<open>None\<close> and JSON's null are the same value\<close>
  "state d run name =
     (case first_such (is_state name) (rev (events d run)) of
        None \<Rightarrow> JNull
      | Some e \<Rightarrow> field ''value'' (ev_data e))"

definition task_append ::
  "lightagent \<Rightarrow> db \<Rightarrow> string \<Rightarrow> string \<Rightarrow> json \<Rightarrow> pytext option \<Rightarrow> (db \<times> event) result" where
  "task_append la d run kind data key = append_if_sequence la d run kind data None key"

definition set_state :: "lightagent \<Rightarrow> db \<Rightarrow> string \<Rightarrow> pytext \<Rightarrow> json \<Rightarrow> db result" where
  "set_state la d run name v =
     (if py_eq (state d run name) (redact_value v) then Inr d
      else bindE (task_append la d run STATE_UPDATED
             (JObj [(u ''name'', JStr name), (u ''value'', v)]) None) (\<lambda>(d', _). Inr d'))"

definition replay_states :: "event list \<Rightarrow> (pytext, json) dict" where
  "replay_states es =
     fold (\<lambda>e st. if ev_type e = STATE_UPDATED
        then dput (text_or_empty (field ''name'' (ev_data e))) (field ''value'' (ev_data e)) st else st) es []"

definition replay :: "db \<Rightarrow> string \<Rightarrow> (pytext, json) dict \<times> nat" where
  "replay d run = (replay_states (events d run), length (events d run))"

subsection \<open>Well-formed databases\<close>

definition rows :: "string \<Rightarrow> db \<Rightarrow> erow list" where
  "rows sid d = filter (\<lambda>r. er_session r = sid) (db_events d)"

definition wf_rows :: "db \<Rightarrow> string \<Rightarrow> bool" where
  \<comment> \<open>the events of a session are numbered from one without a gap and have distinct ids\<close>
  "wf_rows d sid \<longleftrightarrow> map er_seq (rows sid d) = [1..<Suc (length (rows sid d))]
     \<and> distinct (map er_id (rows sid d))
     \<and> list_all (\<lambda>r. er_id r = ev_id (er_payload r) \<and> er_seq r = ev_seq (er_payload r)) (rows sid d)
     \<and> (rows sid d \<noteq> [] \<longrightarrow> sid \<in> set (dkeys (db_sessions d)))"

definition wf_db :: "db \<Rightarrow> bool" where
  "wf_db d \<longleftrightarrow> (\<forall>sid. wf_rows d sid)"

lemma rows_of_wf: "wf_rows d sid \<Longrightarrow> rows_of sid d = rows sid d"
  unfolding rows_of_def wf_rows_def rows_def
  by (rule sort_key_id_if_sorted) (metis sorted_upt)

lemma events_rows: "wf_rows d sid \<Longrightarrow> events d sid = map er_payload (rows sid d)"
  by (auto simp: events_def load_def rows_of_wf wf_rows_def map_of_eq_None_iff split: option.splits)

lemma events_seq:
  assumes "wf_rows d sid"
  shows "map ev_seq (events d sid) = [1..<Suc (length (events d sid))]"
    and "distinct (map ev_id (events d sid))"
proof -
  have "\<forall>r\<in>set (rows sid d). ev_id (er_payload r) = er_id r \<and> ev_seq (er_payload r) = er_seq r"
    using assms by (simp add: wf_rows_def list_all_iff del: upt_Suc)
  then have "map ev_seq (events d sid) = map er_seq (rows sid d)" "map ev_id (events d sid) = map er_id (rows sid d)"
    "length (events d sid) = length (rows sid d)"
    unfolding events_rows [OF assms] map_map by (simp_all add: comp_def)
  with assms show "map ev_seq (events d sid) = [1..<Suc (length (events d sid))]"
    and "distinct (map ev_id (events d sid))"
    unfolding wf_rows_def by auto
qed

lemma additions_ids: "set (map ev_id (additions known n es)) = set (map ev_id es) - known"
  by (induction known n es rule: additions.induct) auto

lemma additions_seq: "map ev_seq (additions known n es) = [Suc n..<Suc (n + length (additions known n es))]"
proof (induction known n es rule: additions.induct)
  case (2 known n e es)
  then show ?case by (auto simp: upt_conv_Cons simp del: upt_Suc)
qed simp

lemma additions_distinct: "distinct (map ev_id es) \<Longrightarrow> distinct (map ev_id (additions known n es))"
proof (induction known n es rule: additions.induct)
  case (2 known n e es)
  then show ?case using additions_ids [of known "n + 1" es] by auto
qed simp

lemma additions_known: "set (map ev_id es) \<subseteq> known \<Longrightarrow> additions known n es = []"
  by (induction known n es rule: additions.induct) auto

lemma additions_append:
  "set (map ev_id es) \<subseteq> known \<Longrightarrow> additions known n (es @ fs) = additions known n fs"
  by (induction known n es rule: additions.induct) auto

definition known_ids :: "db \<Rightarrow> string \<Rightarrow> string set" where
  "known_ids d sid = set (map ev_id (events d sid))"

text \<open>What a successful save does to the rows, in one equation.\<close>

lemma load_None_iff: "load d sid = None \<longleftrightarrow> sid \<notin> set (dkeys (db_sessions d))"
  unfolding load_def dget_None_iff [symmetric] by (cases "dget (db_sessions d) sid") auto

lemma set_dkeys_dput: "set (dkeys (dput k v d)) = insert k (set (dkeys d))"
  unfolding update_keys by auto

lemma save_tables:
  assumes "save la d s = Inr (d', s')"
  shows "db_events d' = db_events d @
      map (\<lambda>e. \<lparr>er_session = se_id s, er_seq = ev_seq e, er_id = ev_id e, er_payload = e\<rparr>)
        (additions (known_ids d (se_id s)) (length (events d (se_id s))) (se_events s))"
    and "set (dkeys (db_sessions d')) = insert (se_id s) (set (dkeys (db_sessions d)))"
proof -
  have v: "la_validate la s = None" using assms by (auto simp: save_def split: option.splits)
  show "db_events d' = db_events d @
      map (\<lambda>e. \<lparr>er_session = se_id s, er_seq = ev_seq e, er_id = ev_id e, er_payload = e\<rparr>)
        (additions (known_ids d (se_id s)) (length (events d (se_id s))) (se_events s))"
    using assms v unfolding save_def known_ids_def events_def
    by (cases "load d (se_id s)") (auto simp: Let_def)
  show "set (dkeys (db_sessions d')) = insert (se_id s) (set (dkeys (db_sessions d)))"
    using assms v unfolding save_def
    by (auto simp: Let_def set_dkeys_dput simp del: set_map list.set_map)
qed

lemma save_rows:
  assumes "save la d s = Inr (d', s')"
  shows "rows sid d' = rows sid d @ (if sid = se_id s
      then map (\<lambda>e. \<lparr>er_session = se_id s, er_seq = ev_seq e, er_id = ev_id e, er_payload = e\<rparr>)
        (additions (known_ids d (se_id s)) (length (events d (se_id s))) (se_events s)) else [])"
proof -
  have "filter (\<lambda>r. er_session r = sid)
      (map (\<lambda>e. \<lparr>er_session = se_id s, er_seq = ev_seq e, er_id = ev_id e, er_payload = e\<rparr>) es)
    = (if sid = se_id s
       then map (\<lambda>e. \<lparr>er_session = se_id s, er_seq = ev_seq e, er_id = ev_id e, er_payload = e\<rparr>) es
       else [])" for es
    by (induction es) auto
  then show ?thesis using save_tables(1) [OF assms] by (simp add: rows_def)
qed

lemma save_wf:
  assumes "save la d s = Inr (d', s')" and "wf_db d" and "distinct (map ev_id (se_events s))"
  shows "wf_db d'"
  unfolding wf_db_def
proof
  fix sid
  have w: "wf_rows d sid" using assms(2) by (simp add: wf_db_def)
  let ?a = "additions (known_ids d (se_id s)) (length (events d (se_id s))) (se_events s)"
  let ?row = "\<lambda>e. \<lparr>er_session = se_id s, er_seq = ev_seq e, er_id = ev_id e, er_payload = e\<rparr>"
  show "wf_rows d' sid"
  proof (cases "sid = se_id s")
    case True
    have r: "rows sid d' = rows sid d @ map ?row ?a" using save_rows [OF assms(1)] True by simp
    have len: "length (events d sid) = length (rows sid d)" using events_rows [OF w] by simp
    have seq: "map er_seq (map ?row ?a) = [Suc (length (rows sid d))..<Suc (length (rows sid d) + length ?a)]"
      using additions_seq [of "known_ids d (se_id s)" "length (events d (se_id s))" "se_events s"] len True
      by (simp add: comp_def)
    have ids: "map er_id (map ?row ?a) = map ev_id ?a" by simp
    have "set (map er_id (rows sid d)) = known_ids d (se_id s)"
      using w True by (auto simp: known_ids_def events_rows wf_rows_def list_all_iff)
    then have "set (map er_id (rows sid d)) \<inter> set (map ev_id ?a) = {}"
      using additions_ids by blast
    moreover have "distinct (map ev_id ?a)" using assms(3) by (rule additions_distinct)
    moreover have "[1..<Suc (length (rows sid d))] @ [Suc (length (rows sid d))..<Suc (length (rows sid d) + length ?a)]
        = [1..<Suc (length (rows sid d) + length ?a)]"
      using upt_add_eq_append [of 1 "Suc (length (rows sid d))" "length ?a"] by simp
    ultimately show ?thesis
      using w save_tables(2) [OF assms(1)] True seq ids unfolding wf_rows_def r
      by (auto simp: list_all_iff simp del: upt_Suc map_map)
  next
    case False
    then have "rows sid d' = rows sid d" using save_rows [OF assms(1)] by simp
    with w save_tables(2) [OF assms(1)] show ?thesis unfolding wf_rows_def by auto
  qed
qed

lemma save_events:
  assumes "save la d s = Inr (d', s')" and "wf_db d" and "distinct (map ev_id (se_events s))"
  shows "events d' sid = events d sid @ (if sid = se_id s
     then additions (known_ids d sid) (length (events d sid)) (se_events s) else [])"
proof -
  have "wf_rows d' sid" "wf_rows d sid" using save_wf [OF assms] assms(2) by (auto simp: wf_db_def)
  then show ?thesis using save_rows [OF assms(1), of sid] by (auto simp: events_rows comp_def)
qed

subsection \<open>Appending an event\<close>

definition current :: "lightagent \<Rightarrow> db \<Rightarrow> string \<Rightarrow> session" where
  \<comment> \<open>the persisted session, or a new one\<close>
  "current la d sid = (case load d sid of Some p \<Rightarrow> p | None \<Rightarrow> la_new la sid)"

lemma current_events: "lightagent_ok la \<Longrightarrow> se_events (current la d sid) = events d sid \<and> se_id (current la d sid) = sid"
  by (auto simp: current_def events_def lightagent_ok_def load_def split: option.splits)

definition stored_event :: "event \<Rightarrow> event" where
  \<comment> \<open>an event as it reaches the store: redacted once more on the way\<close>
  "stored_event e = e\<lparr>ev_data := redact_value (ev_data e)\<rparr>"

text \<open>
  One append to a well-formed database succeeds and adds exactly one event, last in its session
  and numbered after the events before it; every other session keeps its events.
\<close>

lemma append_one:
  assumes "lightagent_ok la" and "wf_db d" and "e = la_append la (current la d sid) kind payload"
  shows "\<exists>d' s'. save la d ((current la d sid)\<lparr>se_events := events d sid @ [e]\<rparr>) = Inr (d', s') \<and> wf_db d'
     \<and> (\<forall>other. events d' other = events d other @ (if other = sid then [stored_event e] else []))"
proof -
  let ?c = "current la d sid"
  let ?s = "?c\<lparr>se_events := events d sid @ [e]\<rparr>"
  have ce: "se_events ?c = events d sid" "se_id ?c = sid" using current_events [OF assms(1)] by auto
  have wf: "wf_rows d sid" using assms(2) by (simp add: wf_db_def)
  have new: "ev_id e \<notin> ev_id ` set (events d sid)" "ev_seq e = length (events d sid) + 1"
    using assms(1,3) ce unfolding lightagent_ok_def by metis+
  then have dist: "distinct (map ev_id (se_events ?s))" using events_seq(2) [OF wf] by simp
  then have "la_validate la ?s = None" using assms(1) by (simp add: lightagent_ok_def)
  then obtain d' s' where ok: "save la d ?s = Inr (d', s')" by (simp add: save_def Let_def)
  have "additions (known_ids d sid) (length (events d sid)) (events d sid @ [e]) = [stored_event e]"
    using new by (subst additions_append) (auto simp: known_ids_def stored_event_def)
  then have "events d' other = events d other @ (if other = sid then [stored_event e] else [])" for other
    using save_events [OF ok assms(2) dist] ce by auto
  with ok save_wf [OF ok assms(2) dist] show ?thesis by blast
qed

lemma append_Inr:
  assumes la: "lightagent_ok la" and wf: "wf_db d" and key: "key \<in> {None, Some []}"
    and seq: "expected = None \<or> expected = Some (length (events d sid))"
  shows "\<exists>d' e. append_if_sequence la d sid kind data expected key = Inr (d', e) \<and> wf_db d'
     \<and> ev_type e = kind \<and> ev_data e = redact_value data \<and> ev_seq e = length (events d sid) + 1
     \<and> (\<forall>other. events d' other = events d other @ (if other = sid then [stored_event e] else []))"
proof -
  let ?e = "la_append la (current la d sid) kind (redact_value data)"
  obtain d' s' where *: "save la d ((current la d sid)\<lparr>se_events := events d sid @ [?e]\<rparr>) = Inr (d', s')"
    "wf_db d'" "\<forall>other. events d' other = events d other @ (if other = sid then [stored_event ?e] else [])"
    using append_one [OF la wf refl] by metis
  have "append_if_sequence la d sid kind data expected key = Inr (d', ?e)"
    using key seq * current_events [OF la, of d sid]
    unfolding append_if_sequence_def current_def [symmetric] by (auto simp: Let_def)
  moreover have "ev_type ?e = kind" "ev_data ?e = redact_value data" "ev_seq ?e = length (events d sid) + 1"
    using la current_events [OF la, of d sid] unfolding lightagent_ok_def by metis+
  ultimately show ?thesis using * by blast
qed

lemma append_keyed_Inr:
  assumes la: "lightagent_ok la" and wf: "wf_db d" and key: "key \<noteq> []"
    and fresh: "\<forall>e\<in>set (events d sid). field ''idempotency_key'' (ev_data e) \<noteq> JStr key"
  shows "\<exists>d' e. append_if_sequence la d sid kind data None (Some key) = Inr (d', e) \<and> wf_db d'
     \<and> ev_type e = kind \<and> ev_data e = with_field ''idempotency_key'' (JStr key) (redact_value data)
     \<and> (\<forall>other. events d' other = events d other @ (if other = sid then [stored_event e] else []))"
proof -
  let ?p = "with_field ''idempotency_key'' (JStr key) (redact_value data)"
  let ?e = "la_append la (current la d sid) kind ?p"
  obtain d' s' where *: "save la d ((current la d sid)\<lparr>se_events := events d sid @ [?e]\<rparr>) = Inr (d', s')"
    "wf_db d'" "\<forall>other. events d' other = events d other @ (if other = sid then [stored_event ?e] else [])"
    using append_one [OF la wf refl] by metis
  have "first_such (\<lambda>e. field ''idempotency_key'' (ev_data e) = JStr key) (events d sid) = None"
    using fresh by (simp add: first_such_None_iff)
  then have "append_if_sequence la d sid kind data None (Some key) = Inr (d', ?e)"
    using key * current_events [OF la, of d sid]
    unfolding append_if_sequence_def current_def [symmetric] by (auto simp: Let_def)
  moreover have "ev_type ?e = kind" "ev_data ?e = ?p" using la unfolding lightagent_ok_def by metis+
  ultimately show ?thesis using * by blast
qed

text \<open>The library's contract is not empty: here is an implementation with unary ids.\<close>

definition example_lightagent :: lightagent where
  "example_lightagent = \<lparr>
     la_new = (\<lambda>sid. \<lparr>se_id = sid, se_meta = JObj [], se_created = [], se_updated = [],
       se_version = 1, se_events = []\<rparr>),
     la_append = (\<lambda>s t d. \<lparr>ev_id = replicate (Suc (sum_list (map (\<lambda>e. length (ev_id e)) (se_events s)))) CHR ''e'',
       ev_seq = length (se_events s) + 1, ev_type = t, ev_data = d\<rparr>),
     la_validate = (\<lambda>s. if distinct (map ev_id (se_events s)) then None
       else Some (ValueError ''duplicate event''))\<rparr>"

lemma example_lightagent_ok: "lightagent_ok example_lightagent"
proof -
  have "length (ev_id e) \<le> sum_list (map (\<lambda>e. length (ev_id e)) es)" if "e \<in> set es" for e and es :: "event list"
    using that by (intro member_le_sum_list) auto
  then have "replicate (Suc (sum_list (map (\<lambda>e. length (ev_id e)) es))) CHR ''e'' \<notin> ev_id ` set es"
    for es :: "event list"
    by (metis (no_types, lifting) Suc_n_not_le_n image_iff length_replicate)
  then show ?thesis by (simp add: lightagent_ok_def example_lightagent_def)
qed

definition empty_db :: db where
  "empty_db = \<lparr>db_sessions = [], db_events = []\<rparr>"

lemma empty_db_wf: "wf_db empty_db"
  by (simp add: wf_db_def wf_rows_def rows_def empty_db_def)

lemma empty_db_events: "events empty_db sid = []"
  by (simp add: events_def load_def empty_db_def)

subsection \<open>State, replay and idempotency\<close>

definition settled :: "json \<Rightarrow> bool" where
  \<comment> \<open>redacting it once or twice more changes nothing\<close>
  "settled v \<longleftrightarrow> redact_value v = v"

lemma redact_str: "redact_value (JStr t) = JStr (redact_text t)"
  by simp

lemma state_append:
  assumes "events d' run = events d run @ [e]"
  shows "state d' run name = (if is_state name e then field ''value'' (ev_data e) else state d run name)"
  using assms by (simp add: state_def)

lemma state_only_depends: "events d' run = events d run \<Longrightarrow> state d' run name = state d run name"
  by (simp add: state_def)

text \<open>What a state write leaves in the store, for a name that redaction leaves alone.\<close>

lemma set_state_Inr:
  assumes la: "lightagent_ok la" and wf: "wf_db d"
    and name: "redact_text name = name" and v: "settled (redact_value v)"
  shows "\<exists>d'. set_state la d run name v = Inr d' \<and> wf_db d'
     \<and> py_eq (state d' run name) (redact_value v)
     \<and> (\<forall>other. other \<noteq> name \<longrightarrow> state d' run other = state d run other)
     \<and> (\<forall>run'. run' \<noteq> run \<longrightarrow> events d' run' = events d run')"
proof (cases "py_eq (state d run name) (redact_value v)")
  case True
  then show ?thesis using wf by (simp add: set_state_def)
next
  case False
  let ?data = "JObj [(u ''name'', JStr name), (u ''value'', v)]"
  obtain d' e where *: "append_if_sequence la d run STATE_UPDATED ?data None None = Inr (d', e)" "wf_db d'"
    "ev_type e = STATE_UPDATED" "ev_data e = redact_value ?data"
    "\<forall>other. events d' other = events d other @ (if other = run then [stored_event e] else [])"
    using append_Inr [OF la wf, of None None run STATE_UPDATED ?data] by auto
  have ev: "events d' run = events d run @ [stored_event e]" using * by simp
  have data: "ev_data (stored_event e) = JObj [(u ''name'', JStr name), (u ''value'', redact_value v)]"
    using * name v by (simp add: stored_event_def settled_def)
  have "is_state x (stored_event e) \<longleftrightarrow> x = name" for x
    unfolding is_state_def data by (auto simp: field_def stored_event_def *(3))
  then have st: "state d' run x = (if x = name then redact_value v else state d run x)" for x
    using state_append [OF ev, of x] data by (simp add: field_def)
  have "set_state la d run name v = Inr d'"
    using False * by (simp add: set_state_def task_append_def)
  with * st show ?thesis by auto
qed

lemma replay_append:
  "replay_states (es @ [e]) =
     (if ev_type e = STATE_UPDATED
      then dput (text_or_empty (field ''name'' (ev_data e))) (field ''value'' (ev_data e)) (replay_states es)
      else replay_states es)"
  by (simp add: replay_states_def)

definition named_states :: "event list \<Rightarrow> bool" where
  \<comment> \<open>every state event carries its name as a string, as \<open>set_state\<close> writes them\<close>
  "named_states es \<longleftrightarrow> list_all (\<lambda>e. ev_type e = STATE_UPDATED \<longrightarrow>
     (case field ''name'' (ev_data e) of JStr _ \<Rightarrow> True | _ \<Rightarrow> False)) es"

lemma replay_find:
  "named_states es \<Longrightarrow> dget (replay_states es) name =
     map_option (\<lambda>e. field ''value'' (ev_data e)) (first_such (is_state name) (rev es))"
proof (induction es rule: rev_induct)
  case Nil
  then show ?case by (simp add: replay_states_def)
next
  case (snoc e es)
  have IH: "dget (replay_states es) name =
     map_option (\<lambda>e. field ''value'' (ev_data e)) (first_such (is_state name) (rev es))"
    using snoc by (simp add: named_states_def)
  show ?case
  proof (cases "ev_type e = STATE_UPDATED")
    case True
    then obtain t where t: "field ''name'' (ev_data e) = JStr t"
      using snoc.prems by (auto simp: named_states_def split: json.splits)
    with True IH show ?thesis
      unfolding replay_append
      by (auto simp: text_or_empty_def dget_dput is_state_def [of _ e])
  next
    case False
    with IH show ?thesis unfolding replay_append by (simp add: is_state_def [of _ e])
  qed
qed

subsection \<open>Properties\<close>

text \<open>
  C15. A save only ever appends: whatever session the writer holds, stale or not, the events stored
  before it stay where they are in every session, the stored sequence stays numbered 1, 2, 3 and so
  on without a gap, and an event whose id is already stored is not stored again.
\<close>

theorem save_appends_only:
  assumes "save la d s = Inr (d', s')" and "wf_db d" and "distinct (map ev_id (se_events s))"
  shows "wf_db d' \<and> (\<forall>sid. \<exists>new. events d' sid = events d sid @ new
     \<and> set (map ev_id new) \<inter> set (map ev_id (events d sid)) = {})
     \<and> se_events s' = events d' (se_id s)"
proof -
  have "\<exists>new. events d' sid = events d sid @ new \<and> set (map ev_id new) \<inter> set (map ev_id (events d sid)) = {}"
    for sid
    using save_events [OF assms, of sid] additions_ids [of "known_ids d sid" "length (events d sid)" "se_events s"]
    by (auto simp: known_ids_def)
  moreover have "se_events s' = events d' (se_id s)"
    using assms(1) save_events [OF assms, of "se_id s"]
    by (auto simp: save_def Let_def known_ids_def events_def split: option.splits)
  ultimately show ?thesis using save_wf [OF assms] by blast
qed

text \<open>
  Of two writers that expect the same sequence number only one appends: after the first
  succeeds, the second gets a sequence conflict that names the number found, and stores nothing.
\<close>

theorem expected_sequence_excludes_second_writer:
  assumes "lightagent_ok la" and "wf_db d"
    and "append_if_sequence la d sid t1 x1 (Some n) None = Inr (d', e)"
  shows "n = length (events d sid) \<and> events d' sid = events d sid @ [stored_event e]
     \<and> append_if_sequence la d' sid t2 x2 (Some n) None = Inl (SequenceConflict n (n + 1))"
proof -
  have n: "n = length (events d sid)"
    using assms(3) current_events [OF assms(1), of d sid]
    unfolding append_if_sequence_def current_def [symmetric] by (auto simp: Let_def bind_simps)
  then obtain e' d'' where "append_if_sequence la d sid t1 x1 (Some n) None = Inr (d'', e')"
    "events d'' sid = events d sid @ [stored_event e']"
    using append_Inr [OF assms(1,2), of None "Some n" sid t1 x1] by auto
  with assms(3) have ev: "events d' sid = events d sid @ [stored_event e]" by simp
  then have "append_if_sequence la d' sid t2 x2 (Some n) None = Inl (SequenceConflict n (n + 1))"
    using n current_events [OF assms(1), of d' sid]
    unfolding append_if_sequence_def current_def [symmetric] by (simp add: Let_def)
  with n ev show ?thesis by blast
qed

text \<open>
  An append with an idempotency key that redaction leaves alone happens once: repeating it,
  with any data, returns the event of the first time and leaves the database as it is.
\<close>

theorem idempotent_append:
  assumes la: "lightagent_ok la" and wf: "wf_db d" and key: "key \<noteq> []" "redact_text key = key"
    and first: "append_if_sequence la d sid kind x None (Some key) = Inr (d', e)"
  shows "\<exists>e'. append_if_sequence la d' sid kind' y None (Some key) = Inr (d', e')
     \<and> e' \<in> set (events d' sid) \<and> field ''idempotency_key'' (ev_data e') = JStr key"
proof -
  let ?is = "\<lambda>e. field ''idempotency_key'' (ev_data e) = JStr key"
  have "\<exists>e'\<in>set (events d' sid). ?is e'"
  proof (cases "\<exists>e'\<in>set (events d sid). ?is e'")
    case True
    then have "first_such ?is (events d sid) \<noteq> None" by (auto simp: first_such_None_iff)
    then have "d' = d" using first key current_events [OF la, of d sid]
      unfolding append_if_sequence_def current_def [symmetric] by (auto simp: Let_def split: option.splits)
    with True show ?thesis by simp
  next
    case False
    then obtain d2 e2 where "append_if_sequence la d sid kind x None (Some key) = Inr (d2, e2)"
      "ev_data e2 = with_field ''idempotency_key'' (JStr key) (redact_value x)"
      "events d2 sid = events d sid @ [stored_event e2]"
      using append_keyed_Inr [OF la wf key(1), of sid kind x] by auto
    with first have "events d' sid = events d sid @ [stored_event e2]"
      "field ''idempotency_key'' (ev_data (stored_event e2)) = JStr key"
      using key(2) by (simp_all add: stored_event_def field_redact)
    then show ?thesis by auto
  qed
  then obtain e' where e': "first_such ?is (events d' sid) = Some e'"
    using first_such_None_iff [of ?is "events d' sid"] by (cases "first_such ?is (events d' sid)") auto
  then have "append_if_sequence la d' sid kind' y None (Some key) = Inr (d', e')"
    using key current_events [OF la, of d' sid]
    unfolding append_if_sequence_def current_def [symmetric] by (simp add: Let_def)
  with first_such_Some [OF e'] show ?thesis by blast
qed


text \<open>Instances of the properties at a first event of an empty database.\<close>

definition example_data :: json where
  "example_data = JObj [(u ''n'', JInt 1)]"

theorem save_appends_only_witness:
  "\<exists>d' s'. save example_lightagent empty_db (la_new example_lightagent ''r'') = Inr (d', s') \<and> wf_db d'"
proof -
  have "\<exists>d' s'. save example_lightagent empty_db (la_new example_lightagent ''r'') = Inr (d', s')"
    by (simp add: save_def example_lightagent_def Let_def)
  then obtain d' s' where s: "save example_lightagent empty_db (la_new example_lightagent ''r'') = Inr (d', s')"
    by blast
  have "distinct (map ev_id (se_events (la_new example_lightagent ''r'')))"
    by (simp add: example_lightagent_def)
  with save_appends_only [OF s empty_db_wf] s show ?thesis by blast
qed

theorem expected_sequence_excludes_second_writer_witness:
  "\<exists>d' e. append_if_sequence example_lightagent empty_db ''r'' ''t'' example_data (Some 0) None = Inr (d', e)
     \<and> append_if_sequence example_lightagent d' ''r'' ''t'' example_data (Some 0) None
       = Inl (SequenceConflict 0 1)"
proof -
  obtain d' e where a:
    "append_if_sequence example_lightagent empty_db ''r'' ''t'' example_data (Some 0) None = Inr (d', e)"
    using append_Inr [OF example_lightagent_ok empty_db_wf, of None "Some 0" "''r''" "''t''" example_data]
      empty_db_events by auto
  from expected_sequence_excludes_second_writer [OF example_lightagent_ok empty_db_wf a] a
  show ?thesis by auto
qed

theorem idempotent_append_witness:
  "\<exists>d' e e'. append_if_sequence example_lightagent empty_db ''r'' ''t'' example_data None (Some (u ''k1'')) = Inr (d', e)
     \<and> append_if_sequence example_lightagent d' ''r'' ''t'' JNull None (Some (u ''k1'')) = Inr (d', e')"
proof -
  have k: "u ''k1'' \<noteq> []" "redact_text (u ''k1'') = u ''k1''"
    by (simp, rule redact_plain) (simp add: plain_char_def)
  obtain d' e where a: "append_if_sequence example_lightagent empty_db ''r'' ''t'' example_data None (Some (u ''k1'')) = Inr (d', e)"
    using append_keyed_Inr [OF example_lightagent_ok empty_db_wf k(1), of "''r''" "''t''" example_data]
      empty_db_events by auto
  from idempotent_append [OF example_lightagent_ok empty_db_wf k a, of "''t''" JNull] a
  show ?thesis by blast
qed


text \<open>
  A key that looks like a secret does not deduplicate: it is redacted on its way into the store,
  so the second append with it finds no event that carries it and is stored as another event.
\<close>

theorem secret_shaped_key_appends_twice:
  assumes la: "lightagent_ok la" and wf: "wf_db d" and key: "key = u ''AKIA0123456789ABCDEF''"
    and fresh: "events d sid = []"
  shows "\<exists>d1 e1 d2 e2. append_if_sequence la d sid t x None (Some key) = Inr (d1, e1)
     \<and> append_if_sequence la d1 sid t x None (Some key) = Inr (d2, e2) \<and> length (events d2 sid) = 2"
proof -
  have k: "key \<noteq> []" by (simp add: key)
  have r: "redact_text key \<noteq> key" unfolding key by code_simp
  obtain d1 e1 where 1: "append_if_sequence la d sid t x None (Some key) = Inr (d1, e1)" "wf_db d1"
    "ev_data e1 = with_field ''idempotency_key'' (JStr key) (redact_value x)"
    "events d1 sid = [stored_event e1]"
    using append_keyed_Inr [OF la wf k, of sid t x] fresh by auto
  have "field ''idempotency_key'' (ev_data (stored_event e1)) \<noteq> JStr key"
    using 1(3) r by (simp add: stored_event_def field_redact)
  then obtain d2 e2 where "append_if_sequence la d1 sid t x None (Some key) = Inr (d2, e2)"
    "events d2 sid = events d1 sid @ [stored_event e2]"
    using append_keyed_Inr [OF la 1(2) k, of sid t x] 1(4) by auto
  with 1 show ?thesis by force
qed

theorem secret_shaped_key_appends_twice_witness:
  "\<exists>d1 e1 d2 e2. append_if_sequence example_lightagent empty_db ''r'' ''t'' JNull None (Some (u ''AKIA0123456789ABCDEF'')) = Inr (d1, e1)
     \<and> append_if_sequence example_lightagent d1 ''r'' ''t'' JNull None (Some (u ''AKIA0123456789ABCDEF'')) = Inr (d2, e2)
     \<and> length (events d2 ''r'') = 2"
  using secret_shaped_key_appends_twice [OF example_lightagent_ok empty_db_wf refl empty_db_events] by blast

end
