(* ===== verification/Credentials.thy ===== *)
theory Credentials
  imports Policy
begin

text \<open>
  The credential part of \<open>analysis_tools.py\<close>: texts are redacted, and one API key that is given
  together with URLs is bound to the hosts of those URLs in a vault file per root run.
\<close>

subsection \<open>Keys and hosts in a text\<close>

definition findall :: "re \<Rightarrow> pytext \<Rightarrow> pytext list" where
  "findall r t = concat (map (\<lambda>p. case p of Kept c \<Rightarrow> [] | Cut w s \<Rightarrow> [w]) (pieces r [] t))"

definition API_KEY_PATTERN :: re where
  "API_KEY_PATTERN = pattern_sk"

definition URL_PATTERN :: re where
  \<comment> \<open>the last four excluded characters are the full-width comma, full stop, semicolon and the
      enumeration comma\<close>
  "URL_PATTERN = seqs [lit_ci (u ''http''), opt (RChar (ci 115)), lit (u ''://''),
     at_least 1 (\<lambda>c. \<not> is_space c \<and> c \<notin> set (u ''][()<>{}'') \<and> c \<noteq> 34 \<and> c \<noteq> 39
       \<and> c \<notin> {65292, 12290, 65307, 12289})]"

definition url_host :: "pytext \<Rightarrow> pytext" where
  \<comment> \<open>\<open>urlsplit(url).hostname\<close>: the authority without user information and port\<close>
  "url_host url =
     (let rest = tl (dropWhile (\<lambda>c. c \<noteq> 58) url);
          netloc = takeWhile (\<lambda>c. c \<notin> {47, 63, 35}) (drop 2 rest);
          hostport = rev (takeWhile (\<lambda>c. c \<noteq> 64) (rev netloc))
      in lower (takeWhile (\<lambda>c. c \<noteq> 58) hostport))"

definition sanitize_and_capture_credentials ::
  "pytext list \<Rightarrow> pytext list \<times> (pytext, pytext) dict" where
  "sanitize_and_capture_credentials texts =
     (let ks = remdups (concat (map (findall API_KEY_PATTERN) texts));
          hosts = remdups (filter (\<lambda>h. h \<noteq> []) (map url_host (concat (map (findall URL_PATTERN) texts))))
      in (map redact_text texts,
          if length ks = 1 then map (\<lambda>h. (h, hd ks)) hosts else []))"

subsection \<open>The vault\<close>

text \<open>
  The vault has one file per scope, a JSON object of hosts and secrets; a file that does not parse
  is read as an empty one.
\<close>

type_synonym vault = "(pytext, json) dict"

definition SAFE_IDENTIFIER :: "pytext \<Rightarrow> bool" where
  "SAFE_IDENTIFIER s \<longleftrightarrow> s \<noteq> [] \<and> list_all (\<lambda>c. is_alnum c \<or> c = 95 \<or> c = 45) s"

definition vault_merge :: "vault \<Rightarrow> pytext \<Rightarrow> (pytext, pytext) dict \<Rightarrow> vault result" where
  "vault_merge v scope credentials =
     (if credentials = [] then Inr v
      else guardE (\<not> SAFE_IDENTIFIER scope) (ValueError ''unsafe credential scope'')
        (let current = (case dget v scope of Some f \<Rightarrow> entries f | None \<Rightarrow> []);
             merged = fold (\<lambda>(h, s). dput (lower h) (JStr s)) credentials current
         in Inr (dput scope (JObj merged) v)))"

definition vault_get :: "vault \<Rightarrow> pytext \<Rightarrow> pytext \<Rightarrow> pytext option result" where
  "vault_get v scope host =
     guardE (\<not> SAFE_IDENTIFIER scope) (ValueError ''unsafe credential scope'')
       (Inr (case dget v scope of
          None \<Rightarrow> None
        | Some f \<Rightarrow> (case dget (entries f) (lower host) of
            Some (JStr s) \<Rightarrow> if s = [] then None else Some s
          | _ \<Rightarrow> None)))"

subsection \<open>Lemmas\<close>

lemma findall_subset: "w \<in> set (findall r t) \<Longrightarrow> \<exists>ps s qs. pieces r [] t = ps @ Cut w s # qs"
proof -
  assume "w \<in> set (findall r t)"
  then obtain s where "Cut w s \<in> set (pieces r [] t)"
    by (auto simp: findall_def split: piece.splits)
  then show ?thesis by (meson split_list)
qed

lemma findall_infix:
  assumes "w \<in> set (findall r t)"
  shows "\<exists>a b. t = a @ w @ b"
proof -
  obtain ps s qs where "pieces r [] t = ps @ Cut w s # qs" using findall_subset [OF assms] by blast
  then have "t = concat (map source ps) @ w @ concat (map source qs)"
    using pieces_source [of r "[]" t] by simp
  then show ?thesis by blast
qed

lemma lower_idem [simp]: "lower (lower t) = lower t"
  by (simp add: lower_def lower_char_def)

lemma fold_dput_get:
  "dget (fold (\<lambda>(h, s). dput (lower h) (JStr s)) cs d) k =
     (case map_of (rev (map (\<lambda>(h, s). (lower h, JStr s)) cs)) k of Some x \<Rightarrow> Some x | None \<Rightarrow> dget d k)"
  by (induction cs arbitrary: d) (auto simp: map_add_def dget_dput split: option.splits)

text \<open>
  Credentials are captured only when the texts hold exactly one distinct API key. Then the vault
  gives that key for every host that was captured, whatever it held before, and for every other host
  what it gave before; every returned text is the redaction of the text given.
\<close>

theorem captured_key_is_served:
  assumes "sanitize_and_capture_credentials ts = (out, creds)" and "SAFE_IDENTIFIER scope"
    and "vault_merge v scope creds = Inr v'" and "creds \<noteq> []"
  shows "\<exists>key. remdups (concat (map (findall API_KEY_PATTERN) ts)) = [key] \<and> out = map redact_text ts
     \<and> (\<forall>host. vault_get v' scope host = (if lower host \<in> set (dkeys creds)
            then Inr (if key = [] then None else Some key) else vault_get v scope host))"
proof -
  let ?ks = "remdups (concat (map (findall API_KEY_PATTERN) ts))"
  have one: "length ?ks = 1" and out: "out = map redact_text ts"
    using assms(1,4) by (auto simp: sanitize_and_capture_credentials_def Let_def split: if_splits)
  then obtain key where key: "?ks = [key]" by (auto simp: length_Suc_conv)
  have creds: "creds = map (\<lambda>h. (h, key)) (remdups (filter (\<lambda>h. h \<noteq> []) (map url_host (concat (map (findall URL_PATTERN) ts)))))"
    using assms(1) key by (auto simp: sanitize_and_capture_credentials_def Let_def)
  have low: "lower h = h" if "h \<in> set (dkeys creds)" for h
    using that by (auto simp: creds url_host_def Let_def)
  have lows: "rev (map (\<lambda>(h, s). (lower h, JStr s)) creds) = rev (map (\<lambda>(h, s). (h, JStr key)) creds)"
    using low by (auto simp: creds)
  have mo: "map_of (rev (map (\<lambda>(h, s). (h, JStr key)) cs)) k
      = (if k \<in> set (dkeys cs) then Some (JStr key) else None)" for cs :: "(pytext \<times> pytext) list" and k
    by (induction cs) (auto simp: map_add_def split: option.splits)
  define current where "current = (case dget v scope of Some f \<Rightarrow> entries f | None \<Rightarrow> [])"
  have v': "v' = dput scope (JObj (fold (\<lambda>(h, s). dput (lower h) (JStr s)) creds current)) v"
    using assms(2-4) by (simp add: vault_merge_def current_def Let_def)
  have "vault_get v' scope host = (if lower host \<in> set (dkeys creds)
            then Inr (if key = [] then None else Some key) else vault_get v scope host)" for host
    unfolding vault_get_def v' using assms(2) mo [of creds "lower host"]
    by (auto simp: dget_dput fold_dput_get lows current_def split: option.splits)
  with key out show ?thesis by blast
qed

theorem captured_key_is_served_witness:
  "let t = u ''key sk-abcdefghijklmnop1 https://API.example.com/x'';
       creds = snd (sanitize_and_capture_credentials [t])
   in creds \<noteq> [] \<and> (\<exists>v'. vault_merge [] (u ''r1'') creds = Inr v'
        \<and> vault_get v' (u ''r1'') (u ''api.example.com'') = Inr (Some (u ''sk-abcdefghijklmnop1'')))"
proof -
  let ?t = "u ''key sk-abcdefghijklmnop1 https://API.example.com/x''"
  have c: "snd (sanitize_and_capture_credentials [?t]) = [(u ''api.example.com'', u ''sk-abcdefghijklmnop1'')]"
    by code_simp
  have k: "remdups (concat (map (findall API_KEY_PATTERN) [?t])) = [u ''sk-abcdefghijklmnop1'']" by code_simp
  have safe: "SAFE_IDENTIFIER (u ''r1'')" by code_simp
  have low: "lower (u ''api.example.com'') = u ''api.example.com''" by code_simp
  obtain v' where v': "vault_merge [] (u ''r1'') [(u ''api.example.com'', u ''sk-abcdefghijklmnop1'')] = Inr v'"
    using safe by (simp add: vault_merge_def Let_def)
  have s: "sanitize_and_capture_credentials [?t] = (map redact_text [?t], [(u ''api.example.com'', u ''sk-abcdefghijklmnop1'')])"
    using c by (simp add: sanitize_and_capture_credentials_def Let_def)
  have "vault_get v' (u ''r1'') (u ''api.example.com'') = Inr (Some (u ''sk-abcdefghijklmnop1''))"
    using captured_key_is_served [OF s safe v'] k low by auto
  with c v' show ?thesis by (simp add: Let_def)
qed

end
