(* ===== verification/Storage.thy ===== *)
theory Storage
  imports Path_Guard Sessions Credentials
begin

text \<open>
  \<open>storage.py\<close>: the run store. Canonical JSON documents live in the run's session, and the files of
  the run directory are a compatibility copy; everything else is a file. A file that holds JSON is
  kept as the value it parses to. Artifact paths are confined to the run directory. The interface
  \<open>state_cell\<close> is what the stores built on top of it rely on: what is written under a name is what
  is read back, and other names and runs keep their values.
\<close>

subsection \<open>The interface of a named state\<close>

locale state_cell =
  fixes inv :: "'s \<Rightarrow> bool"
    and ok_name :: "'k \<Rightarrow> bool"
    and ok_value :: "json \<Rightarrow> bool"
    and get :: "'s \<Rightarrow> 'k \<Rightarrow> json"
    and put :: "'s \<Rightarrow> 'k \<Rightarrow> json \<Rightarrow> 's result"
  assumes put_ok: "inv s \<Longrightarrow> ok_name k \<Longrightarrow> ok_value v \<Longrightarrow>
      \<exists>s'. put s k v = Inr s' \<and> inv s' \<and> py_eq (get s' k) v \<and> (\<forall>k'. k' \<noteq> k \<longrightarrow> ok_name k' \<longrightarrow> get s' k' = get s k')"
begin

lemma put_succeeds: "inv s \<Longrightarrow> ok_name k \<Longrightarrow> ok_value v \<Longrightarrow> \<exists>s'. put s k v = Inr s'"
  using put_ok by blast

lemma put_get:
  assumes "inv s" "ok_name k" "ok_value v" "put s k v = Inr s'"
  shows "inv s' \<and> py_eq (get s' k) v"
  using put_ok [OF assms(1-3)] assms(4) by auto

lemma put_other:
  assumes "inv s" "ok_name k" "ok_value v" "put s k v = Inr s'" "k' \<noteq> k" "ok_name k'"
  shows "get s' k' = get s k'"
  using put_ok [OF assms(1-3)] assms(4-6) by auto

lemma put_put:
  \<comment> \<open>a second write replaces the first\<close>
  assumes "inv s" "ok_name k" "ok_value v" "ok_value w" "put s k v = Inr s1" "put s1 k w = Inr s2"
  shows "inv s2 \<and> py_eq (get s2 k) w"
  using put_get [OF assms(1-3,5)] put_get [of s1 k w s2] assms(2,4,6) by blast

end

subsection \<open>The store\<close>

datatype stored_file = FText pytext | FJson json

record rstore =
  rs_la :: lightagent
  rs_db :: db
  rs_files :: "(string \<times> pytext list, stored_file) dict"
  rs_vault :: vault

definition safe_identifier_char :: "char \<Rightarrow> bool" where
  "safe_identifier_char c \<longleftrightarrow> is_alnum (of_char c) \<or> c = CHR ''-'' \<or> c = CHR ''_''"

definition safe_identifier :: "string \<Rightarrow> string result" where
  "safe_identifier v =
     guardE (v = [] \<or> list_ex (\<lambda>c. \<not> safe_identifier_char c) v)
       (ValueError ''identifier contains unsafe characters'') (Inr v)"

definition run_dir :: "string \<Rightarrow> pytext list result" where
  \<comment> \<open>the components below \<open>runs_dir\<close>\<close>
  "run_dir run = bindE (safe_identifier run) (\<lambda>safe. Inr [u safe])"

definition artifact_path :: "string \<Rightarrow> pytext \<Rightarrow> pytext list result" where
  "artifact_path run name =
     guardE (is_absolute name \<or> dotdot \<in> set (path_parts name))
       (ValueError ''artifact name must be a safe relative path'')
       (bindE (run_dir run) (\<lambda>d. Inr (d @ path_parts name)))"

definition CANONICAL_NAMES :: "pytext list" where
  "CANONICAL_NAMES = map u [''run.json'', ''goal.json'', ''control.json'', ''approvals.json'',
     ''agent-tree.json'', ''working-memory.json'', ''tool-manifest.json'', ''plan.json'',
     ''review-decision.json'', ''jobs.json'', ''evidence.json'', ''artifacts.json'', ''agents.json'',
     ''providers.json'', ''provider-health.json'', ''schedules.json'', ''context-state.json'',
     ''plugin-lock.json'', ''workflow-state.json'', ''workflow-tool-resume.json'',
     ''code-state.json'', ''task-request.json'']"

definition canonical_json :: "pytext \<Rightarrow> bool" where
  "canonical_json name \<longleftrightarrow> starts_with (u ''flow/'') name \<or> name \<in> set CANONICAL_NAMES"

definition state_of :: "rstore \<Rightarrow> string \<Rightarrow> pytext \<Rightarrow> json" where
  \<comment> \<open>\<open>session(run_id).state(name)\<close>\<close>
  "state_of s run name = state (rs_db s) run name"

definition put_state :: "rstore \<Rightarrow> string \<Rightarrow> pytext \<Rightarrow> json \<Rightarrow> rstore result" where
  \<comment> \<open>\<open>session(run_id).set_state(name, value)\<close>\<close>
  "put_state s run name v =
     bindE (safe_identifier run) (\<lambda>_.
       bindE (set_state (rs_la s) (rs_db s) run name v) (\<lambda>d. Inr (s\<lparr>rs_db := d\<rparr>)))"

definition put_file :: "rstore \<Rightarrow> string \<Rightarrow> pytext \<Rightarrow> stored_file \<Rightarrow> rstore result" where
  \<comment> \<open>\<open>_atomic_write\<close> to the artifact path\<close>
  "put_file s run name f =
     bindE (artifact_path run name) (\<lambda>p. Inr (s\<lparr>rs_files := dput (run, path_parts name) f (rs_files s)\<rparr>))"

definition ARTIFACT_STATES :: "pytext list" where
  "ARTIFACT_STATES = map u [''summary.md'', ''changes.patch'', ''plan.md'', ''git-status.txt'']"

definition write_text :: "rstore \<Rightarrow> string \<Rightarrow> pytext \<Rightarrow> pytext \<Rightarrow> rstore result" where
  "write_text s run name t =
     bindE (put_file s run name (FText t)) (\<lambda>s.
       if name \<in> set ARTIFACT_STATES then put_state s run (u ''artifact:'' @ name) (JStr t) else Inr s)"

definition append_text :: "rstore \<Rightarrow> string \<Rightarrow> pytext \<Rightarrow> pytext \<Rightarrow> rstore result" where
  "append_text s run name t =
     bindE (artifact_path run name) (\<lambda>p.
       let old = (case dget (rs_files s) (run, path_parts name) of
             None \<Rightarrow> [] | Some (FText x) \<Rightarrow> x | Some (FJson v) \<Rightarrow> dumps_default v)
       in Inr (s\<lparr>rs_files := dput (run, path_parts name) (FText (old @ t)) (rs_files s)\<rparr>))"

definition write_json :: "rstore \<Rightarrow> string \<Rightarrow> pytext \<Rightarrow> json \<Rightarrow> rstore result" where
  "write_json s run name v =
     bindE (if canonical_json name then put_state s run name v else Inr s) (\<lambda>s.
       bindE (put_file s run name (FJson v)) (\<lambda>s.
         if name \<in> set ARTIFACT_STATES
         then put_state s run (u ''artifact:'' @ name) (JStr (dumps_default v)) else Inr s))"

definition file_json :: "rstore \<Rightarrow> string \<Rightarrow> pytext \<Rightarrow> json result" where
  \<comment> \<open>\<open>json.loads(self.artifact_path(run_id, name).read_text())\<close>\<close>
  "file_json s run name =
     bindE (artifact_path run name) (\<lambda>p.
       case dget (rs_files s) (run, path_parts name) of
         None \<Rightarrow> Inl FileNotFoundError
       | Some (FText t) \<Rightarrow> Inl (ValueError ''invalid JSON'')
       | Some (FJson v) \<Rightarrow> Inr v)"

definition read_json :: "rstore \<Rightarrow> string \<Rightarrow> pytext \<Rightarrow> (rstore \<times> json) result" where
  \<comment> \<open>a canonical document that is only a file yet is imported into the session\<close>
  "read_json s run name =
     (if canonical_json name then
        bindE (safe_identifier run) (\<lambda>_.
          if state_of s run name \<noteq> JNull then Inr (s, state_of s run name)
          else bindE (file_json s run name) (\<lambda>v. bindE (put_state s run name v) (\<lambda>s'. Inr (s', v))))
      else bindE (file_json s run name) (\<lambda>v. Inr (s, v)))"

subsection \<open>Run records\<close>

definition RUN_STATUSES :: "pytext list" where
  "RUN_STATUSES = map u [''created'', ''preparing'', ''running'', ''succeeded'', ''needs_attention'',
     ''failed'', ''interrupted'', ''paused'', ''waiting_input'', ''waiting_approval'',
     ''budget_limited'', ''cancelled'']"

definition is_str :: "json \<Rightarrow> bool" where
  "is_str v = (case v of JStr _ \<Rightarrow> True | _ \<Rightarrow> False)"

definition run_record_valid :: "json \<Rightarrow> bool" where
  \<comment> \<open>the fields of \<open>RunRecord\<close> that have no default, and the status enumeration\<close>
  "run_record_valid v \<longleftrightarrow> is_obj v \<and> is_str (field ''run_id'' v) \<and> is_str (field ''task'' v)
     \<and> is_str (field ''repo'' v)
     \<and> (dget (entries v) (u ''status'') = None \<or> text_or_empty (field ''status'' v) \<in> set RUN_STATUSES)"

definition save_run :: "rstore \<Rightarrow> pytext \<Rightarrow> json \<Rightarrow> rstore result" where
  "save_run s now record =
     (let (sanitized, credentials) = sanitize_and_capture_credentials [text_or_empty (field ''task'' record)];
          run = text_or_empty (field ''run_id'' record);
          root = field ''root_run_id'' (field ''task_spec'' (field ''metadata'' record));
          scope = (if truthy root then text_or_empty root else run)
      in bindE (vault_merge (rs_vault s) scope credentials) (\<lambda>v.
           let record = (if credentials = [] then record
                 else with_field ''metadata'' (redact_value (field ''metadata'' record))
                   (with_field ''task'' (JStr (hd sanitized)) record));
               record = with_field ''updated_at'' (JStr now) record
           in write_json (s\<lparr>rs_vault := v\<rparr>) (map char_of run) (u ''run.json'') record))"

definition create_run :: "rstore \<Rightarrow> pytext \<Rightarrow> json \<Rightarrow> rstore result" where
  "create_run s now record =
     (let run = map char_of (text_or_empty (field ''run_id'' record))
      in bindE (run_dir run) (\<lambda>_.
           guardE (state_of s run (u ''run.json'') \<noteq> JNull
               \<or> dget (rs_files s) (run, path_parts (u ''run.json'')) \<noteq> None)
             (FileExistsError ''run already exists'') (save_run s now record)))"

definition load_run :: "rstore \<Rightarrow> string \<Rightarrow> (rstore \<times> json) result" where
  "load_run s run =
     bindE (read_json s run (u ''run.json'')) (\<lambda>(s, v).
       guardE (\<not> run_record_valid v) (ValueError ''invalid run record'') (Inr (s, v)))"

definition update_status ::
  "rstore \<Rightarrow> pytext \<Rightarrow> string \<Rightarrow> pytext \<Rightarrow> json \<Rightarrow> json \<Rightarrow> rstore result" where
  "update_status s now run status step error =
     bindE (load_run s run) (\<lambda>(s, r).
       save_run s now (with_field ''error'' error (with_field ''current_step'' step
         (with_field ''status'' (JStr status) r))))"

definition run_identities :: "rstore \<Rightarrow> string list" where
  \<comment> \<open>the runs that have a \<open>run.json\<close> file or a session event that names it, sorted\<close>
  "run_identities s = sort_key u (remdups
     (map fst (filter (\<lambda>k. snd k = path_parts (u ''run.json'')) (dkeys (rs_files s)))
      @ map er_session (filter (\<lambda>r. field ''name'' (ev_data (er_payload r)) = JStr (u ''run.json''))
          (db_events (rs_db s)))))"

fun load_all :: "rstore \<Rightarrow> string list \<Rightarrow> rstore \<times> json list" where
  \<comment> \<open>runs that do not load are skipped\<close>
  "load_all s [] = (s, [])"
| "load_all s (run # runs) =
     (case load_run s run of
        Inl _ \<Rightarrow> load_all s runs
      | Inr (s', v) \<Rightarrow> (let (s'', vs) = load_all s' runs in (s'', v # vs)))"

definition list_runs :: "rstore \<Rightarrow> rstore \<times> json list" where
  "list_runs s =
     (let (s', vs) = load_all s (run_identities s)
      in (s', rev (sort_key (\<lambda>v. text_or_empty (field ''created_at'' v)) (rev vs))))"

definition load_flow :: "rstore \<Rightarrow> string \<Rightarrow> (rstore \<times> json) result" where
  \<comment> \<open>\<open>SessionFlowStore.load_run\<close>: a missing flow record is \<open>None\<close>\<close>
  "load_flow s run =
     (case read_json s run (u ''flow/'' @ u run @ u ''.json'') of
        Inl FileNotFoundError \<Rightarrow> Inr (s, JNull)
      | r \<Rightarrow> r)"

definition save_flow :: "rstore \<Rightarrow> string \<Rightarrow> json \<Rightarrow> rstore result" where
  "save_flow s run v = write_json s run (u ''flow/'' @ u run @ u ''.json'') v"

subsection \<open>Lemmas\<close>

lemma slash_char: "of_char c = slash \<Longrightarrow> \<not> safe_identifier_char c"
  by (auto simp: safe_identifier_char_def is_alnum_def is_digit_def is_upper_def is_lower_def slash_def)

lemma safe_identifier_Inr:
  "safe_identifier run = Inr x \<longleftrightarrow> x = run \<and> run \<noteq> [] \<and> list_all safe_identifier_char run"
  by (auto simp: safe_identifier_def bind_simps list_ex_iff list_all_iff)

lemma dot_char: "of_char c = (46::int) \<Longrightarrow> \<not> safe_identifier_char c"
  by (auto simp: safe_identifier_char_def is_alnum_def is_digit_def is_upper_def is_lower_def)

lemma safe_identifier_component:
  assumes "safe_identifier run = Inr x"
  shows "safe_component (u run)"
proof -
  have r: "run \<noteq> []" "list_all safe_identifier_char run" using assms safe_identifier_Inr by auto
  have "slash \<notin> set (u run)"
    using r(2) slash_char by (auto simp: u_def list_all_iff)
  moreover have "46 \<notin> set (u run)" using r(2) dot_char by (auto simp: u_def list_all_iff)
  then have "u run \<noteq> dotdot" by (auto simp: dotdot_def)
  moreover have "u run \<noteq> []" using r(1) by (simp add: u_def)
  ultimately show ?thesis by (simp add: safe_component_def)
qed

lemma artifact_path_Inr:
  "artifact_path run name = Inr p \<longleftrightarrow> \<not> is_absolute name \<and> dotdot \<notin> set (path_parts name)
     \<and> run \<noteq> [] \<and> list_all safe_identifier_char run \<and> p = u run # path_parts name"
  by (auto simp: artifact_path_def run_dir_def bind_simps safe_identifier_Inr)

interpretation artifact: path_guard "\<lambda>x. [u (fst x)]" "\<lambda>x. artifact_path (fst x) (snd x)"
proof unfold_locales
  fix x :: "string \<times> pytext" and p
  assume p: "artifact_path (fst x) (snd x) = Inr p"
  then have s: "safe_identifier (fst x) = Inr (fst x)" by (simp add: artifact_path_Inr safe_identifier_Inr)
  from p show "\<exists>ws. p = [u (fst x)] @ ws \<and> list_all safe_component ws"
    using path_parts_safe by (auto simp: artifact_path_Inr)
  show "list_all safe_component [u (fst x)]" using safe_identifier_component [OF s] by simp
qed

definition store_inv :: "rstore \<Rightarrow> bool" where
  "store_inv s \<longleftrightarrow> lightagent_ok (rs_la s) \<and> wf_db (rs_db s)"

definition ok_doc :: "string \<times> pytext \<Rightarrow> bool" where
  \<comment> \<open>a canonical document of a run, with a name that redaction leaves alone\<close>
  "ok_doc k \<longleftrightarrow> fst k \<noteq> [] \<and> list_all safe_identifier_char (fst k) \<and> snd k \<in> set CANONICAL_NAMES"

lemma canonical_names_plain:
  "name \<in> set CANONICAL_NAMES \<Longrightarrow> redact_text name = name \<and> canonical_json name
     \<and> \<not> is_absolute name \<and> dotdot \<notin> set (path_parts name) \<and> name \<notin> set ARTIFACT_STATES"
proof -
  have "list_all (\<lambda>name. redact_text name = name \<and> canonical_json name
     \<and> \<not> is_absolute name \<and> dotdot \<notin> set (path_parts name) \<and> name \<notin> set ARTIFACT_STATES) CANONICAL_NAMES"
    by code_simp
  then show "name \<in> set CANONICAL_NAMES \<Longrightarrow> ?thesis" by (simp add: list_all_iff)
qed

lemma write_json_doc:
  assumes inv: "store_inv s" and ok: "ok_doc (run, name)" and v: "settled v"
  shows "\<exists>s'. write_json s run name v = Inr s' \<and> store_inv s' \<and> py_eq (state_of s' run name) v
     \<and> (\<forall>run' name'. (run', name') \<noteq> (run, name) \<longrightarrow> state_of s' run' name' = state_of s run' name')
     \<and> rs_la s' = rs_la s \<and> rs_vault s' = rs_vault s"
proof -
  have n: "redact_text name = name" "canonical_json name" "\<not> is_absolute name"
    "dotdot \<notin> set (path_parts name)" "name \<notin> set ARTIFACT_STATES"
    using canonical_names_plain ok by (auto simp: ok_doc_def)
  have rv: "redact_value v = v" using v by (simp add: settled_def)
  obtain d where d: "set_state (rs_la s) (rs_db s) run name v = Inr d" "wf_db d"
    "py_eq (state d run name) (redact_value v)"
    "\<forall>other. other \<noteq> name \<longrightarrow> state d run other = state (rs_db s) run other"
    "\<forall>run'. run' \<noteq> run \<longrightarrow> events d run' = events (rs_db s) run'"
    using set_state_Inr [of "rs_la s" "rs_db s" name v run] inv n(1) v
    by (auto simp: store_inv_def settled_def)
  have r: "safe_identifier run = Inr run" using ok by (simp add: ok_doc_def safe_identifier_Inr)
  have a: "artifact_path run name = Inr (u run # path_parts name)"
    using ok n by (simp add: artifact_path_Inr ok_doc_def)
  have "write_json s run name v =
      Inr (s\<lparr>rs_db := d, rs_files := dput (run, path_parts name) (FJson v) (rs_files s)\<rparr>)"
    using n d(1) r a by (simp add: write_json_def put_state_def put_file_def)
  moreover have "state d run' name' = state (rs_db s) run' name'" if "(run', name') \<noteq> (run, name)" for run' name'
    using d(4,5) that state_only_depends [of d run' "rs_db s" name'] by (cases "run' = run") auto
  ultimately show ?thesis using d rv inv by (auto simp: store_inv_def state_of_def)
qed

interpretation docs: state_cell store_inv ok_doc settled
  "\<lambda>s k. state_of s (fst k) (snd k)" "\<lambda>s k v. write_json s (fst k) (snd k) v"
proof unfold_locales
  fix s k v
  assume "store_inv s" "ok_doc k" "settled v"
  with write_json_doc [of s "fst k" "snd k" v]
  show "\<exists>s'. write_json s (fst k) (snd k) v = Inr s' \<and> store_inv s'
     \<and> py_eq (state_of s' (fst k) (snd k)) v
     \<and> (\<forall>k'. k' \<noteq> k \<longrightarrow> ok_doc k' \<longrightarrow> state_of s' (fst k') (snd k') = state_of s (fst k') (snd k'))"
    by fastforce
qed

lemma norm_null: "py_eq v JNull \<longleftrightarrow> v = JNull"
  by (cases v) (auto simp: py_eq_def)

lemma read_json_state:
  assumes "ok_doc (run, name)" and "state_of s run name \<noteq> JNull"
  shows "read_json s run name = Inr (s, state_of s run name)"
proof -
  have "safe_identifier run = Inr run" "canonical_json name"
    using assms(1) canonical_names_plain by (auto simp: ok_doc_def safe_identifier_Inr)
  with assms(2) show ?thesis by (simp add: read_json_def)
qed

subsection \<open>Properties\<close>

text \<open>
  An artifact path stays in its run: following the components of an accepted path from the runs
  directory, double dots and all, ends at that path, below the directory named by the run, and the
  paths of two runs never meet.
\<close>

theorem artifact_paths_confined:
  assumes "artifact_path run name = Inr p"
  shows "resolve_from [] p = p \<and> take 1 p = [u run] \<and> list_all safe_component p
     \<and> (\<forall>run' name' q. artifact_path run' name' = Inr q \<and> run' \<noteq> run \<longrightarrow> q \<noteq> p)"
  using artifact.resolves_to_itself [of "(run, name)" p] artifact.confined [of "(run, name)" p]
    artifact.accepted_components [of "(run, name)" p] assms
    artifact.distinct_roots [of "(run, name)" p "(_, _)"]
  by auto

theorem artifact_paths_confined_witness:
  "artifact_path ''r1'' (u ''logs/./a.log'') = Inr [u ''r1'', u ''logs'', u ''a.log'']
     \<and> resolve_from [] [u ''r1'', u ''logs'', u ''a.log''] = [u ''r1'', u ''logs'', u ''a.log'']"
proof -
  have a: "artifact_path ''r1'' (u ''logs/./a.log'') = Inr [u ''r1'', u ''logs'', u ''a.log'']" by code_simp
  from artifact_paths_confined [OF a] a show ?thesis by simp
qed

text \<open>
  C35. A canonical document is read back as it was written: after writing a value that redaction
  leaves alone, reading the document gives an equal value and changes nothing, and every other
  document of every run keeps its value.
\<close>

theorem document_round_trip:
  assumes "store_inv s" and "ok_doc (run, name)" and "settled v" and "v \<noteq> JNull"
  shows "\<exists>s' w. write_json s run name v = Inr s' \<and> store_inv s' \<and> read_json s' run name = Inr (s', w)
     \<and> py_eq w v \<and> (\<forall>run' name'. (run', name') \<noteq> (run, name) \<longrightarrow> state_of s' run' name' = state_of s run' name')"
proof -
  obtain s' where s': "write_json s run name v = Inr s'" "store_inv s'" "py_eq (state_of s' run name) v"
    "\<forall>run' name'. (run', name') \<noteq> (run, name) \<longrightarrow> state_of s' run' name' = state_of s run' name'"
    using write_json_doc [OF assms(1-3)] by blast
  have "state_of s' run name \<noteq> JNull" using s'(3) assms(4) norm_null py_eq_sym by metis
  with s' read_json_state [OF assms(2)] show ?thesis by blast
qed

definition example_store :: rstore where
  "example_store = \<lparr>rs_la = example_lightagent, rs_db = empty_db, rs_files = [], rs_vault = []\<rparr>"

lemma example_store_inv: "store_inv example_store"
  by (simp add: store_inv_def example_store_def example_lightagent_ok empty_db_wf)

theorem document_round_trip_witness:
  "\<exists>s' w. write_json example_store ''r1'' (u ''goal.json'') (JObj [(u ''n'', JInt 1)]) = Inr s'
     \<and> read_json s' ''r1'' (u ''goal.json'') = Inr (s', w) \<and> py_eq w (JObj [(u ''n'', JInt 1)])"
proof -
  have "ok_doc (''r1'', u ''goal.json'')" by code_simp
  moreover have "settled (JObj [(u ''n'', JInt 1)])" by (simp add: settled_def)
  ultimately show ?thesis
    using document_round_trip [OF example_store_inv, of "''r1''" "u ''goal.json''" "JObj [(u ''n'', JInt 1)]"] by blast
qed

text \<open>
  A key in a task without a URL reaches the disk: no credential is bound, so saving the run skips
  the redaction of the record, the session gets a redacted copy, and the file \<open>run.json\<close> holds the
  task with the key in clear.
\<close>

definition leaky_record :: json where
  "leaky_record = JObj [(u ''run_id'', JStr (u ''r1'')), (u ''task'', JStr (u ''use sk-abcdefghijklmnop1'')),
     (u ''metadata'', JObj [])]"

definition file_task :: "rstore \<Rightarrow> json" where
  "file_task s = (case dget (rs_files s) (''r1'', path_parts (u ''run.json'')) of
     Some (FJson v) \<Rightarrow> field ''task'' v | _ \<Rightarrow> JNull)"

theorem unbound_key_saved_in_clear:
  "case save_run example_store (u ''now'') leaky_record of
     Inr s \<Rightarrow> field ''task'' (state_of s ''r1'' (u ''run.json'')) = JStr (u ''use [redacted]'')
       \<and> file_task s = JStr (u ''use sk-abcdefghijklmnop1'')
   | Inl _ \<Rightarrow> False"
  by code_simp

end
