(* ===== verification/Lease.thy ===== *)
theory Lease
  imports Prelude
begin

text \<open>
  The interface of epoch-fenced leases, which background jobs and schedules share. A claim hands out
  the next epoch of its item, no step ever lowers an epoch, and publishing under an epoch is refused
  unless it is the item's current one. What the fence gives is proved once here: whoever claimed first
  can publish nothing once anybody else has claimed, whatever happens in between.
\<close>

locale fenced_lease =
  fixes inv :: "'s \<Rightarrow> bool"
    and epoch :: "'s \<Rightarrow> 'k \<Rightarrow> nat"
    and step :: "'s \<Rightarrow> 's \<Rightarrow> bool"
    and claims :: "'s \<Rightarrow> 'k \<Rightarrow> nat \<Rightarrow> 's \<Rightarrow> bool"
    and publishes :: "'s \<Rightarrow> 'k \<Rightarrow> nat \<Rightarrow> 's \<Rightarrow> bool"
  assumes step_inv: "inv s \<Longrightarrow> step s s' \<Longrightarrow> inv s'"
    and step_epoch: "inv s \<Longrightarrow> step s s' \<Longrightarrow> epoch s k \<le> epoch s' k"
    and claims_step: "inv s \<Longrightarrow> claims s k e s' \<Longrightarrow> step s s'"
    and claims_epoch: "inv s \<Longrightarrow> claims s k e s' \<Longrightarrow> e = epoch s k + 1 \<and> epoch s' k = e"
    and publishes_epoch: "inv s \<Longrightarrow> publishes s k e s' \<Longrightarrow> epoch s k = e"
begin

lemma steps_inv: "step\<^sup>*\<^sup>* s s' \<Longrightarrow> inv s \<Longrightarrow> inv s'"
  by (induction rule: rtranclp_induct) (auto intro: step_inv)

lemma steps_epoch: "step\<^sup>*\<^sup>* s s' \<Longrightarrow> inv s \<Longrightarrow> epoch s k \<le> epoch s' k"
proof (induction rule: rtranclp_induct)
  case (step y z)
  then show ?case using step_epoch [of y z k] steps_inv [of s y] by simp
qed simp

lemma later_claim_higher:
  assumes "inv s" "claims s k e s1" "step\<^sup>*\<^sup>* s1 s2" "claims s2 k e' s3"
  shows "e < e'"
proof -
  have s1: "inv s1" using assms(1,2) claims_step step_inv by blast
  have "epoch s1 k \<le> epoch s2 k" using steps_epoch [OF assms(3) s1] .
  moreover have "epoch s1 k = e" using claims_epoch [OF assms(1,2)] by blast
  moreover have "e' = epoch s2 k + 1" using claims_epoch [OF steps_inv [OF assms(3) s1] assms(4)] by blast
  ultimately show ?thesis by simp
qed

lemma stale_never_publishes:
  assumes "inv s" "claims s k e s1" "step\<^sup>*\<^sup>* s1 s2" "claims s2 k e' s3" "step\<^sup>*\<^sup>* s3 s4"
  shows "\<not> publishes s4 k e s5"
proof
  assume p: "publishes s4 k e s5"
  have s1: "inv s1" using assms(1,2) claims_step step_inv by blast
  have s2: "inv s2" using steps_inv [OF assms(3) s1] .
  have s3: "inv s3" using s2 assms(4) claims_step step_inv by blast
  have s4: "inv s4" using steps_inv [OF assms(5) s3] .
  have "e < e'" using later_claim_higher [OF assms(1-4)] .
  moreover have "e' \<le> epoch s4 k" using claims_epoch [OF s2 assms(4)] steps_epoch [OF assms(5) s3, of k] by simp
  moreover have "epoch s4 k = e" using publishes_epoch [OF s4 p] .
  ultimately show False by simp
qed

lemma at_most_one_epoch_publishes:
  \<comment> \<open>two publications from one state carry the same epoch\<close>
  "inv s \<Longrightarrow> publishes s k e s' \<Longrightarrow> publishes s k e' s'' \<Longrightarrow> e = e'"
  using publishes_epoch by blast

end

end
