(* ===== verification/Jobs.thy ===== *)
theory Jobs
  imports Lease Policy
begin

text \<open>
  \<open>jobs.py\<close>: background jobs with lease epochs and cooperative cancellation. The registry is the
  document \<open>jobs.json\<close> (the jobs in creation order), the job events it has appended, the log files
  of the jobs, and the kinds with a registered handler in this process. Every operation runs in one
  store transaction, so an operation that raises leaves the registry as it was; each reads the clock
  once. Identifiers are not changed by redaction; the texts and values of a job are redacted when it
  is saved, and those already stored are not touched again.
\<close>

subsection \<open>Jobs and the registry\<close>

datatype jstatus = Pending | Running | Paused | Interrupted | Completed | Failed | Cancelled

record job =
  j_id :: string
  j_kind :: string
  j_payload :: json
  j_status :: jstatus
  j_agent :: "string option"
  j_parent :: "string option"
  j_epoch :: nat
  j_until :: time
  j_owner :: "string option"
  j_pid :: nat
  j_created :: time
  j_output :: "(nat \<times> json) list"
  j_cursor :: nat
  j_result :: json
  j_error :: "pytext option"
  j_key :: "pytext option"

record registry =
  r_jobs :: "(string, job) dict"
  r_events :: "(string \<times> string) list"
  r_logs :: "(string \<times> pytext) list"
  r_handlers :: "string list"

definition TERMINAL :: "jstatus set" where
  "TERMINAL = {Completed, Failed, Cancelled}"

definition stored_job :: "job \<Rightarrow> job" where
  \<comment> \<open>a job as the document holds it\<close>
  "stored_job j = j\<lparr>j_payload := redact_value (j_payload j),
     j_output := map (\<lambda>(c, v). (c, redact_value v)) (j_output j),
     j_result := redact_value (j_result j), j_error := map_option redact_text (j_error j),
     j_key := map_option redact_text (j_key j)\<rparr>"

definition save_job :: "string \<Rightarrow> job \<Rightarrow> registry \<Rightarrow> registry" where
  \<comment> \<open>\<open>_save\<close> after one job changed: the document is rewritten, the event names the job\<close>
  "save_job ev j r = r\<lparr>
     r_jobs := dput (j_id j) (stored_job j) (r_jobs r),
     r_events := r_events r @ [(ev, j_id j)]\<rparr>"

definition get_job :: "registry \<Rightarrow> string \<Rightarrow> job result" where
  "get_job r i = (case dget (r_jobs r) i of None \<Rightarrow> Inl (KeyError i) | Some j \<Rightarrow> Inr j)"

definition new_job ::
  "string \<Rightarrow> string \<Rightarrow> json \<Rightarrow> string option \<Rightarrow> string option \<Rightarrow> pytext option \<Rightarrow> nat \<Rightarrow> time \<Rightarrow> job" where
  "new_job i kind payload agent parent key pid now = \<lparr>j_id = i, j_kind = kind,
     j_payload = redact_value payload, j_status = Pending, j_agent = agent, j_parent = parent,
     j_epoch = 0, j_until = 0, j_owner = None, j_pid = pid, j_created = now, j_output = [],
     j_cursor = 0, j_result = JNull, j_error = None, j_key = key\<rparr>"

definition create_job ::
  "registry \<Rightarrow> string \<Rightarrow> string \<Rightarrow> json \<Rightarrow> string option \<Rightarrow> string option \<Rightarrow> pytext option \<Rightarrow> nat \<Rightarrow> time
     \<Rightarrow> registry \<times> job" where
  \<comment> \<open>the new identifier comes from \<open>uuid4\<close>\<close>
  "create_job r i kind payload agent parent key pid now =
     (let existing = (if key \<notin> {None, Some []}
            then first_such (\<lambda>j. j_key j = key) (dvals (r_jobs r)) else None)
      in case existing of
           Some j \<Rightarrow> (r, j)
         | None \<Rightarrow> (let j = new_job i kind payload agent parent key pid now
                   in (save_job ''job.created'' j r, j)))"

definition claim :: "registry \<Rightarrow> string \<Rightarrow> string \<Rightarrow> nat \<Rightarrow> time \<Rightarrow> time \<Rightarrow> (registry \<times> job option) result" where
  "claim r me i pid lease now =
     bindE (get_job r i) (\<lambda>j.
       if j_status j = Running \<and> j_until j > now then Inr (r, None)
       else if j_status j \<notin> {Pending, Interrupted, Paused, Running} then Inr (r, None)
       else (let j = j\<lparr>j_status := Running, j_owner := Some me, j_pid := pid,
                   j_epoch := j_epoch j + 1, j_until := now + lease\<rparr>
             in Inr (save_job ''job.started'' j r, Some j)))"

definition fenced :: "job \<Rightarrow> string \<Rightarrow> nat \<Rightarrow> time \<Rightarrow> bool" where
  \<comment> \<open>the condition under which \<open>_fence\<close> and \<open>renew\<close> raise\<close>
  "fenced j me e now \<longleftrightarrow> j_status j \<noteq> Running \<or> j_epoch j \<noteq> e \<or> j_owner j \<noteq> Some me \<or> j_until j < now"

definition renew :: "registry \<Rightarrow> string \<Rightarrow> string \<Rightarrow> nat \<Rightarrow> time \<Rightarrow> time \<Rightarrow> registry result" where
  "renew r me i e lease now =
     bindE (get_job r i) (\<lambda>j.
       guardE (fenced j me e now) (JobInterrupted ''stale job lease'')
         (Inr (r\<lparr>r_jobs := dput i (j\<lparr>j_until := now + lease\<rparr>) (r_jobs r)\<rparr>)))"

definition rendered :: "json \<Rightarrow> pytext" where
  "rendered v = (case v of JStr t \<Rightarrow> t | _ \<Rightarrow> dumps_default v)"

definition output_item :: "json \<Rightarrow> json" where
  "output_item v =
     (if length (rendered v) > 4096
      then JStr (redact_text (take 4096 (rendered v)) @ [8230] @ u ''[full output in job log]'')
      else redact_value v)"

definition last_n :: "nat \<Rightarrow> 'a list \<Rightarrow> 'a list" where
  \<comment> \<open>\<open>xs[-n:]\<close> for a positive \<open>n\<close>\<close>
  "last_n n xs = drop (length xs - n) xs"

definition publish_output :: "registry \<Rightarrow> string \<Rightarrow> string \<Rightarrow> json \<Rightarrow> nat \<Rightarrow> time \<Rightarrow> registry result" where
  "publish_output r me i v e now =
     bindE (get_job r i) (\<lambda>j.
       guardE (fenced j me e now) (JobInterrupted ''stale job cannot publish output or completion'')
         (let cursor = j_cursor j + 1;
              j = j\<lparr>j_output := last_n 64 (j_output j @ [(cursor, output_item v)]), j_cursor := cursor\<rparr>
          in Inr (save_job ''job.output'' j
               (r\<lparr>r_logs := r_logs r @ [(i, redact_text (rendered v) @ [10])]\<rparr>))))"

definition finish ::
  "registry \<Rightarrow> string \<Rightarrow> string \<Rightarrow> nat \<Rightarrow> json \<Rightarrow> pytext option \<Rightarrow> time \<Rightarrow> registry result" where
  "finish r me i e res err now =
     bindE (get_job r i) (\<lambda>j.
       guardE (fenced j me e now) (JobInterrupted ''stale job cannot publish output or completion'')
         (let bad = (err \<notin> {None, Some []});
              j = j\<lparr>j_status := if bad then Failed else Completed, j_result := redact_value res,
                j_error := if bad then err else None\<rparr>
          in Inr (save_job (if bad then ''job.failed'' else ''job.completed'') j r)))"

subsection \<open>Pause, resume, cancel\<close>

datatype jaction = Pause | Resume | Cancel

fun action_of :: "string \<Rightarrow> jaction option" where
  "action_of a = (if a = ''pause'' then Some Pause else if a = ''cancel'' then Some Cancel
     else if a = ''resume'' then Some Resume else None)"

fun target :: "jaction \<Rightarrow> jstatus" where
  "target Pause = Paused"
| "target Cancel = Cancelled"
| "target Resume = Pending"

fun status_name :: "jstatus \<Rightarrow> string" where
  "status_name Pending = ''pending''"
| "status_name Running = ''running''"
| "status_name Paused = ''paused''"
| "status_name Interrupted = ''interrupted''"
| "status_name Completed = ''completed''"
| "status_name Failed = ''failed''"
| "status_name Cancelled = ''cancelled''"

definition control_one :: "registry \<Rightarrow> string \<Rightarrow> jaction \<Rightarrow> registry result" where
  \<comment> \<open>the change to the job itself\<close>
  "control_one r i a =
     bindE (get_job r i) (\<lambda>j.
       guardE (j_status j \<in> TERMINAL) (ValueError ''terminal job cannot be controlled'')
       (guardE (a = Resume \<and> j_status j \<notin> {Paused, Interrupted})
          (ValueError ''only paused/interrupted jobs can resume'')
       (guardE (a = Resume \<and> j_kind j \<notin> set (r_handlers r))
          (ValueError ''job provider is not active; resume its parent task first'')
       (Inr (save_job (''job.'' @ status_name (target a))
          (j\<lparr>j_status := target a, j_epoch := j_epoch j + 1, j_until := 0\<rparr>) r)))))"

definition children :: "registry \<Rightarrow> string \<Rightarrow> string list" where
  "children r i = map j_id (filter (\<lambda>j. j_parent j = Some i \<and> j_status j \<notin> TERMINAL) (dvals (r_jobs r)))"

fun control_tree :: "nat \<Rightarrow> registry \<Rightarrow> string \<Rightarrow> jaction \<Rightarrow> registry result"
  and control_list :: "nat \<Rightarrow> registry \<Rightarrow> string list \<Rightarrow> jaction \<Rightarrow> registry result" where
  \<comment> \<open>a job, then its live children; the fuel is Python's recursion limit\<close>
  "control_tree 0 r i a = Inl RecursionError"
| "control_tree (Suc n) r i a =
     bindE (control_one r i a) (\<lambda>r'.
       if a \<in> {Cancel, Pause} then control_list n r' (children r' i) a else Inr r')"
| "control_list n r [] a = Inr r"
| "control_list n r (i # is) a = bindE (control_tree n r i a) (\<lambda>r'. control_list n r' is a)"

definition dispatch :: "registry \<Rightarrow> string \<Rightarrow> string \<Rightarrow> nat \<Rightarrow> time \<Rightarrow> time \<Rightarrow> (registry \<times> job option) result" where
  \<comment> \<open>\<open>dispatch\<close> up to handing the claimed job to the executor\<close>
  "dispatch r me i pid lease now =
     bindE (get_job r i) (\<lambda>j.
       guardE (j_kind j \<notin> set (r_handlers r))
         (ValueError ''job provider is not active; resume its parent task first'')
         (claim r me i pid lease now))"

definition control ::
  "nat \<Rightarrow> registry \<Rightarrow> string \<Rightarrow> string \<Rightarrow> string \<Rightarrow> nat \<Rightarrow> time \<Rightarrow> time \<Rightarrow> registry result" where
  "control n r me i action pid lease now =
     (case action_of action of
        None \<Rightarrow> Inl (ValueError ''unsupported job action'')
      | Some a \<Rightarrow>
          bindE (control_tree n r i a) (\<lambda>r'.
            if a = Resume then bindE (dispatch r' me i pid lease now) (\<lambda>(r'', _). Inr r'') else Inr r'))"

subsection \<open>Recovery and the driver\<close>

definition lost :: "nat list \<Rightarrow> time \<Rightarrow> job \<Rightarrow> bool" where
  \<comment> \<open>the first argument lists the live processes\<close>
  "lost alive now j \<longleftrightarrow> (j_status j = Running \<and> j_until j \<le> now)
     \<or> (j_status j \<in> {Pending, Running} \<and> j_pid j \<noteq> 0 \<and> j_pid j \<notin> set alive)"

definition recover :: "registry \<Rightarrow> nat list \<Rightarrow> time \<Rightarrow> registry" where
  "recover r alive now =
     fold (\<lambda>i r. case dget (r_jobs r) i of
          Some j \<Rightarrow> if lost alive now j
            then save_job ''job.interrupted''
              (j\<lparr>j_status := Interrupted, j_error := Some (u ''worker lease expired''), j_until := 0\<rparr>) r
            else r
        | None \<Rightarrow> r) (dkeys (r_jobs r)) r"

definition checkpoint :: "registry \<Rightarrow> string \<Rightarrow> nat \<Rightarrow> string \<Rightarrow> time \<Rightarrow> unit result" where
  "checkpoint r i e ctl now =
     bindE (get_job r i) (\<lambda>j.
       guardE (j_epoch j \<noteq> e \<or> j_status j \<noteq> Running \<or> ctl \<noteq> ''running'' \<or> j_until j < now)
         (JobInterrupted ''job interrupted, paused, cancelled, or lease lost'') (Inr ()))"

definition interrupted_end :: "registry \<Rightarrow> string \<Rightarrow> string \<Rightarrow> nat \<Rightarrow> string \<Rightarrow> (registry \<times> string option) result" where
  \<comment> \<open>the handler of \<open>JobInterrupted\<close> in \<open>_drive\<close>; the second component is the status a task's run
      record takes over when it is still active\<close>
  "interrupted_end r me i e ctl =
     bindE (get_job r i) (\<lambda>j.
       if j_status j = Running \<and> j_epoch j = e \<and> j_owner j = Some me
       then Inr (save_job ''job.interrupted''
           (j\<lparr>j_status := if ctl = ''paused'' then Paused else if ctl = ''cancelled'' then Cancelled
               else Interrupted, j_until := 0\<rparr>) r,
         if j_kind j = ''task'' \<and> ctl \<in> {''paused'', ''cancelled''} then Some ctl else None)
       else Inr (r, None))"

datatype outcome = Returned json | Raised pytext | Stopped

definition drive_end ::
  "registry \<Rightarrow> string \<Rightarrow> string \<Rightarrow> nat \<Rightarrow> string \<Rightarrow> outcome \<Rightarrow> time \<Rightarrow> (registry \<times> string option) result" where
  \<comment> \<open>\<open>_drive\<close> from the end of the operation on\<close>
  "drive_end r me i e ctl out now =
     (case out of
        Returned v \<Rightarrow>
          (case bindE (checkpoint r i e ctl now) (\<lambda>_. finish r me i e v None now) of
             Inr r' \<Rightarrow> Inr (r', None)
           | Inl (JobInterrupted _) \<Rightarrow> interrupted_end r me i e ctl
           | Inl err \<Rightarrow> Inl err)
      | Stopped \<Rightarrow> interrupted_end r me i e ctl
      | Raised t \<Rightarrow>
          (case finish r me i e JNull (Some t) now of
             Inr r' \<Rightarrow> Inr (r', None)
           | Inl (JobInterrupted _) \<Rightarrow> Inr (r, None)
           | Inl err \<Rightarrow> Inl err))"

subsection \<open>The tools\<close>

definition job_list :: "registry \<Rightarrow> nat list \<Rightarrow> time \<Rightarrow> registry \<times> job list" where
  "job_list r alive now =
     (let r = recover r alive now in (r, filter (\<lambda>j. j_kind j \<noteq> ''task'') (dvals (r_jobs r))))"

definition job_output :: "registry \<Rightarrow> string \<Rightarrow> nat \<Rightarrow> (nat \<times> (nat \<times> json) list) result" where
  \<comment> \<open>how far the output has been dropped, and the items after the cursor\<close>
  "job_output r i after =
     bindE (get_job r i) (\<lambda>j.
       Inr (case j_output j of [] \<Rightarrow> 0 | (c, _) # _ \<Rightarrow> c - 1, filter (\<lambda>(c, _). c > after) (j_output j)))"

definition job_control ::
  "nat \<Rightarrow> registry \<Rightarrow> string \<Rightarrow> string \<Rightarrow> string \<Rightarrow> nat \<Rightarrow> time \<Rightarrow> time \<Rightarrow> registry result" where
  "job_control n r me i action pid lease now =
     bindE (get_job r i) (\<lambda>j.
       guardE (j_kind j = ''task'')
         (ValueError ''control the parent task through its task controls, not a background tool'')
         (control n r me i action pid lease now))"

subsection \<open>Well-formed registries\<close>

definition cursors_ok :: "job \<Rightarrow> bool" where
  \<comment> \<open>at most 64 items are kept, numbered without a gap up to the cursor\<close>
  "cursors_ok j \<longleftrightarrow> length (j_output j) \<le> 64 \<and> length (j_output j) \<le> j_cursor j
     \<and> map fst (j_output j) = [j_cursor j + 1 - length (j_output j)..<j_cursor j + 1]"

definition parents_older :: "(string, job) dict \<Rightarrow> bool" where
  \<comment> \<open>no job names itself or a job created after it as its parent\<close>
  "parents_older d \<longleftrightarrow> (\<forall>n m. n \<le> m \<longrightarrow> m < length d \<longrightarrow> j_parent (snd (d ! n)) \<noteq> Some (fst (d ! m)))"

definition wf_registry :: "registry \<Rightarrow> bool" where
  "wf_registry r \<longleftrightarrow> distinct (dkeys (r_jobs r)) \<and> (\<forall>(k, j)\<in>set (r_jobs r). j_id j = k \<and> cursors_ok j)
     \<and> parents_older (r_jobs r)"

definition jepoch :: "registry \<Rightarrow> string \<Rightarrow> nat" where
  "jepoch r i = (case dget (r_jobs r) i of None \<Rightarrow> 0 | Some j \<Rightarrow> j_epoch j)"

lemma get_job_Inr [simp]: "get_job r i = Inr j \<longleftrightarrow> dget (r_jobs r) i = Some j"
  by (auto simp: get_job_def split: option.splits)

lemma get_wf:
  assumes "wf_registry r" "dget (r_jobs r) i = Some j"
  shows "j_id j = i" "cursors_ok j"
  using assms map_of_SomeD [OF assms(2)] by (auto simp: wf_registry_def)

lemma stored_job_fields [simp]:
  "j_id (stored_job j) = j_id j" "j_kind (stored_job j) = j_kind j" "j_status (stored_job j) = j_status j"
  "j_parent (stored_job j) = j_parent j" "j_epoch (stored_job j) = j_epoch j"
  "j_until (stored_job j) = j_until j" "j_owner (stored_job j) = j_owner j" "j_pid (stored_job j) = j_pid j"
  "j_cursor (stored_job j) = j_cursor j" "map fst (j_output (stored_job j)) = map fst (j_output j)"
  by (auto simp: stored_job_def)

lemma stored_cursors [simp]: "cursors_ok (stored_job j) = cursors_ok j"
proof -
  have "length (j_output (stored_job j)) = length (j_output j)"
    using stored_job_fields(10) [of j] by (metis length_map)
  then show ?thesis by (simp add: cursors_ok_def)
qed

lemma cursors_ok_update [simp]:
  "cursors_ok (j\<lparr>j_status := a\<rparr>) = cursors_ok j" "cursors_ok (j\<lparr>j_epoch := b\<rparr>) = cursors_ok j"
  "cursors_ok (j\<lparr>j_until := c\<rparr>) = cursors_ok j" "cursors_ok (j\<lparr>j_owner := d\<rparr>) = cursors_ok j"
  "cursors_ok (j\<lparr>j_pid := e\<rparr>) = cursors_ok j" "cursors_ok (j\<lparr>j_result := f\<rparr>) = cursors_ok j"
  "cursors_ok (j\<lparr>j_error := g\<rparr>) = cursors_ok j"
  by (simp_all add: cursors_ok_def)

lemma new_job_fields [simp]:
  "j_id (new_job i kind payload agent parent key pid now) = i"
  "j_parent (new_job i kind payload agent parent key pid now) = parent"
  "j_epoch (new_job i kind payload agent parent key pid now) = 0"
  "cursors_ok (new_job i kind payload agent parent key pid now)"
  by (simp_all add: new_job_def cursors_ok_def)

lemma parents_older_replace:
  assumes "parents_older d" "distinct (dkeys d)" "dget d k = Some j" "j_parent j' = j_parent j"
  shows "parents_older (dput k j' d)"
proof -
  have k: "k \<in> set (dkeys d)" using dget_Some_in [OF assms(3)] .
  have *: "dput k j' d ! n = (fst (d ! n), if fst (d ! n) = k then j' else snd (d ! n))"
    if "n < length d" for n
    unfolding dput_present_map [OF assms(2) k] using that by (simp add: case_prod_beta)
  have "snd (d ! n) = j" if "n < length d" "fst (d ! n) = k" for n
    using that assms(2,3) by (metis eq_key_imp_eq_value map_of_SomeD nth_mem prod.collapse)
  note is_j = this
  show ?thesis unfolding parents_older_def
  proof (intro allI impI)
    fix n m
    assume nm: "n \<le> m" "m < length (dput k j' d)"
    then have lt: "n < length d" "m < length d" using k by (auto simp: length_dput)
    have "j_parent (snd (dput k j' d ! n)) = j_parent (snd (d ! n))"
      using * [OF lt(1)] is_j [OF lt(1)] assms(4) by auto
    moreover have "fst (dput k j' d ! m) = fst (d ! m)" using * [OF lt(2)] by simp
    ultimately show "j_parent (snd (dput k j' d ! n)) \<noteq> Some (fst (dput k j' d ! m))"
      using assms(1) nm(1) lt by (auto simp: parents_older_def)
  qed
qed

text \<open>Replacing a job by one with the same identity, parent and sound cursors.\<close>

lemma replace_wf:
  assumes "wf_registry r" "dget (r_jobs r) i = Some j" "j_id j' = i" "j_parent j' = j_parent j" "cursors_ok j'"
    "r_jobs r' = dput i j' (r_jobs r)"
  shows "wf_registry r'"
proof -
  have d: "distinct (dkeys (r_jobs r))" "parents_older (r_jobs r)"
    and *: "\<forall>(k, j)\<in>set (r_jobs r). j_id j = k \<and> cursors_ok j"
    using assms(1) by (auto simp: wf_registry_def)
  have "j_id b = a \<and> cursors_ok b" if "(a, b) \<in> set (dput i j' (r_jobs r))" for a b
    using dput_memD [OF d(1) that] assms(3,5) * by auto
  then show ?thesis
    using parents_older_replace [OF d(2,1) assms(2,4)] d(1) assms(6)
    by (auto simp: wf_registry_def update_keys distinct_update)
qed

lemma replace_epoch:
  assumes "dget (r_jobs r) i = Some j" "j_epoch j \<le> j_epoch j'" "r_jobs r' = dput i j' (r_jobs r)"
  shows "jepoch r k \<le> jepoch r' k"
  using assms by (auto simp: jepoch_def dget_dput)

lemma save_job_jobs [simp]: "r_jobs (save_job ev j r) = dput (j_id j) (stored_job j) (r_jobs r)"
  by (simp add: save_job_def)

lemma parents_older_snoc:
  assumes "parents_older d" "Some i \<notin> j_parent ` set (dvals d)" "j_parent j \<noteq> Some i"
  shows "parents_older (d @ [(i, j)])"
  unfolding parents_older_def
proof (intro allI impI)
  fix n m
  assume nm: "n \<le> m" "m < length (d @ [(i, j)])"
  show "j_parent (snd ((d @ [(i, j)]) ! n)) \<noteq> Some (fst ((d @ [(i, j)]) ! m))"
  proof (cases "m < length d")
    case True
    with assms(1) nm show ?thesis by (auto simp: parents_older_def nth_append)
  next
    case False
    then have m: "m = length d" using nm by simp
    have "j_parent (snd (d ! n)) \<noteq> Some i" if "n < length d"
    proof
      assume "j_parent (snd (d ! n)) = Some i"
      moreover have "snd (d ! n) \<in> set (dvals d)" using that by simp
      ultimately show False using assms(2) by force
    qed
    with m nm(1) assms(3) show ?thesis
      by (cases "n < length d") (auto simp: nth_append dest!: le_neq_implies_less)
  qed
qed

subsection \<open>The operations as steps\<close>

inductive jstep :: "registry \<Rightarrow> registry \<Rightarrow> bool" where
  created: "create_job r i kind payload agent parent key pid now = (r', j) \<Longrightarrow>
    i \<notin> set (dkeys (r_jobs r)) \<Longrightarrow> Some i \<notin> j_parent ` set (dvals (r_jobs r)) \<Longrightarrow> parent \<noteq> Some i \<Longrightarrow> jstep r r'"
| claimed: "claim r me i pid ls now = Inr (r', c) \<Longrightarrow> jstep r r'"
| renewed: "renew r me i e ls now = Inr r' \<Longrightarrow> jstep r r'"
| published: "publish_output r me i v e now = Inr r' \<Longrightarrow> jstep r r'"
| finished: "finish r me i e res err now = Inr r' \<Longrightarrow> jstep r r'"
| controlled: "control_one r i a = Inr r' \<Longrightarrow> jstep r r'"
| lost: "dget (r_jobs r) i = Some j \<Longrightarrow> lost alive now j \<Longrightarrow>
    r' = save_job ''job.interrupted''
      (j\<lparr>j_status := Interrupted, j_error := Some (u ''worker lease expired''), j_until := 0\<rparr>) r \<Longrightarrow> jstep r r'"
| interrupted: "interrupted_end r me i e ctl = Inr (r', m) \<Longrightarrow> jstep r r'"
| handlers: "r' = r\<lparr>r_handlers := hs\<rparr> \<Longrightarrow> jstep r r'"

lemma last_n_snoc_cursors:
  assumes "cursors_ok j"
  shows "cursors_ok (j\<lparr>j_output := last_n 64 (j_output j @ [(j_cursor j + 1, v)]), j_cursor := j_cursor j + 1\<rparr>)"
proof -
  let ?n = "length (j_output j)" and ?c = "j_cursor j"
  have c: "?n \<le> 64" "?n \<le> ?c" "map fst (j_output j) = [?c + 1 - ?n..<?c + 1]"
    using assms by (auto simp: cursors_ok_def)
  let ?xs = "j_output j @ [(?c + 1, v)]"
  have "map fst (last_n 64 xs) = drop (length xs - 64) (map fst xs)" for xs :: "(nat \<times> json) list"
    by (simp add: last_n_def drop_map)
  from this [of ?xs] have "map fst (last_n 64 ?xs) = drop (Suc ?n - 64) (map fst ?xs)" by simp
  also have "map fst ?xs = [?c + 1 - ?n..<?c + 1] @ [?c + 1]" using c(3) by (simp del: upt_Suc)
  also have "[?c + 1 - ?n..<?c + 1] @ [?c + 1] = [?c + 1 - ?n..<?c + 2]"
    using c(2) upt_Suc_append [of "?c + 1 - ?n" "?c + 1"] by (simp del: upt_Suc)
  also have "drop (Suc ?n - 64) [?c + 1 - ?n..<?c + 2] = [?c + 1 - ?n + (Suc ?n - 64)..<?c + 2]"
    by (simp only: drop_upt)
  finally have "map fst (last_n 64 (j_output j @ [(?c + 1, v)])) = [?c + 1 - ?n + (Suc ?n - 64)..<?c + 2]" .
  moreover have len: "length (last_n 64 ?xs) = Suc ?n - (Suc ?n - 64)" by (simp add: last_n_def)
  moreover have "?c + 1 - ?n + (Suc ?n - 64) = ?c + 2 - length (last_n 64 ?xs)"
    unfolding len using c(1,2) by linarith
  ultimately have m: "map fst (last_n 64 ?xs) = [?c + 2 - length (last_n 64 ?xs)..<?c + 2]" by metis
  have "length (last_n 64 ?xs) \<le> 64 \<and> length (last_n 64 ?xs) \<le> ?c + 1"
    unfolding len using c(1,2) by linarith
  with m show ?thesis by (simp add: cursors_ok_def del: upt_Suc)
qed

lemma claim_change:
  assumes "claim r me i pid ls now = Inr (r', c)"
  obtains (held) "r' = r" "c = None"
  | (granted) j where "dget (r_jobs r) i = Some j" "j_status j \<notin> TERMINAL" "\<not> (j_status j = Running \<and> j_until j > now)"
      "r' = save_job ''job.started'' (j\<lparr>j_status := Running, j_owner := Some me, j_pid := pid,
         j_epoch := j_epoch j + 1, j_until := now + ls\<rparr>) r"
      "c = Some (j\<lparr>j_status := Running, j_owner := Some me, j_pid := pid,
         j_epoch := j_epoch j + 1, j_until := now + ls\<rparr>)"
proof -
  obtain j where j: "dget (r_jobs r) i = Some j" using assms by (auto simp: claim_def bind_simps)
  show thesis
  proof (cases "(j_status j = Running \<and> j_until j > now) \<or> j_status j \<notin> {Pending, Interrupted, Paused, Running}")
    case True
    then have "r' = r" "c = None" using assms j by (auto simp: claim_def bind_simps split: if_splits)
    then show ?thesis by (rule held)
  next
    case False
    then have "j_status j \<notin> TERMINAL" by (auto simp: TERMINAL_def)
    with False show ?thesis using assms j
      by (intro granted [of j]) (auto simp: claim_def bind_simps Let_def)
  qed
qed

lemma interrupted_change:
  assumes "interrupted_end r me i e ctl = Inr (r', m)"
  obtains (ignored) "r' = r" "m = None"
  | (ended) j st where "dget (r_jobs r) i = Some j" "j_status j = Running"
      "r' = save_job ''job.interrupted'' (j\<lparr>j_status := st, j_until := 0\<rparr>) r"
proof -
  obtain j where j: "dget (r_jobs r) i = Some j" using assms by (auto simp: interrupted_end_def bind_simps)
  show thesis
  proof (cases "j_status j = Running \<and> j_epoch j = e \<and> j_owner j = Some me")
    case True
    then show ?thesis using assms j by (intro ended [of j]) (auto simp: interrupted_end_def bind_simps)
  next
    case False
    then have "r' = r" "m = None" using assms j by (auto simp: interrupted_end_def bind_simps)
    then show ?thesis by (rule ignored)
  qed
qed

text \<open>A step either adds a new job of epoch zero, or replaces one job, or leaves the jobs alone.\<close>

lemma jstep_cases:
  assumes "jstep r r'" "wf_registry r"
  obtains (same) "r_jobs r' = r_jobs r"
  | (replace) i j j' where "dget (r_jobs r) i = Some j" "j_id j' = i" "j_parent j' = j_parent j"
      "cursors_ok j'" "j_epoch j \<le> j_epoch j'" "r_jobs r' = dput i j' (r_jobs r)"
      "j_status j \<in> TERMINAL \<Longrightarrow> j_status j' = j_status j \<and> j_output j' = j_output j \<and> j_epoch j' = j_epoch j"
  | (new) i j where "i \<notin> set (dkeys (r_jobs r))" "Some i \<notin> j_parent ` set (dvals (r_jobs r))"
      "j_parent j \<noteq> Some i" "j_id j = i" "cursors_ok j" "r_jobs r' = r_jobs r @ [(i, j)]" "j_epoch j = 0"
  using assms(1)
proof cases
  case (created i kind payload agent parent key pid now j)
  then show ?thesis
    using new [of i "stored_job (new_job i kind payload agent parent key pid now)"] same
    by (auto simp: create_job_def Let_def dput_absent split: option.splits if_splits)
next
  case (claimed me i pid ls now c)
  then show ?thesis
  proof (cases rule: claim_change)
    case held
    then show ?thesis using same by simp
  next
    case (granted j)
    with get_wf [OF assms(2) granted(1)] show ?thesis by (intro replace [OF granted(1)]) simp_all
  qed
next
  case (renewed me i e ls now)
  then obtain j where j: "dget (r_jobs r) i = Some j" "j_status j = Running"
    "r_jobs r' = dput i (j\<lparr>j_until := now + ls\<rparr>) (r_jobs r)"
    by (auto simp: renew_def bind_simps fenced_def)
  with get_wf [OF assms(2) j(1)] show ?thesis by (intro replace [OF j(1)]) (simp_all add: TERMINAL_def)
next
  case (published me i v e now)
  obtain j where j: "dget (r_jobs r) i = Some j" "\<not> fenced j me e now"
    using published unfolding publish_output_def bind_simps by auto
  have "j_id j = i" using get_wf(1) [OF assms(2) j(1)] .
  then have r': "r_jobs r' = dput i (stored_job (j\<lparr>j_output := last_n 64 (j_output j @ [(j_cursor j + 1, output_item v)]),
       j_cursor := j_cursor j + 1\<rparr>)) (r_jobs r)"
    using published j unfolding publish_output_def bind_simps by (auto simp: Let_def)
  have "cursors_ok (j\<lparr>j_output := last_n 64 (j_output j @ [(j_cursor j + 1, output_item v)]), j_cursor := j_cursor j + 1\<rparr>)"
    using last_n_snoc_cursors [OF get_wf(2) [OF assms(2) j(1)]] .
  moreover have "j_status j = Running" using j(2) by (simp add: fenced_def)
  ultimately show ?thesis
    using get_wf(1) [OF assms(2) j(1)] by (intro replace [OF j(1) _ _ _ _ r']) (simp_all add: TERMINAL_def)
next
  case (finished me i e res err now)
  then obtain j where j: "dget (r_jobs r) i = Some j" "j_status j = Running"
    by (auto simp: finish_def bind_simps fenced_def)
  then obtain st er where "r_jobs r' = dput (j_id j) (stored_job (j\<lparr>j_status := st,
      j_result := redact_value res, j_error := er\<rparr>)) (r_jobs r)"
    using finished unfolding finish_def bind_simps Let_def by (auto simp del: stored_job_fields)
  with j get_wf [OF assms(2) j(1)] show ?thesis by (intro replace [OF j(1)]) (simp_all add: TERMINAL_def)
next
  case (controlled i a)
  then obtain j where j: "dget (r_jobs r) i = Some j" "j_status j \<notin> TERMINAL"
    "r_jobs r' = dput (j_id j) (stored_job (j\<lparr>j_status := target a, j_epoch := j_epoch j + 1, j_until := 0\<rparr>)) (r_jobs r)"
    by (auto simp: control_one_def bind_simps)
  with get_wf [OF assms(2) j(1)] show ?thesis by (intro replace [OF j(1)]) simp_all
next
  case (lost i j alive now)
  have "j_status j \<notin> TERMINAL" using lost(2) by (auto simp: lost_def TERMINAL_def)
  moreover have "r_jobs r' = dput i (stored_job (j\<lparr>j_status := Interrupted,
      j_error := Some (u ''worker lease expired''), j_until := 0\<rparr>)) (r_jobs r)"
    using lost(3) get_wf(1) [OF assms(2) lost(1)] by simp
  ultimately show ?thesis
    using get_wf [OF assms(2) lost(1)] by (intro replace [OF lost(1)]) simp_all
next
  case (interrupted me i e ctl m)
  then show ?thesis
  proof (cases rule: interrupted_change)
    case ignored
    then show ?thesis using same by simp
  next
    case (ended j st)
    with get_wf [OF assms(2) ended(1)] show ?thesis
      by (intro replace [OF ended(1)]) (simp_all add: TERMINAL_def)
  qed
next
  case (handlers hs)
  then show ?thesis using same by simp
qed

lemma jstep_wf: "wf_registry r \<Longrightarrow> jstep r r' \<Longrightarrow> wf_registry r'"
proof (erule jstep_cases)
  fix i j j'
  assume w: "wf_registry r" and "dget (r_jobs r) i = Some j" "j_id j' = i" "j_parent j' = j_parent j"
    "cursors_ok j'" "r_jobs r' = dput i j' (r_jobs r)"
  then show "wf_registry r'" by (rule replace_wf)
next
  fix i j
  assume "wf_registry r" "i \<notin> set (dkeys (r_jobs r))" "Some i \<notin> j_parent ` set (dvals (r_jobs r))"
    "j_parent j \<noteq> Some i" "j_id j = i" "cursors_ok j" "r_jobs r' = r_jobs r @ [(i, j)]"
  then show "wf_registry r'" using parents_older_snoc [of "r_jobs r" i j] by (auto simp: wf_registry_def)
qed (auto simp: wf_registry_def)

lemma jstep_epoch: "wf_registry r \<Longrightarrow> jstep r r' \<Longrightarrow> jepoch r k \<le> jepoch r' k"
proof (erule jstep_cases)
  fix i j j'
  assume "dget (r_jobs r) i = Some j" "j_epoch j \<le> j_epoch j'" "r_jobs r' = dput i j' (r_jobs r)"
  then show "jepoch r k \<le> jepoch r' k" by (rule replace_epoch)
qed (auto simp: jepoch_def map_add_def split: option.splits)

subsection \<open>The lease contract\<close>

definition jclaims :: "registry \<Rightarrow> string \<Rightarrow> nat \<Rightarrow> registry \<Rightarrow> bool" where
  "jclaims r i e r' \<longleftrightarrow> (\<exists>me pid ls now j. claim r me i pid ls now = Inr (r', Some j) \<and> j_epoch j = e)"

definition jpublishes :: "registry \<Rightarrow> string \<Rightarrow> nat \<Rightarrow> registry \<Rightarrow> bool" where
  "jpublishes r i e r' \<longleftrightarrow> (\<exists>me v now. publish_output r me i v e now = Inr r')
     \<or> (\<exists>me res err now. finish r me i e res err now = Inr r') \<or> (\<exists>me ls now. renew r me i e ls now = Inr r')"

interpretation jobs: fenced_lease wf_registry jepoch jstep jclaims jpublishes
proof unfold_locales
  fix r r' i e
  assume w: "wf_registry r" and c: "jclaims r i e r'"
  then obtain me pid ls now j where j: "claim r me i pid ls now = Inr (r', Some j)" "j_epoch j = e"
    by (auto simp: jclaims_def)
  show "jstep r r'" using j(1) by (rule jstep.claimed)
  show "e = jepoch r i + 1 \<and> jepoch r' i = e"
    using j(1)
  proof (cases rule: claim_change)
    case (granted j0)
    with get_wf(1) [OF w granted(1)] j(2) show ?thesis by (auto simp: jepoch_def dget_dput)
  qed simp
next
  fix r r' i e
  assume "wf_registry r" and "jpublishes r i e r'"
  then show "jepoch r i = e"
    by (auto simp: jpublishes_def publish_output_def finish_def renew_def bind_simps fenced_def jepoch_def)
qed (auto intro: jstep_wf jstep_epoch)

lemma terminal_kept:
  assumes "jstep r r'" "wf_registry r" "dget (r_jobs r) k = Some j" "j_status j \<in> TERMINAL"
  shows "\<exists>j'. dget (r_jobs r') k = Some j' \<and> j_status j' = j_status j \<and> j_output j' = j_output j
     \<and> j_epoch j' = j_epoch j"
  using assms(1,2)
proof (cases rule: jstep_cases)
  case same
  with assms(3) show ?thesis by simp
next
  case (replace i j0 j')
  with assms(3,4) show ?thesis by (auto simp: dget_dput)
next
  case (new i j0)
  with assms(3) show ?thesis by (auto simp: map_add_def)
qed

subsection \<open>The cascade ends\<close>

definition pos :: "registry \<Rightarrow> string \<Rightarrow> nat" where
  "pos r i = length (takeWhile (\<lambda>k. k \<noteq> i) (dkeys (r_jobs r)))"

lemma pos_nth:
  assumes "distinct (dkeys (r_jobs r))" "n < length (r_jobs r)"
  shows "pos r (fst (r_jobs r ! n)) = n"
proof -
  have "fst (r_jobs r ! n) = dkeys (r_jobs r) ! n" using assms(2) by simp
  moreover have "takeWhile (\<lambda>k. k \<noteq> dkeys (r_jobs r) ! n) (dkeys (r_jobs r)) = take n (dkeys (r_jobs r))"
  proof (intro takeWhile_eq_take_P_nth)
    fix i
    assume "i < n"
    then show "dkeys (r_jobs r) ! i \<noteq> dkeys (r_jobs r) ! n"
      using assms nth_eq_iff_index_eq [OF assms(1), of i n] by simp
  qed simp
  ultimately show ?thesis using assms(2) by (simp add: pos_def)
qed

lemma children_later:
  assumes "wf_registry r" "c \<in> set (children r i)" "i \<in> set (dkeys (r_jobs r))"
  shows "c \<in> set (dkeys (r_jobs r)) \<and> pos r i < pos r c"
proof -
  have d: "distinct (dkeys (r_jobs r))" and p: "parents_older (r_jobs r)"
    using assms(1) by (auto simp: wf_registry_def)
  obtain j where j: "j \<in> set (dvals (r_jobs r))" "j_parent j = Some i" "j_id j = c"
    using assms(2) by (auto simp: children_def)
  then obtain n where n: "n < length (r_jobs r)" "snd (r_jobs r ! n) = j"
    by (auto simp: in_set_conv_nth)
  obtain m where m: "m < length (r_jobs r)" "fst (r_jobs r ! m) = i"
    using assms(3) by (auto simp: in_set_conv_nth)
  have "r_jobs r ! n \<in> set (r_jobs r)" using n(1) by simp
  then have c: "fst (r_jobs r ! n) = c"
    using n(2) j(3) assms(1) by (auto simp: wf_registry_def case_prod_beta)
  have "\<not> n \<le> m" using p n m j(2) unfolding parents_older_def by metis
  moreover have "c \<in> set (dkeys (r_jobs r))" using nth_mem [OF n(1)] c by force
  ultimately show ?thesis using pos_nth [OF d n(1)] pos_nth [OF d m(1)] c m(2) by simp
qed

lemma control_one_step:
  assumes "wf_registry r" "control_one r i a = Inr r'"
  shows "wf_registry r' \<and> dkeys (r_jobs r') = dkeys (r_jobs r)"
proof -
  have "wf_registry r'" using jstep_wf [OF assms(1) jstep.controlled [OF assms(2)]] .
  moreover have "dkeys (r_jobs r') = dkeys (r_jobs r)"
  proof -
  obtain j where j: "dget (r_jobs r) i = Some j" using assms(2) by (auto simp: control_one_def bind_simps)
  then have "j_id j \<in> set (dkeys (r_jobs r))" using get_wf(1) [OF assms(1) j] dget_Some_in [OF j] by simp
  moreover obtain j' where "r_jobs r' = dput (j_id j) j' (r_jobs r)"
    using assms(2) j by (auto simp: control_one_def bind_simps)
  ultimately show ?thesis by (simp add: dkeys_dput)
  qed
  ultimately show ?thesis by blast
qed

lemma pos_cong: "dkeys (r_jobs r') = dkeys (r_jobs r) \<Longrightarrow> pos r' i = pos r i"
  by (simp add: pos_def)

lemma length_cong: "dkeys (r_jobs r') = dkeys (r_jobs r) \<Longrightarrow> length (r_jobs r') = length (r_jobs r)"
  by (metis length_map)

lemma control_keys:
  "wf_registry r \<Longrightarrow> control_tree n r i a = Inr r' \<Longrightarrow>
     wf_registry r' \<and> dkeys (r_jobs r') = dkeys (r_jobs r) \<and> jstep\<^sup>*\<^sup>* r r'"
  "wf_registry r \<Longrightarrow> control_list n r is a = Inr r' \<Longrightarrow>
     wf_registry r' \<and> dkeys (r_jobs r') = dkeys (r_jobs r) \<and> jstep\<^sup>*\<^sup>* r r'"
proof (induction n r i a and n r "is" a arbitrary: r' and r' rule: control_tree_control_list.induct)
  case (2 n r i a)
  obtain r1 where r1: "control_one r i a = Inr r1"
    "(if a \<in> {Cancel, Pause} then control_list n r1 (children r1 i) a else Inr r1) = Inr r'"
    using "2.prems"(2) by (auto simp: bind_simps)
  have w: "wf_registry r1" "dkeys (r_jobs r1) = dkeys (r_jobs r)" using control_one_step [OF "2.prems"(1) r1(1)] by auto
  have s: "jstep r r1" using r1(1) by (rule jstep.controlled)
  show ?case
  proof (cases "a \<in> {Cancel, Pause}")
    case True
    with r1 "2.IH" [OF True w(1)] w s show ?thesis by (auto intro: converse_rtranclp_into_rtranclp)
  next
    case False
    with r1 w s show ?thesis by auto
  qed
next
  case (4 n r i "is" a)
  obtain r1 where r1: "control_tree n r i a = Inr r1" "control_list n r1 is a = Inr r'"
    using "4.prems"(2) by (auto simp: bind_simps)
  with "4.IH"(1) [OF "4.prems"(1) r1(1)] "4.IH"(2) [OF _ r1(2)] show ?case by (auto intro: rtranclp_trans)
qed auto

lemma control_fuel:
  "wf_registry r \<Longrightarrow> i \<in> set (dkeys (r_jobs r)) \<Longrightarrow> length (r_jobs r) \<le> n + pos r i \<Longrightarrow>
     control_tree n r i a \<noteq> Inl RecursionError"
  "wf_registry r \<Longrightarrow> \<forall>i\<in>set is. i \<in> set (dkeys (r_jobs r)) \<and> length (r_jobs r) \<le> n + pos r i \<Longrightarrow>
     control_list n r is a \<noteq> Inl RecursionError"
proof (induction n r i a and n r "is" a rule: control_tree_control_list.induct)
  case (1 r i a)
  obtain m where m: "m < length (r_jobs r)" "fst (r_jobs r ! m) = i"
    using 1(2) by (auto simp: in_set_conv_nth)
  have "pos r i = m" using pos_nth [OF _ m(1)] m(2) 1(1) by (auto simp: wf_registry_def)
  with m 1(3) show ?case by simp
next
  case (2 n r i a)
  have one: "control_one r i a \<noteq> Inl RecursionError"
    by (auto simp: control_one_def bind_simps get_job_def split: option.splits)
  have "control_list n r1 (children r1 i) a \<noteq> Inl RecursionError"
    if r1: "control_one r i a = Inr r1" and a: "a \<in> {Cancel, Pause}" for r1
  proof -
    have w: "wf_registry r1" "dkeys (r_jobs r1) = dkeys (r_jobs r)"
      using control_one_step [OF "2.prems"(1) r1] by auto
    have "i \<in> set (dkeys (r_jobs r1))" using w(2) "2.prems"(2) by simp
    then have "\<forall>c\<in>set (children r1 i). c \<in> set (dkeys (r_jobs r1)) \<and> length (r_jobs r1) \<le> n + pos r1 c"
      using children_later [OF w(1)] "2.prems"(3) pos_cong [OF w(2)] length_cong [OF w(2)] by fastforce
    then show ?thesis using "2.IH" [OF a w(1)] by blast
  qed
  then show ?case using one by (auto simp: bind_simps)
next
  case (4 n r i "is" a)
  have "control_tree n r i a \<noteq> Inl RecursionError" using 4 by simp
  moreover have "control_list n r1 is a \<noteq> Inl RecursionError" if r1: "control_tree n r i a = Inr r1" for r1
  proof -
    have w: "wf_registry r1" "dkeys (r_jobs r1) = dkeys (r_jobs r)" using control_keys(1) [OF "4.prems"(1) r1] by auto
    show ?thesis using "4.IH"(2) [OF w(1)] "4.prems"(2) w(2) pos_cong [OF w(2)] length_cong [OF w(2)] by simp
  qed
  ultimately show ?case by (auto simp: bind_simps)
qed auto

lemma control_tree_epoch:
  assumes "wf_registry r" "dget (r_jobs r) i = Some j" and c: "control_tree n r i a = Inr r'"
  shows "j_epoch j < jepoch r' i"
proof -
  obtain n' where n: "n = Suc n'" using c by (cases n) auto
  obtain r1 where r1: "control_one r i a = Inr r1"
    "(if a \<in> {Cancel, Pause} then control_list n' r1 (children r1 i) a else Inr r1) = Inr r'"
    using c unfolding n by (auto simp: bind_simps)
  have w1: "wf_registry r1" using control_one_step [OF assms(1) r1(1)] by blast
  have "jepoch r1 i = j_epoch j + 1"
    using r1(1) assms(2) get_wf(1) [OF assms(1,2)]
    by (auto simp: control_one_def bind_simps jepoch_def dget_dput)
  moreover have "jstep\<^sup>*\<^sup>* r1 r'"
    using r1(2) control_keys(2) [OF w1] by (cases "a \<in> {Cancel, Pause}") auto
  then have "jepoch r1 i \<le> jepoch r' i" by (rule jobs.steps_epoch) (rule w1)
  ultimately show ?thesis by simp
qed

subsection \<open>Properties\<close>

text \<open>
  C2. Once a second worker has claimed a job, the first one is out: whatever happened between the
  claims and after the second, publishing output, finishing or renewing under the first epoch is
  refused, and the registry stays well formed.
\<close>

theorem stale_job_holder_is_fenced:
  assumes "wf_registry r" and "claim r a i p1 l1 t1 = Inr (r1, Some j1)" and "jstep\<^sup>*\<^sup>* r1 r2"
    and "claim r2 b i p2 l2 t2 = Inr (r3, Some j2)" and "jstep\<^sup>*\<^sup>* r3 r4"
  shows "j_epoch j1 < j_epoch j2 \<and> wf_registry r4
     \<and> \<not> (\<exists>r5. publish_output r4 me i v (j_epoch j1) now = Inr r5)
     \<and> \<not> (\<exists>r5. finish r4 me i (j_epoch j1) res err now = Inr r5)
     \<and> \<not> (\<exists>r5. renew r4 me i (j_epoch j1) ls now = Inr r5)"
proof -
  have c1: "jclaims r i (j_epoch j1) r1" and c2: "jclaims r2 i (j_epoch j2) r3"
    using assms(2,4) unfolding jclaims_def by blast+
  have "wf_registry r1" using jstep_wf [OF assms(1) jstep.claimed [OF assms(2)]] .
  then have "wf_registry r2" using jobs.steps_inv [OF assms(3)] by blast
  then have "wf_registry r3" using jstep_wf [OF _ jstep.claimed [OF assms(4)]] by blast
  then have w4: "wf_registry r4" using jobs.steps_inv [OF assms(5)] by blast
  have "\<not> jpublishes r4 i (j_epoch j1) r5" for r5
    using jobs.stale_never_publishes [OF assms(1) c1 assms(3) c2 assms(5)] .
  then show ?thesis
    using jobs.later_claim_higher [OF assms(1) c1 assms(3) c2] w4 unfolding jpublishes_def by blast
qed

text \<open>
  C33. A job that has ended stays as it ended: after any number of operations its status, its output
  and its epoch are what they were.
\<close>

theorem ended_jobs_stay_ended:
  assumes "jstep\<^sup>*\<^sup>* r r'" and "wf_registry r" and "dget (r_jobs r) i = Some j" and "j_status j \<in> TERMINAL"
  shows "\<exists>j'. dget (r_jobs r') i = Some j' \<and> j_status j' = j_status j \<and> j_output j' = j_output j
     \<and> j_epoch j' = j_epoch j"
  using assms(1)
proof (induction rule: rtranclp_induct)
  case base
  then show ?case using assms(3) by blast
next
  case (step y z)
  then obtain jy where jy: "dget (r_jobs y) i = Some jy" "j_status jy = j_status j"
    "j_output jy = j_output j" "j_epoch jy = j_epoch j" by blast
  have "wf_registry y" using jobs.steps_inv [OF step(1) assms(2)] .
  with terminal_kept [OF step(2) _ jy(1)] jy assms(4) show ?case by auto
qed

text \<open>
  C30. Controlling a job and its descendants ends: with at least as many levels of recursion as there
  are jobs the cascade never runs out of them, and when it succeeds the job has the status asked for,
  under an epoch that its former holder does not have, unless a later step of the cascade changed it.
\<close>

theorem control_cascade_terminates:
  assumes "wf_registry r" and "dget (r_jobs r) i = Some j" and "length (r_jobs r) \<le> n"
  shows "control_tree n r i a \<noteq> Inl RecursionError
     \<and> (\<forall>r'. control_tree n r i a = Inr r' \<longrightarrow> wf_registry r' \<and> j_epoch j < jepoch r' i)"
proof -
  have i: "i \<in> set (dkeys (r_jobs r))" using dget_Some_in [OF assms(2)] .
  then have "control_tree n r i a \<noteq> Inl RecursionError" using control_fuel(1) [OF assms(1)] assms(3) by simp
  then show ?thesis using control_keys(1) [OF assms(1)] control_tree_epoch [OF assms(1,2)] by blast
qed

definition example_registry :: registry where
  "example_registry = \<lparr>r_jobs = [(''p'', new_job ''p'' ''task'' JNull None None None 7 0),
     (''c'', new_job ''c'' ''shell'' JNull None (Some ''p'') None 7 1)],
     r_events = [], r_logs = [], r_handlers = []\<rparr>"

lemma example_registry_wf: "wf_registry example_registry"
proof -
  have "parents_older (r_jobs example_registry)"
    by (auto simp: parents_older_def example_registry_def new_job_def nth_Cons split: nat.splits)
  then show ?thesis by (simp add: wf_registry_def example_registry_def)
qed

theorem stale_job_holder_is_fenced_witness:
  "\<exists>r1 j1 r3 j2. claim example_registry ''a'' ''c'' 7 60 0 = Inr (r1, Some j1)
     \<and> claim r1 ''b'' ''c'' 8 60 100 = Inr (r3, Some j2)
     \<and> \<not> (\<exists>r5. finish r3 ''a'' ''c'' (j_epoch j1) JNull None 101 = Inr r5)"
proof -
  obtain r1 j1 where 1: "claim example_registry ''a'' ''c'' 7 60 0 = Inr (r1, Some j1)"
    by (auto simp: claim_def get_job_def example_registry_def new_job_def Let_def)
  then obtain r3 j2 where 2: "claim r1 ''b'' ''c'' 8 60 100 = Inr (r3, Some j2)"
    by (auto simp: claim_def get_job_def example_registry_def new_job_def save_job_def stored_job_def Let_def)
  show ?thesis
    using 1 2 stale_job_holder_is_fenced [OF example_registry_wf 1 rtranclp.rtrancl_refl 2 rtranclp.rtrancl_refl]
    by blast
qed

theorem ended_jobs_stay_ended_witness:
  "\<exists>j'. dget (r_jobs (example_registry\<lparr>r_jobs := [(''p'', (new_job ''p'' ''x'' JNull None None None 7 0)\<lparr>j_status := Completed\<rparr>)]\<rparr>)) ''p'' = Some j'
     \<and> j_status j' = Completed"
proof -
  let ?j = "(new_job ''p'' ''x'' JNull None None None 7 0)\<lparr>j_status := Completed\<rparr>"
  let ?r = "example_registry\<lparr>r_jobs := [(''p'', ?j)]\<rparr>"
  have "wf_registry ?r" by (simp add: wf_registry_def parents_older_def)
  moreover have "dget (r_jobs ?r) ''p'' = Some ?j" "j_status ?j \<in> TERMINAL" by (simp_all add: TERMINAL_def)
  ultimately show ?thesis
    using ended_jobs_stay_ended [OF rtranclp.rtrancl_refl, of ?r "''p''" ?j] by auto
qed

theorem control_cascade_terminates_witness:
  "control_tree 2 example_registry ''p'' Cancel \<noteq> Inl RecursionError"
  using control_cascade_terminates [OF example_registry_wf, of "''p''" _ 2 Cancel]
  by (simp add: example_registry_def)

end
