(* ===== verification/Schedules.thy ===== *)
theory Schedules
  imports Lease Policy
begin

text \<open>
  \<open>schedules.py\<close>: recurring and one-shot tasks, claimed by the scheduler under a lease and an epoch.
  The document \<open>schedules.json\<close> maps identifiers to schedules in creation order; every operation
  runs in one store transaction. The digest \<open>sha\<close> stands for the hex digest of SHA-256.
\<close>

subsection \<open>Schedules\<close>

datatype sstatus = Active | SPaused | Deleted | SCompleted

record schedule =
  s_id :: string
  s_task :: pytext
  s_source :: string
  s_next :: time
  s_interval :: "int option"
  s_status :: sstatus
  s_occurrence :: nat
  s_until :: time
  s_epoch :: nat
  s_pending :: "string option"
  s_last :: "string option"
  s_error :: "pytext option"

type_synonym schedules = "(string, schedule) dict"

definition stored_schedule :: "schedule \<Rightarrow> schedule" where
  "stored_schedule s = s\<lparr>s_task := redact_text (s_task s), s_error := map_option redact_text (s_error s)\<rparr>"

definition put_schedule :: "schedule \<Rightarrow> schedules \<Rightarrow> schedules" where
  "put_schedule s d = dput (s_id s) (stored_schedule s) d"

definition create_schedule ::
  "schedules \<Rightarrow> string \<Rightarrow> bool \<Rightarrow> pytext \<Rightarrow> string \<Rightarrow> time option \<Rightarrow> int option \<Rightarrow> time \<Rightarrow> (schedules \<times> schedule) result" where
  \<comment> \<open>the flag says that the source run can be loaded; an instant of zero counts as none given\<close>
  "create_schedule d i source_loads task src next_at interval now =
     guardE (strip task = [] \<or> (case interval of None \<Rightarrow> False | Some n \<Rightarrow> n < 60))
       (ValueError ''task is required; recurring interval must be at least 60 seconds'')
     (guardE (\<not> source_loads) FileNotFoundError
     (let s = \<lparr>s_id = i, s_task = task, s_source = src,
            s_next = (case next_at of None \<Rightarrow> now | Some t \<Rightarrow> if t = 0 then now else t),
            s_interval = interval, s_status = Active, s_occurrence = 0, s_until = 0, s_epoch = 0,
            s_pending = None, s_last = None, s_error = None\<rparr>
      in Inr (put_schedule s d, s)))"

definition control_schedule :: "schedules \<Rightarrow> string \<Rightarrow> string \<Rightarrow> (schedules \<times> schedule) result" where
  "control_schedule d i action =
     (case (if action = ''pause'' then Some SPaused else if action = ''resume'' then Some Active
            else if action = ''delete'' then Some Deleted else None) of
        None \<Rightarrow> Inl (ValueError ''invalid schedule action'')
      | Some status \<Rightarrow>
          (case dget d i of
             None \<Rightarrow> Inl (KeyError i)
           | Some s \<Rightarrow> (let s = s\<lparr>s_status := status, s_epoch := s_epoch s + 1, s_until := 0\<rparr>
                       in Inr (put_schedule s d, s))))"

definition is_due :: "time \<Rightarrow> schedule \<Rightarrow> bool" where
  "is_due now s \<longleftrightarrow> \<not> (s_status s \<noteq> Active \<or> s_next s > now \<or> s_until s > now)"

definition pending_id :: "(string \<Rightarrow> string) \<Rightarrow> (nat \<Rightarrow> string) \<Rightarrow> schedule \<Rightarrow> string" where
  \<comment> \<open>the run of the next occurrence, fixed by the schedule and its count; \<open>str\<close> prints a number\<close>
  "pending_id sha str s = take 32 (sha (''schedule:'' @ s_id s @ '':'' @ str (s_occurrence s + 1)))"

definition claimed_schedule :: "(string \<Rightarrow> string) \<Rightarrow> (nat \<Rightarrow> string) \<Rightarrow> time \<Rightarrow> schedule \<Rightarrow> schedule" where
  "claimed_schedule sha str now s =
     s\<lparr>s_until := now + 60, s_epoch := s_epoch s + 1, s_pending := Some (pending_id sha str s)\<rparr>"

definition due ::
  "(string \<Rightarrow> string) \<Rightarrow> (nat \<Rightarrow> string) \<Rightarrow> schedules \<Rightarrow> time \<Rightarrow> schedules \<times> schedule list" where
  "due sha str d now =
     (map (\<lambda>(i, s). (i, if is_due now s then claimed_schedule sha str now s else s)) d,
      map (\<lambda>(i, s). claimed_schedule sha str now s) (filter (\<lambda>(i, s). is_due now s) d))"

definition dispatched :: "schedules \<Rightarrow> string \<Rightarrow> nat \<Rightarrow> pytext option \<Rightarrow> time \<Rightarrow> schedules result" where
  "dispatched d i e error now =
     (case dget d i of
        None \<Rightarrow> Inl (KeyError i)
      | Some s \<Rightarrow>
          guardE (s_status s \<noteq> Active \<or> s_epoch s \<noteq> e) (ValueError ''stale schedule claim'')
            (Inr (put_schedule
               (if error \<notin> {None, Some []}
                then s\<lparr>s_error := error, s_until := 0, s_next := now + 60\<rparr>
                else (let s = s\<lparr>s_occurrence := s_occurrence s + 1, s_last := s_pending s,
                            s_pending := None, s_until := 0, s_error := None\<rparr>
                      in (case s_interval s of
                            Some n \<Rightarrow> if n \<noteq> 0 then s\<lparr>s_next := now + of_int n\<rparr> else s\<lparr>s_status := SCompleted\<rparr>
                          | None \<Rightarrow> s\<lparr>s_status := SCompleted\<rparr>))) d)))"

subsection \<open>The tools of a task\<close>

definition schedule_list :: "schedules \<Rightarrow> string \<Rightarrow> schedule list" where
  "schedule_list d run = filter (\<lambda>s. s_source s = run) (dvals d)"

definition schedule_control :: "schedules \<Rightarrow> string \<Rightarrow> string \<Rightarrow> string \<Rightarrow> (schedules \<times> schedule) result" where
  "schedule_control d run i action =
     (case first_such (\<lambda>s. s_id s = i) (dvals d) of
        None \<Rightarrow> Inl (ValueError ''schedule is not owned by this task'')
      | Some s \<Rightarrow> guardE (s_source s \<noteq> run) (ValueError ''schedule is not owned by this task'')
          (control_schedule d i action))"

subsection \<open>Well-formed documents and steps\<close>

definition wf_schedules :: "schedules \<Rightarrow> bool" where
  "wf_schedules d \<longleftrightarrow> distinct (dkeys d) \<and> (\<forall>(i, s)\<in>set d. s_id s = i)"

definition sepoch :: "schedules \<Rightarrow> string \<Rightarrow> nat" where
  "sepoch d i = (case dget d i of None \<Rightarrow> 0 | Some s \<Rightarrow> s_epoch s)"

inductive sstep :: "(string \<Rightarrow> string) \<Rightarrow> (nat \<Rightarrow> string) \<Rightarrow> schedules \<Rightarrow> schedules \<Rightarrow> bool"
  for sha str where
  created: "create_schedule d i ok task src next_at interval now = Inr (d', s) \<Longrightarrow> i \<notin> set (dkeys d) \<Longrightarrow>
    sstep sha str d d'"
| controlled: "control_schedule d i action = Inr (d', s) \<Longrightarrow> sstep sha str d d'"
| claimed: "due sha str d now = (d', claimed) \<Longrightarrow> sstep sha str d d'"
| dispatched: "dispatched d i e error now = Inr d' \<Longrightarrow> sstep sha str d d'"

definition sclaims :: "(string \<Rightarrow> string) \<Rightarrow> (nat \<Rightarrow> string) \<Rightarrow> schedules \<Rightarrow> string \<Rightarrow> nat \<Rightarrow> schedules \<Rightarrow> bool" where
  "sclaims sha str d i e d' \<longleftrightarrow>
     (\<exists>now s. due sha str d now = (d', snd (due sha str d now)) \<and> s \<in> set (snd (due sha str d now))
        \<and> s_id s = i \<and> s_epoch s = e)"

definition spublishes :: "schedules \<Rightarrow> string \<Rightarrow> nat \<Rightarrow> schedules \<Rightarrow> bool" where
  "spublishes d i e d' \<longleftrightarrow> (\<exists>error now. dispatched d i e error now = Inr d')"

lemma stored_schedule_fields [simp]:
  "s_id (stored_schedule s) = s_id s" "s_epoch (stored_schedule s) = s_epoch s"
  "s_status (stored_schedule s) = s_status s" "s_occurrence (stored_schedule s) = s_occurrence s"
  "s_until (stored_schedule s) = s_until s" "s_pending (stored_schedule s) = s_pending s"
  "s_last (stored_schedule s) = s_last s" "s_next (stored_schedule s) = s_next s"
  "s_interval (stored_schedule s) = s_interval s"
  by (simp_all add: stored_schedule_def)

lemma claimed_schedule_fields [simp]:
  "s_id (claimed_schedule sha str now s) = s_id s" "s_epoch (claimed_schedule sha str now s) = s_epoch s + 1"
  "s_status (claimed_schedule sha str now s) = s_status s" "s_until (claimed_schedule sha str now s) = now + 60"
  "s_occurrence (claimed_schedule sha str now s) = s_occurrence s"
  "s_pending (claimed_schedule sha str now s) = Some (pending_id sha str s)"
  by (simp_all add: claimed_schedule_def)

lemma wf_get: "wf_schedules d \<Longrightarrow> dget d i = Some s \<Longrightarrow> s_id s = i"
  using map_of_SomeD by (fastforce simp: wf_schedules_def)

lemma put_wf: "wf_schedules d \<Longrightarrow> wf_schedules (put_schedule s d)"
  unfolding wf_schedules_def put_schedule_def
  using dput_memD by (fastforce simp: distinct_update)

lemma due_get:
  "dget (fst (due sha str d now)) i =
     map_option (\<lambda>s. if is_due now s then claimed_schedule sha str now s else s) (dget d i)"
  by (induction d) (auto simp: due_def)

lemma due_keys: "dkeys (fst (due sha str d now)) = dkeys d"
  by (induction d) (auto simp: due_def)

lemma due_wf: "wf_schedules d \<Longrightarrow> wf_schedules (fst (due sha str d now))"
proof -
  assume w: "wf_schedules d"
  have "distinct (dkeys (fst (due sha str d now)))" using w due_keys by (simp add: wf_schedules_def)
  moreover have "s_id s = i" if "(i, s) \<in> set (fst (due sha str d now))" for i s
    using that w by (auto simp: due_def wf_schedules_def split: if_splits)
  ultimately show ?thesis by (auto simp: wf_schedules_def)
qed

lemma dispatched_change:
  assumes "dispatched d i e error now = Inr d'" "wf_schedules d"
  obtains s s' where "dget d i = Some s" "s_status s = Active" "s_epoch s = e" "d' = dput i s' d"
    "s_id s' = i" "s_epoch s' = e" "s_until s' = 0"
    "s_occurrence s' = (if error \<in> {None, Some []} then s_occurrence s + 1 else s_occurrence s)"
    "error \<in> {None, Some []} \<longrightarrow> s_last s' = s_pending s \<and> s_pending s' = None
       \<and> s_status s' = (if s_interval s \<in> {None, Some 0} then SCompleted else Active)"
    "error \<notin> {None, Some []} \<longrightarrow> s_pending s' = s_pending s \<and> s_status s' = Active \<and> s_next s' = now + 60"
proof -
  obtain s where s: "dget d i = Some s" "s_status s = Active" "s_epoch s = e"
    using assms(1) by (auto simp: dispatched_def bind_simps split: option.splits)
  have id: "s_id s = i" using wf_get [OF assms(2) s(1)] .
  show thesis
    using that [OF s, of "stored_schedule (if error \<notin> {None, Some []}
          then s\<lparr>s_error := error, s_until := 0, s_next := now + 60\<rparr>
          else (let s = s\<lparr>s_occurrence := s_occurrence s + 1, s_last := s_pending s,
                      s_pending := None, s_until := 0, s_error := None\<rparr>
                in (case s_interval s of
                      Some n \<Rightarrow> if n \<noteq> 0 then s\<lparr>s_next := now + of_int n\<rparr> else s\<lparr>s_status := SCompleted\<rparr>
                    | None \<Rightarrow> s\<lparr>s_status := SCompleted\<rparr>)))"] assms(1) s id
    by (cases "error \<in> {None, Some []}"; cases "s_interval s")
      (auto simp: dispatched_def put_schedule_def Let_def)
qed

lemma dispatched_put: "dispatched d i e error now = Inr d' \<Longrightarrow> \<exists>s. d' = put_schedule s d"
  by (auto simp: dispatched_def bind_simps split: option.splits)

lemma control_schedule_change:
  assumes "control_schedule d i action = Inr (d', s')"
  obtains s where "dget d i = Some s" "d' = put_schedule s' d" "s_id s' = s_id s" "s_epoch s' = s_epoch s + 1"
    "s_until s' = 0" "s_occurrence s' = s_occurrence s" "s_pending s' = s_pending s"
  using assms by (auto simp: control_schedule_def Let_def split: option.splits if_splits)

lemma create_schedule_change:
  assumes "create_schedule d i ok task src next_at interval now = Inr (d', s)"
  shows "d' = put_schedule s d \<and> s_id s = i \<and> s_epoch s = 0 \<and> s_occurrence s = 0 \<and> s_pending s = None"
  using assms by (auto simp: create_schedule_def bind_simps Let_def)

lemma sstep_wf:
  assumes "wf_schedules d" "sstep sha str d d'"
  shows "wf_schedules d'"
  using assms(2)
proof cases
  case (created i ok task src next_at interval now s)
  then show ?thesis using create_schedule_change [OF created(1)] put_wf [OF assms(1)] by simp
next
  case (controlled i action s)
  then show ?thesis
    by (rule control_schedule_change) (use put_wf [OF assms(1)] in simp)
next
  case (claimed now cl)
  then show ?thesis using due_wf [OF assms(1), of sha str now] by simp
next
  case (dispatched i e error now)
  then show ?thesis using dispatched_put put_wf [OF assms(1)] by blast
qed

lemma sstep_epoch:
  assumes "wf_schedules d" "sstep sha str d d'"
  shows "sepoch d k \<le> sepoch d' k"
  using assms(2)
proof cases
  case (created i ok task src next_at interval now s)
  have "dget d i = None" using created(2) dget_None_iff by fast
  then show ?thesis
    using create_schedule_change [OF created(1)]
    by (auto simp: sepoch_def put_schedule_def dget_dput split: option.splits)
next
  case (controlled i action s)
  then obtain s0 where "dget d i = Some s0" "d' = put_schedule s d" "s_id s = s_id s0" "s_epoch s = s_epoch s0 + 1"
    by (rule control_schedule_change)
  then show ?thesis using wf_get [OF assms(1)] by (auto simp: sepoch_def put_schedule_def dget_dput)
next
  case (claimed now cl)
  then have "d' = fst (due sha str d now)" by simp
  then show ?thesis by (auto simp: sepoch_def due_get split: option.splits)
next
  case (dispatched i e error now)
  then obtain s s' where "dget d i = Some s" "s_epoch s = e" "d' = dput i s' d" "s_epoch s' = e"
    using dispatched_change [OF dispatched assms(1)] by metis
  then show ?thesis by (auto simp: sepoch_def dget_dput)
qed

lemma due_claimed:
  assumes "wf_schedules d" "s \<in> set (snd (due sha str d now))"
  obtains s0 where "dget d (s_id s) = Some s0" "is_due now s0" "s = claimed_schedule sha str now s0"
proof -
  obtain i s0 where s0: "(i, s0) \<in> set d" "is_due now s0" "s = claimed_schedule sha str now s0"
    using assms(2) by (auto simp: due_def)
  then have "s_id s = i" "dget d i = Some s0"
    using assms(1) by (auto simp: wf_schedules_def)
  with s0 that show thesis by blast
qed

interpretation schedules: fenced_lease wf_schedules sepoch "sstep sha str" "sclaims sha str" spublishes
  for sha str
proof unfold_locales
  fix d i e d'
  assume w: "wf_schedules d" and c: "sclaims sha str d i e d'"
  then obtain now s where s: "d' = fst (due sha str d now)" "s \<in> set (snd (due sha str d now))"
    "s_id s = i" "s_epoch s = e"
    by (auto simp: sclaims_def) (metis fst_conv)
  show "sstep sha str d d'"
    using sstep.claimed [of sha str d now d' "snd (due sha str d now)"] s(1) by simp
  obtain s0 where "dget d i = Some s0" "is_due now s0" "s = claimed_schedule sha str now s0"
    using due_claimed [OF w s(2)] s(3) by metis
  with s show "e = sepoch d i + 1 \<and> sepoch d' i = e" by (simp add: sepoch_def due_get)
next
  fix d i e d'
  assume "wf_schedules d" "spublishes d i e d'"
  then show "sepoch d i = e"
    by (auto simp: spublishes_def dispatched_def bind_simps sepoch_def split: option.splits)
qed (auto intro: sstep_wf sstep_epoch)

subsection \<open>Properties\<close>

text \<open>
  A claim that has been superseded dispatches nothing: after a second claim of the same schedule,
  or after a pause, resume or deletion of it, and whatever else happens, reporting a dispatch under
  the first claim's epoch is refused.
\<close>

theorem superseded_claim_dispatches_nothing:
  assumes "wf_schedules d" and "s \<in> set (snd (due sha str d t))"
    and "(sstep sha str)\<^sup>*\<^sup>* (fst (due sha str d t)) d2"
    and "s' \<in> set (snd (due sha str d2 t')) \<and> s_id s' = s_id s \<and> d3 = fst (due sha str d2 t')
       \<or> control_schedule d2 (s_id s) action = Inr (d3, s')"
    and "(sstep sha str)\<^sup>*\<^sup>* d3 d4"
  shows "\<not> (\<exists>d5. dispatched d4 (s_id s) (s_epoch s) error now = Inr d5)"
proof -
  let ?i = "s_id s"
  have c: "sclaims sha str d ?i (s_epoch s) (fst (due sha str d t))"
    unfolding sclaims_def using assms(2) by (metis prod.collapse)
  have st: "sstep sha str d (fst (due sha str d t))" by (rule schedules.claims_step [OF assms(1) c])
  have w1: "wf_schedules (fst (due sha str d t))" by (rule sstep_wf [OF assms(1) st])
  have w2: "wf_schedules d2" by (rule schedules.steps_inv [OF assms(3) w1])
  have e1: "s_epoch s \<le> sepoch d2 ?i"
    using schedules.claims_epoch [OF assms(1) c] schedules.steps_epoch [OF assms(3) w1, of ?i] by simp
  have "s_epoch s < sepoch d3 ?i \<and> wf_schedules d3"
    using assms(4)
  proof
    assume a: "s' \<in> set (snd (due sha str d2 t')) \<and> s_id s' = s_id s \<and> d3 = fst (due sha str d2 t')"
    then have c2: "sclaims sha str d2 ?i (s_epoch s') d3" unfolding sclaims_def by (metis prod.collapse)
    from schedules.claims_epoch [OF w2 c2] e1 sstep_wf [OF w2 schedules.claims_step [OF w2 c2]]
    show ?thesis by simp
  next
    assume a: "control_schedule d2 (s_id s) action = Inr (d3, s')"
    then obtain s0 where "dget d2 ?i = Some s0" "d3 = put_schedule s' d2" "s_id s' = s_id s0"
      "s_epoch s' = s_epoch s0 + 1" by (rule control_schedule_change)
    with wf_get [OF w2] e1 have "s_epoch s < sepoch d3 ?i"
      by (auto simp: sepoch_def put_schedule_def dget_dput)
    with sstep_wf [OF w2 sstep.controlled [OF a]] show ?thesis by blast
  qed
  then have "wf_schedules d3" "s_epoch s < sepoch d4 ?i"
    using schedules.steps_epoch [OF assms(5), of ?i] by auto
  then have "\<not> spublishes d4 ?i (s_epoch s) d5" for d5
    using schedules.publishes_epoch [OF schedules.steps_inv [OF assms(5)]] by fastforce
  then show ?thesis unfolding spublishes_def by blast
qed

text \<open>
  A claimed schedule is not claimed again while its lease runs, and when it is claimed again
  before its occurrence was dispatched the run identifier is the same, so a dispatch that was lost
  half-way is repeated for the same run; a successful dispatch moves on by exactly one occurrence.
\<close>

theorem claims_exclude_and_repeat_the_run:
  assumes "wf_schedules d" and "s \<in> set (snd (due sha str d now))"
    and "now' < now + 60"
  shows "s_id s \<notin> s_id ` set (snd (due sha str (fst (due sha str d now)) now'))
     \<and> (\<forall>d2 s2 t. wf_schedules d2 \<and> s2 \<in> set (snd (due sha str d2 t)) \<and> s_id s2 = s_id s
          \<and> s_occurrence s2 = s_occurrence s \<longrightarrow> s_pending s2 = s_pending s)
     \<and> (\<forall>d2 s2 e t d3. wf_schedules d2 \<and> dget d2 (s_id s) = Some s2 \<and> dispatched d2 (s_id s) e None t = Inr d3 \<longrightarrow>
          (\<exists>s3. dget d3 (s_id s) = Some s3 \<and> s_occurrence s3 = s_occurrence s2 + 1 \<and> s_last s3 = s_pending s2))"
proof (intro conjI allI impI)
  let ?d' = "fst (due sha str d now)"
  obtain s0 where s0: "dget d (s_id s) = Some s0" "is_due now s0" "s = claimed_schedule sha str now s0"
    using due_claimed [OF assms(1,2)] .
  show "s_id s \<notin> s_id ` set (snd (due sha str ?d' now'))"
  proof
    assume "s_id s \<in> s_id ` set (snd (due sha str ?d' now'))"
    then obtain x where x: "x \<in> set (snd (due sha str ?d' now'))" "s_id x = s_id s" by auto
    obtain x0 where "dget ?d' (s_id s) = Some x0" "is_due now' x0"
      using due_claimed [OF due_wf [OF assms(1)] x(1)] x(2) by metis
    then have "is_due now' (claimed_schedule sha str now s0)" using s0 by (auto simp: due_get)
    then show False using assms(3) by (simp add: is_due_def)
  qed
  fix d2 s2 t
  assume a: "wf_schedules d2 \<and> s2 \<in> set (snd (due sha str d2 t)) \<and> s_id s2 = s_id s \<and> s_occurrence s2 = s_occurrence s"
  then obtain x where "s2 = claimed_schedule sha str t x" using due_claimed [of d2 s2] by metis
  with a s0 show "s_pending s2 = s_pending s" by (auto simp: pending_id_def)
next
  fix d2 s2 e t d3
  assume a: "wf_schedules d2 \<and> dget d2 (s_id s) = Some s2 \<and> dispatched d2 (s_id s) e None t = Inr d3"
  show "\<exists>s3. dget d3 (s_id s) = Some s3 \<and> s_occurrence s3 = s_occurrence s2 + 1 \<and> s_last s3 = s_pending s2"
    by (rule dispatched_change [of d2 "s_id s" e None t d3]) (use a in \<open>auto simp: dget_dput\<close>)
qed

text \<open>
  Deleting a schedule is not final: resuming a deleted schedule, or one that has completed its
  only occurrence, makes it active again, and it is claimed at the next instant it is due.
\<close>

theorem deleted_schedule_can_be_resumed:
  assumes "wf_schedules d" and "dget d i = Some s" and "s_status s = Deleted \<or> s_status s = SCompleted"
    and "s_next s \<le> now" and "0 \<le> now"
  shows "\<exists>d' s' s''. control_schedule d i ''resume'' = Inr (d', s') \<and> s'' \<in> set (snd (due sha str d' now))
     \<and> s_id s'' = i \<and> s_occurrence s'' = s_occurrence s"
proof -
  let ?s = "s\<lparr>s_status := Active, s_epoch := s_epoch s + 1, s_until := 0\<rparr>"
  have id: "s_id s = i" using wf_get [OF assms(1,2)] .
  have c: "control_schedule d i ''resume'' = Inr (put_schedule ?s d, ?s)"
    using assms(2) by (simp add: control_schedule_def Let_def)
  have g: "dget (put_schedule ?s d) i = Some (stored_schedule ?s)" using id by (simp add: put_schedule_def dget_dput)
  have "is_due now (stored_schedule ?s)" using assms(4,5) by (simp add: is_due_def)
  then have "claimed_schedule sha str now (stored_schedule ?s) \<in> set (snd (due sha str (put_schedule ?s d) now))"
    using map_of_SomeD [OF g] by (force simp: due_def)
  with c id show ?thesis by fastforce
qed

definition example_schedule :: schedule where
  "example_schedule = \<lparr>s_id = ''a'', s_task = u ''x'', s_source = ''r'', s_next = 5, s_interval = None,
     s_status = Active, s_occurrence = 0, s_until = 0, s_epoch = 0, s_pending = None, s_last = None,
     s_error = None\<rparr>"

lemma example_schedules_wf: "wf_schedules [(''a'', example_schedule)]"
  by (simp add: wf_schedules_def example_schedule_def)

lemma example_due: "claimed_schedule id (\<lambda>n. ''1'') 10 example_schedule
    \<in> set (snd (due id (\<lambda>n. ''1'') [(''a'', example_schedule)] 10))"
  by (simp add: due_def is_due_def example_schedule_def)

theorem superseded_claim_dispatches_nothing_witness:
  "\<exists>d3 s'. control_schedule (fst (due id (\<lambda>n. ''1'') [(''a'', example_schedule)] 10)) ''a'' ''pause'' = Inr (d3, s')
     \<and> \<not> (\<exists>d5. dispatched d3 ''a'' 1 None 11 = Inr d5)"
proof -
  let ?s = "claimed_schedule id (\<lambda>n. ''1'') 10 example_schedule"
  have i: "s_id ?s = ''a''" "s_epoch ?s = 1" by (simp_all add: example_schedule_def)
  obtain d3 s' where c: "control_schedule (fst (due id (\<lambda>n. ''1'') [(''a'', example_schedule)] 10)) ''a'' ''pause'' = Inr (d3, s')"
    by (simp add: control_schedule_def due_get Let_def)
  from superseded_claim_dispatches_nothing [OF example_schedules_wf example_due rtranclp.rtrancl_refl
      _ rtranclp.rtrancl_refl, of s' _ d3 "''pause''" None 11] c i
  show ?thesis by auto
qed

theorem claims_exclude_and_repeat_the_run_witness:
  "''a'' \<notin> s_id ` set (snd (due id (\<lambda>n. ''1'') (fst (due id (\<lambda>n. ''1'') [(''a'', example_schedule)] 10)) 20))"
  using claims_exclude_and_repeat_the_run [OF example_schedules_wf example_due, of 20]
  by (simp add: example_schedule_def)

theorem deleted_schedule_can_be_resumed_witness:
  "\<exists>d' s' s''. control_schedule [(''a'', example_schedule\<lparr>s_status := Deleted\<rparr>)] ''a'' ''resume'' = Inr (d', s')
     \<and> s'' \<in> set (snd (due id (\<lambda>n. ''1'') d' 10)) \<and> s_id s'' = ''a'' \<and> s_occurrence s'' = 0"
proof -
  have w: "wf_schedules [(''a'', example_schedule\<lparr>s_status := Deleted\<rparr>)]"
    by (simp add: wf_schedules_def example_schedule_def)
  show ?thesis
    using deleted_schedule_can_be_resumed [OF w, of "''a''" "example_schedule\<lparr>s_status := Deleted\<rparr>" 10 id "\<lambda>n. ''1''"]
    by (simp add: example_schedule_def)
qed

end
