(* ===== verification/Control.thy ===== *)
theory Control
  imports Policy
begin

text \<open>
  \<open>control.py\<close>: the pause, cancellation and live steering state of a run. A missing or unreadable
  \<open>control.json\<close> reads as a running task without steering. Texts are redacted when they are saved;
  every operation runs in one store transaction.
\<close>

subsection \<open>State and operations\<close>

datatype rstate = RRunning | RPaused | RCancelled

record control =
  c_state :: rstate
  c_reason :: pytext
  c_steering :: "(pytext \<times> bool) list"  \<comment> \<open>the message and whether it was consumed\<close>
  c_updated :: "string option"

definition initial_control :: control where
  "initial_control = \<lparr>c_state = RRunning, c_reason = [], c_steering = [], c_updated = None\<rparr>"

definition control_state :: "control option \<Rightarrow> control" where
  "control_state d = (case d of None \<Rightarrow> initial_control | Some c \<Rightarrow> c)"

definition stored_control :: "control \<Rightarrow> control" where
  "stored_control c = c\<lparr>c_reason := redact_text (c_reason c),
     c_steering := map (\<lambda>(m, b). (redact_text m, b)) (c_steering c)\<rparr>"

definition set_control :: "control option \<Rightarrow> rstate \<Rightarrow> pytext \<Rightarrow> string \<Rightarrow> control option \<times> control" where
  "set_control d st reason now =
     (let v = (control_state d)\<lparr>c_state := st, c_reason := reason, c_updated := Some now\<rparr>
      in (Some (stored_control v), v))"

definition add_steering :: "control option \<Rightarrow> pytext \<Rightarrow> string \<Rightarrow> control option \<times> pytext" where
  "add_steering d m now =
     (let v = control_state d;
          v = v\<lparr>c_steering := c_steering v @ [(m, False)], c_updated := Some now\<rparr>
      in (Some (stored_control v), m))"

definition pending_steering :: "control option \<Rightarrow> pytext list" where
  "pending_steering d = map fst (filter (\<lambda>(m, b). \<not> b) (c_steering (control_state d)))"

definition consume_steering :: "control option \<Rightarrow> control option \<times> pytext list" where
  "consume_steering d =
     (let v = control_state d; messages = pending_steering d
      in (if messages = [] then d
          else Some (stored_control (v\<lparr>c_steering := map (\<lambda>(m, b). (m, True)) (c_steering v)\<rparr>)),
          filter (\<lambda>m. m \<noteq> []) messages))"

definition blocking_reason :: "control option \<Rightarrow> pytext option" where
  "blocking_reason d =
     (let v = control_state d
      in case c_state v of
           RCancelled \<Rightarrow> Some (if c_reason v = [] then u ''task cancelled by user'' else c_reason v)
         | RPaused \<Rightarrow> Some (if c_reason v = [] then u ''task paused by user'' else c_reason v)
         | RRunning \<Rightarrow> None)"

subsection \<open>Sequences of operations\<close>

datatype cop =
    SetState rstate pytext string
  | Steer pytext string
  | Consume

fun cstep :: "control option \<Rightarrow> cop \<Rightarrow> control option \<times> pytext list" where
  "cstep d (SetState st r now) = (fst (set_control d st r now), [])"
| "cstep d (Steer m now) = (fst (add_steering d m now), [])"
| "cstep d Consume = consume_steering d"

fun crun :: "control option \<Rightarrow> cop list \<Rightarrow> control option \<times> pytext list" where
  \<comment> \<open>the final document and all messages handed to the model, in order\<close>
  "crun d [] = (d, [])"
| "crun d (x # xs) = (let (d', out) = cstep d x; (d'', outs) = crun d' xs in (d'', out @ outs))"

definition steered :: "cop list \<Rightarrow> pytext list" where
  "steered xs = concat (map (\<lambda>x. case x of Steer m _ \<Rightarrow> [m] | _ \<Rightarrow> []) xs)"

definition clean :: "pytext \<Rightarrow> bool" where
  "clean m \<longleftrightarrow> m \<noteq> [] \<and> redact_text m = m"

definition clean_control :: "control option \<Rightarrow> bool" where
  "clean_control d \<longleftrightarrow> list_all (\<lambda>(m, b). clean m) (c_steering (control_state d))"

lemma stored_steering:
  "list_all (\<lambda>(m, b). clean m) (c_steering c) \<Longrightarrow> c_steering (stored_control c) = c_steering c"
  by (simp add: stored_control_def list_all_iff clean_def map_idI case_prod_beta)

lemma pending_set: "clean_control d \<Longrightarrow> pending_steering (fst (set_control d st r now)) = pending_steering d"
  using stored_steering [of "(control_state d)\<lparr>c_state := st, c_reason := r, c_updated := Some now\<rparr>"]
  by (simp add: pending_steering_def set_control_def Let_def control_state_def clean_control_def split: option.splits)

lemma steering_after_add:
  "clean_control d \<Longrightarrow> clean m \<Longrightarrow>
     c_steering (control_state (fst (add_steering d m now))) = c_steering (control_state d) @ [(m, False)]"
  using stored_steering [of "(control_state d)\<lparr>c_steering := c_steering (control_state d) @ [(m, False)], c_updated := Some now\<rparr>"]
  by (simp add: add_steering_def Let_def clean_control_def control_state_def split: option.splits)

lemma steering_after_consume:
  assumes "clean_control d"
  shows "c_steering (control_state (fst (consume_steering d))) = map (\<lambda>(m, b). (m, True)) (c_steering (control_state d))"
proof -
  have "list_all (\<lambda>(m, b). clean m) (map (\<lambda>(m, b). (m, True)) (c_steering (control_state d)))"
    using assms by (auto simp: clean_control_def list_all_iff)
  then have "c_steering (stored_control ((control_state d)\<lparr>c_steering := map (\<lambda>(m, b). (m, True)) (c_steering (control_state d))\<rparr>))
     = map (\<lambda>(m, b). (m, True)) (c_steering (control_state d))"
    by (subst stored_steering) auto
  moreover have "map (\<lambda>(m, b). (m, True)) xs = xs" if "filter (\<lambda>(m, b). \<not> b) xs = []" for xs :: "(pytext \<times> bool) list"
    using that by (intro map_idI) (auto simp: filter_empty_conv)
  ultimately show ?thesis
    by (auto simp: consume_steering_def Let_def pending_steering_def control_state_def)
qed

lemma cstep_clean:
  assumes "clean_control d" "\<forall>m now. x = Steer m now \<longrightarrow> clean m"
  shows "clean_control (fst (cstep d x)) \<and> snd (cstep d x) @ pending_steering (fst (cstep d x))
     = pending_steering d @ steered [x]"
proof (cases x)
  case (SetState st r now)
  then have "c_steering (control_state (fst (cstep d x))) = c_steering (control_state d)"
    using assms(1) stored_steering [of "(control_state d)\<lparr>c_state := st, c_reason := r, c_updated := Some now\<rparr>"]
    by (simp add: set_control_def Let_def control_state_def clean_control_def split: option.splits)
  then show ?thesis using SetState assms(1) by (simp add: clean_control_def pending_steering_def steered_def)
next
  case (Steer m now)
  then have "clean m" using assms(2) by simp
  with steering_after_add [OF assms(1), of m now] Steer assms(1)
  show ?thesis by (simp add: clean_control_def pending_steering_def steered_def)
next
  case Consume
  have "filter (\<lambda>m. m \<noteq> []) (pending_steering d) = pending_steering d"
    using assms(1) by (auto simp: clean_control_def pending_steering_def list_all_iff clean_def filter_id_conv)
  then have out: "snd (consume_steering d) = pending_steering d" by (simp add: consume_steering_def Let_def)
  have st: "c_steering (control_state (fst (consume_steering d))) = map (\<lambda>(m, b). (m, True)) (c_steering (control_state d))"
    by (rule steering_after_consume [OF assms(1)])
  have "filter (\<lambda>(m, b). \<not> b) (map (\<lambda>(m, b). (m, True)) xs) = []" for xs :: "(pytext \<times> bool) list"
    by (induction xs) auto
  with st out assms(1) Consume show ?thesis
    by (auto simp: pending_steering_def steered_def clean_control_def list_all_iff)
qed

subsection \<open>Properties\<close>

text \<open>
  C37. Every steering message reaches the model exactly once and in the order it was given: over any
  sequence of pauses, resumes, messages and consumptions, the messages handed out so far followed by
  those still pending are the messages pending at the start followed by those given since.
\<close>

theorem steering_delivered_once_in_order:
  assumes "clean_control d" and "list_all clean (steered xs)"
  shows "snd (crun d xs) @ pending_steering (fst (crun d xs)) = pending_steering d @ steered xs"
  using assms
proof (induction xs arbitrary: d)
  case Nil
  then show ?case by (simp add: steered_def)
next
  case (Cons x xs)
  have st: "steered (x # xs) = steered [x] @ steered xs" by (simp add: steered_def)
  have "\<forall>m now. x = Steer m now \<longrightarrow> clean m" using Cons.prems(2) by (auto simp: steered_def)
  note c = cstep_clean [OF Cons.prems(1) this]
  have "snd (crun (fst (cstep d x)) xs) @ pending_steering (fst (crun (fst (cstep d x)) xs))
      = pending_steering (fst (cstep d x)) @ steered xs"
    using Cons.IH [of "fst (cstep d x)"] c Cons.prems(2) st by simp
  with c st show ?case by (simp add: case_prod_beta)
qed

theorem steering_delivered_once_in_order_witness:
  "snd (crun None [Steer (u ''stop'') ''t1'', SetState RPaused [] ''t2'', Consume, Consume])
     @ pending_steering (fst (crun None [Steer (u ''stop'') ''t1'', SetState RPaused [] ''t2'', Consume, Consume]))
   = [u ''stop'']"
proof -
  let ?xs = "[Steer (u ''stop'') ''t1'', SetState RPaused [] ''t2'', Consume, Consume]"
  have "redact_text (u ''stop'') = u ''stop''" by (rule redact_plain) (simp add: plain_char_def)
  then have "list_all clean (steered ?xs)" "steered ?xs = [u ''stop'']" by (simp_all add: steered_def clean_def)
  moreover have "clean_control None" by (simp add: clean_control_def control_state_def initial_control_def)
  moreover have "pending_steering None = []"
    by (simp add: pending_steering_def control_state_def initial_control_def)
  ultimately show ?thesis using steering_delivered_once_in_order [of None ?xs] by simp
qed

end
