(* ===== verification/Goals.thy ===== *)
theory Goals
  imports Policy
begin

text \<open>
  \<open>goals.py\<close>: the goal of a run with its subgoals, budget and usage, and the goal tools. The document
  \<open>goal.json\<close> holds one goal or none; every operation runs in one store transaction, and an
  operation on a missing goal raises \<open>FileNotFoundError\<close>.
\<close>

datatype gstatus = GActive | GWaitingInput | GWaitingApproval | GPaused | GBudgetLimited | GCompleted
  | GFailed | GCancelled

datatype sgstatus = SgPending | SgActive | SgCompleted | SgBlocked | SgCancelled

record budget =
  b_turns :: int
  b_tool_calls :: int
  b_model_calls :: int
  b_tokens :: "int option"
  b_seconds :: int

record usage =
  us_turns :: int
  us_tool_calls :: int
  us_model_calls :: int
  us_tokens :: int
  us_seconds :: real

record sub_goal =
  sg_id :: string
  sg_objective :: pytext
  sg_status :: sgstatus
  sg_owner :: "pytext option"
  sg_result :: "pytext option"

record goal =
  g_run :: string
  g_objective :: pytext
  g_criteria :: "pytext list"
  g_status :: gstatus
  g_subgoals :: "sub_goal list"
  g_budget :: budget
  g_usage :: usage
  g_waiting :: "pytext option"

definition default_budget :: budget where
  "default_budget = \<lparr>b_turns = 24, b_tool_calls = 80, b_model_calls = 32, b_tokens = None, b_seconds = 3600\<rparr>"

definition no_usage :: usage where
  "no_usage = \<lparr>us_turns = 0, us_tool_calls = 0, us_model_calls = 0, us_tokens = 0, us_seconds = 0\<rparr>"

definition valid_budget :: "budget \<Rightarrow> bool" where
  \<comment> \<open>the field bounds of \<open>GoalBudget\<close>\<close>
  "valid_budget b \<longleftrightarrow> 1 \<le> b_turns b \<and> b_turns b \<le> 500 \<and> 1 \<le> b_tool_calls b \<and> b_tool_calls b \<le> 2000
     \<and> 1 \<le> b_model_calls b \<and> b_model_calls b \<le> 500
     \<and> (case b_tokens b of None \<Rightarrow> True | Some t \<Rightarrow> 256 \<le> t) \<and> 30 \<le> b_seconds b \<and> b_seconds b \<le> 604800"

definition stored_goal :: "goal \<Rightarrow> goal" where
  "stored_goal g = g\<lparr>g_objective := redact_text (g_objective g), g_criteria := map redact_text (g_criteria g),
     g_subgoals := map (\<lambda>s. s\<lparr>sg_objective := redact_text (sg_objective s),
       sg_owner := map_option redact_text (sg_owner s),
       sg_result := map_option redact_text (sg_result s)\<rparr>) (g_subgoals g),
     g_waiting := map_option redact_text (g_waiting g)\<rparr>"

definition load_goal :: "goal option \<Rightarrow> goal result" where
  "load_goal d = (case d of None \<Rightarrow> Inl FileNotFoundError | Some g \<Rightarrow> Inr g)"

definition create_goal :: "goal option \<Rightarrow> string \<Rightarrow> pytext \<Rightarrow> pytext list \<Rightarrow> budget option \<Rightarrow> goal option \<times> goal" where
  "create_goal d run objective criteria b =
     (case load_goal d of
        Inr g \<Rightarrow> (d, g)
      | Inl _ \<Rightarrow> (let g = \<lparr>g_run = run, g_objective = objective, g_criteria = criteria, g_status = GActive,
            g_subgoals = [], g_budget = (case b of None \<Rightarrow> default_budget | Some b \<Rightarrow> b),
            g_usage = no_usage, g_waiting = None\<rparr>
          in (Some (stored_goal g), g)))"

definition update_goal_status :: "goal option \<Rightarrow> gstatus \<Rightarrow> pytext option \<Rightarrow> (goal option \<times> goal) result" where
  "update_goal_status d st reason =
     bindE (load_goal d) (\<lambda>g.
       let g = g\<lparr>g_status := st, g_waiting := reason\<rparr> in Inr (Some (stored_goal g), g))"

definition add_subgoal :: "goal option \<Rightarrow> string \<Rightarrow> pytext \<Rightarrow> pytext option \<Rightarrow> (goal option \<times> sub_goal) result" where
  \<comment> \<open>the new identifier comes from \<open>uuid4\<close>\<close>
  "add_subgoal d i objective owner =
     bindE (load_goal d) (\<lambda>g.
       let s = \<lparr>sg_id = i, sg_objective = objective, sg_status = SgPending, sg_owner = owner, sg_result = None\<rparr>
       in Inr (Some (stored_goal (g\<lparr>g_subgoals := g_subgoals g @ [s]\<rparr>)), s))"

fun update_first :: "string \<Rightarrow> (sub_goal \<Rightarrow> sub_goal) \<Rightarrow> sub_goal list \<Rightarrow> sub_goal list" where
  "update_first i f [] = []"
| "update_first i f (s # ss) = (if sg_id s = i then f s # ss else s # update_first i f ss)"

definition update_subgoal ::
  "goal option \<Rightarrow> string \<Rightarrow> sgstatus \<Rightarrow> pytext option \<Rightarrow> (goal option \<times> sub_goal) result" where
  "update_subgoal d i st res =
     bindE (load_goal d) (\<lambda>g.
       case first_such (\<lambda>s. sg_id s = i) (g_subgoals g) of
         None \<Rightarrow> Inl (ValueError ''subgoal not found'')
       | Some s \<Rightarrow>
           (let f = (\<lambda>s. s\<lparr>sg_status := st, sg_result := res\<rparr>)
            in Inr (Some (stored_goal (g\<lparr>g_subgoals := update_first i f (g_subgoals g)\<rparr>)), f s)))"

definition add_usage :: "goal option \<Rightarrow> usage \<Rightarrow> (goal option \<times> goal) result" where
  "add_usage d x =
     bindE (load_goal d) (\<lambda>g.
       let y = g_usage g;
           g = g\<lparr>g_usage := \<lparr>us_turns = us_turns y + us_turns x, us_tool_calls = us_tool_calls y + us_tool_calls x,
             us_model_calls = us_model_calls y + us_model_calls x, us_tokens = us_tokens y + us_tokens x,
             us_seconds = us_seconds y + us_seconds x\<rparr>\<rparr>
       in Inr (Some (stored_goal g), g))"

definition exceeded_budget :: "goal \<Rightarrow> string option" where
  \<comment> \<open>the name of the first exhausted budget, in the order the code checks them\<close>
  "exceeded_budget g =
     (let y = g_usage g; b = g_budget g
      in if us_turns y \<ge> b_turns b then Some ''turns''
         else if us_tool_calls y \<ge> b_tool_calls b then Some ''tool_calls''
         else if us_model_calls y \<ge> b_model_calls b then Some ''model_calls''
         else if us_seconds y \<ge> of_int (b_seconds b) then Some ''seconds''
         else (case b_tokens b of None \<Rightarrow> None
               | Some t \<Rightarrow> if us_tokens y \<ge> t then Some ''tokens'' else None))"

fun sgstatus_of :: "pytext \<Rightarrow> sgstatus option" where
  "sgstatus_of t = (if t = u ''pending'' then Some SgPending else if t = u ''active'' then Some SgActive
     else if t = u ''completed'' then Some SgCompleted else if t = u ''blocked'' then Some SgBlocked
     else if t = u ''cancelled'' then Some SgCancelled else None)"

definition goal_add_subgoal :: "goal option \<Rightarrow> string \<Rightarrow> pytext \<Rightarrow> pytext \<Rightarrow> (goal option \<times> sub_goal) result" where
  "goal_add_subgoal d i objective owner = add_subgoal d i objective (if owner = [] then None else Some owner)"

definition goal_update_subgoal :: "goal option \<Rightarrow> string \<Rightarrow> pytext \<Rightarrow> pytext \<Rightarrow> (goal option \<times> sub_goal option) result" where
  \<comment> \<open>\<open>None\<close> stands for the error message the tool returns for a bad status or an unknown subgoal\<close>
  "goal_update_subgoal d i st res =
     (case sgstatus_of st of
        None \<Rightarrow> Inr (d, None)
      | Some s \<Rightarrow>
          (case update_subgoal d i s (if res = [] then None else Some res) of
             Inl (ValueError _) \<Rightarrow> Inr (d, None)
           | Inl e \<Rightarrow> Inl e
           | Inr (d', x) \<Rightarrow> Inr (d', Some x)))"

subsection \<open>Operations in sequence\<close>

inductive gstep :: "goal option \<Rightarrow> goal option \<Rightarrow> bool" where
  create: "create_goal d run objective criteria b = (d', g) \<Longrightarrow> gstep d d'"
| status: "update_goal_status d st reason = Inr (d', g) \<Longrightarrow> gstep d d'"
| added: "add_subgoal d i objective owner = Inr (d', s) \<Longrightarrow> gstep d d'"
| update: "update_subgoal d i sst res = Inr (d', s) \<Longrightarrow> gstep d d'"
| usage: "add_usage d x = Inr (d', g) \<Longrightarrow> 0 \<le> us_turns x \<Longrightarrow> 0 \<le> us_tool_calls x \<Longrightarrow> 0 \<le> us_model_calls x \<Longrightarrow>
    0 \<le> us_tokens x \<Longrightarrow> 0 \<le> us_seconds x \<Longrightarrow> gstep d d'"

lemma stored_goal_fields [simp]:
  "g_budget (stored_goal g) = g_budget g" "g_usage (stored_goal g) = g_usage g"
  "g_status (stored_goal g) = g_status g" "map sg_id (g_subgoals (stored_goal g)) = map sg_id (g_subgoals g)"
  by (auto simp: stored_goal_def)

definition grows :: "goal \<Rightarrow> goal \<Rightarrow> bool" where
  \<comment> \<open>same budget, at least the usage\<close>
  "grows g g' \<longleftrightarrow> g_budget g' = g_budget g \<and> us_turns (g_usage g) \<le> us_turns (g_usage g')
     \<and> us_tool_calls (g_usage g) \<le> us_tool_calls (g_usage g') \<and> us_model_calls (g_usage g) \<le> us_model_calls (g_usage g')
     \<and> us_tokens (g_usage g) \<le> us_tokens (g_usage g') \<and> us_seconds (g_usage g) \<le> us_seconds (g_usage g')"

lemma grows_refl: "grows g g"
  by (simp add: grows_def)

lemma grows_trans: "grows g g' \<Longrightarrow> grows g' g'' \<Longrightarrow> grows g g''"
  by (auto simp: grows_def)

lemma gstep_grows: "gstep (Some g) d' \<Longrightarrow> \<exists>g'. d' = Some g' \<and> grows g g'"
proof (induction "Some g" d' rule: gstep.induct)
  case (update i sst res d' s)
  then show ?case
    by (auto simp: update_subgoal_def load_goal_def grows_def Let_def split: option.splits)
qed (auto simp: create_goal_def update_goal_status_def add_subgoal_def add_usage_def load_goal_def grows_def Let_def)

lemma gsteps_grow: "gstep\<^sup>*\<^sup>* (Some g) d' \<Longrightarrow> \<exists>g'. d' = Some g' \<and> grows g g'"
proof (induction rule: rtranclp_induct)
  case base
  then show ?case by (simp add: grows_refl)
next
  case (step y z)
  then show ?case using gstep_grows grows_trans by blast
qed

text \<open>
  A goal that has used up a budget stays blocked: whatever is done to it afterwards, creating it
  again, changing its status or its subgoals, or adding usage, the budget check keeps reporting an
  exhausted budget. It reports none exactly while every counter is below its limit.
\<close>

theorem exhausted_budget_stays_exhausted:
  assumes "gstep\<^sup>*\<^sup>* (Some g) d"
  shows "\<exists>g'. d = Some g' \<and> (exceeded_budget g \<noteq> None \<longrightarrow> exceeded_budget g' \<noteq> None)
     \<and> (exceeded_budget g' = None \<longleftrightarrow>
          us_turns (g_usage g') < b_turns (g_budget g) \<and> us_tool_calls (g_usage g') < b_tool_calls (g_budget g)
          \<and> us_model_calls (g_usage g') < b_model_calls (g_budget g)
          \<and> us_seconds (g_usage g') < of_int (b_seconds (g_budget g))
          \<and> (case b_tokens (g_budget g) of None \<Rightarrow> True | Some t \<Rightarrow> us_tokens (g_usage g') < t))"
proof -
  obtain g' where "d = Some g'" "grows g g'" using gsteps_grow [OF assms] by blast
  then show ?thesis
    by (auto simp: grows_def exceeded_budget_def Let_def split: option.splits if_splits)
qed

definition example_goal :: goal where
  "example_goal = \<lparr>g_run = ''r'', g_objective = u ''x'', g_criteria = [], g_status = GActive, g_subgoals = [],
     g_budget = default_budget, g_usage = no_usage\<lparr>us_turns := 24\<rparr>, g_waiting = None\<rparr>"

theorem exhausted_budget_stays_exhausted_witness:
  "\<exists>g'. fst (create_goal (Some example_goal) ''r'' (u ''y'') [] None) = Some g' \<and> exceeded_budget g' \<noteq> None"
proof -
  have "gstep\<^sup>*\<^sup>* (Some example_goal) (fst (create_goal (Some example_goal) ''r'' (u ''y'') [] None))"
    by (rule r_into_rtranclp, rule gstep.create [OF prod.collapse [symmetric]])
  from exhausted_budget_stays_exhausted [of example_goal "fst (create_goal (Some example_goal) ''r'' (u ''y'') [] None)"] this
  show ?thesis by (auto simp: exceeded_budget_def example_goal_def default_budget_def no_usage_def Let_def)
qed

end
