(* ===== verification/Event_Log.thy ===== *)
theory Event_Log
  imports Prelude
begin

text \<open>
  The interface of an event-sourced component: its state is a projection of an append-only list of
  events, each applied in turn to what came before. If every event that is appended is admissible
  where it is appended, the invariant of the projected state holds after any history.
\<close>

fun admissible :: "('e \<Rightarrow> 's \<Rightarrow> 's) \<Rightarrow> ('e \<Rightarrow> 's \<Rightarrow> bool) \<Rightarrow> 'e list \<Rightarrow> 's \<Rightarrow> bool" where
  "admissible app ok [] s = True"
| "admissible app ok (e # es) s = (ok e s \<and> admissible app ok es (app e s))"

lemma admissible_append:
  "admissible app ok (es @ fs) s \<longleftrightarrow> admissible app ok es s \<and> admissible app ok fs (fold app es s)"
  by (induction es arbitrary: s) auto

locale event_log =
  fixes app :: "'e \<Rightarrow> 's \<Rightarrow> 's"
    and ok :: "'e \<Rightarrow> 's \<Rightarrow> bool"
    and inv :: "'s \<Rightarrow> bool"
    and init :: 's
  assumes inv_init: "inv init"
    and inv_app: "inv s \<Longrightarrow> ok e s \<Longrightarrow> inv (app e s)"
begin

lemma inv_fold: "inv s \<Longrightarrow> admissible app ok es s \<Longrightarrow> inv (fold app es s)"
  by (induction es arbitrary: s) (auto intro: inv_app)

lemma inv_history: "admissible app ok es init \<Longrightarrow> inv (fold app es init)"
  using inv_fold inv_init by blast

lemma history_snoc:
  "admissible app ok (es @ fs) init \<longleftrightarrow> admissible app ok es init \<and> admissible app ok fs (fold app es init)"
  by (rule admissible_append)

end

end
