(* ===== verification/Message_Queue.thy ===== *)
theory Message_Queue
  imports Event_Log Policy
begin

text \<open>
  \<open>message_queue.py\<close>: the follow-up queue of a conversation. The queue is the projection of the
  conversation's session events; every operation reads the projection, checks its guards and appends
  events, all in one transaction. LightAgent's inbox is a library: \<open>restore\<close>, the list of messages
  it rebuilds from the events, is a parameter, and no queue state depends on it. Legacy items of
  \<open>message-queue.json\<close> are imported on first access.
\<close>

subsection \<open>Items and events\<close>

datatype qstatus = QPending | QRunning | QCompleted | QGuided | QFailed | QCancelled

record qitem =
  qi_id :: string
  qi_message :: pytext
  qi_status :: qstatus
  qi_created :: string
  qi_run :: "string option"
  qi_started :: "string option"
  qi_key :: "pytext option"
  qi_last_error :: "pytext option"
  qi_completed :: "string option"
  qi_error :: "pytext option"
  qi_guided :: "string option"

datatype istatus = IPending | IClaimed | ICompleted | IRejected

record imessage =
  im_id :: string
  im_steering :: bool
  im_item :: string
  im_attempt :: nat
  im_status :: istatus

datatype qevent =
    Enqueued qitem
  | Claimed string string string
  | Released string "pytext option"
  | Finished string qstatus string "pytext option"
  | Guided string string
  | CancelledE string
  | Reordered "string list"
  | MigrationStarted nat
  | MigrationCompleted nat
  | InboxEnqueued imessage
  | InboxStatus imessage istatus

type_synonym pstate = "string list \<times> (string, qitem) dict"

definition stored_item :: "qitem \<Rightarrow> qitem" where
  "stored_item it = it\<lparr>qi_message := redact_text (qi_message it), qi_key := map_option redact_text (qi_key it),
     qi_last_error := map_option redact_text (qi_last_error it), qi_error := map_option redact_text (qi_error it)\<rparr>"

fun stored_event :: "qevent \<Rightarrow> qevent" where
  \<comment> \<open>the redaction of an event on its way into the session\<close>
  "stored_event (Enqueued it) = Enqueued (stored_item it)"
| "stored_event (Released i e) = Released i (map_option redact_text e)"
| "stored_event (Finished i st t e) = Finished i st t (map_option redact_text e)"
| "stored_event e = e"

subsection \<open>The projection\<close>

definition update_item :: "string \<Rightarrow> (qitem \<Rightarrow> qitem) \<Rightarrow> pstate \<Rightarrow> pstate" where
  "update_item i f s = (case dget (snd s) i of None \<Rightarrow> s | Some it \<Rightarrow> (fst s, dput i (f it) (snd s)))"

fun project_event :: "qevent \<Rightarrow> pstate \<Rightarrow> pstate" where
  "project_event (Enqueued it) (ord, d) =
     (if qi_id it = [] then (ord, d)
      else (if qi_id it \<in> set (dkeys d) then ord else ord @ [qi_id it], dput (qi_id it) it d))"
| "project_event (Claimed i run t) s =
     update_item i (\<lambda>it. it\<lparr>qi_status := QRunning, qi_run := Some run, qi_started := Some t\<rparr>) s"
| "project_event (Released i err) s =
     update_item i (\<lambda>it. it\<lparr>qi_status := QPending, qi_run := None, qi_started := None,
       qi_last_error := if err \<in> {None, Some []} then qi_last_error it else err\<rparr>) s"
| "project_event (Finished i st t err) s =
     update_item i (\<lambda>it. it\<lparr>qi_status := st, qi_completed := Some t,
       qi_error := if err \<in> {None, Some []} then qi_error it else err\<rparr>) s"
| "project_event (Guided i t) s = update_item i (\<lambda>it. it\<lparr>qi_status := QGuided, qi_guided := Some t\<rparr>) s"
| "project_event (CancelledE i) s = update_item i (\<lambda>it. it\<lparr>qi_status := QCancelled\<rparr>) s"
| "project_event (Reordered is) (ord, d) = (filter (\<lambda>i. i \<notin> set is) ord @ is, d)"
| "project_event (MigrationStarted n) s = s"
| "project_event (MigrationCompleted n) s = s"
| "project_event (InboxEnqueued m) s = s"
| "project_event (InboxStatus m st) s = s"

definition pstate_of :: "qevent list \<Rightarrow> pstate" where
  "pstate_of es = fold project_event es ([], [])"

definition project :: "qevent list \<Rightarrow> qitem list" where
  "project es = (let (ord, d) = pstate_of es in map (\<lambda>i. the (dget d i)) ord)"

definition find_item :: "qitem list \<Rightarrow> string \<Rightarrow> qitem result" where
  "find_item its i = (case first_such (\<lambda>x. qi_id x = i) its of None \<Rightarrow> Inl (KeyError i) | Some x \<Rightarrow> Inr x)"

definition append_events :: "qevent list \<Rightarrow> qevent list \<Rightarrow> qevent list" where
  "append_events es new = es @ map stored_event new"

definition active_inbox_message :: "(qevent list \<Rightarrow> imessage list) \<Rightarrow> qevent list \<Rightarrow> string \<Rightarrow> imessage option" where
  "active_inbox_message restore es i =
     first_such (\<lambda>m. im_item m = i \<and> im_status m \<in> {IPending, IClaimed}) (rev (restore es))"

definition attempt_count :: "(qevent list \<Rightarrow> imessage list) \<Rightarrow> qevent list \<Rightarrow> string \<Rightarrow> nat" where
  "attempt_count restore es i = length (filter (\<lambda>m. \<not> im_steering m \<and> im_item m = i) (restore es))"

definition followup :: "string \<Rightarrow> string \<Rightarrow> nat \<Rightarrow> imessage" where
  "followup mid i n = \<lparr>im_id = mid, im_steering = False, im_item = i, im_attempt = n, im_status = IPending\<rparr>"

subsection \<open>Migration\<close>

definition migrate_item :: "qitem \<Rightarrow> qevent list" where
  "migrate_item it =
     [InboxEnqueued (followup (qi_id it) (qi_id it) 1),
      Enqueued (it\<lparr>qi_status := QPending, qi_run := None\<rparr>)] @
     (let m = followup (qi_id it) (qi_id it) 1;
          t = (\<lambda>x. case x of None \<Rightarrow> ''now'' | Some t \<Rightarrow> t)
      in case qi_status it of
           QRunning \<Rightarrow> [InboxStatus m IClaimed,
             Claimed (qi_id it) (case qi_run it of None \<Rightarrow> [] | Some r \<Rightarrow> r) (t (qi_started it))]
         | QCompleted \<Rightarrow> [InboxStatus m IClaimed, InboxStatus m ICompleted,
             Finished (qi_id it) QCompleted (t (qi_completed it)) (qi_error it)]
         | QFailed \<Rightarrow> [InboxStatus m IRejected,
             Finished (qi_id it) QFailed (t (qi_completed it)) (qi_error it)]
         | QGuided \<Rightarrow> [InboxStatus m IRejected, Guided (qi_id it) (t (qi_guided it))]
         | _ \<Rightarrow> [])"

fun has_type_enqueued :: "qevent \<Rightarrow> bool" where
  "has_type_enqueued (Enqueued _) = True"
| "has_type_enqueued _ = False"

fun has_type_started :: "qevent \<Rightarrow> bool" where
  "has_type_started (MigrationStarted _) = True"
| "has_type_started _ = False"

fun has_type_migrated :: "qevent \<Rightarrow> bool" where
  "has_type_migrated (MigrationCompleted _) = True"
| "has_type_migrated _ = False"

definition ensure_migrated :: "qevent list \<Rightarrow> qitem list \<Rightarrow> qevent list" where
  \<comment> \<open>the second argument holds the legacy items, each with an identifier\<close>
  "ensure_migrated es legacy =
     (let started = list_ex has_type_started es;
          native = list_ex has_type_enqueued es \<and> \<not> started
      in if list_ex has_type_migrated es \<or> native \<or> legacy = [] then es
         else (let es1 = (if started then es else append_events es [MigrationStarted (length legacy)]);
                   migrated = map qi_id (project es1);
                   new = concat (map migrate_item (filter (\<lambda>it. qi_id it \<notin> set migrated) legacy))
               in append_events es1 (new @ [MigrationCompleted (length legacy)])))"

subsection \<open>Operations\<close>

definition enqueue ::
  "qevent list \<Rightarrow> qitem list \<Rightarrow> string \<Rightarrow> pytext \<Rightarrow> pytext option \<Rightarrow> string \<Rightarrow> qevent list \<times> qitem" where
  \<comment> \<open>the new identifier comes from \<open>uuid4\<close>\<close>
  "enqueue es legacy i message key now =
     (let es = ensure_migrated es legacy;
          existing = (if key \<notin> {None, Some []} then first_such (\<lambda>x. qi_key x = key) (project es) else None)
      in case existing of
           Some x \<Rightarrow> (es, x)
         | None \<Rightarrow>
             (let item = \<lparr>qi_id = i, qi_message = message, qi_status = QPending, qi_created = now,
                qi_run = None, qi_started = None, qi_key = key, qi_last_error = None,
                qi_completed = None, qi_error = None, qi_guided = None\<rparr>
              in (append_events es [InboxEnqueued (followup i i 1), Enqueued item], item)))"

definition claim ::
  "(qevent list \<Rightarrow> imessage list) \<Rightarrow> qevent list \<Rightarrow> qitem list \<Rightarrow> string \<Rightarrow> string \<Rightarrow> string \<Rightarrow> string
     \<Rightarrow> qevent list \<times> qitem option" where
  "claim restore es legacy i run fresh now =
     (let es = ensure_migrated es legacy; its = project es
      in if list_ex (\<lambda>x. qi_status x = QRunning) its then (es, None)
         else (case first_such (\<lambda>x. qi_id x = i) its of
             None \<Rightarrow> (es, None)
           | Some it \<Rightarrow>
               if qi_status it \<noteq> QPending then (es, None)
               else if map_option qi_id (first_such (\<lambda>x. qi_status x = QPending) its) \<noteq> Some i then (es, None)
               else (let m = active_inbox_message restore es i;
                         pre = (case m of None \<Rightarrow> [InboxEnqueued (followup fresh i 1)] | Some _ \<Rightarrow> []);
                         msg = (case m of None \<Rightarrow> followup fresh i 1 | Some m \<Rightarrow> m);
                         es' = append_events es (pre @ [InboxStatus msg IClaimed, Claimed i run now])
                     in (es', first_such (\<lambda>x. qi_id x = i) (project es')))))"

definition release ::
  "(qevent list \<Rightarrow> imessage list) \<Rightarrow> qevent list \<Rightarrow> qitem list \<Rightarrow> string \<Rightarrow> pytext \<Rightarrow> string \<Rightarrow> qevent list result" where
  "release restore es legacy i err fresh =
     (let es = ensure_migrated es legacy
      in bindE (find_item (project es) i) (\<lambda>it.
           let active = active_inbox_message restore es i;
               pre = (case active of None \<Rightarrow> [] | Some m \<Rightarrow> [InboxStatus m IRejected]);
               attempt = attempt_count restore (append_events es pre) i + 1
           in Inr (append_events es (pre @ [InboxEnqueued (followup fresh i attempt),
                Released i (if err = [] then None else Some err)]))))"

definition complete ::
  "(qevent list \<Rightarrow> imessage list) \<Rightarrow> qevent list \<Rightarrow> qitem list \<Rightarrow> string \<Rightarrow> pytext \<Rightarrow> string \<Rightarrow> qevent list result" where
  "complete restore es legacy i err now =
     (let es = ensure_migrated es legacy
      in bindE (find_item (project es) i) (\<lambda>it.
           let pre = (case active_inbox_message restore es i of
                 None \<Rightarrow> []
               | Some m \<Rightarrow> if err \<noteq> [] then [InboxStatus m IRejected]
                   else (if im_status m = IPending then [InboxStatus m IClaimed] else []) @ [InboxStatus m ICompleted])
           in Inr (append_events es (pre @ [Finished i (if err \<noteq> [] then QFailed else QCompleted) now
                (if err = [] then None else Some err)]))))"

definition guide ::
  "(qevent list \<Rightarrow> imessage list) \<Rightarrow> qevent list \<Rightarrow> qitem list \<Rightarrow> string \<Rightarrow> string \<Rightarrow> (qevent list \<times> qitem) result" where
  "guide restore es legacy i now =
     (let es = ensure_migrated es legacy
      in bindE (find_item (project es) i) (\<lambda>it.
           guardE (qi_status it \<noteq> QPending) (ValueError ''only a pending message can guide the current task'')
           (let pre = (case active_inbox_message restore es i of None \<Rightarrow> [] | Some m \<Rightarrow> [InboxStatus m IRejected]);
                st = (followup (''steering-'' @ i) i 1)\<lparr>im_steering := True\<rparr>;
                es' = append_events es (pre @ [InboxEnqueued st, InboxStatus st IClaimed,
                  InboxStatus st ICompleted, Guided i now])
            in bindE (find_item (project es') i) (\<lambda>x. Inr (es', x)))))"

definition cancel :: "(qevent list \<Rightarrow> imessage list) \<Rightarrow> qevent list \<Rightarrow> string \<Rightarrow> qevent list result" where
  "cancel restore es i =
     bindE (find_item (project es) i) (\<lambda>it.
       guardE (qi_status it \<noteq> QPending) (ValueError ''only pending messages can be removed'')
       (let pre = (case active_inbox_message restore es i of None \<Rightarrow> [] | Some m \<Rightarrow> [InboxStatus m IRejected])
        in Inr (append_events es (pre @ [CancelledE i]))))"

definition reorder :: "qevent list \<Rightarrow> string list \<Rightarrow> qevent list result" where
  "reorder es is =
     (let pending = map qi_id (filter (\<lambda>x. qi_status x = QPending) (project es))
      in guardE (\<not> distinct is \<or> set is \<noteq> set pending)
           (ValueError ''include every pending message ID exactly once'')
           (Inr (append_events es [Reordered is])))"

definition active :: "qevent list \<Rightarrow> qitem list \<Rightarrow> qitem list" where
  "active es legacy =
     filter (\<lambda>x. qi_status x \<in> {QPending, QRunning}) (project (ensure_migrated es legacy))"

subsection \<open>The projection's invariant\<close>

definition running_at :: "(string, qitem) dict \<Rightarrow> string \<Rightarrow> bool" where
  "running_at d i \<longleftrightarrow> (case dget d i of None \<Rightarrow> False | Some x \<Rightarrow> qi_status x = QRunning)"

definition pinv :: "pstate \<Rightarrow> bool" where
  "pinv s \<longleftrightarrow> distinct (fst s) \<and> set (fst s) = set (dkeys (snd s)) \<and> distinct (dkeys (snd s))
     \<and> (\<forall>i x. dget (snd s) i = Some x \<longrightarrow> qi_id x = i)
     \<and> (\<forall>i j. running_at (snd s) i \<longrightarrow> running_at (snd s) j \<longrightarrow> i = j)"

fun qok :: "qevent \<Rightarrow> pstate \<Rightarrow> bool" where
  "qok (Enqueued it) s \<longleftrightarrow> qi_status it \<noteq> QRunning"
| "qok (Claimed i run t) s \<longleftrightarrow> (\<forall>j. \<not> running_at (snd s) j)"
| "qok (Finished i st t e) s \<longleftrightarrow> st \<noteq> QRunning"
| "qok (Reordered is) s \<longleftrightarrow> distinct is \<and> set is \<subseteq> set (fst s)"
| "qok e s \<longleftrightarrow> True"

lemma update_item_inv:
  assumes "pinv s" and "\<And>x. qi_id (f x) = qi_id x"
    and "(\<forall>x. qi_status (f x) \<noteq> QRunning) \<or> (\<forall>j. \<not> running_at (snd s) j)"
  shows "pinv (update_item i f s)"
proof (cases "dget (snd s) i")
  case None
  then show ?thesis using assms(1) by (simp add: update_item_def)
next
  case (Some it)
  have k: "i \<in> set (dkeys (snd s))" using dget_Some_in [OF Some] .
  have r: "running_at (dput i (f it) (snd s)) j \<longleftrightarrow> (if j = i then qi_status (f it) = QRunning else running_at (snd s) j)" for j
    by (simp add: running_at_def dget_dput)
  have "running_at (dput i (f it) (snd s)) a \<Longrightarrow> running_at (dput i (f it) (snd s)) b \<Longrightarrow> a = b" for a b
    using assms(1,3) unfolding r pinv_def by (metis (full_types))
  moreover have "qi_id (f it) = i" using assms(1,2) Some by (simp add: pinv_def)
  moreover have "dkeys (dput i (f it) (snd s)) = dkeys (snd s)" using k by (simp only: dkeys_dput if_True)
  ultimately show ?thesis using assms(1) Some by (auto simp: update_item_def pinv_def dget_dput)
qed

lemma enqueued_inv:
  assumes "pinv s" and "qi_status it \<noteq> QRunning"
  shows "pinv (project_event (Enqueued it) s)"
proof (cases "qi_id it = []")
  case True
  then show ?thesis using assms(1) by (cases s) simp
next
  case False
  obtain ord d where s: "s = (ord, d)" by (cases s)
  have r: "running_at (dput (qi_id it) it d) j \<longleftrightarrow> j \<noteq> qi_id it \<and> running_at d j" for j
    using assms(2) by (simp add: running_at_def dget_dput)
  have "dkeys (dput (qi_id it) it d) = (if qi_id it \<in> set (dkeys d) then dkeys d else dkeys d @ [qi_id it])"
    by (rule dkeys_dput)
  then show ?thesis using assms(1) False unfolding s pinv_def
    by (auto simp: r dget_dput)
qed

interpretation queue: event_log project_event qok pinv "([], [])"
proof unfold_locales
  show "pinv ([], [])" by (simp add: pinv_def running_at_def)
next
  fix s e
  assume i: "pinv s" and o: "qok e s"
  show "pinv (project_event e s)"
  proof (cases e)
    case (Reordered "is")
    obtain ord d where s: "s = (ord, d)" by (cases s)
    have "set (filter (\<lambda>i. i \<notin> set is) ord @ is) = set ord" using o Reordered s by auto
    then show ?thesis using i o Reordered unfolding s pinv_def by auto
  next
    case (Enqueued it)
    with i o enqueued_inv show ?thesis by simp
  next
    case (Claimed j run t)
    with i o show ?thesis by (auto intro: update_item_inv)
  qed (use i o in \<open>auto intro: update_item_inv\<close>)
qed

definition hist :: "qevent list \<Rightarrow> bool" where
  \<comment> \<open>every event was admissible when it was appended\<close>
  "hist es \<longleftrightarrow> admissible project_event qok es ([], [])"

lemma hist_inv: "hist es \<Longrightarrow> pinv (pstate_of es)"
  unfolding hist_def pstate_of_def by (rule queue.inv_history)

lemma pstate_append: "pstate_of (es @ fs) = fold project_event fs (pstate_of es)"
  by (simp add: pstate_of_def)

lemma project_map: "project es = map (\<lambda>i. the (dget (snd (pstate_of es)) i)) (fst (pstate_of es))"
  by (simp add: project_def case_prod_beta)

lemma inv_get: "pinv s \<Longrightarrow> i \<in> set (fst s) \<Longrightarrow> \<exists>x. dget (snd s) i = Some x \<and> qi_id x = i"
  unfolding pinv_def by (metis dget_None_iff not_Some_eq)

lemma inv_the: "pinv s \<Longrightarrow> i \<in> set (fst s) \<Longrightarrow> qi_id (the (dget (snd s) i)) = i"
  using inv_get [of s i] by auto

lemma project_ids: "hist es \<Longrightarrow> map qi_id (project es) = fst (pstate_of es)"
  using hist_inv [of es] by (simp add: project_map comp_def inv_the map_idI)

lemma find_project:
  assumes "hist es"
  shows "first_such (\<lambda>x. qi_id x = i) (project es) = dget (snd (pstate_of es)) i"
proof -
  let ?s = "pstate_of es"
  have inv: "pinv ?s" using hist_inv [OF assms] .
  have *: "first_such (\<lambda>x. qi_id x = i) (map (\<lambda>i. the (dget (snd ?s) i)) ks) = (if i \<in> set ks then dget (snd ?s) i else None)"
    if "set ks \<subseteq> set (fst ?s)" for ks
    using that
  proof (induction ks)
    case (Cons k ks)
    then obtain x where "dget (snd ?s) k = Some x" "qi_id x = k" using inv_get [OF inv, of k] by auto
    with Cons show ?case by auto
  qed simp
  have "i \<notin> set (fst ?s) \<Longrightarrow> dget (snd ?s) i = None"
    using inv by (simp add: pinv_def map_of_eq_None_iff)
  then show ?thesis unfolding project_map using * [of "fst ?s"] by auto
qed

subsection \<open>The abstract queue\<close>

text \<open>
  What the queue promises: a list of identifiers with a status. A claim takes the first pending one,
  and only when none is running.
\<close>

type_synonym aqueue = "(string \<times> qstatus) list"

definition abs_queue :: "qevent list \<Rightarrow> aqueue" where
  "abs_queue es = map (\<lambda>x. (qi_id x, qi_status x)) (project es)"

definition aset :: "string \<Rightarrow> qstatus \<Rightarrow> aqueue \<Rightarrow> aqueue" where
  "aset i st q = map (\<lambda>(k, s). (k, if k = i then st else s)) q"

definition aclaim :: "string \<Rightarrow> aqueue \<Rightarrow> aqueue option" where
  "aclaim i q =
     (if QRunning \<in> snd ` set q then None
      else (case first_such (\<lambda>(k, s). s = QPending) q of
          None \<Rightarrow> None
        | Some (k, s) \<Rightarrow> if k = i then Some (aset i QRunning q) else None))"

lemma abs_update:
  assumes "hist es" and "pstate_of es' = update_item i f (pstate_of es)"
    and "\<And>x. qi_id (f x) = qi_id x" and "\<And>x. qi_status (f x) = st"
  shows "abs_queue es' = aset i st (abs_queue es)"
proof -
  let ?s = "pstate_of es"
  have inv: "pinv ?s" using hist_inv [OF assms(1)] .
  have ids: "qi_id (the (dget (snd ?s) k)) = k" if "k \<in> set (fst ?s)" for k
    using inv_get [OF inv that] by auto
  show ?thesis
  proof (cases "dget (snd ?s) i")
    case None
    then have "i \<notin> set (fst ?s)" using inv by (simp add: pinv_def map_of_eq_None_iff)
    with None assms(2) ids show ?thesis
      by (auto simp: abs_queue_def aset_def project_map update_item_def)
  next
    case (Some it)
    then have "pstate_of es' = (fst ?s, dput i (f it) (snd ?s))" using assms(2) by (simp add: update_item_def)
    moreover have "qi_id it = i" using inv Some by (simp add: pinv_def)
    ultimately show ?thesis using Some ids assms(3,4)
      by (auto simp: abs_queue_def aset_def project_map dget_dput)
  qed
qed

fun inbox_event :: "qevent \<Rightarrow> bool" where
  "inbox_event (InboxEnqueued m) = True"
| "inbox_event (InboxStatus m st) = True"
| "inbox_event e = False"

lemma inbox_silent:
  "list_all inbox_event fs \<Longrightarrow> fold project_event (map stored_event fs) s = s
     \<and> admissible project_event qok (map stored_event fs) s"
proof (induction fs arbitrary: s)
  case (Cons f fs)
  then show ?case by (cases f) auto
qed simp

text \<open>Appending inbox events and then one event of the queue's own.\<close>

lemma append_state:
  assumes "list_all inbox_event fs"
  shows "pstate_of (append_events es (fs @ [e])) = project_event (stored_event e) (pstate_of es)"
    and "hist es \<Longrightarrow> qok (stored_event e) (pstate_of es) \<Longrightarrow> hist (append_events es (fs @ [e]))"
proof -
  show "pstate_of (append_events es (fs @ [e])) = project_event (stored_event e) (pstate_of es)"
    using inbox_silent [OF assms] by (simp add: append_events_def pstate_append)
  show "hist es \<Longrightarrow> qok (stored_event e) (pstate_of es) \<Longrightarrow> hist (append_events es (fs @ [e]))"
    using inbox_silent [OF assms, of "pstate_of es"] inbox_silent [OF assms, of "fold project_event es ([], [])"]
    by (simp add: append_events_def hist_def admissible_append pstate_of_def)
qed

lemma not_running_at:
  assumes "hist es" and "\<not> list_ex (\<lambda>x. qi_status x = QRunning) (project es)"
  shows "\<not> running_at (snd (pstate_of es)) j"
proof
  assume r: "running_at (snd (pstate_of es)) j"
  then obtain x where x: "dget (snd (pstate_of es)) j = Some x" "qi_status x = QRunning"
    unfolding running_at_def by (cases "dget (snd (pstate_of es)) j") auto
  then have "first_such (\<lambda>x. qi_id x = j) (project es) = Some x" using find_project [OF assms(1)] by simp
  then have "x \<in> set (project es)" using first_such_Some [of "\<lambda>x. qi_id x = j" "project es" x] by simp
  with x assms(2) show False by (auto simp: list_ex_iff)
qed

lemma migrated_nil [simp]: "ensure_migrated es [] = es"
  by (simp add: ensure_migrated_def Let_def)

lemma first_pending:
  "map_option qi_id (first_such (\<lambda>x. qi_status x = QPending) its) =
     map_option fst (first_such (\<lambda>(k, s). s = QPending) (map (\<lambda>x. (qi_id x, qi_status x)) its))"
  by (induction its) auto

lemma claim_refines:
  assumes "hist es"
  shows "hist (fst (claim restore es [] i run fresh now))
     \<and> (case aclaim i (abs_queue es) of
          None \<Rightarrow> claim restore es [] i run fresh now = (es, None)
        | Some q \<Rightarrow> abs_queue (fst (claim restore es [] i run fresh now)) = q
            \<and> (\<exists>x. snd (claim restore es [] i run fresh now) = Some x \<and> qi_id x = i \<and> qi_status x = QRunning
                 \<and> qi_run x = Some run))"
proof (cases "list_ex (\<lambda>x. qi_status x = QRunning) (project es)")
  case True
  then have "QRunning \<in> snd ` set (abs_queue es)" by (force simp: abs_queue_def list_ex_iff)
  then show ?thesis using True assms by (simp add: claim_def Let_def aclaim_def)
next
  case no: False
  then have nr: "QRunning \<notin> snd ` set (abs_queue es)" by (auto simp: abs_queue_def list_ex_iff)
  show ?thesis
  proof (cases "map_option qi_id (first_such (\<lambda>x. qi_status x = QPending) (project es)) = Some i")
    case False
    have "aclaim i (abs_queue es) = None"
      using False nr unfolding aclaim_def first_pending abs_queue_def by (auto split: option.splits)
    then show ?thesis using False no assms by (auto simp: claim_def Let_def split: option.splits)
  next
    case True
    then obtain x where x: "first_such (\<lambda>x. qi_status x = QPending) (project es) = Some x" "qi_id x = i" by auto
    then have xs: "x \<in> set (project es)" "qi_status x = QPending"
      using first_such_Some [of "\<lambda>x. qi_status x = QPending" "project es" x] by auto
    have "first_such (\<lambda>x. qi_id x = i) (project es) \<noteq> None"
      unfolding first_such_None_iff using xs(1) x(2) by blast
    then obtain y where y: "first_such (\<lambda>x. qi_id x = i) (project es) = Some y" by blast
    then have g: "dget (snd (pstate_of es)) i = Some y" using find_project [OF assms] by simp
    have ys: "y \<in> set (project es)" "qi_id y = i"
      using first_such_Some [of "\<lambda>x. qi_id x = i" "project es" y] y by auto
    have "distinct (map qi_id (project es))"
      using project_ids [OF assms] hist_inv [OF assms] by (simp add: pinv_def)
    then have xy: "x = y" using xs(1) ys x(2) by (metis distinct_map inj_onD)
    let ?m = "active_inbox_message restore es i"
    let ?pre = "(case ?m of None \<Rightarrow> [InboxEnqueued (followup fresh i 1)] | Some _ \<Rightarrow> [])
       @ [InboxStatus (case ?m of None \<Rightarrow> followup fresh i 1 | Some m \<Rightarrow> m) IClaimed]"
    let ?es = "append_events es (?pre @ [Claimed i run now])"
    have pre: "list_all inbox_event ?pre" by (auto split: option.splits)
    have c: "claim restore es [] i run fresh now = (?es, first_such (\<lambda>x. qi_id x = i) (project ?es))"
      using no y xy xs(2) True by (simp add: claim_def Let_def)
    have st: "pstate_of ?es = update_item i (\<lambda>it. it\<lparr>qi_status := QRunning, qi_run := Some run, qi_started := Some now\<rparr>) (pstate_of es)"
      using append_state(1) [OF pre, of es "Claimed i run now"] by simp
    have h: "hist ?es"
      using append_state(2) [OF pre assms, of "Claimed i run now"] not_running_at [OF assms no] by simp
    have "abs_queue ?es = aset i QRunning (abs_queue es)"
      by (rule abs_update [OF assms st]) simp_all
    moreover have "aclaim i (abs_queue es) = Some (aset i QRunning (abs_queue es))"
      using nr True unfolding aclaim_def first_pending abs_queue_def by (auto split: option.splits)
    moreover have "first_such (\<lambda>x. qi_id x = i) (project ?es)
        = Some (y\<lparr>qi_status := QRunning, qi_run := Some run, qi_started := Some now\<rparr>)"
      unfolding find_project [OF h] st using g by (simp add: update_item_def dget_dput)
    ultimately show ?thesis using c h ys(2) by simp
  qed
qed

lemma find_item_Inr: "hist es \<Longrightarrow> find_item (project es) i = Inr x \<longleftrightarrow> dget (snd (pstate_of es)) i = Some x"
  using find_project [of es i] by (auto simp: find_item_def split: option.splits)

lemma release_refines:
  assumes "hist es" "release restore es [] i err fresh = Inr es'"
  shows "hist es' \<and> abs_queue es' = aset i QPending (abs_queue es)"
proof -
  define pre where "pre = (case active_inbox_message restore es i of None \<Rightarrow> [] | Some m \<Rightarrow> [InboxStatus m IRejected])"
  define att where "att = attempt_count restore (append_events es pre) i + 1"
  have e: "es' = append_events es ((pre @ [InboxEnqueued (followup fresh i att)])
       @ [Released i (if err = [] then None else Some err)])"
    using assms(2) by (auto simp: release_def bind_simps Let_def pre_def att_def)
  have p: "list_all inbox_event (pre @ [InboxEnqueued (followup fresh i att)])"
    by (simp add: pre_def split: option.splits)
  show ?thesis
    using append_state(2) [OF p assms(1), of "Released i (if err = [] then None else Some err)"]
      abs_update [OF assms(1) append_state(1) [OF p, of es "Released i (if err = [] then None else Some err)", simplified]]
    unfolding e by simp
qed

lemma complete_refines:
  assumes "hist es" "complete restore es [] i err now = Inr es'"
  shows "hist es' \<and> abs_queue es' = aset i (if err = [] then QCompleted else QFailed) (abs_queue es)"
proof -
  let ?f = "Finished i (if err \<noteq> [] then QFailed else QCompleted) now (if err = [] then None else Some err)"
  define pre where "pre = (case active_inbox_message restore es i of
                 None \<Rightarrow> []
               | Some m \<Rightarrow> if err \<noteq> [] then [InboxStatus m IRejected]
                   else (if im_status m = IPending then [InboxStatus m IClaimed] else []) @ [InboxStatus m ICompleted])"
  have e: "es' = append_events es (pre @ [?f])"
    using assms(2) by (auto simp: complete_def bind_simps Let_def pre_def)
  have p: "list_all inbox_event pre" by (simp add: pre_def split: option.splits)
  have st: "pstate_of es' = update_item i (\<lambda>it. it\<lparr>qi_status := (if err \<noteq> [] then QFailed else QCompleted),
      qi_completed := Some now, qi_error := if map_option redact_text (if err = [] then None else Some err) \<in> {None, Some []}
        then qi_error it else map_option redact_text (if err = [] then None else Some err)\<rparr>) (pstate_of es)"
    unfolding e append_state(1) [OF p] by simp
  have "abs_queue es' = aset i (if err \<noteq> [] then QFailed else QCompleted) (abs_queue es)"
    by (rule abs_update [OF assms(1) st]) simp_all
  moreover have "hist es'" unfolding e using append_state(2) [OF p assms(1), of ?f] by simp
  ultimately show ?thesis by simp
qed

lemma guide_refines:
  assumes "hist es" "guide restore es [] i now = Inr (es', x)"
  shows "hist es' \<and> abs_queue es' = aset i QGuided (abs_queue es) \<and> (i, QPending) \<in> set (abs_queue es)"
proof -
  let ?st = "(followup (''steering-'' @ i) i 1)\<lparr>im_steering := True\<rparr>"
  define pre where "pre = (case active_inbox_message restore es i of None \<Rightarrow> [] | Some m \<Rightarrow> [InboxStatus m IRejected])"
  obtain it where it: "find_item (project es) i = Inr it" "qi_status it = QPending"
    and e: "es' = append_events es ((pre @ [InboxEnqueued ?st, InboxStatus ?st IClaimed, InboxStatus ?st ICompleted]) @ [Guided i now])"
    using assms(2) by (auto simp: guide_def bind_simps Let_def pre_def)
  have pre: "list_all inbox_event pre" by (simp add: pre_def split: option.splits)
  then have p: "list_all inbox_event (pre @ [InboxEnqueued ?st, InboxStatus ?st IClaimed, InboxStatus ?st ICompleted])" by simp
  have "pstate_of es' = update_item i (\<lambda>it. it\<lparr>qi_status := QGuided, qi_guided := Some now\<rparr>) (pstate_of es)"
    unfolding e append_state(1) [OF p] by simp
  then have "abs_queue es' = aset i QGuided (abs_queue es)" by (rule abs_update [OF assms(1)]) simp_all
  moreover have "hist es'" unfolding e using append_state(2) [OF p assms(1), of "Guided i now"] by simp
  moreover have "it \<in> set (project es)" "qi_id it = i"
    using it(1) first_such_Some [of "\<lambda>x. qi_id x = i" "project es" it] by (auto simp: find_item_def split: option.splits)
  then have "(i, QPending) \<in> set (abs_queue es)" using it(2) by (force simp: abs_queue_def)
  ultimately show ?thesis by blast
qed

lemma cancel_refines:
  assumes "hist es" "cancel restore es i = Inr es'"
  shows "hist es' \<and> abs_queue es' = aset i QCancelled (abs_queue es) \<and> (i, QPending) \<in> set (abs_queue es)"
proof -
  define pre where "pre = (case active_inbox_message restore es i of None \<Rightarrow> [] | Some m \<Rightarrow> [InboxStatus m IRejected])"
  obtain it where it: "find_item (project es) i = Inr it" "qi_status it = QPending"
    and e: "es' = append_events es (pre @ [CancelledE i])"
    using assms(2) by (auto simp: cancel_def bind_simps Let_def pre_def)
  have p: "list_all inbox_event pre" by (simp add: pre_def split: option.splits)
  have "pstate_of es' = update_item i (\<lambda>it. it\<lparr>qi_status := QCancelled\<rparr>) (pstate_of es)"
    unfolding e append_state(1) [OF p] by simp
  then have "abs_queue es' = aset i QCancelled (abs_queue es)" by (rule abs_update [OF assms(1)]) simp_all
  moreover have "hist es'" unfolding e using append_state(2) [OF p assms(1), of "CancelledE i"] by simp
  moreover have "it \<in> set (project es)" "qi_id it = i"
    using it(1) first_such_Some [of "\<lambda>x. qi_id x = i" "project es" it] by (auto simp: find_item_def split: option.splits)
  then have "(i, QPending) \<in> set (abs_queue es)" using it(2) by (force simp: abs_queue_def)
  ultimately show ?thesis by blast
qed

lemma enqueue_refines:
  assumes "hist es" "i \<notin> fst ` set (abs_queue es)" "i \<noteq> []"
  shows "hist (fst (enqueue es [] i m key now))
     \<and> (fst (enqueue es [] i m key now) = es \<and> qi_key (snd (enqueue es [] i m key now)) = key \<and> key \<notin> {None, Some []}
        \<or> abs_queue (fst (enqueue es [] i m key now)) = abs_queue es @ [(i, QPending)])"
proof (cases "key \<notin> {None, Some []} \<and> first_such (\<lambda>x. qi_key x = key) (project es) \<noteq> None")
  case True
  then obtain x where x: "first_such (\<lambda>x. qi_key x = key) (project es) = Some x" by auto
  have "qi_key x = key" using first_such_Some [OF x] by simp
  then show ?thesis using True x assms(1) by (auto simp: enqueue_def Let_def)
next
  case False
  define it where "it = \<lparr>qi_id = i, qi_message = m, qi_status = QPending, qi_created = now,
                qi_run = None, qi_started = None, qi_key = key, qi_last_error = None,
                qi_completed = None, qi_error = None, qi_guided = None\<rparr>"
  have e: "fst (enqueue es [] i m key now) = append_events es ([InboxEnqueued (followup i i 1)] @ [Enqueued it])"
    using False by (auto simp: enqueue_def Let_def it_def split: option.splits)
  have p: "list_all inbox_event [InboxEnqueued (followup i i 1)]" by simp
  let ?s = "pstate_of es" and ?es = "append_events es ([InboxEnqueued (followup i i 1)] @ [Enqueued it])"
  have inv: "pinv ?s" using hist_inv [OF assms(1)] .
  have "fst ` set (abs_queue es) = set (map qi_id (project es))" by (force simp: abs_queue_def)
  then have new: "i \<notin> set (fst ?s)" using assms(2) project_ids [OF assms(1)] by simp
  then have "i \<notin> set (dkeys (snd ?s))" using inv unfolding pinv_def by blast
  then have st: "pstate_of ?es = (fst ?s @ [i], dput i (stored_item it) (snd ?s))"
    unfolding append_state(1) [OF p] using assms(3)
    by (cases ?s) (simp add: it_def stored_item_def)
  have h: "hist ?es" using append_state(2) [OF p assms(1), of "Enqueued it"]
    by (simp add: it_def stored_item_def)
  have "abs_queue ?es = abs_queue es @ [(i, QPending)]"
    using new unfolding abs_queue_def project_map st
    by (auto simp: dget_dput it_def stored_item_def)
  with h e show ?thesis by simp
qed

lemma reorder_refines:
  assumes "hist es" "reorder es is = Inr es'"
  shows "hist es' \<and> abs_queue es' = filter (\<lambda>(k, s). s \<noteq> QPending) (abs_queue es) @ map (\<lambda>i. (i, QPending)) is
     \<and> set is = {k. (k, QPending) \<in> set (abs_queue es)} \<and> distinct is"
proof -
  let ?s = "pstate_of es"
  have inv: "pinv ?s" using hist_inv [OF assms(1)] .
  have g: "distinct is" "set is = set (map qi_id (filter (\<lambda>x. qi_status x = QPending) (project es)))"
    "es' = append_events es ([] @ [Reordered is])"
    using assms(2) by (auto simp: reorder_def guardE_def Let_def split: if_splits)
  have "set (map qi_id (filter (\<lambda>x. qi_status x = QPending) (project es))) \<subseteq> set (map qi_id (project es))" by auto
  then have sub: "set is \<subseteq> set (fst ?s)" using g(2) project_ids [OF assms(1)] by simp
  have st: "pstate_of es' = (filter (\<lambda>i. i \<notin> set is) (fst ?s) @ is, snd ?s)"
    unfolding g(3) using append_state(1) [of "[]" es "Reordered is"] by (cases ?s) simp
  have h: "hist es'" unfolding g(3) using append_state(2) [of "[]" es "Reordered is"] assms(1) g(1) sub by simp
  let ?g = "\<lambda>i. the (dget (snd ?s) i)"
  have ids: "qi_id (?g i) = i" if "i \<in> set (fst ?s)" for i using inv_the [OF inv that] .
  have pend: "i \<in> set is \<longleftrightarrow> qi_status (?g i) = QPending" if "i \<in> set (fst ?s)" for i
    unfolding g(2) project_map using that ids by (auto simp: image_iff)
  have "abs_queue es' = map (\<lambda>i. (qi_id (?g i), qi_status (?g i))) (filter (\<lambda>i. i \<notin> set is) (fst ?s) @ is)"
    unfolding abs_queue_def project_map st by simp
  also have "\<dots> = map (\<lambda>i. (qi_id (?g i), qi_status (?g i))) (filter (\<lambda>i. i \<notin> set is) (fst ?s)) @ map (\<lambda>i. (i, QPending)) is"
    using sub ids pend by auto
  also have "map (\<lambda>i. (qi_id (?g i), qi_status (?g i))) (filter (\<lambda>i. i \<notin> set is) (fst ?s))
      = filter (\<lambda>(k, s). s \<noteq> QPending) (abs_queue es)"
  proof -
    have "filter (\<lambda>i. i \<notin> set is) (fst ?s) = filter (\<lambda>i. qi_status (?g i) \<noteq> QPending) (fst ?s)"
      using pend by (intro filter_cong) auto
    then show ?thesis by (simp add: abs_queue_def project_map filter_map comp_def)
  qed
  finally have "abs_queue es' = filter (\<lambda>(k, s). s \<noteq> QPending) (abs_queue es) @ map (\<lambda>i. (i, QPending)) is" .
  moreover have "set is = {k. (k, QPending) \<in> set (abs_queue es)}"
    unfolding g(2) abs_queue_def by (auto simp: image_iff)
  ultimately show ?thesis using h g(1) by blast
qed

inductive qstep :: "(qevent list \<Rightarrow> imessage list) \<Rightarrow> qevent list \<Rightarrow> qevent list \<Rightarrow> bool" for restore where
  enqueue: "i \<notin> fst ` set (abs_queue es) \<Longrightarrow> i \<noteq> [] \<Longrightarrow> qstep restore es (fst (enqueue es [] i m key now))"
| claim: "qstep restore es (fst (claim restore es [] i run fresh now))"
| release: "release restore es [] i err fresh = Inr es' \<Longrightarrow> qstep restore es es'"
| complete: "complete restore es [] i err now = Inr es' \<Longrightarrow> qstep restore es es'"
| guide: "guide restore es [] i now = Inr (es', x) \<Longrightarrow> qstep restore es es'"
| cancel: "cancel restore es i = Inr es' \<Longrightarrow> qstep restore es es'"
| reorder: "reorder es is = Inr es' \<Longrightarrow> qstep restore es es'"

lemma fst_aset [simp]: "fst ` set (aset i st q) = fst ` set q"
  by (force simp: aset_def)

lemma qstep_hist:
  assumes "qstep restore es es'" "hist es"
  shows "hist es' \<and> fst ` set (abs_queue es) \<subseteq> fst ` set (abs_queue es')"
  using assms(1)
proof cases
  case (enqueue i m key now)
  then show ?thesis using enqueue_refines [OF assms(2) enqueue(2,3), of m key now] by auto
next
  case (claim i run fresh now)
  have "abs_queue es' = abs_queue es \<or> abs_queue es' = aset i QRunning (abs_queue es)"
    using claim_refines [OF assms(2), of restore i run fresh now] claim
    by (auto simp: aclaim_def split: option.splits if_splits)
  then have "fst ` set (abs_queue es') = fst ` set (abs_queue es)" using fst_aset by metis
  then show ?thesis using claim_refines [OF assms(2), of restore i run fresh now] claim by simp
next
  case (release i err fresh)
  show ?thesis using release_refines [OF assms(2) release] by (metis fst_aset order_refl)
next
  case (complete i err now)
  show ?thesis using complete_refines [OF assms(2) complete] by (metis fst_aset order_refl)
next
  case (guide i now x)
  show ?thesis using guide_refines [OF assms(2) guide] by (metis fst_aset order_refl)
next
  case (cancel i)
  show ?thesis using cancel_refines [OF assms(2) cancel] by (metis fst_aset order_refl)
next
  case (reorder "is")
  have "fst ` set (abs_queue es) \<subseteq> fst ` set (abs_queue es')"
    using reorder_refines [OF assms(2) reorder] by force
  then show ?thesis using reorder_refines [OF assms(2) reorder] by blast
qed

lemma qsteps_hist: "(qstep restore)\<^sup>*\<^sup>* es es' \<Longrightarrow> hist es \<Longrightarrow>
    hist es' \<and> fst ` set (abs_queue es) \<subseteq> fst ` set (abs_queue es')"
proof (induction rule: rtranclp_induct)
  case (step y z)
  then show ?case using qstep_hist [of restore y z] by blast
qed simp

lemma hist_Nil: "hist []"
  by (simp add: hist_def)

subsection \<open>Properties\<close>


text \<open>
  C29. In every history made by the queue's own operations the identifiers of the messages are
  distinct, at most one message is running, and no message ever disappears from the queue.
\<close>

theorem at_most_one_message_runs:
  assumes "(qstep restore)\<^sup>*\<^sup>* [] es" and "(qstep restore)\<^sup>*\<^sup>* es es'"
  shows "distinct (map fst (abs_queue es')) \<and> (\<forall>i j. (i, QRunning) \<in> set (abs_queue es') \<and> (j, QRunning) \<in> set (abs_queue es') \<longrightarrow> i = j)
     \<and> fst ` set (abs_queue es) \<subseteq> fst ` set (abs_queue es')"
proof -
  have h: "hist es" using qsteps_hist [OF assms(1) hist_Nil] by blast
  have h': "hist es'" "fst ` set (abs_queue es) \<subseteq> fst ` set (abs_queue es')" using qsteps_hist [OF assms(2) h] by auto
  let ?s = "pstate_of es'"
  have inv: "pinv ?s" using hist_inv [OF h'(1)] .
  have "map fst (abs_queue es') = fst ?s" using project_ids [OF h'(1)] by (simp add: abs_queue_def comp_def)
  moreover have "running_at (snd ?s) i" if r: "(i, QRunning) \<in> set (abs_queue es')" for i
  proof -
    obtain x where x: "x \<in> set (project es')" "qi_id x = i" "qi_status x = QRunning"
    proof -
      have "(i, QRunning) \<in> (\<lambda>x. (qi_id x, qi_status x)) ` set (project es')"
        using r by (simp add: abs_queue_def)
      then obtain x where "x \<in> set (project es')" "(i, QRunning) = (qi_id x, qi_status x)" by (rule imageE) blast
      then show thesis using that by auto
    qed
    obtain k where k: "k \<in> set (fst ?s)" "x = the (dget (snd ?s) k)" using x(1) unfolding project_map by auto
    obtain y where "dget (snd ?s) k = Some y" "qi_id y = k" using inv_get [OF inv k(1)] by blast
    with x k show ?thesis by (simp add: running_at_def)
  qed
  ultimately show ?thesis using inv h'(2) unfolding pinv_def by metis
qed

text \<open>
  Importing a legacy queue brings cancelled messages back: a cancelled item has no case of its own
  in the migration, so it is enqueued again and stays pending, and it can be claimed.
\<close>

definition legacy_item :: "qstatus \<Rightarrow> qitem" where
  "legacy_item st = \<lparr>qi_id = ''a'', qi_message = u ''x'', qi_status = st, qi_created = ''t'',
     qi_run = None, qi_started = None, qi_key = None, qi_last_error = None, qi_completed = None,
     qi_error = None, qi_guided = None\<rparr>"

theorem migration_revives_cancelled_message:
  "map qi_status (project (ensure_migrated [] [legacy_item QCancelled])) = [QPending]
   \<and> map_option qi_status (snd (claim restore [] [legacy_item QCancelled] ''a'' ''run'' ''m'' ''now'')) = Some QRunning
   \<and> map qi_status (project (ensure_migrated [] [legacy_item QCompleted])) = [QCompleted]"
  by (auto simp: claim_def ensure_migrated_def Let_def append_events_def migrate_item_def legacy_item_def
      project_def pstate_of_def update_item_def stored_item_def redact_plain plain_char_def followup_def
      split: option.splits)

definition example_queue :: "qevent list" where
  "example_queue = fst (enqueue [] [] ''a'' (u ''x'') None ''t'')"

lemma example_queue_hist: "hist example_queue \<and> abs_queue example_queue = [(''a'', QPending)]"
  using enqueue_refines [OF hist_Nil, of "''a''" "u ''x''" None "''t''"]
  by (auto simp: example_queue_def abs_queue_def project_def pstate_of_def)


theorem at_most_one_message_runs_witness:
  "distinct (map fst (abs_queue example_queue))"
proof -
  have "(qstep (\<lambda>es. []))\<^sup>*\<^sup>* [] example_queue"
    unfolding example_queue_def
    by (rule r_into_rtranclp, rule qstep.enqueue) (simp_all add: abs_queue_def project_def pstate_of_def)
  from at_most_one_message_runs [OF this rtranclp.rtrancl_refl] show ?thesis by simp
qed

end
