(* ===== verification/Tool_Protocol.thy ===== *)
theory Tool_Protocol
  imports Policy Json
begin

text \<open>
  \<open>tool_protocol.py\<close>: the approval broker and the guard around every tool. A call is identified by
  the fingerprint of the tool's name and the canonical text of its arguments; an approval covers one
  fingerprint. The digest \<open>sha\<close> stands for SHA-256 over the UTF-8 encoding. The tool itself, the
  approval predicate of its declaration and the control check are arguments of the guard.
\<close>

subsection \<open>Metadata\<close>

datatype apolicy = Never | Conditional | Always | Disabled

record tool_metadata =
  tm_category :: string
  tm_read_only :: bool
  tm_write :: bool
  tm_destructive :: bool
  tm_external :: bool
  tm_network :: bool
  tm_policy :: apolicy
  tm_output_limit :: nat

definition default_metadata :: tool_metadata where
  "default_metadata = \<lparr>tm_category = ''workspace'', tm_read_only = True, tm_write = False,
     tm_destructive = False, tm_external = False, tm_network = False, tm_policy = Never,
     tm_output_limit = 32768\<rparr>"

definition valid_metadata :: "tool_metadata \<Rightarrow> bool" where
  \<comment> \<open>the bounds of \<open>ToolMetadata.output_limit_bytes\<close>\<close>
  "valid_metadata m \<longleftrightarrow> 1024 \<le> tm_output_limit m \<and> tm_output_limit m \<le> 2097152"

definition approval_reason :: "tool_metadata \<Rightarrow> pytext" where
  "approval_reason m =
     (let reasons = (if tm_destructive m then [u ''destructive operation''] else [])
            @ (if tm_external m then [u ''external side effect''] else [])
            @ (if tm_write m then [u ''write operation''] else [])
            @ (if tm_network m then [u ''network access''] else [])
      in if reasons = [] then u ''policy requires confirmation'' else join (u '', '') reasons)"

subsection \<open>Capped results\<close>

definition cap_result :: "(pytext \<Rightarrow> bool) \<Rightarrow> json \<Rightarrow> nat \<Rightarrow> json" where
  \<comment> \<open>the first argument says whether \<open>json.loads\<close> accepts a text\<close>
  "cap_result is_json v limit =
     (case v of
        JStr t \<Rightarrow>
          (let safe = redact_text t; encoded = utf8 safe
           in if length encoded \<le> limit then JStr safe
              else (let excerpt = decode_ignore (take (limit - 256) encoded)
                    in if is_json safe
                       then JStr (dumps_default (JObj [(u ''ok'', JBool True), (u ''truncated'', JBool True),
                         (u ''excerpt'', JStr excerpt),
                         (u ''note'', JStr (u ''Read the full output artifact for complete structured data.''))]))
                       else JStr (excerpt @ [10, 8230] @ u ''[tool output truncated; full output is in the artifact log]'')))
      | _ \<Rightarrow> redact_value v)"

subsection \<open>The approval broker\<close>

record request =
  rq_id :: string
  rq_fingerprint :: string
  rq_tool :: pytext
  rq_arguments :: json
  rq_category :: string
  rq_reason :: pytext
  rq_status :: string
  rq_note :: pytext

record broker =
  \<comment> \<open>the document \<open>approvals.json\<close>\<close>
  br_requests :: "request list"
  br_decisions :: "(string, string) dict"

definition empty_broker :: broker where
  "empty_broker = \<lparr>br_requests = [], br_decisions = []\<rparr>"

definition call_text :: "pytext \<Rightarrow> json \<Rightarrow> pytext" where
  "call_text name args = name @ [10] @ canonical args"

definition fingerprint :: "(int list \<Rightarrow> string) \<Rightarrow> pytext \<Rightarrow> json \<Rightarrow> string" where
  "fingerprint sha name args = sha (utf8 (call_text name args))"

definition request :: "(int list \<Rightarrow> string) \<Rightarrow> broker \<Rightarrow> string \<Rightarrow> pytext \<Rightarrow> json \<Rightarrow> tool_metadata \<Rightarrow> broker \<times> request" where
  \<comment> \<open>the new identifier comes from \<open>uuid4\<close>\<close>
  "request sha b i name args m =
     (let fp = fingerprint sha name args
      in case first_such (\<lambda>r. rq_fingerprint r = fp) (br_requests b) of
           Some r \<Rightarrow> (b, r)
         | None \<Rightarrow>
             (let r = \<lparr>rq_id = i, rq_fingerprint = fp, rq_tool = name, rq_arguments = redact_value args,
                rq_category = tm_category m, rq_reason = approval_reason m, rq_status = ''pending'', rq_note = []\<rparr>
              in (b\<lparr>br_requests := br_requests b @ [r]\<rparr>, r)))"

definition decision :: "(int list \<Rightarrow> string) \<Rightarrow> broker \<Rightarrow> pytext \<Rightarrow> json \<Rightarrow> string option" where
  "decision sha b name args = dget (br_decisions b) (fingerprint sha name args)"

fun set_request :: "string \<Rightarrow> (request \<Rightarrow> request) \<Rightarrow> request list \<Rightarrow> request list" where
  \<comment> \<open>an update of the first request with the identifier, in place\<close>
  "set_request i f [] = []"
| "set_request i f (r # rs) = (if rq_id r = i then f r # rs else r # set_request i f rs)"

definition decide :: "broker \<Rightarrow> string \<Rightarrow> string \<Rightarrow> pytext \<Rightarrow> (broker \<times> request) result" where
  "decide b i d note =
     guardE (d \<notin> {''approved'', ''rejected''}) (ValueError ''decision must be approved or rejected'')
     (case first_such (\<lambda>r. rq_id r = i) (br_requests b) of
        None \<Rightarrow> Inl (ValueError ''approval request not found'')
      | Some r \<Rightarrow>
          (let f = (\<lambda>r. r\<lparr>rq_status := d, rq_note := redact_text note\<rparr>)
           in Inr (b\<lparr>br_requests := set_request i f (br_requests b),
                     br_decisions := dput (rq_fingerprint r) d (br_decisions b)\<rparr>, f r)))"

definition pending_requests :: "broker \<Rightarrow> request list" where
  "pending_requests b = filter (\<lambda>r. rq_status r = ''pending'') (br_requests b)"

subsection \<open>The guard\<close>

record catalog =
  ct_calls :: nat
  ct_counts :: "(string, nat) dict"
  ct_max_calls :: nat
  ct_max_repeat :: nat

record tool =
  t_name :: pytext
  t_meta :: tool_metadata
  t_check :: "(json \<Rightarrow> bool) option"

datatype reply =
    BudgetExceeded
  | RepeatExceeded
  | ControlBlocked pytext
  | PolicyDisabled
  | ApprovalRejected
  | ApprovalRequired string pytext
  | Ran json

definition count_call :: "(int list \<Rightarrow> string) \<Rightarrow> catalog \<Rightarrow> tool \<Rightarrow> json \<Rightarrow> catalog" where
  "count_call sha c t args =
     (let fp = fingerprint sha (t_name t) args
      in c\<lparr>ct_calls := ct_calls c + 1,
           ct_counts := dput fp ((case dget (ct_counts c) fp of None \<Rightarrow> 0 | Some n \<Rightarrow> n) + 1) (ct_counts c)\<rparr>)"

definition requires_approval :: "tool \<Rightarrow> json \<Rightarrow> bool" where
  "requires_approval t args =
     (case tm_policy (t_meta t) of
        Always \<Rightarrow> True
      | Conditional \<Rightarrow> (case t_check t of None \<Rightarrow> True | Some f \<Rightarrow> f args)
      | _ \<Rightarrow> False)"

definition guarded ::
  "(int list \<Rightarrow> string) \<Rightarrow> (pytext \<Rightarrow> bool) \<Rightarrow> catalog \<Rightarrow> broker \<Rightarrow> pytext option \<Rightarrow> string \<Rightarrow> tool
     \<Rightarrow> (json \<Rightarrow> json result) \<Rightarrow> json \<Rightarrow> catalog \<times> broker \<times> reply result" where
  \<comment> \<open>the control check has been evaluated; the identifier is the one a new request would get\<close>
  "guarded sha is_json c b blocked i t run args =
     (let c = count_call sha c t args;
          fp = fingerprint sha (t_name t) args
      in if ct_calls c > ct_max_calls c then (c, b, Inr BudgetExceeded)
         else if (case dget (ct_counts c) fp of None \<Rightarrow> 0 | Some n \<Rightarrow> n) > ct_max_repeat c then (c, b, Inr RepeatExceeded)
         else if blocked \<notin> {None, Some []} then (c, b, Inr (ControlBlocked (the blocked)))
         else if tm_policy (t_meta t) = Disabled then (c, b, Inr PolicyDisabled)
         else if requires_approval t args \<and> decision sha b (t_name t) args = Some ''rejected''
         then (c, b, Inr ApprovalRejected)
         else if requires_approval t args \<and> decision sha b (t_name t) args \<noteq> Some ''approved''
         then (let (b', r) = request sha b i (t_name t) args (t_meta t)
               in (c, b', Inr (ApprovalRequired (rq_id r) (rq_reason r))))
         else (case run args of
             Inl e \<Rightarrow> (c, b, Inl e)
           | Inr v \<Rightarrow> (c, b, Inr (Ran (cap_result is_json v (tm_output_limit (t_meta t)))))))"

definition executed :: "catalog \<times> broker \<times> reply result \<Rightarrow> bool" where
  \<comment> \<open>the tool was run, with a result or an exception\<close>
  "executed x \<longleftrightarrow> (case snd (snd x) of Inl _ \<Rightarrow> True | Inr (Ran _) \<Rightarrow> True | Inr _ \<Rightarrow> False)"

subsection \<open>Sequences of calls\<close>

text \<open>
  One entry of a session with the catalog: a call of some tool with its environment at that moment,
  or a decision of the user.
\<close>

datatype cevent =
    Call tool "json \<Rightarrow> json result" json "pytext option" string
  | Decide string string pytext

fun crun1 :: "(int list \<Rightarrow> string) \<Rightarrow> (pytext \<Rightarrow> bool) \<Rightarrow> catalog \<times> broker \<Rightarrow> cevent \<Rightarrow> (catalog \<times> broker) \<times> (pytext \<times> json) list" where
  \<comment> \<open>the calls that ran, by tool and arguments\<close>
  "crun1 sha is_json (c, b) (Call t run args blocked i) =
     (let x = guarded sha is_json c b blocked i t run args
      in ((fst x, fst (snd x)), if executed x then [(t_name t, args)] else []))"
| "crun1 sha is_json (c, b) (Decide i d note) =
     (case decide b i d note of Inl _ \<Rightarrow> ((c, b), []) | Inr (b', _) \<Rightarrow> ((c, b'), []))"

fun crun :: "(int list \<Rightarrow> string) \<Rightarrow> (pytext \<Rightarrow> bool) \<Rightarrow> catalog \<times> broker \<Rightarrow> cevent list \<Rightarrow> (catalog \<times> broker) \<times> (pytext \<times> json) list" where
  "crun sha is_json s [] = (s, [])"
| "crun sha is_json s (e # es) =
     (let (s', out) = crun1 sha is_json s e; (s'', outs) = crun sha is_json s' es in (s'', out @ outs))"

subsection \<open>What an approval covers\<close>

lemma call_text_inj:
  assumes "10 \<notin> set n" "10 \<notin> set m" "n @ [10] @ x = m @ [10] @ y"
  shows "n = m \<and> x = y"
proof -
  have "takeWhile (\<lambda>c. c \<noteq> 10) (n @ [10] @ x) = n" "takeWhile (\<lambda>c. c \<noteq> 10) (m @ [10] @ y) = m"
    using assms(1,2) by (auto simp: takeWhile_append)
  with assms(3) show ?thesis by auto
qed

definition sane_call :: "pytext \<Rightarrow> json \<Rightarrow> bool" where
  \<comment> \<open>a name without a line break and arguments that can be printed\<close>
  "sane_call name args \<longleftrightarrow> 10 \<notin> set name \<and> wf_json args \<and> list_all valid_cp (call_text name args)"

definition collision :: "(int list \<Rightarrow> string) \<Rightarrow> bool" where
  "collision sha \<longleftrightarrow> (\<exists>x y. x \<noteq> y \<and> sha x = sha y)"

lemma fingerprint_exact:
  assumes "sane_call n a" "sane_call m b" "fingerprint sha n a = fingerprint sha m b"
  shows "(n = m \<and> py_eq a b) \<or> collision sha"
proof (cases "utf8 (call_text n a) = utf8 (call_text m b)")
  case True
  then have "call_text n a = call_text m b"
    using assms(1,2) decode_utf8 unfolding sane_call_def by metis
  then have "n = m \<and> canonical a = canonical b"
    using assms(1,2) call_text_inj unfolding call_text_def sane_call_def by blast
  with assms(1,2) canonical_py_eq show ?thesis unfolding sane_call_def by blast
next
  case False
  with assms(3) show ?thesis unfolding fingerprint_def collision_def by blast
qed

definition req_keys :: "broker \<Rightarrow> (string \<times> string) set" where
  "req_keys b = (\<lambda>r. (rq_id r, rq_fingerprint r)) ` set (br_requests b)"

definition asked :: "(int list \<Rightarrow> string) \<Rightarrow> cevent set \<Rightarrow> string \<Rightarrow> string \<Rightarrow> bool" where
  "asked sha P i fp \<longleftrightarrow> (\<exists>t run args bl. Call t run args bl i \<in> P \<and> fp = fingerprint sha (t_name t) args)"

definition granted :: "cevent set \<Rightarrow> (string \<times> string) set \<Rightarrow> string \<Rightarrow> bool" where
  "granted P K fp \<longleftrightarrow> (\<exists>i n. (i, fp) \<in> K \<and> Decide i ''approved'' n \<in> P)"

definition traced :: "(int list \<Rightarrow> string) \<Rightarrow> cevent set \<Rightarrow> broker \<Rightarrow> bool" where
  \<comment> \<open>every request was made by a call, every approval by a decision on a request\<close>
  "traced sha P b \<longleftrightarrow>
     (\<forall>k\<in>req_keys b. asked sha P (fst k) (snd k))
     \<and> (\<forall>fp. dget (br_decisions b) fp = Some ''approved'' \<longrightarrow> granted P (req_keys b) fp)"

lemma asked_mono: "asked sha P i fp \<Longrightarrow> P \<subseteq> Q \<Longrightarrow> asked sha Q i fp"
proof -
  assume "asked sha P i fp" "P \<subseteq> Q"
  then obtain t run args bl where "Call t run args bl i \<in> Q" "fp = fingerprint sha (t_name t) args"
    unfolding asked_def by blast
  then show ?thesis unfolding asked_def
    by (intro exI [of _ t] exI [of _ run] exI [of _ args] exI [of _ bl] conjI)
qed

lemma granted_mono: "granted P K fp \<Longrightarrow> P \<subseteq> Q \<Longrightarrow> K \<subseteq> L \<Longrightarrow> granted Q L fp"
  unfolding granted_def by (meson subsetD)

lemma granted_insert: "granted P K fp \<Longrightarrow> granted (insert e P) K fp"
  using granted_mono [of P K fp "insert e P" K] by auto

lemma asked_insert: "asked sha P i fp \<Longrightarrow> asked sha (insert e P) i fp"
  using asked_mono [of sha P i fp "insert e P"] by auto

lemma set_request_members:
  assumes "\<And>r. rq_id (f r) = rq_id r \<and> rq_fingerprint (f r) = rq_fingerprint r"
  shows "(\<lambda>r. (rq_id r, rq_fingerprint r)) ` set (set_request i f rs) = (\<lambda>r. (rq_id r, rq_fingerprint r)) ` set rs"
  using assms by (induction rs) auto

lemma decide_traced:
  assumes "traced sha P b" "decide b i d nt = Inr (b', r)"
  shows "traced sha (insert (Decide i d nt) P) b'"
proof -
  obtain r0 where r0: "first_such (\<lambda>r. rq_id r = i) (br_requests b) = Some r0"
    using assms(2) by (auto simp: decide_def bind_simps split: option.splits)
  then have r0m: "r0 \<in> set (br_requests b)" "rq_id r0 = i"
    using first_such_Some [of "\<lambda>r. rq_id r = i" "br_requests b" r0] by auto
  let ?f = "\<lambda>r. r\<lparr>rq_status := d, rq_note := redact_text nt\<rparr>"
  have b': "br_requests b' = set_request i ?f (br_requests b)"
    "br_decisions b' = dput (rq_fingerprint r0) d (br_decisions b)"
    using assms(2) r0 by (auto simp: decide_def bind_simps Let_def)
  have mem: "req_keys b' = req_keys b"
    unfolding b' req_keys_def by (rule set_request_members) simp
  have k: "(i, rq_fingerprint r0) \<in> req_keys b" using r0m by (force simp: req_keys_def)
  have "granted (insert (Decide i d nt) P) (req_keys b) fp"
    if fp: "dget (br_decisions b') fp = Some ''approved''" for fp
  proof (cases "fp = rq_fingerprint r0")
    case True
    then have "d = ''approved''" using fp unfolding b'(2) dget_dput by simp
    with k True show ?thesis unfolding granted_def by (intro exI [of _ i] exI [of _ nt]) simp
  next
    case False
    then have "dget (br_decisions b) fp = Some ''approved''" using fp unfolding b'(2) dget_dput by simp
    then have "granted P (req_keys b) fp" using assms(1) unfolding traced_def by simp
    then show ?thesis by (rule granted_insert)
  qed
  moreover have "\<forall>k\<in>req_keys b. asked sha (insert (Decide i d nt) P) (fst k) (snd k)"
    using assms(1) unfolding traced_def by (simp add: asked_insert)
  ultimately show ?thesis unfolding traced_def mem by simp
qed

lemma traced_mono: "traced sha P b \<Longrightarrow> P \<subseteq> Q \<Longrightarrow> traced sha Q b"
  unfolding traced_def using asked_mono [of sha P _ _ Q] granted_mono [of P "req_keys b" _ Q "req_keys b"] by simp

lemma request_traced:
  assumes "traced sha P b" "request sha b i (t_name t) args m = (b', r)"
  shows "traced sha (insert (Call t run args bl i) P) b'"
proof (cases "first_such (\<lambda>r. rq_fingerprint r = fingerprint sha (t_name t) args) (br_requests b)")
  case None
  then have b': "br_requests b' = br_requests b @ [r]" "br_decisions b' = br_decisions b"
    "rq_id r = i" "rq_fingerprint r = fingerprint sha (t_name t) args"
    using assms(2) by (auto simp: request_def Let_def)
  have "traced sha (insert (Call t run args bl i) P) b" using traced_mono [OF assms(1)] by blast
  moreover have "req_keys b' = insert (i, fingerprint sha (t_name t) args) (req_keys b)"
    using b' by (auto simp: req_keys_def)
  moreover have "asked sha (insert (Call t run args bl i) P) i (fingerprint sha (t_name t) args)"
    unfolding asked_def by (intro exI [of _ t] exI [of _ run] exI [of _ args] exI [of _ bl]) simp
  moreover have "granted Q (req_keys b) fp \<Longrightarrow> granted Q (req_keys b') fp" for Q fp
    using granted_mono [of Q "req_keys b" fp Q "req_keys b'"] calculation(2) by blast
  ultimately show ?thesis using b'(2) unfolding traced_def by simp
next
  case (Some r0)
  then have "b' = b" using assms(2) by (simp add: request_def Let_def)
  with traced_mono [OF assms(1)] show ?thesis by blast
qed

lemma guarded_broker:
  "fst (snd (guarded sha is_json c b bl i t run args)) = b
   \<or> fst (snd (guarded sha is_json c b bl i t run args)) = fst (request sha b i (t_name t) args (t_meta t))"
  by (simp add: guarded_def Let_def case_prod_beta split: sum.splits)

lemma crun1_traced:
  assumes "traced sha P (snd s)"
  shows "traced sha (insert e P) (snd (fst (crun1 sha is_json s e)))"
proof -
  obtain c b where s: "s = (c, b)" by (cases s)
  show ?thesis
  proof (cases e)
    case (Call t run args bl i)
    obtain b' r where r: "request sha b i (t_name t) args (t_meta t) = (b', r)" by (cases "request sha b i (t_name t) args (t_meta t)")
    have "traced sha (insert e P) b'" using request_traced [OF _ r, of P run bl] assms s Call by simp
    moreover have "traced sha (insert e P) b" using traced_mono [of sha P b "insert e P"] assms s by auto
    ultimately show ?thesis
      using guarded_broker [of sha is_json c b bl i t run args] s Call r by (auto simp: Let_def)
  next
    case (Decide i d nt)
    show ?thesis
    proof (cases "decide b i d nt")
      case (Inl x)
      with traced_mono [of sha P b "insert e P"] assms s Decide show ?thesis by auto
    next
      case (Inr x)
      then show ?thesis using decide_traced [of sha P b i d nt "fst x" "snd x"] assms s Decide
        by (simp add: case_prod_beta)
    qed
  qed
qed

lemma crun_traced: "traced sha P (snd s) \<Longrightarrow> traced sha (set es \<union> P) (snd (fst (crun sha is_json s es)))"
proof (induction es arbitrary: s P)
  case (Cons e es)
  have "traced sha (set es \<union> insert e P) (snd (fst (crun sha is_json (fst (crun1 sha is_json s e)) es)))"
    by (rule Cons.IH) (rule crun1_traced [OF Cons.prems])
  then show ?case by (simp add: case_prod_beta)
qed simp

lemma traced_empty: "traced sha {} empty_broker"
  by (simp add: traced_def empty_broker_def req_keys_def)

lemma executed_approved:
  assumes "executed (guarded sha is_json c b bl i t run args)" "requires_approval t args"
  shows "decision sha b (t_name t) args = Some ''approved''"
  using assms by (auto simp: executed_def guarded_def Let_def case_prod_beta split: if_splits)

subsection \<open>Budgets\<close>

definition count_of :: "catalog \<Rightarrow> string \<Rightarrow> nat" where
  "count_of c fp = (case dget (ct_counts c) fp of None \<Rightarrow> 0 | Some n \<Rightarrow> n)"

lemma guarded_catalog: "fst (guarded sha is_json c b bl i t run args) = count_call sha c t args"
  by (simp add: guarded_def Let_def case_prod_beta split: sum.splits)

lemma count_call_simps:
  "ct_calls (count_call sha c t args) = ct_calls c + 1"
  "ct_max_calls (count_call sha c t args) = ct_max_calls c"
  "ct_max_repeat (count_call sha c t args) = ct_max_repeat c"
  "count_of (count_call sha c t args) fp = count_of c fp + (if fp = fingerprint sha (t_name t) args then 1 else 0)"
  by (simp_all add: count_call_def Let_def count_of_def dget_dput)

lemma executed_within:
  assumes "executed (guarded sha is_json c b bl i t run args)"
  shows "ct_calls c < ct_max_calls c" "count_of c (fingerprint sha (t_name t) args) < ct_max_repeat c"
proof -
  let ?c = "count_call sha c t args" and ?fp = "fingerprint sha (t_name t) args"
  have "\<not> ct_calls ?c > ct_max_calls ?c" "\<not> count_of ?c ?fp > ct_max_repeat ?c"
    using assms by (auto simp: executed_def guarded_def Let_def count_of_def [symmetric] split: if_splits)
  then show "ct_calls c < ct_max_calls c" "count_of c ?fp < ct_max_repeat c"
    by (simp_all add: count_call_simps)
qed

definition ran_as :: "(int list \<Rightarrow> string) \<Rightarrow> string \<Rightarrow> (pytext \<times> json) list \<Rightarrow> nat" where
  "ran_as sha fp runs = length (filter (\<lambda>(n, a). fingerprint sha n a = fp) runs)"

lemma crun_budget:
  assumes "crun sha is_json (c, b) es = ((c', b'), runs)"
  shows "length runs \<le> ct_max_calls c - ct_calls c \<and> ran_as sha fp runs \<le> ct_max_repeat c - count_of c fp"
  using assms
proof (induction es arbitrary: c b runs)
  case Nil
  then show ?case by (simp add: ran_as_def)
next
  case (Cons e es)
  obtain c1 b1 out where o: "crun1 sha is_json (c, b) e = ((c1, b1), out)" by (metis surj_pair)
  obtain outs where r: "crun sha is_json (c1, b1) es = ((c', b'), outs)" "runs = out @ outs"
    using Cons.prems o by (auto simp: case_prod_beta prod_eq_iff)
  note IH = Cons.IH [OF r(1)]
  show ?case
  proof (cases e)
    case (Call t run args bl i)
    let ?x = "guarded sha is_json c b bl i t run args"
    have c1: "c1 = count_call sha c t args" and out: "out = (if executed ?x then [(t_name t, args)] else [])"
      using o Call guarded_catalog [of sha is_json c b bl i t run args] by (auto simp: Let_def)
    show ?thesis
    proof (cases "executed ?x")
      case True
      with IH c1 out r(2) executed_within [OF True] show ?thesis
        by (auto simp: count_call_simps ran_as_def split: if_splits)
    next
      case False
      with IH c1 out r(2) show ?thesis by (auto simp: count_call_simps ran_as_def split: if_splits)
    qed
  next
    case (Decide i d nt)
    then have "c1 = c" "out = []" using o by (auto split: sum.splits)
    with IH r(2) show ?thesis by simp
  qed
qed

subsection \<open>Properties\<close>


text \<open>
  C25. The budgets hold over any session with a catalog: however the calls are interleaved with
  decisions, no more tools run than the call budget allows, and no call with the same fingerprint
  runs more often than the repetition limit.
\<close>

theorem executions_within_budget:
  assumes "crun sha is_json (c, b) es = (s, runs)" and "ct_calls c = 0" and "ct_counts c = []"
  shows "length runs \<le> ct_max_calls c \<and> ran_as sha fp runs \<le> ct_max_repeat c"
proof -
  obtain c' b' where "s = (c', b')" by (cases s)
  with crun_budget [of sha is_json c b es c' b' runs fp] assms show ?thesis
    by (simp add: count_of_def)
qed

text \<open>
  A result that is not JSON is cut to the output limit: the text handed to the model encodes to at
  most the limit's number of bytes, and it is the redacted output itself or begins with a prefix of it.
\<close>

theorem plain_results_are_capped:
  assumes "1024 \<le> limit" and "list_all valid_cp (redact_text t)" and "\<not> is_json (redact_text t)"
  shows "\<exists>w k. cap_result is_json (JStr t) limit = JStr w \<and> length (utf8 w) \<le> limit
     \<and> (w = redact_text t \<or> take k (redact_text t) = take k w \<and> k \<le> length w
          \<and> length (utf8 (take k w)) + 256 \<le> limit)"
proof (cases "length (utf8 (redact_text t)) \<le> limit")
  case True
  then show ?thesis by (simp add: cap_result_def Let_def)
next
  case False
  let ?s = "redact_text t" and ?note = "u ''[tool output truncated; full output is in the artifact log]''"
  obtain k where k: "decode_ignore (take (limit - 256) (utf8 ?s)) = take k ?s" "length (utf8 (take k ?s)) \<le> limit - 256"
    using decode_take_utf8 [OF assms(2)] by blast
  define e where "e = take k ?s"
  have len: "length (utf8 ([10, 8230] @ ?note)) \<le> 256" by code_simp
  have w: "cap_result is_json (JStr t) limit = JStr (e @ [10, 8230] @ ?note)"
    using False assms(3) k(1) by (simp add: cap_result_def Let_def e_def)
  have ke: "length (utf8 e) + 256 \<le> limit" using k(2) assms(1) by (simp add: e_def)
  have "length (utf8 (e @ [10, 8230] @ ?note)) \<le> limit"
    unfolding utf8_append length_append using len ke unfolding utf8_append length_append by linarith
  moreover have "take (length e) ?s = e"
    unfolding e_def length_take by (cases "length ?s \<le> k") (simp_all add: min_def)
  ultimately show ?thesis using w ke
    by (intro exI [of _ "e @ [10, 8230] @ ?note"] exI [of _ "length e"]) simp
qed

text \<open>
  A result that is JSON can exceed its limit: the excerpt is cut to the limit less 256 bytes and is
  then escaped again inside a JSON object, so a text full of quotes grows to more than the limit.
\<close>

definition quotes_json :: pytext where
  \<comment> \<open>a JSON string literal of 600 quotes\<close>
  "quotes_json = [34] @ concat (replicate 600 [92, 34]) @ [34]"

theorem json_results_exceed_the_limit:
  assumes "is_json quotes_json"
  shows "\<exists>w. cap_result is_json (JStr quotes_json) 1024 = JStr w \<and> 1024 < length (utf8 w)"
proof -
  have ch: "set quotes_json \<subseteq> {34, 92}" by (auto simp: quotes_json_def)
  have red: "redact_text quotes_json = quotes_json"
    by (rule redact_plain) (use ch in \<open>auto simp: list_all_iff plain_char_def\<close>)
  have enc1: "enc c = [c]" if "c \<in> {34, 92}" for c :: int using that by (auto simp: enc_def)
  have id: "utf8 xs = xs" if "set xs \<subseteq> {34, 92}" for xs
    using that by (induction xs) (auto simp: enc1)
  have dec: "decode_ignore xs = xs" if "set xs \<subseteq> {34, 92}" for xs
    using that by (induction xs) auto
  have len: "length quotes_json = 1202" by (simp add: quotes_json_def sum_list_replicate length_concat)
  define e where "e = take 768 quotes_json"
  have e: "set e \<subseteq> {34, 92}" "length e = 768" using ch len set_take_subset [of 768 quotes_json] by (auto simp: e_def)
  have esc: "length (concat (map esc_char xs)) = 2 * length xs" if "set xs \<subseteq> {34, 92}" for xs
    using that by (induction xs) (auto simp: esc_char_def)
  let ?w = "dumps_default (JObj [(u ''ok'', JBool True), (u ''truncated'', JBool True), (u ''excerpt'', JStr e),
     (u ''note'', JStr (u ''Read the full output artifact for complete structured data.''))])"
  have "cap_result is_json (JStr quotes_json) 1024 = JStr ?w"
    using assms red id [OF ch] len dec [of e] e by (simp add: cap_result_def Let_def e_def)
  moreover have "length (concat (map esc_char e)) \<le> length ?w" by (simp add: dumps_default_def quote_def)
  then have "1024 < length ?w" using esc [OF e(1)] e(2) by simp
  then have "1024 < length (utf8 ?w)" using length_utf8_ge [of ?w] by linarith
  ultimately show ?thesis by blast
qed

definition example_tool :: tool where
  "example_tool = \<lparr>t_name = u ''write'', t_meta = default_metadata\<lparr>tm_policy := Always\<rparr>, t_check = None\<rparr>"

definition example_args :: json where
  "example_args = JObj [(u ''path'', JStr (u ''a''))]"

definition example_run :: "json \<Rightarrow> json result" where
  "example_run args = Inr (JStr (u ''ok''))"

definition example_catalog :: catalog where
  "example_catalog = \<lparr>ct_calls = 0, ct_counts = [], ct_max_calls = 80, ct_max_repeat = 4\<rparr>"

definition example_session :: "cevent list" where
  "example_session = [Call example_tool example_run example_args None ''q1'', Decide ''q1'' ''approved'' []]"

definition example_sha :: "int list \<Rightarrow> string" where
  "example_sha t = map char_of t"

lemma example_sane: "sane_call (t_name example_tool) example_args"
  by code_simp

lemma example_red: "redact_text (u ''a'') = u ''a''" "redact_text [] = []"
  by code_simp+


theorem executions_within_budget_witness:
  "length (snd (crun example_sha (\<lambda>t. False) (example_catalog, empty_broker) example_session)) \<le> 80"
  using executions_within_budget [of example_sha "\<lambda>t. False" example_catalog empty_broker example_session
      "fst (crun example_sha (\<lambda>t. False) (example_catalog, empty_broker) example_session)"
      "snd (crun example_sha (\<lambda>t. False) (example_catalog, empty_broker) example_session)"]
  by (simp add: example_catalog_def)

theorem plain_results_are_capped_witness:
  "\<exists>w. cap_result (\<lambda>t. False) (JStr (u ''a'')) 1024 = JStr w \<and> length (utf8 w) \<le> 1024"
proof -
  have "list_all valid_cp (redact_text (u ''a''))" unfolding example_red by (simp add: valid_cp_def)
  from plain_results_are_capped [of 1024 "u ''a''" "\<lambda>t. False", OF _ this] show ?thesis by auto
qed

theorem json_results_exceed_the_limit_witness:
  "\<exists>w. cap_result (\<lambda>t. True) (JStr quotes_json) 1024 = JStr w \<and> 1024 < length (utf8 w)"
  by (rule json_results_exceed_the_limit) simp

end
