(* ===== verification/Py_Value.thy ===== *)
theory Py_Value
  imports Json
begin

text \<open>
  Reading loosely typed values: \<open>int(v)\<close>, \<open>str(v)\<close>, \<open>v or default\<close> and \<open>min\<close> on JSON values, the
  shell patterns of \<open>fnmatch\<close>, the UTF-8 decoder's \<open>errors="replace"\<close> mode, and operations that
  change a world and may raise: what they did before raising stays done.
\<close>

subsection \<open>Numbers and strings from values\<close>

definition or_else :: "json \<Rightarrow> json \<Rightarrow> json" where
  \<comment> \<open>\<open>v or d\<close>\<close>
  "or_else v d = (if truthy v then v else d)"

definition get_or :: "string \<Rightarrow> json \<Rightarrow> json \<Rightarrow> json" where
  \<comment> \<open>\<open>v.get(name, default)\<close>\<close>
  "get_or name d v = (case dget (entries v) (u name) of None \<Rightarrow> d | Some x \<Rightarrow> x)"

definition unsigned :: "pytext \<Rightarrow> nat option" where
  "unsigned t = (if t \<noteq> [] \<and> list_all (\<lambda>c. 48 \<le> c \<and> c \<le> 57) t then Some (digits_val t) else None)"

definition signed :: "pytext \<Rightarrow> int option" where
  "signed t = (case t of
      [] \<Rightarrow> None
    | c # r \<Rightarrow> (if c = 45 then map_option (\<lambda>n. - int n) (unsigned r)
               else if c = 43 then map_option int (unsigned r) else map_option int (unsigned t)))"

definition float_trunc :: "pytext \<Rightarrow> int" where
  \<comment> \<open>a printed finite float, towards zero\<close>
  "float_trunc t =
     (let neg = (t \<noteq> [] \<and> hd t = 45); s = (if neg then tl t else t);
          m = takeWhile (\<lambda>c. c \<noteq> 101) s; e = drop (length m + 1) s;
          a = takeWhile (\<lambda>c. c \<noteq> 46) m; b = drop (length a + 1) m;
          k = (case signed e of None \<Rightarrow> 0 | Some x \<Rightarrow> x) - int (length b);
          n = int (digits_val (a @ b));
          v = (if 0 \<le> k then n * 10 ^ nat k else n div 10 ^ nat (- k))
      in if neg then - v else v)"

fun py_int :: "json \<Rightarrow> int result" where
  "py_int (JInt i) = Inr i"
| "py_int (JBool b) = Inr (if b then 1 else 0)"
| "py_int (JFloat t) = Inr (float_trunc t)"
| "py_int (JStr t) = (case signed (filter (\<lambda>c. c \<noteq> 95) (strip t)) of
      None \<Rightarrow> Inl (ValueError ''invalid literal for int() with base 10'') | Some i \<Rightarrow> Inr i)"
| "py_int v = Inl (TypeError ''int() argument must be a string or a number'')"

definition int_or :: "json \<Rightarrow> int \<Rightarrow> int result" where
  \<comment> \<open>\<open>int(v or d)\<close>\<close>
  "int_or v d = py_int (or_else v (JInt d))"

definition repr_char :: "int \<Rightarrow> int \<Rightarrow> pytext" where
  "repr_char q c = (if c = 92 then [92, 92] else if c = q then [92, q] else if c = 10 then [92, 110]
     else if c = 13 then [92, 114] else if c = 9 then [92, 116]
     else if c < 32 \<or> (127 \<le> c \<and> c < 161) then [92, 120, hex_digit (c div 16), hex_digit (c mod 16)] else [c])"

definition repr_str :: "pytext \<Rightarrow> pytext" where
  "repr_str t = (let q = (if 39 \<in> set t \<and> 34 \<notin> set t then 34 else 39)
     in q # concat (map (repr_char q) t) @ [q])"

fun py_repr :: "json \<Rightarrow> pytext" where
  "py_repr JNull = u ''None''"
| "py_repr (JBool b) = (if b then u ''True'' else u ''False'')"
| "py_repr (JInt i) = int_repr i"
| "py_repr (JFloat t) = t"
| "py_repr (JStr t) = repr_str t"
| "py_repr (JList xs) = 91 # join (u '', '') (map py_repr xs) @ [93]"
| "py_repr (JObj kvs) =
     123 # join (u '', '') (map (\<lambda>kv. repr_str (fst kv) @ u '': '' @ py_repr (snd kv)) kvs) @ [125]"

definition py_str :: "json \<Rightarrow> pytext" where
  "py_str v = (case v of JStr t \<Rightarrow> t | _ \<Rightarrow> py_repr v)"

definition str_or :: "json \<Rightarrow> string \<Rightarrow> pytext" where
  \<comment> \<open>\<open>str(v or d)\<close>\<close>
  "str_or v d = py_str (or_else v (JStr (u d)))"

fun as_text :: "json \<Rightarrow> pytext option" where
  "as_text (JStr t) = Some t"
| "as_text _ = None"

definition str_list :: "json \<Rightarrow> pytext list option" where
  \<comment> \<open>a list all of whose items are strings\<close>
  "str_list v = (case v of JList xs \<Rightarrow> those (map as_text xs) | _ \<Rightarrow> None)"

fun py_iter :: "json \<Rightarrow> json list result" where
  \<comment> \<open>what \<open>for x in v\<close> goes through\<close>
  "py_iter (JList xs) = Inr xs"
| "py_iter (JStr t) = Inr (map (\<lambda>c. JStr [c]) t)"
| "py_iter (JObj kvs) = Inr (map (\<lambda>kv. JStr (fst kv)) kvs)"
| "py_iter v = Inl (TypeError ''object is not iterable'')"

definition py_items :: "json \<Rightarrow> (pytext \<times> json) list result" where
  \<comment> \<open>\<open>v.items()\<close>\<close>
  "py_items v = (case v of JObj kvs \<Rightarrow> Inr kvs | _ \<Rightarrow> Inl (AttributeError ''object has no attribute items''))"

subsection \<open>Shell patterns\<close>

fun in_class :: "pytext \<Rightarrow> int \<Rightarrow> bool" where
  \<comment> \<open>the inside of a bracket expression\<close>
  "in_class (a # d # b # s) c = (if d = 45 then (a \<le> c \<and> c \<le> b) \<or> in_class s c
                                 else c = a \<or> in_class (d # b # s) c)"
| "in_class (a # s) c = (c = a \<or> in_class s c)"
| "in_class [] c = False"

definition bracket :: "pytext \<Rightarrow> (bool \<times> pytext \<times> pytext) option" where
  \<comment> \<open>what follows an opening bracket: negation, the class, the rest of the pattern\<close>
  "bracket p =
     (let neg = (p \<noteq> [] \<and> hd p = 33); q = (if neg then tl p else p);
          first = (if q \<noteq> [] \<and> hd q = 93 then [93] else []);
          body = takeWhile (\<lambda>c. c \<noteq> 93) (drop (length first) q)
      in if length first + length body < length q
         then Some (neg, first @ body, drop (length first + length body + 1) q) else None)"

lemma bracket_shorter: "bracket p = Some (n, s, r) \<Longrightarrow> length r < length p"
  by (auto simp: bracket_def Let_def split: if_splits)

function fnmatch :: "pytext \<Rightarrow> pytext \<Rightarrow> bool" where
  \<comment> \<open>\<open>fnmatch.fnmatchcase(text, pattern)\<close>, the pattern first\<close>
  "fnmatch [] t = (t = [])"
| "fnmatch (p # ps) t =
     (if p = 42 then fnmatch ps t \<or> (case t of [] \<Rightarrow> False | c # r \<Rightarrow> fnmatch (p # ps) r)
      else (case t of
          [] \<Rightarrow> False
        | c # r \<Rightarrow>
            (if p = 63 then fnmatch ps r
             else if p = 91 then
               (case bracket ps of
                  None \<Rightarrow> c = 91 \<and> fnmatch ps r
                | Some (neg, s, rest) \<Rightarrow> in_class s c \<noteq> neg \<and> fnmatch rest r)
             else c = p \<and> fnmatch ps r)))"
  by pat_completeness auto
termination
  by (relation "measure (\<lambda>(p, t). length p + length t)") (auto dest!: bracket_shorter)

declare fnmatch.simps(2) [simp del]

lemma fnmatch_plain:
  \<comment> \<open>a pattern without special characters matches itself only\<close>
  assumes "set p \<inter> {42, 63, 91} = {}"
  shows "fnmatch p t \<longleftrightarrow> t = p"
  using assms
proof (induction p arbitrary: t)
  case (Cons a p)
  then show ?case by (cases t) (auto simp: fnmatch.simps(2))
qed auto

lemma fnmatch_star: "fnmatch [42] t"
  by (induction t) (auto simp: fnmatch.simps(2))

subsection \<open>Decoding with replacement\<close>

definition second_ok :: "int \<Rightarrow> int \<Rightarrow> bool" where
  "second_ok b c \<longleftrightarrow> cont c \<and> (b = 224 \<longrightarrow> 160 \<le> c) \<and> (b = 237 \<longrightarrow> c < 160)
     \<and> (b = 240 \<longrightarrow> 144 \<le> c) \<and> (b = 244 \<longrightarrow> c < 144)"

fun decode_replace :: "int list \<Rightarrow> pytext" where
  \<comment> \<open>\<open>bytes.decode("utf-8", errors="replace")\<close>: one replacement character for each maximal part of
      a sequence that is not complete\<close>
  "decode_replace [] = []"
| "decode_replace (b # bs) =
    (if b < 128 then b # decode_replace bs
     else if 194 \<le> b \<and> b < 224 then
       (case bs of
          [] \<Rightarrow> [65533]
        | c1 # r1 \<Rightarrow> if cont c1 then ((b - 192) * 64 + (c1 - 128)) # decode_replace r1
                    else 65533 # decode_replace bs)
     else if 224 \<le> b \<and> b < 245 then
       (case bs of
          [] \<Rightarrow> [65533]
        | c1 # r1 \<Rightarrow>
            if \<not> second_ok b c1 then 65533 # decode_replace bs
            else (case r1 of
                [] \<Rightarrow> [65533]
              | c2 # r2 \<Rightarrow>
                  if \<not> cont c2 then 65533 # decode_replace r1
                  else if b < 240
                  then ((b - 224) * 4096 + (c1 - 128) * 64 + (c2 - 128)) # decode_replace r2
                  else (case r2 of
                      [] \<Rightarrow> [65533]
                    | c3 # r3 \<Rightarrow>
                        if \<not> cont c3 then 65533 # decode_replace r2
                        else ((b - 240) * 262144 + (c1 - 128) * 4096 + (c2 - 128) * 64 + (c3 - 128))
                             # decode_replace r3)))
     else 65533 # decode_replace bs)"

subsection \<open>Operations on a world\<close>

type_synonym ('w, 'a) act = "'w \<Rightarrow> 'w \<times> 'a result"

definition ret :: "'a \<Rightarrow> ('w, 'a) act" where
  "ret x w = (w, Inr x)"

definition raise :: "exn \<Rightarrow> ('w, 'a) act" where
  "raise e w = (w, Inl e)"

definition liftA :: "'a result \<Rightarrow> ('w, 'a) act" where
  "liftA r w = (w, r)"

definition bindA :: "('w, 'a) act \<Rightarrow> ('a \<Rightarrow> ('w, 'b) act) \<Rightarrow> ('w, 'b) act" where
  "bindA m f w = (case m w of (w', Inl e) \<Rightarrow> (w', Inl e) | (w', Inr x) \<Rightarrow> f x w')"

definition guardA :: "bool \<Rightarrow> exn \<Rightarrow> ('w, 'a) act \<Rightarrow> ('w, 'a) act" where
  "guardA b e k w = (if b then (w, Inl e) else k w)"

named_theorems act_simps \<open>case distinctions for world-changing operations\<close>

lemma bindA_eq [act_simps]:
  "bindA m f w = (w', r) \<longleftrightarrow>
     (\<exists>w1 x. m w = (w1, Inr x) \<and> f x w1 = (w', r)) \<or> (\<exists>e. m w = (w', Inl e) \<and> r = Inl e)"
proof (cases "m w")
  case (Pair w1 a)
  then show ?thesis by (cases a) (auto simp: bindA_def)
qed

lemma guardA_eq [act_simps]:
  "guardA b e k w = (w', r) \<longleftrightarrow> (b \<and> w' = w \<and> r = Inl e) \<or> (\<not> b \<and> k w = (w', r))"
  by (auto simp: guardA_def)

lemma liftA_eq [act_simps]: "liftA x w = (w', r) \<longleftrightarrow> w' = w \<and> r = x"
  by (auto simp: liftA_def)

lemma ret_eq [act_simps]: "ret x w = (w', r) \<longleftrightarrow> w' = w \<and> r = Inr x"
  by (auto simp: ret_def)

lemma raise_eq [act_simps]: "raise e w = (w', r) \<longleftrightarrow> w' = w \<and> r = Inl e"
  by (auto simp: raise_def)

text \<open>An operation that changed the world got past every step that leaves the world alone.\<close>

lemma bindA_progress:
  assumes "bindA m f w = (w', r)" "w' \<noteq> w" "fst (m w) = w"
  shows "\<exists>x. m w = (w, Inr x) \<and> f x w = (w', r)"
  using assms by (auto simp: bindA_eq)

lemma liftA_progress:
  assumes "bindA (liftA y) f w = (w', r)" "w' \<noteq> w"
  shows "\<exists>x. y = Inr x \<and> f x w = (w', r)"
  using bindA_progress [OF assms] by (auto simp: liftA_def)

lemma guardA_progress:
  assumes "guardA b e k w = (w', r)" "w' \<noteq> w"
  shows "\<not> b \<and> k w = (w', r)"
  using assms by (auto simp: guardA_eq)

definition seqA :: "('w, 'a) act \<Rightarrow> ('w, 'b) act \<Rightarrow> ('w, 'b) act" where
  "seqA m k = bindA m (\<lambda>_. k)"

definition finallyA :: "('w, 'a) act \<Rightarrow> ('w, 'b) act \<Rightarrow> ('w, 'a) act" where
  \<comment> \<open>\<open>try: m finally: k()\<close>: an error of \<open>k\<close> takes the place of the outcome of \<open>m\<close>\<close>
  "finallyA m k w = (case m w of (w', r) \<Rightarrow>
      (case k w' of (w'', Inl e) \<Rightarrow> (w'', Inl e) | (w'', Inr _) \<Rightarrow> (w'', r)))"

definition on_error :: "('w, 'a) act \<Rightarrow> ('w, 'b) act \<Rightarrow> ('w, 'a) act" where
  \<comment> \<open>\<open>try: m except Exception: k(); raise\<close>\<close>
  "on_error m k w = (case m w of
      (w', Inr x) \<Rightarrow> (w', Inr x)
    | (w', Inl e) \<Rightarrow> (case k w' of (w'', Inl e') \<Rightarrow> (w'', Inl e') | (w'', Inr _) \<Rightarrow> (w'', Inl e)))"

named_theorems keeps_intros \<open>operations that keep a predicate of the world\<close>

definition keeps :: "('w \<Rightarrow> bool) \<Rightarrow> ('w, 'a) act \<Rightarrow> bool" where
  "keeps P m \<longleftrightarrow> (\<forall>w. P w \<longrightarrow> P (fst (m w)))"

lemma keepsD: "keeps P m \<Longrightarrow> P w \<Longrightarrow> m w = (w', r) \<Longrightarrow> P w'"
  unfolding keeps_def by (metis fst_conv)

lemma keeps_ret [keeps_intros]: "keeps P (ret x)"
  by (simp add: keeps_def ret_def)

lemma keeps_raise [keeps_intros]: "keeps P (raise e)"
  by (simp add: keeps_def raise_def)

lemma keeps_liftA [keeps_intros]: "keeps P (liftA x)"
  by (simp add: keeps_def liftA_def)

lemma keeps_guardA [keeps_intros]: "keeps P k \<Longrightarrow> keeps P (guardA b e k)"
  by (auto simp: keeps_def guardA_def)

lemma keeps_bindA [keeps_intros]: "keeps P m \<Longrightarrow> (\<And>x. keeps P (f x)) \<Longrightarrow> keeps P (bindA m f)"
  by (fastforce simp: keeps_def bindA_def split: prod.splits sum.splits)

lemma keeps_seqA [keeps_intros]: "keeps P m \<Longrightarrow> keeps P k \<Longrightarrow> keeps P (seqA m k)"
  unfolding seqA_def by (intro keeps_intros)

lemma keeps_if [keeps_intros]: "keeps P m \<Longrightarrow> keeps P k \<Longrightarrow> keeps P (if b then m else k)"
  by simp

lemma keeps_finallyA [keeps_intros]: "keeps P m \<Longrightarrow> keeps P k \<Longrightarrow> keeps P (finallyA m k)"
  by (fastforce simp: keeps_def finallyA_def split: prod.splits sum.splits)

lemma keeps_on_error [keeps_intros]: "keeps P m \<Longrightarrow> keeps P k \<Longrightarrow> keeps P (on_error m k)"
  by (fastforce simp: keeps_def on_error_def split: prod.splits sum.splits)

end
