(* ===== verification/Code_Mode.thy ===== *)
theory Code_Mode
  imports Py_Value
begin

text \<open>
  Code mode: \<open>ptc_eval\<close> of \<open>sandbox_helper.py\<close> and the bridge \<open>CodeModeTools.run_code\<close> of
  \<open>loop_modes.py\<close>. The container cannot call a tool; it runs the program until it needs one, stops
  with a request, and is run again from the start with the results so far. The host executes the
  request and repeats. A program is the tree of what it does between tool calls: Python evaluates
  the checked source deterministically, so the tree depends on the source only.
\<close>

subsection \<open>Programs and the syntax check\<close>

datatype pnode =
    Plain string                       \<comment> \<open>a syntax node, by its type name\<close>
  | NameNode pytext                    \<comment> \<open>\<open>ast.Name\<close> with its identifier\<close>
  | CallNode "pytext option"           \<comment> \<open>\<open>ast.Call\<close>, with the function's identifier if it is a name\<close>

datatype prog =
    Finish json                        \<comment> \<open>ended, with the value of \<open>result\<close>\<close>
  | Fails exn
  | Calls json json "json \<Rightarrow> prog"      \<comment> \<open>\<open>call(name, arguments)\<close> and what follows its value\<close>

definition allowed_nodes :: "string list" where
  "allowed_nodes = [''Module'', ''Assign'', ''Expr'', ''For'', ''If'', ''Name'', ''Load'', ''Store'',
     ''Constant'', ''List'', ''Tuple'', ''Dict'', ''Subscript'', ''Slice'', ''Call'', ''keyword'', ''BinOp'',
     ''UnaryOp'', ''BoolOp'', ''Compare'', ''Add'', ''Sub'', ''Mult'', ''Div'', ''FloorDiv'', ''Mod'', ''USub'',
     ''Not'', ''And'', ''Or'', ''Eq'', ''NotEq'', ''Lt'', ''Gt'', ''LtE'', ''GtE'', ''In'', ''NotIn'', ''IfExp'']"

definition code_functions :: "pytext list" where
  "code_functions = map u [''call'', ''len'', ''range'', ''str'', ''int'', ''float'', ''sum'', ''min'', ''max'', ''sorted'']"

fun check_node :: "pnode \<Rightarrow> unit result" where
  "check_node (Plain k) = guardE (k \<notin> set allowed_nodes) (HelperError ''unsupported code construct'') (Inr ())"
| "check_node (NameNode i) = guardE (starts_with [95] i) (HelperError ''private identifiers are blocked'') (Inr ())"
| "check_node (CallNode f) =
     guardE (f \<notin> Some ` set code_functions)
       (HelperError ''only the documented code-mode functions can be called'') (Inr ())"

fun check_nodes :: "pnode list \<Rightarrow> unit result" where
  "check_nodes [] = Inr ()"
| "check_nodes (n # ns) = bindE (check_node n) (\<lambda>_. check_nodes ns)"

definition bounded_range :: "nat \<Rightarrow> nat result" where
  \<comment> \<open>\<open>range\<close> as the program sees it, by the number of its values\<close>
  "bounded_range n = guardE (1000 < n) (HelperError ''code loop exceeds iteration bound'') (Inr n)"

subsection \<open>One run with recorded results\<close>

datatype step_result = Value json | Raised exn | Suspended json json

primrec replay :: "prog \<Rightarrow> json list \<Rightarrow> step_result" where
  \<comment> \<open>the list is what is left of \<open>results\<close> after the cursor\<close>
  "replay (Finish v) = (\<lambda>h. Value v)"
| "replay (Fails e) = (\<lambda>h. Raised e)"
| "replay (Calls n a k) = (\<lambda>h.
     if as_text n = None \<or> \<not> is_obj a
     then Raised (HelperError ''call requires a tool name and argument object'')
     else (case h of
         [] \<Rightarrow> Suspended n a
       | p # rest \<Rightarrow>
           if \<not> py_eq (field ''name'' p) n \<or> \<not> py_eq (field ''arguments'' p) a
           then Raised (HelperError ''code replay changed an already executed call'')
           else replay (k (field ''value'' p)) rest))"

type_synonym parser = "pytext \<Rightarrow> (pnode list \<times> prog) result"

definition ptc_eval :: "parser \<Rightarrow> pytext \<Rightarrow> json list \<Rightarrow> step_result" where
  "ptc_eval parse src results =
     (if src = [] then Raised (HelperError ''must be a non-empty string'')
      else if 32768 < length src then Raised (HelperError ''code program exceeds size limit'')
      else (case parse src of
          Inl e \<Rightarrow> Raised e
        | Inr (nodes, p) \<Rightarrow>
            (case check_nodes nodes of Inl e \<Rightarrow> Raised e | Inr _ \<Rightarrow> replay p results)))"

subsection \<open>The bridge on the host\<close>

record execution =
  ex_results :: "json list"
  ex_status :: string
  ex_response :: json
  ex_pending :: json

record 'w host =
  \<comment> \<open>the document \<open>code-state.json\<close> and the world the tools change\<close>
  h_state :: "(string, execution) dict"
  h_world :: 'w

text \<open>
  A bridged tool: the guarded tool of that name, a function of the world and its arguments. It may
  raise; the bridge does not catch that, and the state stays as the last checkpoint left it.
\<close>

type_synonym 'w tools = "(pytext, 'w \<Rightarrow> json \<Rightarrow> 'w \<times> json result) dict"

definition loaded :: "(pytext \<Rightarrow> json option) \<Rightarrow> json \<Rightarrow> json" where
  \<comment> \<open>\<open>json.loads\<close> of a text value, the value itself when that fails\<close>
  "loaded loads v = (case v of JStr t \<Rightarrow> (case loads t of None \<Rightarrow> v | Some x \<Rightarrow> x) | _ \<Rightarrow> v)"

definition wants_approval :: "json \<Rightarrow> bool" where
  "wants_approval v \<longleftrightarrow> is_obj v \<and> truthy (field ''approval_required'' v)"

definition error_reply :: "pytext \<Rightarrow> json" where
  "error_reply t = JObj [(u ''ok'', JBool False), (u ''error'', JStr t)]"

definition checkpoint :: "string \<Rightarrow> json list \<Rightarrow> string \<Rightarrow> json \<Rightarrow> json \<Rightarrow> 'w host \<Rightarrow> 'w host" where
  "checkpoint i results status response pending h =
     h\<lparr>h_state := dput i \<lparr>ex_results = results, ex_status = status, ex_response = response,
        ex_pending = pending\<rparr> (h_state h)\<rparr>"

definition call_record :: "json \<Rightarrow> json \<Rightarrow> json \<Rightarrow> json" where
  "call_record n a v = JObj [(u ''name'', n), (u ''arguments'', a), (u ''value'', v)]"

definition pending_request :: "json \<Rightarrow> json \<Rightarrow> json" where
  "pending_request n a = JObj [(u ''name'', n), (u ''arguments'', a)]"

definition bridged :: "'w tools \<Rightarrow> json \<Rightarrow> ('w \<Rightarrow> json \<Rightarrow> 'w \<times> json result) option" where
  \<comment> \<open>\<open>self.functions.get(name)\<close>, the excluded names aside\<close>
  "bridged tools nm = (case as_text nm of None \<Rightarrow> None | Some t \<Rightarrow>
     if t \<in> {u ''run_code'', u ''shell_exec''} then None else dget tools t)"

fun drive :: "parser \<Rightarrow> (pytext \<Rightarrow> json option) \<Rightarrow> 'w tools \<Rightarrow> string \<Rightarrow> pytext \<Rightarrow> nat \<Rightarrow> json list \<Rightarrow> 'w host
    \<Rightarrow> 'w host \<times> json result" where
  \<comment> \<open>the loop over at most so many sub-calls\<close>
  "drive parse loads tools i src 0 results h = (h, Inr (error_reply (u ''code mode subcall limit reached'')))"
| "drive parse loads tools i src (Suc n) results h =
     (case ptc_eval parse src results of
        Raised e \<Rightarrow> (h, Inr (error_reply (u ''program failed'')))
      | Value v \<Rightarrow>
          (let reply = JObj [(u ''ok'', JBool True), (u ''result'', v), (u ''calls'', JInt (int (length results)))]
           in (checkpoint i results ''completed'' reply JNull h, Inr reply))
      | Suspended nm a \<Rightarrow>
          (case bridged tools nm of
             None \<Rightarrow> (h, Inr (error_reply (u ''unavailable bridged tool'')))
           | Some f \<Rightarrow>
               (let h = checkpoint i results ''running'' JNull (pending_request nm a) h
                in case f (h_world h) a of
                     (w, Inl e) \<Rightarrow> (h\<lparr>h_world := w\<rparr>, Inl e)
                   | (w, Inr v0) \<Rightarrow>
                       (let v = loaded loads v0; h = h\<lparr>h_world := w\<rparr>
                        in if wants_approval v
                           then (checkpoint i results ''awaiting_approval'' JNull (pending_request nm a) h, Inr v)
                           else (let results = results @ [call_record nm a v]
                                 in drive parse loads tools i src n results
                                      (checkpoint i results ''pending'' JNull JNull h))))))"

definition subcall_limit :: nat where
  "subcall_limit = 24"

definition run_code :: "(int list \<Rightarrow> string) \<Rightarrow> parser \<Rightarrow> (pytext \<Rightarrow> json option) \<Rightarrow> 'w tools \<Rightarrow> pytext \<Rightarrow> 'w host
    \<Rightarrow> 'w host \<times> json result" where
  "run_code sha parse loads tools src h =
     (let i = sha (utf8 src);
          execution = (case dget (h_state h) i of
              Some e \<Rightarrow> e
            | None \<Rightarrow> \<lparr>ex_results = [], ex_status = ''pending'', ex_response = JNull, ex_pending = JNull\<rparr>)
      in if ex_status execution = ''completed'' then (h, Inr (ex_response execution))
         else if ex_status execution = ''running''
         then (h, Inr (error_reply (u ''unfinished subcall may have side effects; inspect trace before retrying'')))
         else drive parse loads tools i src subcall_limit (ex_results execution)
                (h\<lparr>h_state := dput i execution (h_state h)\<rparr>))"

subsection \<open>Replaying is calling\<close>

text \<open>
  The reference: the program run in one go, each call answered by its tool at once. The bridge does
  the same although it runs the program again for every call.
\<close>

primrec direct :: "(pytext \<Rightarrow> json option) \<Rightarrow> 'w tools \<Rightarrow> prog \<Rightarrow> nat \<Rightarrow> nat \<Rightarrow> 'w \<Rightarrow> 'w \<times> json result" where
  "direct loads tools (Finish v) = (\<lambda>n c w. if n = 0 then (w, Inr (error_reply (u ''code mode subcall limit reached'')))
     else (w, Inr (JObj [(u ''ok'', JBool True), (u ''result'', v), (u ''calls'', JInt (int c))])))"
| "direct loads tools (Fails e) = (\<lambda>n c w. if n = 0 then (w, Inr (error_reply (u ''code mode subcall limit reached'')))
     else (w, Inr (error_reply (u ''program failed''))))"
| "direct loads tools (Calls nm a k) = (\<lambda>n c w.
     if n = 0 then (w, Inr (error_reply (u ''code mode subcall limit reached'')))
     else if as_text nm = None \<or> \<not> is_obj a then (w, Inr (error_reply (u ''program failed'')))
     else (case bridged tools nm of
         None \<Rightarrow> (w, Inr (error_reply (u ''unavailable bridged tool'')))
       | Some f \<Rightarrow>
           (case f w a of
              (w, Inl e) \<Rightarrow> (w, Inl e)
            | (w, Inr v0) \<Rightarrow>
                if wants_approval (loaded loads v0) then (w, Inr (loaded loads v0))
                else direct loads tools (k (loaded loads v0)) (n - 1) (Suc c) w)))"

text \<open>What is left of a program once the recorded results are consumed.\<close>

primrec after :: "prog \<Rightarrow> json list \<Rightarrow> prog option" where
  "after (Finish v) = (\<lambda>h. if h = [] then Some (Finish v) else None)"
| "after (Fails e) = (\<lambda>h. if h = [] then Some (Fails e) else None)"
| "after (Calls n a k) = (\<lambda>h. case h of
     [] \<Rightarrow> Some (Calls n a k)
   | p # rest \<Rightarrow>
       if as_text n \<noteq> None \<and> is_obj a \<and> py_eq (field ''name'' p) n \<and> py_eq (field ''arguments'' p) a
       then after (k (field ''value'' p)) rest else None)"

lemma after_Nil [simp]: "after p [] = Some p"
  by (cases p) simp_all

lemma field_call_record [simp]:
  "field ''name'' (call_record n a v) = n" "field ''arguments'' (call_record n a v) = a"
  "field ''value'' (call_record n a v) = v"
  by (simp_all add: field_def call_record_def)

lemma replay_after: "after p rs = Some q \<Longrightarrow> replay p rs = replay q []"
proof (induction p arbitrary: rs)
  case (Calls n a k)
  then show ?case by (cases rs) (auto split: if_splits)
qed (auto split: if_splits)

lemma after_call:
  assumes "after p rs = Some (Calls n a k)" "as_text n \<noteq> None" "is_obj a"
  shows "after p (rs @ [call_record n a v]) = Some (k v)"
  using assms
proof (induction p arbitrary: rs)
  case (Calls n' a' k')
  show ?case
  proof (cases rs)
    case Nil
    with Calls.prems show ?thesis by auto
  next
    case (Cons r rest)
    with Calls.prems have ok: "as_text n' \<noteq> None \<and> is_obj a' \<and> py_eq (field ''name'' r) n'
        \<and> py_eq (field ''arguments'' r) a'" and rest: "after (k' (field ''value'' r)) rest = Some (Calls n a k)"
      by (auto split: if_splits)
    from Calls.IH [OF _ rest assms(2,3)] ok Cons show ?thesis by simp
  qed
qed (auto split: if_splits)

definition runs_program :: "parser \<Rightarrow> pytext \<Rightarrow> prog \<Rightarrow> bool" where
  \<comment> \<open>the source passes the size and syntax checks and is that program\<close>
  "runs_program parse src p \<longleftrightarrow> src \<noteq> [] \<and> length src \<le> 32768 \<and>
     (case parse src of Inl _ \<Rightarrow> False | Inr (nodes, q) \<Rightarrow> check_nodes nodes = Inr () \<and> q = p)"

lemma ptc_eval_replay: "runs_program parse src p \<Longrightarrow> ptc_eval parse src rs = replay p rs"
  by (auto simp: runs_program_def ptc_eval_def split: sum.splits)

definition settled :: "'w host \<Rightarrow> string \<Rightarrow> json result \<Rightarrow> bool" where
  \<comment> \<open>what the checkpoint says of a run that has ended with a result\<close>
  "settled h i r \<longleftrightarrow> (case dget (h_state h) i of
       None \<Rightarrow> False
     | Some e \<Rightarrow> (case r of Inl _ \<Rightarrow> ex_status e = ''running''
                | Inr v \<Rightarrow> ex_status e \<noteq> ''running'' \<and> (ex_status e = ''completed'' \<longrightarrow> ex_response e = v)))"

lemma checkpoint_state [simp]:
  "dget (h_state (checkpoint i rs st rp pd h)) i
     = Some \<lparr>ex_results = rs, ex_status = st, ex_response = rp, ex_pending = pd\<rparr>"
  "h_world (checkpoint i rs st rp pd h) = h_world h"
  by (simp_all add: checkpoint_def update_conv')

definition open_run :: "'w host \<Rightarrow> string \<Rightarrow> bool" where
  "open_run h i \<longleftrightarrow> (case dget (h_state h) i of None \<Rightarrow> False
     | Some e \<Rightarrow> ex_status e \<noteq> ''running'' \<and> ex_status e \<noteq> ''completed'')"

lemma open_checkpoint [simp]: "open_run (checkpoint i rs ''pending'' rp pd h) i"
  by (simp add: open_run_def)

lemma open_settled: "open_run h i \<Longrightarrow> settled h i (Inr v)"
  by (auto simp: open_run_def settled_def split: option.splits)

lemma drive_direct:
  assumes "runs_program parse src p" "after p rs = Some q" "open_run h i"
  shows "\<exists>h'. drive parse loads tools i src n rs h = (h', snd (direct loads tools q n (length rs) (h_world h)))
     \<and> h_world h' = fst (direct loads tools q n (length rs) (h_world h))
     \<and> settled h' i (snd (direct loads tools q n (length rs) (h_world h)))"
  using assms(2,3)
proof (induction n arbitrary: rs q h)
  case 0
  then show ?case by (cases q) (simp_all add: open_settled)
next
  case (Suc n)
  have ev: "ptc_eval parse src rs = replay q []"
    using ptc_eval_replay [OF assms(1)] replay_after [OF Suc.prems(1)] by simp
  show ?case
  proof (cases q)
    case (Finish v)
    with ev show ?thesis by (simp add: settled_def Let_def)
  next
    case (Fails e)
    with ev Suc.prems(2) show ?thesis by (simp add: open_settled)
  next
    case (Calls nm a k)
    show ?thesis
    proof (cases "as_text nm = None \<or> \<not> is_obj a")
      case True
      with ev Calls Suc.prems(2) show ?thesis by (simp add: open_settled)
    next
      case False
      then have ok: "as_text nm \<noteq> None" "is_obj a" by auto
      have ev': "ptc_eval parse src rs = Suspended nm a" using ev Calls False by simp
      show ?thesis
      proof (cases "bridged tools nm")
        case None
        with ev' Calls False Suc.prems(2) show ?thesis by (auto simp: open_settled)
      next
        case (Some f)
        obtain w r0 where f: "f (h_world h) a = (w, r0)" by force
        show ?thesis
        proof (cases r0)
          case (Inl e)
          then show ?thesis using ev' Calls False Some f
            by (simp add: Let_def settled_def checkpoint_def update_conv')
        next
          case (Inr v0)
          define v where "v = loaded loads v0"
          define h1 where "h1 = (checkpoint i rs ''running'' JNull (pending_request nm a) h)\<lparr>h_world := w\<rparr>"
          show ?thesis
          proof (cases "wants_approval v")
            case True
            then show ?thesis using ev' Calls False Some f Inr unfolding v_def
              by (auto simp: Let_def settled_def)
          next
            case noappr: False
            define rs' where "rs' = rs @ [call_record nm a v]"
            have aft: "after p rs' = Some (k v)"
              using after_call [OF _ ok] Suc.prems(1) Calls rs'_def by simp
            have dr: "drive parse loads tools i src (Suc n) rs h
                = drive parse loads tools i src n rs' (checkpoint i rs' ''pending'' JNull JNull h1)"
              using ev' Some f Inr noappr unfolding v_def rs'_def h1_def
              by (simp add: Let_def)
            have di: "direct loads tools q (Suc n) (length rs) (h_world h)
                = direct loads tools (k v) n (length rs') w"
              using Calls False Some f Inr noappr unfolding v_def rs'_def by auto
            have "h_world (checkpoint i rs' ''pending'' JNull JNull h1) = w" by (simp add: h1_def)
            with Suc.IH [OF aft, of "checkpoint i rs' ''pending'' JNull JNull h1"] show ?thesis
              unfolding dr di by simp
          qed
        qed
      qed
    qed
  qed
qed

subsection \<open>Properties\<close>

lemma run_code_fresh:
  assumes "runs_program parse src p" and "dget (h_state h) (sha (utf8 src)) = None"
  shows "\<exists>h'. run_code sha parse loads tools src h = (h', snd (direct loads tools p subcall_limit 0 (h_world h)))
     \<and> h_world h' = fst (direct loads tools p subcall_limit 0 (h_world h))
     \<and> settled h' (sha (utf8 src)) (snd (direct loads tools p subcall_limit 0 (h_world h)))"
proof -
  define i where "i = sha (utf8 src)"
  define e where "e = \<lparr>ex_results = ([] :: json list), ex_status = ''pending'', ex_response = JNull, ex_pending = JNull\<rparr>"
  define h0 where "h0 = h\<lparr>h_state := dput i e (h_state h)\<rparr>"
  have "run_code sha parse loads tools src h = drive parse loads tools i src subcall_limit [] h0"
    using assms(2) by (simp add: run_code_def Let_def i_def h0_def e_def)
  moreover have "open_run h0 i" by (simp add: open_run_def h0_def e_def update_conv')
  moreover have "h_world h0 = h_world h" by (simp add: h0_def)
  ultimately show ?thesis
    using drive_direct [OF assms(1), of "[]" p h0 i loads tools subcall_limit] unfolding i_def by simp
qed


text \<open>An example program: two calls of a counting tool, then the last value.\<close>

definition two_calls :: prog where
  "two_calls = Calls (JStr (u ''count'')) (JObj []) (\<lambda>v. Calls (JStr (u ''count'')) (JObj []) Finish)"

definition count_tools :: "int tools" where
  "count_tools = [(u ''count'', \<lambda>w a. (w + 1, Inr (JInt (w + 1))))]"

definition demo_parse :: parser where
  "demo_parse src = Inr ([Plain ''Module'', NameNode (u ''call''), CallNode (Some (u ''call''))], two_calls)"

definition demo_host :: "int host" where
  "demo_host = \<lparr>h_state = [], h_world = 0\<rparr>"

lemma demo_runs: "runs_program demo_parse (u ''call'') two_calls"
  by (simp add: runs_program_def demo_parse_def allowed_nodes_def code_functions_def starts_with_def bind_simps)


text \<open>
  A code run is not repeated. If a tool raised, the state stays \<open>running\<close> and a second request
  for the same source, with whatever tools, is refused and changes nothing; if the run completed, the
  second request returns the recorded reply and changes nothing.
\<close>

theorem code_run_is_not_repeated:
  assumes "runs_program parse src p" and "dget (h_state h) (sha (utf8 src)) = None"
    and "run_code sha parse loads tools src h = (h1, r)"
  shows "(\<forall>e. r = Inl e \<longrightarrow> run_code sha parse' loads' tools' src h1
        = (h1, Inr (error_reply (u ''unfinished subcall may have side effects; inspect trace before retrying''))))
    \<and> (\<forall>x. dget (h_state h1) (sha (utf8 src)) = Some x \<and> ex_status x = ''completed'' \<longrightarrow>
        run_code sha parse' loads' tools' src h1 = (h1, r))"
proof -
  have "settled h1 (sha (utf8 src)) r"
    using run_code_fresh [of parse src p h sha loads tools, OF assms(1,2)] assms(3) by auto
  then obtain e where e: "dget (h_state h1) (sha (utf8 src)) = Some e"
    "case r of Inl _ \<Rightarrow> ex_status e = ''running''
       | Inr v \<Rightarrow> ex_status e \<noteq> ''running'' \<and> (ex_status e = ''completed'' \<longrightarrow> ex_response e = v)"
    by (auto simp: settled_def split: option.splits)
  then show ?thesis by (cases r) (auto simp: run_code_def Let_def)
qed

theorem code_run_is_not_repeated_witness:
  "\<exists>h1 r. run_code (\<lambda>b. ''id'') demo_parse (\<lambda>t. None) count_tools (u ''call'') demo_host = (h1, r)
     \<and> run_code (\<lambda>b. ''id'') demo_parse (\<lambda>t. None) [] (u ''call'') h1 = (h1, r)"
proof -
  obtain h1 r where run: "run_code (\<lambda>b. ''id'') demo_parse (\<lambda>t. None) count_tools (u ''call'') demo_host = (h1, r)"
    by force
  have "\<exists>x. dget (h_state (fst (run_code (\<lambda>b. ''id'') demo_parse (\<lambda>t. None) count_tools (u ''call'') demo_host))) ''id''
      = Some x \<and> ex_status x = ''completed''"
  proof -
    have "map_option ex_status (dget (h_state (fst (run_code (\<lambda>b. ''id'') demo_parse (\<lambda>t. None) count_tools
        (u ''call'') demo_host))) ''id'') = Some ''completed''" by code_simp
    then show ?thesis by auto
  qed
  with run code_run_is_not_repeated [OF demo_runs _ run, of demo_parse "\<lambda>t. None" "[]"]
  show ?thesis by (auto simp: demo_host_def)
qed

end
