(* ===== verification/Workspace_Fs.thy ===== *)
theory Workspace_Fs
  imports Path_Guard Py_Value
begin

text \<open>
  What the sandbox helper sees of its container: a tree of files under \<open>/workspace\<close>, the resolution
  of links, and processes to start. The operating system, git and the programs it starts are the
  fields of the record \<open>os\<close>, functions of an abstract world. On top of it stand the path checks
  of \<open>sandbox_helper.py\<close>, its shell-pattern protection, the walk over a directory and the capping
  of output.
\<close>

subsection \<open>The container\<close>

datatype fnode =
    FFile "int list"               \<comment> \<open>a regular file, its bytes\<close>
  | FDir "(pytext \<times> fnode) list"   \<comment> \<open>a directory in the order the system lists it\<close>
  | FLink bool                     \<comment> \<open>a symbolic link, to a directory when the flag is set\<close>

record completed =
  c_code :: int
  c_out :: pytext
  c_err :: pytext
  c_ms :: pytext

datatype outcome =
    Finished completed
  | Expired completed  \<comment> \<open>killed at its time limit, with the output so far\<close>

record pty =
  \<comment> \<open>the directory of a terminal: its output file, its exit file, whether its runner lives\<close>
  tm_bytes :: "int list option"
  tm_exit :: "int option"
  tm_runner :: "bool option"

record 'w os =
  real_path :: "'w \<Rightarrow> pytext list \<Rightarrow> pytext list"
  node_at :: "'w \<Rightarrow> pytext list \<Rightarrow> fnode option"
  spawn :: "'w \<Rightarrow> pytext list \<Rightarrow> pytext \<Rightarrow> int \<Rightarrow> 'w \<times> outcome result"
  make_script :: "'w \<Rightarrow> pytext \<Rightarrow> pytext \<Rightarrow> 'w \<times> pytext"
  drop_script :: "'w \<Rightarrow> pytext \<Rightarrow> 'w"
  own_pids :: "'w \<Rightarrow> int \<times> int"
  processes :: "'w \<Rightarrow> (pytext \<times> int list option) list"
  kill_process :: "'w \<Rightarrow> int \<Rightarrow> 'w \<times> bool"
  terminal :: "'w \<Rightarrow> pytext \<Rightarrow> pty option"
  launch_terminal :: "'w \<Rightarrow> pytext \<Rightarrow> pytext list \<Rightarrow> 'w"
  feed_terminal :: "'w \<Rightarrow> pytext \<Rightarrow> int list \<Rightarrow> 'w result"
  signal_terminal :: "'w \<Rightarrow> pytext \<Rightarrow> 'w"

definition WORKSPACE :: "pytext list" where
  "WORKSPACE = [u ''workspace'']"

lemma WORKSPACE_safe: "list_all safe_component WORKSPACE"
  by (simp add: WORKSPACE_def safe_component_def dotdot_def slash_def)

subsection \<open>Path checks\<close>

definition validate_relative_path :: "pytext \<Rightarrow> unit result" where
  "validate_relative_path v =
     guardE (is_absolute v \<or> dotdot \<in> set (path_parts v) \<or> dotgit \<in> set (path_parts v))
       (HelperError ''unsafe workspace path'') (Inr ())"

definition candidate_path :: "pytext \<Rightarrow> pytext list result" where
  \<comment> \<open>\<open>WORKSPACE / relative\<close> for a path that was checked\<close>
  "candidate_path relative = bindE (validate_relative_path relative) (\<lambda>_. Inr (WORKSPACE @ path_parts relative))"

definition below :: "pytext list \<Rightarrow> pytext list \<Rightarrow> bool" where
  \<comment> \<open>\<open>p.relative_to(base)\<close> does not raise\<close>
  "below base p \<longleftrightarrow> take (length base) p = base"

definition safe_path :: "'w os \<Rightarrow> 'w \<Rightarrow> pytext \<Rightarrow> bool \<Rightarrow> pytext list result" where
  "safe_path os w relative must_exist =
     bindE (candidate_path relative) (\<lambda>candidate.
       guardE (must_exist \<and> node_at os w candidate = None) (HelperError ''path does not exist'')
         (let resolved = real_path os w candidate
          in guardE (\<not> below (real_path os w WORKSPACE) resolved) (HelperError ''path escapes workspace'')
               (Inr resolved)))"

lemma validate_relative_path_Inr:
  "validate_relative_path v = Inr x \<longleftrightarrow>
     \<not> is_absolute v \<and> dotdot \<notin> set (path_parts v) \<and> dotgit \<notin> set (path_parts v)"
  by (cases x) (auto simp: validate_relative_path_def bind_simps)

interpretation helper_path: path_guard "\<lambda>_. WORKSPACE" candidate_path
proof
  fix x p
  assume "candidate_path x = Inr p"
  then have "p = WORKSPACE @ path_parts x" "dotdot \<notin> set (path_parts x)"
    by (auto simp: candidate_path_def bind_simps validate_relative_path_Inr)
  then show "\<exists>ws. p = WORKSPACE @ ws \<and> list_all safe_component ws"
    using path_parts_safe by blast
  show "list_all safe_component WORKSPACE" by (rule WORKSPACE_safe)
qed

lemma safe_path_Inr:
  "safe_path os w relative me = Inr p \<Longrightarrow>
     (\<exists>c. candidate_path relative = Inr c \<and> p = real_path os w c) \<and> below (real_path os w WORKSPACE) p"
  by (auto simp: safe_path_def Let_def bind_simps)

subsection \<open>Protected names\<close>

definition is_protected :: "pytext \<Rightarrow> pytext list \<Rightarrow> bool" where
  "is_protected relative patterns =
     (let path = as_posix relative
      in list_ex (\<lambda>p. fnmatch p path \<or> fnmatch (remove_suffix (u ''/**'') p) path) patterns)"

definition patterns_of :: "string \<Rightarrow> json \<Rightarrow> pytext list" where
  \<comment> \<open>\<open>[str(item) for item in policy.get(name) or []]\<close>\<close>
  "patterns_of name policy = map py_str (items (field name policy))"

definition protected_name :: "pytext list \<Rightarrow> pytext list \<Rightarrow> bool" where
  \<comment> \<open>\<open>is_protected\<close> of the posix text of components below the workspace\<close>
  "protected_name patterns ws = is_protected (join [slash] ws) patterns"

subsection \<open>Walking a directory\<close>

lemma size_kid [termination_simp]:
  "kv \<in> set kids \<Longrightarrow> size (snd kv) < Suc (size_list (size_prod (\<lambda>_. 0) size) kids)"
proof (induction kids)
  case (Cons p kids)
  then show ?case by (cases p) auto
qed simp

fun is_directory :: "fnode \<Rightarrow> bool" where
  "is_directory (FDir _) = True"
| "is_directory (FLink d) = d"
| "is_directory (FFile _) = False"

fun walk :: "pytext list \<Rightarrow> pytext list \<Rightarrow> fnode \<Rightarrow> pytext list list" where
  \<comment> \<open>\<open>os.walk\<close> without following links, the protected directories and \<open>.git\<close> pruned, the
      protected files left out; paths are components below the workspace\<close>
  "walk patterns base (FDir kids) =
     filter (\<lambda>p. \<not> protected_name patterns p)
       (map (\<lambda>n. base @ [n]) (sort (map fst (filter (\<lambda>kv. \<not> is_directory (snd kv)) kids))))
     @ concat (map (\<lambda>kv. walk patterns (base @ [fst kv]) (snd kv))
         (sort_key fst (filter (\<lambda>kv. is_directory (snd kv) \<and> fst kv \<noteq> dotgit
                                     \<and> \<not> protected_name patterns (base @ [fst kv])) kids)))"
| "walk patterns base node = []"

fun take_until :: "int \<Rightarrow> 'a list \<Rightarrow> 'a list \<Rightarrow> 'a list \<times> bool" where
  \<comment> \<open>\<open>values.append(x); if len(values) >= limit: return values, True\<close>\<close>
  "take_until limit vs [] = (vs, False)"
| "take_until limit vs (x # xs) =
     (let vs = vs @ [x]
      in if limit \<le> int (length vs) then (vs, True) else take_until limit vs xs)"

lemma take_until_bounds:
  "take_until limit vs xs = (ys, tr) \<Longrightarrow> int (length vs) < max 1 limit \<Longrightarrow>
     int (length ys) \<le> max 1 limit \<and> prefix vs ys \<and> set ys \<subseteq> set vs \<union> set xs
     \<and> (\<not> tr \<longrightarrow> ys = vs @ xs)"
proof (induction xs arbitrary: vs)
  case (Cons x xs)
  show ?case
  proof (cases "limit \<le> int (length (vs @ [x]))")
    case True
    with Cons.prems show ?thesis by auto
  next
    case False
    then have "take_until limit (vs @ [x]) xs = (ys, tr)" using Cons.prems by simp
    from Cons.IH [OF this] False show ?thesis by (auto simp: prefix_def)
  qed
qed simp

lemma walk_unprotected: "p \<in> set (walk patterns base node) \<Longrightarrow> \<not> protected_name patterns p"
proof (induction patterns base node rule: walk.induct)
  case (1 patterns base kids)
  then show ?case by (simp only: walk.simps set_append set_concat set_map set_filter set_sort) blast
qed simp_all

lemma walk_below: "p \<in> set (walk patterns base node) \<Longrightarrow> prefix base p"
proof (induction patterns base node rule: walk.induct)
  case (1 patterns base kids)
  show ?case
  proof (cases "\<exists>n. p = base @ [n]")
    case False
    then obtain kv where kv: "kv \<in> set kids" "is_directory (snd kv)" "fst kv \<noteq> dotgit"
      "\<not> protected_name patterns (base @ [fst kv])" "p \<in> set (walk patterns (base @ [fst kv]) (snd kv))"
      using "1.prems" by auto
    then have "prefix (base @ [fst kv]) p" using "1.IH" [of kv] by auto
    then show ?thesis by (simp add: append_prefixD)
  qed auto
qed simp_all

subsection \<open>Capped output and numbered lines\<close>

definition byte_prefix :: "int \<Rightarrow> int list \<Rightarrow> int list" where
  \<comment> \<open>\<open>encoded[:n]\<close>\<close>
  "byte_prefix n bs = (if 0 \<le> n then take (nat n) bs else take (length bs - nat (- n)) bs)"

definition cap_text :: "int \<Rightarrow> pytext \<Rightarrow> pytext" where
  "cap_text maximum v =
     (let encoded = utf8 v
      in if int (length encoded) \<le> maximum then v
         else decode_ignore (byte_prefix maximum encoded) @ [10] @ u ''...[truncated ''
              @ int_repr (int (length encoded) - maximum) @ u '' bytes]'')"

definition cap :: "pytext \<Rightarrow> json \<Rightarrow> bool \<Rightarrow> pytext result" where
  "cap v policy allow_full =
     (if allow_full then Inr v
      else bindE (int_or (field ''max_output_bytes'' policy) 32768) (\<lambda>maximum. Inr (cap_text maximum v)))"

lemma cap_text_split:
  assumes "list_all valid_cp v" and "0 \<le> maximum" and "maximum < int (length (utf8 v))"
  shows "\<exists>k. cap_text maximum v = take k v @ [10] @ u ''...[truncated ''
      @ int_repr (int (length (utf8 v)) - maximum) @ u '' bytes]''
    \<and> int (length (utf8 (take k v))) \<le> maximum"
proof -
  obtain k where k: "decode_ignore (take (nat maximum) (utf8 v)) = take k v"
    "length (utf8 (take k v)) \<le> nat maximum"
    using decode_take_utf8 [OF assms(1)] by blast
  have "cap_text maximum v = take k v @ [10] @ u ''...[truncated ''
      @ int_repr (int (length (utf8 v)) - maximum) @ u '' bytes]''"
    using assms(2,3) k(1) by (simp only: cap_text_def byte_prefix_def Let_def not_le [symmetric] if_False if_True)
  with k(2) assms(2) show ?thesis by (intro exI [of _ k]) simp
qed

definition number_lines :: "int \<Rightarrow> pytext list \<Rightarrow> pytext" where
  \<comment> \<open>\<open>"\n".join(f"{index}: {line}" for index, line in enumerate(lines, start=start))\<close>\<close>
  "number_lines start ls =
     join [10] (map (\<lambda>p. int_repr (fst p) @ u '': '' @ snd p) (zip (map (\<lambda>i. start + int i) [0..<length ls]) ls))"

definition line_slice :: "int \<Rightarrow> int \<Rightarrow> pytext list \<Rightarrow> pytext list" where
  \<comment> \<open>\<open>lines[start - 1 : end if end > 0 else None]\<close>, with \<open>start >= 1\<close>\<close>
  "line_slice start stop ls = drop (nat (start - 1)) (if 0 < stop then take (nat stop) ls else ls)"

definition flag :: "string \<Rightarrow> bool \<Rightarrow> json \<Rightarrow> bool" where
  \<comment> \<open>\<open>bool(params.get(name, default))\<close>\<close>
  "flag name d v = (case dget (entries v) (u name) of None \<Rightarrow> d | Some x \<Rightarrow> truthy x)"

definition require_string :: "json \<Rightarrow> string \<Rightarrow> pytext result" where
  "require_string params name =
     (case as_text (field name params) of
        None \<Rightarrow> Inl (HelperError ''must be a non-empty string'')
      | Some t \<Rightarrow> guardE (t = []) (HelperError ''must be a non-empty string'') (Inr t))"

lemma require_string_Inr: "require_string params name = Inr t \<longleftrightarrow> field name params = JStr t \<and> t \<noteq> []"
  by (cases "field name params") (auto simp: require_string_def bind_simps)

end
