(* ===== verification/Shlex.thy ===== *)
theory Shlex
  imports Py_Value
begin

text \<open>
  \<open>shlex.split\<close> of the Python standard library in POSIX mode: words are separated by blanks, quotes group,
  a backslash escapes outside quotes, and inside double quotes only a quote or a backslash.
\<close>

subsection \<open>The lexer\<close>

datatype lex = Blank | Word | Quoted int | Escaped lex

fun lex_step :: "lex \<Rightarrow> bool \<times> pytext \<Rightarrow> int \<Rightarrow> (pytext list \<times> lex \<times> bool \<times> pytext)" where
  \<comment> \<open>the finished words, the new state, whether the word has a quoted part, the word so far\<close>
  "lex_step Blank (q, w) c =
     (if c \<in> {32, 9, 13, 10} then ([], Blank, q, w)
      else if c = 92 then ([], Escaped Word, q, w)
      else if c \<in> {39, 34} then ([], Quoted c, q, w)
      else ([], Word, q, [c]))"
| "lex_step Word (q, w) c =
     (if c \<in> {32, 9, 13, 10} then (if w \<noteq> [] \<or> q then ([w], Blank, False, []) else ([], Blank, q, w))
      else if c \<in> {39, 34} then ([], Quoted c, q, w)
      else if c = 92 then ([], Escaped Word, q, w)
      else ([], Word, q, w @ [c]))"
| "lex_step (Quoted k) (q, w) c =
     (if c = k then ([], Word, True, w)
      else if c = 92 \<and> k = 34 then ([], Escaped (Quoted k), True, w)
      else ([], Quoted k, True, w @ [c]))"
| "lex_step (Escaped st) (q, w) c =
     (case st of Quoted k \<Rightarrow> ([], st, q, (if c \<noteq> 92 \<and> c \<noteq> k then w @ [92, c] else w @ [c]))
      | _ \<Rightarrow> ([], st, q, w @ [c]))"

fun lex_run :: "lex \<Rightarrow> bool \<times> pytext \<Rightarrow> pytext \<Rightarrow> pytext list result" where
  "lex_run st (q, w) [] = (case st of
      Quoted _ \<Rightarrow> Inl (ValueError ''No closing quotation'')
    | Escaped _ \<Rightarrow> Inl (ValueError ''No escaped character'')
    | _ \<Rightarrow> Inr (if w \<noteq> [] \<or> q then [w] else []))"
| "lex_run st (q, w) (c # t) =
     (let (done, st', q', w') = lex_step st (q, w) c in bindE (lex_run st' (q', w') t) (\<lambda>ws. Inr (done @ ws)))"

definition shlex_split :: "pytext \<Rightarrow> pytext list result" where
  "shlex_split t = lex_run Blank (False, []) t"

subsection \<open>Plain words\<close>

text \<open>Words without quotes, escapes and blanks are read back from a line that separates them by blanks.\<close>

definition plain_word :: "pytext \<Rightarrow> bool" where
  "plain_word w \<longleftrightarrow> w \<noteq> [] \<and> list_all (\<lambda>c. c \<notin> {32, 9, 13, 10, 92, 39, 34}) w"

lemma bindE_Inr_id [simp]: "bindE m Inr = m"
  by (simp add: bindE_def split: sum.splits)

lemma lex_plain: "list_all (\<lambda>c. c \<notin> {32, 9, 13, 10, 92, 39, 34}) w \<Longrightarrow> lex_run Word (False, v) (w @ t) = lex_run Word (False, v @ w) t"
  by (induction w arbitrary: v) auto

lemma shlex_plain: "list_all plain_word ws \<Longrightarrow> shlex_split (join [32] ws) = Inr ws"
proof (induction ws)
  case (Cons w ws)
  obtain c cs where w: "w = c # cs" "c \<notin> {32, 9, 13, 10, 92, 39, 34}" "list_all (\<lambda>c. c \<notin> {32, 9, 13, 10, 92, 39, 34}) cs"
    using Cons.prems by (cases w) (auto simp: plain_word_def)
  have *: "shlex_split (w @ t) = lex_run Word (False, w) t" for t
    using w lex_plain [OF w(3), of "[c]" t] by (auto simp: shlex_split_def)
  show ?case
  proof (cases ws)
    case Nil
    then show ?thesis using * [of "[]"] w by simp
  next
    case (Cons x xs)
    then have "join [32] (w # ws) = w @ 32 # join [32] ws" by simp
    then show ?thesis using * [of "32 # join [32] ws"] Cons.IH Cons.prems w by (simp add: shlex_split_def)
  qed
qed (simp add: shlex_split_def)

end
