(* ===== verification/Sandbox_Helper.thy ===== *)
theory Sandbox_Helper
  imports Workspace_Fs Code_Mode Py_Regex Shlex
begin

text \<open>
  \<open>sandbox_helper.py\<close>, the program inside the task container: it receives an action with parameters
  and the host's policy, checks them, works on the files of the workspace or starts a process, and
  answers with an object. The checks are exact; git, ripgrep, pip and the scripts are processes the
  world runs. Messages with interpolated values are represented by their fixed part.
\<close>

subsection \<open>Processes\<close>

definition run_command_raw :: "'w os \<Rightarrow> pytext list \<Rightarrow> int \<Rightarrow> ('w, completed) act" where
  \<comment> \<open>as called without a handler: an expired process raises\<close>
  "run_command_raw os argv timeout w =
     (case spawn os w argv [] timeout of
        (w', Inl e) \<Rightarrow> (w', Inl e)
      | (w', Inr (Expired _)) \<Rightarrow> (w', Inl TimeoutExpired)
      | (w', Inr (Finished c)) \<Rightarrow> (w', Inr c))"

definition run_timed :: "'w os \<Rightarrow> pytext list \<Rightarrow> int \<Rightarrow> ('w, completed \<times> bool) act" where
  \<comment> \<open>with the handler of the command actions: exit code 124 and what was printed\<close>
  "run_timed os argv timeout w =
     (case spawn os w argv [] timeout of
        (w', Inl e) \<Rightarrow> (w', Inl e)
      | (w', Inr (Expired c)) \<Rightarrow> (w', Inr (c\<lparr>c_code := 124\<rparr>, True))
      | (w', Inr (Finished c)) \<Rightarrow> (w', Inr (c, False)))"

definition combined :: "completed \<Rightarrow> pytext" where
  "combined c = c_out c @ (if c_err c = [] then [] else 10 # c_err c)"

definition error_text :: "completed \<Rightarrow> string \<Rightarrow> exn" where
  \<comment> \<open>\<open>HelperError(result.stderr.strip() or default)\<close>\<close>
  "error_text c d = (if strip (c_err c) = [] then HelperError d else HelperOutput (strip (c_err c)))"

definition report :: "json \<Rightarrow> completed \<Rightarrow> bool \<Rightarrow> (pytext \<times> json) list \<Rightarrow> json result" where
  "report policy c late kvs =
     bindE (cap (combined c) policy False) (\<lambda>out.
       Inr (JObj (kvs @ [(u ''exit_code'', JInt (c_code c)), (u ''timed_out'', JBool late),
         (u ''duration_ms'', JFloat (c_ms c)), (u ''output'', JStr out), (u ''full_output'', JStr (combined c))])))"

definition git :: "string list \<Rightarrow> pytext list" where
  "git args = map u ([''git'', ''-c'', ''safe.directory=/workspace''] @ args)"

subsection \<open>Reading\<close>

definition list_below :: "'w os \<Rightarrow> json \<Rightarrow> 'w \<Rightarrow> int \<Rightarrow> pytext list \<Rightarrow> json result" where
  "list_below os policy w limit dir =
     (case node_at os w dir of
        Some (FDir kids) \<Rightarrow>
          (let (paths, truncated) = take_until limit []
                 (walk (patterns_of ''sensitive_read_patterns'' policy) (drop (length WORKSPACE) dir) (FDir kids))
           in Inr (JObj [(u ''files'', JList (map (\<lambda>p. JStr (join [slash] p)) paths)),
                (u ''truncated'', JBool truncated)]))
      | _ \<Rightarrow> Inl (HelperError ''list_files path must be a directory''))"

definition list_files :: "'w os \<Rightarrow> json \<Rightarrow> json \<Rightarrow> 'w \<Rightarrow> json result" where
  "list_files os params policy w =
     bindE (int_or (field ''limit'' params) 500) (\<lambda>n.
       bindE (safe_path os w (str_or (field ''path'' params) ''.'') True) (list_below os policy w (min n 2000)))"

definition read_file :: "'w os \<Rightarrow> json \<Rightarrow> json \<Rightarrow> 'w \<Rightarrow> json result" where
  "read_file os params policy w =
     bindE (require_string params ''path'') (\<lambda>relative.
       guardE (is_protected relative (patterns_of ''sensitive_read_patterns'' policy))
         (HelperError ''sensitive file cannot be read'')
         (bindE (safe_path os w relative True) (\<lambda>path.
           case node_at os w path of
             Some (FFile payload) \<Rightarrow>
               bindE (int_or (field ''max_read_bytes'' policy) 524288) (\<lambda>maximum.
                 guardE (maximum < int (length payload)) (HelperError ''file is too large'')
                   (guardE (0 \<in> set payload) (HelperError ''binary files cannot be read'')
                     (bindE (int_or (field ''start_line'' params) 1) (\<lambda>first.
                       bindE (int_or (field ''end_line'' params) 0) (\<lambda>stop.
                         let ls = splitlines (decode_replace payload); start = max first 1
                         in bindE (cap (number_lines start (line_slice start stop ls)) policy False) (\<lambda>content.
                              Inr (JObj [(u ''path'', JStr relative), (u ''content'', JStr content),
                                (u ''size'', JInt (int (length payload))), (u ''line_count'', JInt (int (length ls)))])))))))
           | _ \<Rightarrow> Inl (HelperError ''read_file path must be a regular file''))))"

definition search_command :: "json \<Rightarrow> pytext \<Rightarrow> pytext \<Rightarrow> pytext list \<Rightarrow> pytext list" where
  "search_command params pattern relative sensitive =
     map u [''rg'', ''--line-number'', ''--no-heading'', ''--color'', ''never'', ''--glob'', ''!.git/**'']
     @ concat (map (\<lambda>p. [u ''--glob'', 33 # p]) sensitive)
     @ (if flag ''fixed_strings'' True params then [u ''--fixed-strings''] else [])
     @ (if flag ''case_sensitive'' False params then [] else [u ''--ignore-case''])
     @ [u ''--'', pattern, relative]"

definition search_text :: "'w os \<Rightarrow> json \<Rightarrow> json \<Rightarrow> ('w, json) act" where
  "search_text os params policy w =
     (let relative = str_or (field ''path'' params) ''.''; sensitive = patterns_of ''sensitive_read_patterns'' policy
      in bindA (liftA (require_string params ''pattern'')) (\<lambda>pattern.
           bindA (liftA (safe_path os w relative True)) (\<lambda>_.
             guardA (is_protected relative sensitive) (HelperError ''sensitive path cannot be searched'')
               (bindA (run_command_raw os (search_command params pattern relative sensitive) 30) (\<lambda>r.
                  guardA (c_code r \<notin> {0, 1}) (error_text r ''ripgrep failed'')
                    (bindA (liftA (cap (c_out r) policy False)) (\<lambda>out.
                       ret (JObj [(u ''matches'', JStr out), (u ''found'', JBool (c_code r = 0))]))))))) w)"

subsection \<open>Patches\<close>

definition rsplit_space :: "pytext \<Rightarrow> pytext" where
  \<comment> \<open>\<open>line.rsplit(" ", 1)[-1]\<close>\<close>
  "rsplit_space line = last (split_on 32 line)"

definition patch_line :: "pytext \<Rightarrow> pytext list \<times> bool \<Rightarrow> (pytext list \<times> bool) result" where
  "patch_line line st =
     (let (paths, deletes) = st in
      if starts_with (u ''diff --git '') line then
        (case shlex_split line of
           Inl _ \<Rightarrow> Inl (HelperError ''invalid diff header'')
         | Inr parts \<Rightarrow>
             guardE (length parts < 4 \<or> \<not> starts_with (u ''a/'') (parts ! 2) \<or> \<not> starts_with (u ''b/'') (parts ! 3))
               (HelperError ''unsupported diff header'')
               (Inr (List.insert (drop 2 (parts ! 3)) (List.insert (drop 2 (parts ! 2)) paths), deletes)))
      else if line = u ''+++ /dev/null'' \<or> starts_with (u ''deleted file mode '') line
              \<or> starts_with (u ''rename from '') line \<or> starts_with (u ''rename to '') line
      then Inr (paths, True)
      else if starts_with (u ''new file mode '') line \<or> starts_with (u ''new mode '') line
      then guardE (rsplit_space line \<notin> {u ''100644'', u ''100755''}) (HelperError ''special file mode is blocked'')
             (Inr (paths, deletes))
      else Inr (paths, deletes))"

fun scan_patch :: "pytext list \<Rightarrow> pytext list \<times> bool \<Rightarrow> (pytext list \<times> bool) result" where
  "scan_patch [] st = Inr st"
| "scan_patch (l # ls) st = bindE (patch_line l st) (scan_patch ls)"

definition extract_patch_paths :: "pytext \<Rightarrow> (pytext list \<times> bool) result" where
  "extract_patch_paths patch = scan_patch (splitlines patch) ([], False)"

definition run_git_apply :: "'w os \<Rightarrow> pytext \<Rightarrow> bool \<Rightarrow> ('w, completed) act" where
  "run_git_apply os patch check w =
     (case spawn os w (git ([''apply'', ''--binary'', ''--whitespace=nowarn'']
             @ (if check then [''--check''] else []) @ [''-''])) patch 60 of
        (w', Inl e) \<Rightarrow> (w', Inl e)
      | (w', Inr (Expired _)) \<Rightarrow> (w', Inl TimeoutExpired)
      | (w', Inr (Finished c)) \<Rightarrow> (w', Inr c))"

definition git_status :: "'w os \<Rightarrow> json \<Rightarrow> ('w, json) act" where
  "git_status os policy =
     bindA (run_command_raw os (git [''status'', ''--short'']) 30) (\<lambda>r.
       guardA (c_code r \<noteq> 0) (error_text r ''git status failed'')
         (bindA (liftA (cap (c_out r) policy False)) (\<lambda>out. ret (JObj [(u ''status'', JStr out)]))))"

definition porcelain_paths :: "pytext \<Rightarrow> pytext list" where
  \<comment> \<open>the entries of \<open>git status --porcelain=v1 -z\<close>\<close>
  "porcelain_paths out =
     remdups (map (drop 3) (filter (\<lambda>e. 4 \<le> length e \<and> e ! 2 = 32) (split_on 0 out)))"

definition current_changed_paths :: "'w os \<Rightarrow> ('w, pytext list) act" where
  "current_changed_paths os =
     bindA (run_command_raw os (git [''status'', ''--porcelain=v1'', ''-z'']) 30) (\<lambda>r.
       guardA (c_code r \<noteq> 0) (error_text r ''git status failed'') (ret (porcelain_paths (c_out r))))"

definition check_patched :: "'w os \<Rightarrow> 'w \<Rightarrow> pytext list \<Rightarrow> pytext \<Rightarrow> unit result" where
  \<comment> \<open>the body of the loop over the paths\<close>
  "check_patched os w protected relative =
     bindE (candidate_path relative) (\<lambda>candidate.
       guardE (is_protected relative protected) (HelperError ''protected path cannot be modified'')
         (bindE (if node_at os w candidate \<noteq> None then safe_path os w relative True
                 else safe_path os w (case butlast (path_parts relative) of [] \<Rightarrow> u ''.'' | ds \<Rightarrow> join [slash] ds) True)
            (\<lambda>_. Inr ())))"

fun check_all :: "('a \<Rightarrow> unit result) \<Rightarrow> 'a list \<Rightarrow> unit result" where
  "check_all f [] = Inr ()"
| "check_all f (x # xs) = bindE (f x) (\<lambda>_. check_all f xs)"

lemma check_all_Inr: "check_all f xs = Inr z \<Longrightarrow> x \<in> set xs \<Longrightarrow> f x = Inr ()"
  by (induction xs) (auto simp: bind_simps)

definition full_patch :: "pytext \<Rightarrow> pytext" where
  "full_patch patch = (if ends_with [10] patch then patch else patch @ [10])"

definition apply_patch :: "'w os \<Rightarrow> json \<Rightarrow> json \<Rightarrow> ('w, json) act" where
  "apply_patch os params policy =
     bindA (liftA (require_string params ''patch'')) (\<lambda>raw.
       let patch = full_patch raw in
       bindA (liftA (int_or (field ''max_patch_bytes'' policy) 1048576)) (\<lambda>maximum.
         guardA (maximum < int (length (utf8 patch))) (HelperError ''patch exceeds the byte limit'')
           (bindA (liftA (extract_patch_paths patch)) (\<lambda>(paths, deletes).
             guardA (deletes \<and> \<not> flag ''allow_delete'' False params)
               (HelperError ''file deletion is blocked in non-interactive mode'')
               (guardA (paths = []) (HelperError ''patch does not contain any file paths'')
                 (bindA (liftA (int_or (field ''max_changed_files'' policy) 50)) (\<lambda>max_files.
                   bindA (current_changed_paths os) (\<lambda>changed.
                     guardA (max_files < int (card (set changed \<union> set paths)))
                       (HelperError ''patch would leave too many changed files'')
                       (bindA (\<lambda>w. (w, check_all (check_patched os w (patterns_of ''protected_patterns'' policy)) paths)) (\<lambda>_.
                         bindA (run_git_apply os patch True) (\<lambda>checked.
                           guardA (c_code checked \<noteq> 0) (error_text checked ''git apply --check failed'')
                             (bindA (run_git_apply os patch False) (\<lambda>applied.
                               guardA (c_code applied \<noteq> 0) (error_text applied ''git apply failed'')
                                 (bindA (git_status os policy) (\<lambda>st.
                                   ret (JObj [(u ''changed_files'', JList (map JStr (sort paths))),
                                              (u ''status'', field ''status'' st)]))))))))))))))))"

subsection \<open>Differences\<close>

definition check_untracked :: "'w os \<Rightarrow> 'w \<Rightarrow> pytext list \<Rightarrow> pytext \<Rightarrow> unit result" where
  "check_untracked os w protected relative =
     bindE (validate_relative_path relative) (\<lambda>_.
       guardE (is_protected relative protected) (HelperError ''protected path cannot be included in diff'')
         (bindE (safe_path os w relative True) (\<lambda>_. Inr ())))"

definition mark_untracked :: "'w os \<Rightarrow> json \<Rightarrow> ('w, unit) act" where
  "mark_untracked os policy =
     bindA (run_command_raw os (git [''ls-files'', ''--others'', ''--exclude-standard'', ''-z'']) 30) (\<lambda>listed.
       guardA (c_code listed \<noteq> 0) (error_text listed ''failed to list untracked files'')
         (let paths = filter (\<lambda>p. p \<noteq> []) (split_on 0 (c_out listed))
          in if paths = [] then ret ()
             else bindA (liftA (int_or (field ''max_changed_files'' policy) 50)) (\<lambda>maximum.
               bindA (current_changed_paths os) (\<lambda>changed.
                 guardA (maximum < int (length changed)) (HelperError ''workspace has too many changed files'')
                   (bindA (\<lambda>w. (w, check_all (check_untracked os w (patterns_of ''protected_patterns'' policy)) paths)) (\<lambda>_.
                     bindA (run_command_raw os (git [''add'', ''--intent-to-add'', ''--''] @ paths) 30) (\<lambda>added.
                       guardA (c_code added \<noteq> 0) (error_text added ''failed to prepare untracked files for diff'')
                         (ret ()))))))))"

definition git_diff :: "'w os \<Rightarrow> json \<Rightarrow> json \<Rightarrow> ('w, json) act" where
  "git_diff os params policy =
     bindA (mark_untracked os policy) (\<lambda>_.
       bindA (run_command_raw os (git [''diff'', ''--binary'', ''--no-ext-diff'', ''--'']) 60) (\<lambda>r.
         guardA (c_code r \<noteq> 0) (error_text r ''git diff failed'')
           (bindA (liftA (cap (c_out r) policy (flag ''full'' False params))) (\<lambda>out.
             ret (JObj [(u ''diff'', JStr out)])))))"

subsection \<open>Commands\<close>

definition validate_command :: "pytext list \<Rightarrow> unit result" where
  "validate_command argv =
     (let allowed = (hd argv = u ''pytest'' \<or> take 3 argv = map u [''python'', ''-m'', ''pytest'']
             \<or> take 3 argv = map u [''python3'', ''-m'', ''pytest''] \<or> take 2 argv = map u [''ruff'', ''check'']
             \<or> hd argv = u ''mypy'' \<or> take 3 argv = map u [''python'', ''-m'', ''build'']
             \<or> take 3 argv = map u [''python3'', ''-m'', ''build''])
      in guardE (\<not> allowed) (HelperError ''command is not allowlisted'')
           (guardE (list_ex (\<lambda>t. t \<in> set (map u [''--config-file'', ''--config'', ''--command'', ''-c''])) (tl argv))
             (HelperError ''command contains a blocked option'') (Inr ())))"

definition blocked_programs :: "pytext list" where
  "blocked_programs = map u [''sh'', ''bash'', ''zsh'', ''fish'', ''sudo'', ''su'', ''docker'', ''podman'']"

definition git_read_commands :: "pytext list" where
  "git_read_commands = map u [''status'', ''diff'', ''log'', ''show'', ''branch'', ''rev-parse'', ''ls-files'',
     ''grep'', ''blame'', ''describe'', ''check-ignore'']"

definition validate_shell_command :: "pytext list \<Rightarrow> json \<Rightarrow> unit result" where
  "validate_shell_command argv policy =
     bindE (int_or (field ''max_shell_argv_items'' policy) 128) (\<lambda>maximum.
       guardE (maximum < int (length argv) \<or> list_ex (\<lambda>i. 0 \<in> set i \<or> 4096 < length i) argv)
         (HelperError ''shell argv exceeds configured bounds'')
         (let program = path_name (hd argv);
              pip = (\<lambda>x. x \<in> {u ''install'', u ''uninstall''});
              dependency = HelperError ''use the audited pip_install tool for dependency changes''
          in guardE (program \<notin> set (patterns_of ''shell_allowed_programs'' policy))
               (HelperError ''program is not allowed in the Docker shell'')
            (guardE (program \<in> set blocked_programs)
               (HelperError ''interactive shells and host-control programs are blocked'')
            (guardE (program = u ''git'' \<and> (length argv < 2 \<or> argv ! 1 \<notin> set git_read_commands))
               (HelperError ''destructive or remote Git commands are blocked'')
            (guardE (program \<in> {u ''python'', u ''python3''} \<and> list_ex (\<lambda>i. i \<in> {u ''-c'', u ''-''}) (tl argv))
               (HelperError ''inline Python and stdin programs are blocked; use a workspace script'')
            (guardE (program \<in> {u ''python'', u ''python3''} \<and> 4 \<le> length argv
                     \<and> take 2 (tl argv) = [u ''-m'', u ''pip''] \<and> pip (argv ! 3)) dependency
            (guardE (program \<in> {u ''pip'', u ''pip3''} \<and> 2 \<le> length argv \<and> pip (argv ! 1)) dependency
               (Inr ()))))))))"

definition argv_of :: "json \<Rightarrow> bool \<Rightarrow> string \<Rightarrow> pytext list result" where
  \<comment> \<open>a non-empty list of strings, the strings not empty either when the flag is set\<close>
  "argv_of params nonempty message =
     (case str_list (field ''argv'' params) of
        None \<Rightarrow> Inl (HelperError message)
      | Some argv \<Rightarrow> guardE (argv = [] \<or> (nonempty \<and> [] \<in> set argv)) (HelperError message) (Inr argv))"

definition run_command :: "'w os \<Rightarrow> json \<Rightarrow> json \<Rightarrow> ('w, json) act" where
  "run_command os params policy =
     bindA (liftA (argv_of params True ''argv must be a non-empty list of strings'')) (\<lambda>argv.
       bindA (liftA (validate_command argv)) (\<lambda>_.
         bindA (liftA (int_or (field ''timeout'' params) 900)) (\<lambda>timeout.
           bindA (run_timed os argv (min timeout 3600)) (\<lambda>(c, late).
             liftA (report policy c late [(u ''argv'', JList (map JStr argv))])))))"

definition shell_exec :: "'w os \<Rightarrow> json \<Rightarrow> json \<Rightarrow> ('w, json) act" where
  "shell_exec os params policy =
     bindA (liftA (argv_of params True ''argv must be a non-empty list of strings'')) (\<lambda>argv.
       bindA (liftA (validate_shell_command argv policy)) (\<lambda>_.
         bindA (liftA (int_or (field ''timeout'' params) 300)) (\<lambda>timeout.
           bindA (run_timed os argv (min timeout 3600)) (\<lambda>(c, late).
             liftA (report policy c late [(u ''argv'', JList (map JStr argv))])))))"

definition run_skill_script :: "'w os \<Rightarrow> json \<Rightarrow> json \<Rightarrow> ('w, json) act" where
  \<comment> \<open>the script lives in a fresh directory while it runs\<close>
  "run_skill_script os params policy =
     bindA (liftA (require_string params ''name'')) (\<lambda>name.
       bindA (liftA (require_string params ''content'')) (\<lambda>content.
         guardA (262144 < length (utf8 content)) (HelperError ''skill script exceeds 262144 byte limit'')
           (guardA (path_name name \<noteq> name \<or> lower (path_suffix name) \<notin> {u ''.py'', u ''.sh''})
             (HelperError ''skill script name must be a safe .py or .sh basename'')
             (let raw = or_else (field ''args'' params) (JList [])
              in guardA ((case raw of JList xs \<Rightarrow> 64 < length xs | _ \<Rightarrow> True))
                   (HelperError ''skill script args must be a list with at most 64 items'')
                   (let args = map py_str (items raw)
                    in guardA (list_ex (\<lambda>i. 0 \<in> set i \<or> 4096 < length i) args)
                         (HelperError ''skill script contains an invalid argument'')
                         (bindA (liftA (int_or (field ''timeout'' params) 300)) (\<lambda>timeout.
                           \<lambda>w. let (w1, path) = make_script os w name content;
                                 argv = (if path_suffix path = u ''.py'' then [u ''python'', path]
                                         else [u ''/bin/sh'', path]) @ args;
                                 (w2, r) = run_timed os argv (min timeout 600) w1;
                                 w3 = drop_script os w2 path
                             in (w3, bindE r (\<lambda>(c, late). report policy c late [])))))))))"

subsection \<open>Dependencies\<close>

definition version_op :: re where
  "version_op = alts (lit (u ''==='')) [lit (u ''==''), lit (u ''~=''), lit (u ''!=''), lit (u ''<=''), lit (u ''>=''),
     lit (u ''<''), lit (u ''>'')]"

definition version_clause :: re where
  "version_clause = seqs [star is_space, version_op, star is_space,
     at_least 1 (\<lambda>c. is_alnum c \<or> c \<in> set (u ''*+!._-''))]"

definition REQUIREMENT_RE :: re where
  "REQUIREMENT_RE = seqs [RChar is_alnum, star (\<lambda>c. is_alnum c \<or> c \<in> set (u ''._-'')),
     opt (seqs [RChar (\<lambda>c. c = 91), at_least 1 (\<lambda>c. is_alnum c \<or> c \<in> set (u ''_,.-'')), RChar (\<lambda>c. c = 93)]),
     opt (RSeq version_clause (RStar True (seqs [star is_space, RChar (\<lambda>c. c = 44), version_clause])))]"

definition validate_requirements :: "json \<Rightarrow> json \<Rightarrow> pytext list result" where
  "validate_requirements params policy =
     bindE (int_or (field ''max_pip_requirements'' policy) 10) (\<lambda>maximum.
       case field ''requirements'' params of
         JList raw \<Rightarrow>
           guardE (raw = [] \<or> maximum < int (length raw)) (HelperError ''wrong number of requirements'')
             (let requirements = map (\<lambda>i. strip (py_str i)) raw
              in guardE (list_ex (\<lambda>r. fullmatch REQUIREMENT_RE r = None) requirements)
                   (HelperError ''unsupported requirement syntax'') (Inr requirements))
       | _ \<Rightarrow> Inl (HelperError ''wrong number of requirements''))"

definition pip :: "string list \<Rightarrow> pytext list" where
  "pip args = map u ([''python'', ''-m'', ''pip''] @ args)"

definition pip_install :: "'w os \<Rightarrow> json \<Rightarrow> json \<Rightarrow> ('w, json) act" where
  "pip_install os params policy =
     bindA (liftA (validate_requirements params policy)) (\<lambda>requirements.
       bindA (liftA (int_or (field ''timeout'' params) 900)) (\<lambda>timeout.
         bindA (run_timed os (pip [''install'', ''--user'', ''--no-input'', ''--disable-pip-version-check'', ''--index-url'']
               @ [str_or (field ''pip_index_url'' policy) ''https://pypi.org/simple''] @ requirements)
             (min timeout 1800)) (\<lambda>(c, late).
           bindA (run_command_raw os (pip [''freeze'', ''--user'']) 60) (\<lambda>freeze.
             bindA (liftA (report policy c late [(u ''requirements'', JList (map JStr requirements))])) (\<lambda>r.
               ret (with_field ''frozen''
                 (JList (map JStr (sort (filter (\<lambda>l. strip l \<noteq> []) (splitlines (c_out freeze)))))) r))))))"

definition pip_check_requirements :: "'w os \<Rightarrow> json \<Rightarrow> json \<Rightarrow> ('w, json) act" where
  "pip_check_requirements os params policy =
     bindA (liftA (validate_requirements params policy)) (\<lambda>requirements.
       bindA (run_command_raw os (pip [''install'', ''--user'', ''--dry-run'', ''--no-index'', ''--no-input'',
           ''--disable-pip-version-check''] @ requirements) 120) (\<lambda>c.
         liftA (report policy c False [(u ''requirements'', JList (map JStr requirements)),
           (u ''satisfied'', JBool (c_code c = 0))])))"

subsection \<open>Processes to clean up\<close>

definition spared :: "'w os \<Rightarrow> 'w \<Rightarrow> int \<Rightarrow> int list \<Rightarrow> bool" where
  \<comment> \<open>\<open>os.getpid()\<close>, its parent, process 1, an empty command line, the container's own sleep\<close>
  "spared os w pid cmdline \<longleftrightarrow>
     pid \<in> {1, fst (own_pids os w), snd (own_pids os w)}
     \<or> (let command = decode_replace (map (\<lambda>b. if b = 0 then 32 else b) cmdline)
        in command = [] \<or> contains (u ''sleep infinity'') command)"

fun cleanup :: "'w os \<Rightarrow> (pytext \<times> int list option) list \<Rightarrow> 'w \<Rightarrow> 'w \<times> int list" where
  "cleanup os [] w = (w, [])"
| "cleanup os ((name, cmdline) # ps) w =
     (case (if name \<noteq> [] \<and> list_all is_digit name then cmdline else None) of
        None \<Rightarrow> cleanup os ps w
      | Some c \<Rightarrow>
          (let pid = int (digits_val name)
           in if spared os w pid c then cleanup os ps w
              else (case kill_process os w pid of
                  (w, True) \<Rightarrow> (case cleanup os ps w of (w, killed) \<Rightarrow> (w, pid # killed))
                | (w, False) \<Rightarrow> cleanup os ps w)))"

definition cleanup_processes :: "'w os \<Rightarrow> ('w, json) act" where
  "cleanup_processes os w =
     (case cleanup os (processes os w) w of
        (w', killed) \<Rightarrow> (w', Inr (JObj [(u ''killed'', JList (map JInt killed))])))"

subsection \<open>Terminals\<close>

definition terminal_id :: "json \<Rightarrow> pytext result" where
  "terminal_id params =
     bindE (require_string params ''terminal_id'') (\<lambda>i.
       guardE (length i \<noteq> 32 \<or> list_ex (\<lambda>c. \<not> (is_digit c \<or> (97 \<le> c \<and> c \<le> 102))) i)
         (HelperError ''invalid terminal identifier'') (Inr i))"

definition terminal_start :: "'w os \<Rightarrow> json \<Rightarrow> json \<Rightarrow> ('w, json) act" where
  "terminal_start os params policy =
     bindA (liftA (argv_of params False ''argv must be a non-empty string array'')) (\<lambda>argv.
       bindA (liftA (validate_shell_command argv policy)) (\<lambda>_.
         bindA (liftA (terminal_id params)) (\<lambda>i.
           \<lambda>w. if terminal os w i \<noteq> None then (w, Inl (FileExistsError ''terminal directory exists''))
               else (launch_terminal os w i argv,
                     Inr (JObj [(u ''terminal_id'', JStr i), (u ''running'', JBool True)])))))"

definition terminal_poll :: "'w os \<Rightarrow> json \<Rightarrow> json \<Rightarrow> 'w \<Rightarrow> json result" where
  "terminal_poll os params policy w =
     bindE (terminal_id params) (\<lambda>i.
       bindE (py_int (get_or ''after'' (JInt 0) params)) (\<lambda>a.
         bindE (py_int (get_or ''max_output_bytes'' (JInt 32768) policy)) (\<lambda>maximum.
           let after = max 0 a;
               t = (case terminal os w i of
                      None \<Rightarrow> \<lparr>tm_bytes = None, tm_exit = None, tm_runner = None\<rparr> | Some t \<Rightarrow> t);
               rest = (case tm_bytes t of None \<Rightarrow> [] | Some bs \<Rightarrow> drop (nat after) bs);
               chunk = (if maximum < 0 then rest else take (nat maximum) rest);
               running = (tm_exit t = None)
           in guardE (running \<and> tm_runner t = Some False)
                (HelperError ''terminal runner disappeared before publishing its exit status'')
                (Inr (JObj [(u ''running'', JBool running),
                   (u ''exit_code'', (case tm_exit t of None \<Rightarrow> JNull | Some c \<Rightarrow> JInt c)),
                   (u ''output'', JStr (decode_replace chunk)),
                   (u ''cursor'', JInt (after + int (length chunk))),
                   (u ''drained'', JBool (case tm_bytes t of None \<Rightarrow> True
                      | Some bs \<Rightarrow> int (length bs) \<le> after + int (length chunk)))])))))"

definition terminal_send :: "'w os \<Rightarrow> json \<Rightarrow> ('w, json) act" where
  "terminal_send os params =
     bindA (liftA (terminal_id params)) (\<lambda>i.
       bindA (liftA (require_string params ''text'')) (\<lambda>t.
         guardA (16384 < length (utf8 t)) (HelperError ''terminal input exceeds limit'')
           (\<lambda>w. case feed_terminal os w i (utf8 t) of
                 Inl e \<Rightarrow> (w, Inl e)
               | Inr w' \<Rightarrow> (w', Inr (JObj [(u ''sent'', JInt (int (length t)))])))))"

definition terminal_stop :: "'w os \<Rightarrow> json \<Rightarrow> ('w, json) act" where
  "terminal_stop os params =
     bindA (liftA (terminal_id params)) (\<lambda>i. \<lambda>w.
       (signal_terminal os w i, Inr (JObj [(u ''stopped'', JBool True)])))"

subsection \<open>Dispatch\<close>

definition ACTIONS :: "string list" where
  "ACTIONS = [''ptc_eval'', ''terminal_start'', ''terminal_poll'', ''terminal_send'', ''terminal_stop'',
     ''lsp_request'', ''health'', ''security_probe'', ''list_files'', ''read_file'', ''search_text'', ''apply_patch'',
     ''git_status'', ''git_diff'', ''run_command'', ''shell_exec'', ''run_skill_script'',
     ''pip_check_requirements'', ''pip_install'', ''cleanup_processes'']"

definition ptc_reply :: "step_result \<Rightarrow> json result" where
  "ptc_reply r = (case r of
      Value v \<Rightarrow> Inr (JObj [(u ''result'', v)])
    | Raised e \<Rightarrow> Inl e
    | Suspended n a \<Rightarrow> Inr (JObj [(u ''tool_request'', pending_request n a)]))"

definition observe :: "('w \<Rightarrow> 'a result) \<Rightarrow> ('w, 'a) act" where
  \<comment> \<open>an action that only looks\<close>
  "observe f w = (w, f w)"

text \<open>
  The actions not modelled here (\<open>lsp_request\<close>, \<open>health\<close>, \<open>security_probe\<close>) are answered by the
  function \<open>other\<close>.
\<close>

definition handle :: "'w os \<Rightarrow> parser \<Rightarrow> (string \<Rightarrow> json \<Rightarrow> json \<Rightarrow> ('w, json) act) \<Rightarrow> string \<Rightarrow> json \<Rightarrow> json \<Rightarrow> ('w, json) act" where
  "handle os parse other action params policy =
     (if action = ''ptc_eval'' then liftA (bindE (require_string params ''source'') (\<lambda>src.
        ptc_reply (ptc_eval parse src (items (field ''results'' params)))))
      else if action = ''terminal_start'' then terminal_start os params policy
      else if action = ''terminal_poll'' then observe (terminal_poll os params policy)
      else if action = ''terminal_send'' then terminal_send os params
      else if action = ''terminal_stop'' then terminal_stop os params
      else if action = ''list_files'' then observe (list_files os params policy)
      else if action = ''read_file'' then observe (read_file os params policy)
      else if action = ''search_text'' then search_text os params policy
      else if action = ''apply_patch'' then apply_patch os params policy
      else if action = ''git_status'' then git_status os policy
      else if action = ''git_diff'' then git_diff os params policy
      else if action = ''run_command'' then run_command os params policy
      else if action = ''shell_exec'' then shell_exec os params policy
      else if action = ''run_skill_script'' then run_skill_script os params policy
      else if action = ''pip_check_requirements'' then pip_check_requirements os params policy
      else if action = ''pip_install'' then pip_install os params policy
      else if action = ''cleanup_processes'' then cleanup_processes os
      else other action params policy)"

definition helper_main :: "'w os \<Rightarrow> parser \<Rightarrow> (string \<Rightarrow> json \<Rightarrow> json \<Rightarrow> ('w, json) act) \<Rightarrow> string \<Rightarrow> json \<Rightarrow> 'w
    \<Rightarrow> 'w \<times> json result" where
  \<comment> \<open>the answer \<open>{"ok": True, **response}\<close>; an exception becomes \<open>{"ok": False, ...}\<close>, here its value\<close>
  "helper_main os parse other action request w =
     (if \<not> is_obj request then (w, Inl (HelperError ''request must be an object''))
      else (let params = or_else (field ''params'' request) (JObj []);
                policy = or_else (field ''policy'' request) (JObj [])
            in if \<not> is_obj params \<or> \<not> is_obj policy
               then (w, Inl (HelperError ''params and policy must be objects''))
               else if action \<notin> set ACTIONS then (w, Inl (HelperError ''unsupported action''))
               else (case handle os parse other action params policy w of
                   (w', Inl e) \<Rightarrow> (w', Inl e)
                 | (w', Inr r) \<Rightarrow> (w', Inr (JObj ((u ''ok'', JBool True)
                     # filter (\<lambda>kv. fst kv \<noteq> u ''ok'') (entries r)))))))"

subsection \<open>What a patch may touch\<close>

definition reads_only :: "pytext list \<Rightarrow> bool" where
  \<comment> \<open>the two commands the patch action runs before it applies anything\<close>
  "reads_only argv \<longleftrightarrow> argv = git [''status'', ''--porcelain=v1'', ''-z'']
     \<or> argv = git [''apply'', ''--binary'', ''--whitespace=nowarn'', ''--check'', ''-'']"

definition leaves_world :: "'w os \<Rightarrow> bool" where
  "leaves_world os \<longleftrightarrow> (\<forall>w argv inp t. reads_only argv \<longrightarrow> fst (spawn os w argv inp t) = w)"

definition patch_allowed :: "'w os \<Rightarrow> json \<Rightarrow> 'w \<Rightarrow> pytext \<Rightarrow> bool" where
  "patch_allowed os policy w relative \<longleftrightarrow>
     (\<exists>c. candidate_path relative = Inr c \<and> \<not> is_protected relative (patterns_of ''protected_patterns'' policy)
        \<and> (node_at os w c \<noteq> None \<longrightarrow> below (real_path os w WORKSPACE) (real_path os w c)))"

lemma check_patched_allowed:
  assumes "check_patched os w (patterns_of ''protected_patterns'' policy) p = Inr ()"
  shows "patch_allowed os policy w p"
proof -
  obtain c where c: "candidate_path p = Inr c" "\<not> is_protected p (patterns_of ''protected_patterns'' policy)"
    "node_at os w c \<noteq> None \<Longrightarrow> \<exists>q. safe_path os w p True = Inr q"
    using assms by (auto simp: check_patched_def bind_simps split: if_splits)
  have "below (real_path os w WORKSPACE) (real_path os w c)" if "node_at os w c \<noteq> None"
    using c(3) [OF that] safe_path_Inr [of os w p True] c(1) by auto
  with c(1,2) show ?thesis by (auto simp: patch_allowed_def)
qed

lemma run_raw_quiet:
  assumes "leaves_world os" "reads_only argv" "run_command_raw os argv t w = (w', r)"
  shows "w' = w"
proof -
  obtain w1 s where s: "spawn os w argv [] t = (w1, s)" by force
  have "w1 = w" using assms(1,2) s unfolding leaves_world_def by (metis fst_conv)
  with s assms(3) show ?thesis
    by (cases s) (auto simp: run_command_raw_def split: outcome.splits)
qed

lemma git_check_quiet:
  assumes "leaves_world os" "run_git_apply os patch True w = (w', r)"
  shows "w' = w"
proof -
  obtain w1 s where s: "spawn os w (git [''apply'', ''--binary'', ''--whitespace=nowarn'', ''--check'', ''-'']) patch 60
      = (w1, s)" by force
  have "w1 = w" using assms(1) s unfolding leaves_world_def by (metis reads_only_def fst_conv)
  with s assms(2) show ?thesis
    by (cases s) (auto simp: run_git_apply_def split: outcome.splits)
qed

lemma changed_quiet:
  assumes "leaves_world os" "current_changed_paths os w = (w', r)"
  shows "w' = w"
proof -
  have "reads_only (git [''status'', ''--porcelain=v1'', ''-z''])" by (simp add: reads_only_def)
  with assms show ?thesis
    by (auto simp: current_changed_paths_def act_simps dest: run_raw_quiet)
qed

lemma apply_patch_changes:
  assumes quiet: "leaves_world os" and run: "apply_patch os params policy w = (w', r)" and ne: "w' \<noteq> w"
  shows "\<exists>raw maximum paths deletes max_files changed.
     require_string params ''patch'' = Inr raw \<and> int_or (field ''max_patch_bytes'' policy) 1048576 = Inr maximum
     \<and> int (length (utf8 (full_patch raw))) \<le> maximum
     \<and> extract_patch_paths (full_patch raw) = Inr (paths, deletes)
     \<and> (deletes \<longrightarrow> flag ''allow_delete'' False params) \<and> paths \<noteq> []
     \<and> int_or (field ''max_changed_files'' policy) 50 = Inr max_files
     \<and> snd (current_changed_paths os w) = Inr changed \<and> int (card (set changed \<union> set paths)) \<le> max_files
     \<and> check_all (check_patched os w (patterns_of ''protected_patterns'' policy)) paths = Inr ()"
proof -
  have q: "fst (current_changed_paths os w) = w" using changed_quiet [OF quiet] by (metis prod.collapse)
  show ?thesis
    using run unfolding apply_patch_def Let_def
    apply -
    apply (drule liftA_progress [OF _ ne], elim exE conjE)
    apply (drule liftA_progress [OF _ ne], elim exE conjE)
    apply (drule guardA_progress [OF _ ne], elim conjE)
    apply (drule liftA_progress [OF _ ne], elim exE conjE)
    apply (clarsimp split: prod.splits)
    apply (drule guardA_progress [OF _ ne], elim conjE)
    apply (drule guardA_progress [OF _ ne], elim conjE)
    apply (drule liftA_progress [OF _ ne], elim exE conjE)
    apply (drule bindA_progress [where m = "current_changed_paths os", OF _ ne q], elim exE conjE)
    apply (drule guardA_progress [OF _ ne], elim conjE)
    apply (drule bindA_progress, rule ne, simp, elim exE conjE)
    apply simp
    done
qed


text \<open>A small container for the examples: the world counts the patches that git applied.\<close>

definition tiny_tree :: "pytext list \<Rightarrow> fnode option" where
  "tiny_tree p = (if p = WORKSPACE then Some (FDir [(u ''app.py'', FFile [97]), (u ''.env'', FFile [98]),
        (u ''pkg'', FDir [(u ''b.py'', FFile []), (u ''a.py'', FFile [])])])
     else if p = WORKSPACE @ [u ''app.py''] then Some (FFile [97])
     else if p = WORKSPACE @ [u ''pyproject.toml''] then Some (FFile [98]) else None)"

definition tiny_os :: "nat os" where
  "tiny_os = \<lparr>real_path = (\<lambda>w p. p), node_at = (\<lambda>w. tiny_tree),
     spawn = (\<lambda>w argv inp t. (if argv = git [''apply'', ''--binary'', ''--whitespace=nowarn'', ''-''] then Suc w else w,
        Inr (Finished \<lparr>c_code = 0, c_out = [], c_err = [], c_ms = u ''1.0''\<rparr>))),
     make_script = (\<lambda>w n c. (w, n)), drop_script = (\<lambda>w p. w),
     own_pids = (\<lambda>w. (7, 1)), processes = (\<lambda>w. []), kill_process = (\<lambda>w p. (w, True)),
     terminal = (\<lambda>w i. None), launch_terminal = (\<lambda>w i a. w), feed_terminal = (\<lambda>w i b. Inr w),
     signal_terminal = (\<lambda>w i. w)\<rparr>"

lemma tiny_leaves: "leaves_world tiny_os"
  by (auto simp: leaves_world_def reads_only_def tiny_os_def git_def)

definition lines_of :: "string list \<Rightarrow> pytext" where
  "lines_of ls = concat (map (\<lambda>l. u l @ [10]) ls)"

definition good_patch :: json where
  "good_patch = JObj [(u ''patch'', JStr (lines_of [''diff --git a/app.py b/app.py'', ''--- a/app.py'', ''+++ b/app.py'',
     ''@@ -1 +1 @@'', ''-a'', ''+b'']))]"

definition tiny_policy :: json where
  "tiny_policy = JObj [(u ''protected_patterns'', JList [JStr (u ''pyproject.toml'')]),
     (u ''sensitive_read_patterns'', JList [JStr (u ''.env'')])]"


text \<open>
  Listing is bounded and hides what is sensitive: the answer holds at most as many files as the
  limit allows (never more than 2000), no file matches a sensitive pattern, and every file is below
  the directory asked for. An answer that is not truncated holds the whole walk.
\<close>

theorem listing_is_bounded_and_clean:
  assumes "list_files os params policy w = Inr r" and "int_or (field ''limit'' params) 500 = Inr n"
  shows "\<exists>paths top. field ''files'' r = JList (map (\<lambda>p. JStr (join [slash] p)) paths)
     \<and> safe_path os w (str_or (field ''path'' params) ''.'') True = Inr top
     \<and> int (length paths) \<le> max 1 (min n 2000)
     \<and> (\<forall>p\<in>set paths. \<not> protected_name (patterns_of ''sensitive_read_patterns'' policy) p
          \<and> prefix (drop (length WORKSPACE) top) p)
     \<and> (field ''truncated'' r = JBool False \<longrightarrow> (\<forall>node. node_at os w top = Some node \<longrightarrow>
          paths = walk (patterns_of ''sensitive_read_patterns'' policy) (drop (length WORKSPACE) top) node))"
proof -
  obtain top where safe: "safe_path os w (str_or (field ''path'' params) ''.'') True = Inr top"
    and lb: "list_below os policy w (min n 2000) top = Inr r"
    using assms by (auto simp: list_files_def bindE_eq_Inr)
  obtain kids where node: "node_at os w top = Some (FDir kids)"
    using lb by (cases "node_at os w top"; cases "the (node_at os w top)") (simp_all add: list_below_def)
  define found where "found = walk (patterns_of ''sensitive_read_patterns'' policy) (drop (length WORKSPACE) top) (FDir kids)"
  obtain paths tr where t: "take_until (min n 2000) [] found = (paths, tr)" by force
  have r: "r = JObj [(u ''files'', JList (map (\<lambda>p. JStr (join [slash] p)) paths)), (u ''truncated'', JBool tr)]"
    using lb node t by (simp add: list_below_def found_def)
  have b: "int (length paths) \<le> max 1 (min n 2000)" "set paths \<subseteq> set found" "\<not> tr \<longrightarrow> paths = found"
    using take_until_bounds [OF t] by auto
  have "\<not> protected_name (patterns_of ''sensitive_read_patterns'' policy) p \<and> prefix (drop (length WORKSPACE) top) p"
    if "p \<in> set paths" for p
    using that b(2) walk_unprotected walk_below unfolding found_def by blast
  moreover have "field ''files'' r = JList (map (\<lambda>p. JStr (join [slash] p)) paths)" "field ''truncated'' r = JBool tr"
    by (simp_all add: r field_def)
  moreover have "paths = walk (patterns_of ''sensitive_read_patterns'' policy) (drop (length WORKSPACE) top) nd"
    if "\<not> tr" "node_at os w top = Some nd" for nd
    using b(3) that node unfolding found_def by (simp del: walk.simps)
  ultimately show ?thesis using b(1) safe by (intro exI [of _ paths] exI [of _ top]) (simp only: json.inject simp_thms, blast)
qed

theorem listing_is_bounded_and_clean_witness:
  "\<exists>paths. list_files tiny_os (JObj []) tiny_policy 0
     = Inr (JObj [(u ''files'', JList (map (\<lambda>p. JStr (join [slash] p)) paths)), (u ''truncated'', JBool False)])
   \<and> length paths = 3 \<and> (\<forall>p\<in>set paths. \<not> protected_name [u ''.env''] p)"
proof -
  have run: "list_files tiny_os (JObj []) tiny_policy 0
     = Inr (JObj [(u ''files'', JList (map (\<lambda>p. JStr (join [slash] p))
         [[u ''app.py''], [u ''pkg'', u ''a.py''], [u ''pkg'', u ''b.py'']])), (u ''truncated'', JBool False)])"
    by code_simp
  have "int_or (field ''limit'' (JObj [])) 500 = Inr 500" by code_simp
  from listing_is_bounded_and_clean [OF run this]
  obtain paths where p: "field ''files'' (JObj [(u ''files'', JList (map (\<lambda>p. JStr (join [slash] p))
         [[u ''app.py''], [u ''pkg'', u ''a.py''], [u ''pkg'', u ''b.py'']])), (u ''truncated'', JBool False)])
       = JList (map (\<lambda>p. JStr (join [slash] p)) paths)"
    "\<forall>p\<in>set paths. \<not> protected_name (patterns_of ''sensitive_read_patterns'' tiny_policy) p" by blast
  have eq: "map (\<lambda>p. JStr (join [slash] p)) paths = map (\<lambda>p. JStr (join [slash] p))
         [[u ''app.py''], [u ''pkg'', u ''a.py''], [u ''pkg'', u ''b.py'']]"
    using p(1) by (simp add: field_def)
  then have "length paths = 3" using map_eq_imp_length_eq [OF eq] by simp
  moreover have "patterns_of ''sensitive_read_patterns'' tiny_policy = [u ''.env'']" by code_simp
  ultimately show ?thesis using run eq p(2) by (intro exI [of _ paths]) simp
qed

text \<open>
  The path checks see the git headers only. A patch whose first file has a git header and whose
  second is written as a traditional \<open>---\<close>/\<open>+++\<close> hunk passes with the first path alone: with
  \<open>pyproject.toml\<close> protected the second hunk changes it all the same, although the same change under
  a git header is refused.
\<close>

definition smuggled_patch :: json where
  "smuggled_patch = JObj [(u ''patch'', JStr (lines_of [''diff --git a/app.py b/app.py'', ''--- a/app.py'', ''+++ b/app.py'',
     ''@@ -1 +1 @@'', ''-a'', ''+b'', ''--- a/pyproject.toml'', ''+++ b/pyproject.toml'', ''@@ -1 +1 @@'', ''-b'', ''+c'']))]"

definition plain_patch :: json where
  "plain_patch = JObj [(u ''patch'', JStr (lines_of [''diff --git a/pyproject.toml b/pyproject.toml'',
     ''--- a/pyproject.toml'', ''+++ b/pyproject.toml'', ''@@ -1 +1 @@'', ''-b'', ''+c'']))]"

theorem traditional_hunk_evades_protection:
  "fst (apply_patch tiny_os smuggled_patch tiny_policy 0) = 1
   \<and> apply_patch tiny_os plain_patch tiny_policy 0 = (0, Inl (HelperError ''protected path cannot be modified''))"
  by code_simp


text \<open>
  git reads a quoted path of a header with C escapes, \<open>shlex\<close> does not: a header for \<open>"a/pyproject\056toml"\<close>
  is a header for \<open>pyproject.toml\<close> to git, but the path that is checked is another one and not protected.
\<close>

definition octal_path :: pytext where
  "octal_path = u ''pyproject'' @ 92 # u ''056toml''"

lemma quoted_path_escapes_protection:
  "extract_patch_paths (u ''diff --git '' @ 34 # u ''a/'' @ octal_path @ [34, 32, 34] @ u ''b/'' @ octal_path @ [34]) = Inr ([octal_path], False)
   \<and> is_protected (u ''pyproject.toml'') [u ''pyproject.toml''] \<and> \<not> is_protected octal_path [u ''pyproject.toml'']"
  by code_simp

end
