(* ===== verification/Docker_Sandbox.thy ===== *)
theory Docker_Sandbox
  imports Py_Value Path_Guard
begin

text \<open>
  \<open>sandbox/docker.py\<close>: the host's side of the container. The Docker command line is a function of an
  abstract daemon; the model keeps the list of commands given to it, so that what the sandbox does to
  the networks can be stated. The reply of the helper is the text it printed, read by \<open>loads\<close>.
\<close>

subsection \<open>The sandbox and the daemon\<close>

record entry =
  \<comment> \<open>a command given to Docker, the input it got, and its exit code if the client ran\<close>
  en_args :: "pytext list"
  en_input :: pytext
  en_code :: "int option"

record 'd docker =
  dk_daemon :: 'd
  dk_log :: "entry list"   \<comment> \<open>the commands so far, oldest first\<close>
  dk_started :: bool

record config =
  cf_run :: pytext
  cf_workspace :: pytext
  cf_workspace_ok :: bool        \<comment> \<open>\<open>self.workspace.is_dir()\<close>\<close>
  cf_image :: pytext
  cf_cpus :: pytext
  cf_memory :: pytext
  cf_pids :: int
  cf_policy :: json              \<comment> \<open>the policy object of every request\<close>
  cf_timeout :: int

record docker_result =
  dr_code :: int
  dr_out :: pytext
  dr_err :: pytext

text \<open>
  \<open>_docker\<close>: a missing client is a \<open>SandboxError\<close> (\<open>None\<close> of the parameter), a time limit gives exit
  code 124.
\<close>

type_synonym 'd client = "'d \<Rightarrow> pytext list \<Rightarrow> pytext \<Rightarrow> int \<Rightarrow> 'd \<times> docker_result option"

definition docker :: "'d client \<Rightarrow> pytext list \<Rightarrow> pytext \<Rightarrow> int \<Rightarrow> ('d docker, docker_result) act" where
  "docker cl args inp timeout s =
     (case cl (dk_daemon s) args inp timeout of
        (d, r) \<Rightarrow> (s\<lparr>dk_daemon := d, dk_log := dk_log s @
            [\<lparr>en_args = args, en_input = inp, en_code = map_option dr_code r\<rparr>]\<rparr>,
          (case r of None \<Rightarrow> Inl (SandboxError ''Docker CLI is not installed'') | Some x \<Rightarrow> Inr x)))"

definition suffix_of :: "pytext \<Rightarrow> pytext" where
  \<comment> \<open>alphanumeric characters of the run identifier (ASCII), at most 20\<close>
  "suffix_of run = take 20 (filter (\<lambda>c. (48 \<le> c \<and> c \<le> 57) \<or> (97 \<le> c \<and> c \<le> 122)) (lower run))"

definition container_name :: "config \<Rightarrow> pytext" where
  "container_name cf = u ''lightworker-'' @ suffix_of (cf_run cf)"

definition isolation_network :: "config \<Rightarrow> pytext" where
  "isolation_network cf = u ''lightworker-isolated-'' @ suffix_of (cf_run cf)"

definition egress_network :: "config \<Rightarrow> pytext" where
  "egress_network cf = u ''lightworker-egress-'' @ suffix_of (cf_run cf)"

definition init_sandbox :: "config \<Rightarrow> 'd \<Rightarrow> 'd docker result" where
  "init_sandbox cf d = guardE (suffix_of (cf_run cf) = [])
     (ValueError ''run_id must contain alphanumeric characters'')
     (Inr \<lparr>dk_daemon = d, dk_log = [], dk_started = False\<rparr>)"

subsection \<open>Networks\<close>

definition ok_or :: "string \<Rightarrow> ('d docker, docker_result) act \<Rightarrow> ('d docker, unit) act" where
  \<comment> \<open>\<open>if result.returncode: raise SandboxError(...)\<close>\<close>
  "ok_or message m = bindA m (\<lambda>r. guardA (dr_code r \<noteq> 0) (SandboxError message) (ret ()))"

definition container_exists :: "'d client \<Rightarrow> config \<Rightarrow> ('d docker, bool) act" where
  "container_exists cl cf =
     bindA (docker cl [u ''container'', u ''inspect'', container_name cf] [] 10) (\<lambda>r. ret (dr_code r = 0))"

definition remove_egress_network :: "'d client \<Rightarrow> config \<Rightarrow> ('d docker, unit) act" where
  "remove_egress_network cl cf =
     bindA (docker cl [u ''network'', u ''rm'', egress_network cf] [] 30) (\<lambda>_. ret ())"

definition remove_networks :: "'d client \<Rightarrow> config \<Rightarrow> ('d docker, unit) act" where
  "remove_networks cl cf =
     seqA (remove_egress_network cl cf)
       (bindA (docker cl [u ''network'', u ''rm'', isolation_network cf] [] 30) (\<lambda>_. ret ()))"

definition label_of :: "config \<Rightarrow> pytext" where
  "label_of cf = u ''lightworker.run_id='' @ cf_run cf"

definition create_isolation_network :: "'d client \<Rightarrow> config \<Rightarrow> ('d docker, unit) act" where
  "create_isolation_network cl cf =
     seqA (remove_networks cl cf)
       (ok_or ''failed to create isolated network''
         (docker cl [u ''network'', u ''create'', u ''--internal'', u ''--label'', label_of cf, isolation_network cf] [] 30))"

definition create_egress_network :: "'d client \<Rightarrow> config \<Rightarrow> ('d docker, unit) act" where
  "create_egress_network cl cf =
     seqA (remove_egress_network cl cf)
       (ok_or ''failed to create pip egress network''
         (docker cl [u ''network'', u ''create'', u ''--label'', label_of cf, egress_network cf] [] 30))"

definition remove_stale_container :: "'d client \<Rightarrow> config \<Rightarrow> ('d docker, unit) act" where
  "remove_stale_container cl cf =
     seqA (bindA (container_exists cl cf) (\<lambda>yes.
         if yes then ok_or ''failed to remove stale sandbox''
                       (docker cl [u ''rm'', u ''--force'', container_name cf] [] 30)
         else ret ()))
       (remove_networks cl cf)"

subsection \<open>Calls to the helper\<close>

definition call :: "'d client \<Rightarrow> (pytext \<Rightarrow> json option) \<Rightarrow> config \<Rightarrow> string \<Rightarrow> json \<Rightarrow> int option \<Rightarrow> ('d docker, json) act" where
  "call cl loads cf action params timeout s =
     (if \<not> dk_started s then (s, Inl (SandboxError ''sandbox has not been started''))
      else bindA (docker cl [u ''exec'', u ''--interactive'', container_name cf, u ''lightworker-sandbox-helper'']
             (dumps_default (JObj [(u ''action'', JStr (u action)), (u ''params'', params), (u ''policy'', cf_policy cf)]))
             ((case timeout of None \<Rightarrow> cf_timeout cf | Some t \<Rightarrow> if t = 0 then cf_timeout cf else t) + 10))
        (\<lambda>r. guardA (dr_code r \<noteq> 0 \<and> strip (dr_out r) = []) (SandboxError ''sandbox action failed'')
          (case loads (dr_out r) of
             None \<Rightarrow> raise (SandboxError ''sandbox action returned invalid JSON'')
           | Some v \<Rightarrow> guardA (\<not> is_obj v) (SandboxError ''sandbox action returned a non-object'') (ret v))) s)"

subsection \<open>Starting and stopping\<close>

definition stop :: "'d client \<Rightarrow> config \<Rightarrow> ('d docker, unit) act" where
  "stop cl cf =
     bindA (\<lambda>s. if dk_started s then (s, Inr True) else container_exists cl cf s) (\<lambda>yes.
       seqA (if yes then bindA (docker cl [u ''rm'', u ''--force'', container_name cf] [] 30) (\<lambda>_. ret ()) else ret ())
         (seqA (remove_networks cl cf) (\<lambda>s. (s\<lparr>dk_started := False\<rparr>, Inr ()))))"

definition run_arguments :: "config \<Rightarrow> pytext list" where
  "run_arguments cf = [u ''run'', u ''--detach'', u ''--name'', container_name cf, u ''--label'', label_of cf,
     u ''--read-only'', u ''--network'', isolation_network cf, u ''--cpus'', cf_cpus cf, u ''--memory'', cf_memory cf,
     u ''--pids-limit'', int_repr (cf_pids cf), u ''--cap-drop'', u ''ALL'', u ''--security-opt'', u ''no-new-privileges'',
     u ''--tmpfs'', u ''/tmp:rw,noexec,nosuid,size=256m,mode=1777'',
     u ''--tmpfs'', u ''/deps:rw,exec,nosuid,size=1g,uid=10001,gid=10001,mode=0755'',
     u ''--tmpfs'', u ''/home/worker:rw,noexec,nosuid,size=64m,uid=10001,gid=10001,mode=0755'',
     u ''--env'', u ''PYTHONUSERBASE=/deps'', u ''--env'', u ''PATH=/deps/bin:/usr/local/bin:/usr/bin:/bin'',
     u ''--volume'', cf_workspace cf @ u '':/workspace:rw'', u ''--workdir'', u ''/workspace'', cf_image cf,
     u ''sleep'', u ''infinity'']"

definition check_health :: "'d client \<Rightarrow> (pytext \<Rightarrow> json option) \<Rightarrow> config \<Rightarrow> ('d docker, unit) act" where
  "check_health cl loads cf =
     bindA (call cl loads cf ''health'' (JObj []) (Some 15)) (\<lambda>health.
       guardA (\<not> truthy (field ''ok'' health)) (SandboxError ''sandbox helper health check failed'')
         (bindA (liftA (case get_or ''protocol_version'' (JInt 0) health of
            JInt i \<Rightarrow> Inr i | _ \<Rightarrow> Inl (TypeError ''not a number''))) (\<lambda>v.
           guardA (v < 2) (SandboxError ''sandbox image uses an old helper; run lightworker doctor --rebuild-image'')
             (ret ()))))"

definition start :: "'d client \<Rightarrow> (pytext \<Rightarrow> json option) \<Rightarrow> config \<Rightarrow> ('d docker, unit) act" where
  "start cl loads cf s =
     (if dk_started s then (s, Inr ())
      else guardA (\<not> cf_workspace_ok cf) (SandboxError ''workspace does not exist'')
        (seqA (remove_stale_container cl cf)
          (seqA (create_isolation_network cl cf)
            (bindA (docker cl (run_arguments cf) [] 60) (\<lambda>r.
              if dr_code r \<noteq> 0
              then seqA (remove_networks cl cf) (raise (SandboxError ''failed to start Docker sandbox''))
              else seqA (\<lambda>s. (s\<lparr>dk_started := True\<rparr>, Inr ()))
                     (on_error (check_health cl loads cf) (stop cl cf)))))) s)"

subsection \<open>Installing dependencies\<close>

definition connect_arguments :: "config \<Rightarrow> pytext list" where
  "connect_arguments cf = [u ''network'', u ''connect'', egress_network cf, container_name cf]"

definition disconnect_arguments :: "config \<Rightarrow> pytext list" where
  "disconnect_arguments cf = [u ''network'', u ''disconnect'', u ''--force'', egress_network cf, container_name cf]"

definition request_text :: "config \<Rightarrow> string \<Rightarrow> json \<Rightarrow> pytext" where
  "request_text cf action params =
     dumps_default (JObj [(u ''action'', JStr (u action)), (u ''params'', params), (u ''policy'', cf_policy cf)])"

definition tolerate :: "('w, 'a) act \<Rightarrow> ('w, unit) act" where
  \<comment> \<open>\<open>try: m except SandboxError: pass\<close>\<close>
  "tolerate m w = (case m w of
      (w', Inr _) \<Rightarrow> (w', Inr ())
    | (w', Inl e) \<Rightarrow> (w', case e of SandboxError _ \<Rightarrow> Inr () | _ \<Rightarrow> Inl e))"

lemma keeps_tolerate [keeps_intros]: "keeps P m \<Longrightarrow> keeps P (tolerate m)"
  by (fastforce simp: keeps_def tolerate_def split: prod.splits sum.splits)

definition leave_egress :: "'d client \<Rightarrow> (pytext \<Rightarrow> json option) \<Rightarrow> config \<Rightarrow> bool \<Rightarrow> ('d docker, unit) act" where
  \<comment> \<open>the \<open>finally\<close> block of \<open>install_requirements\<close>\<close>
  "leave_egress cl loads cf joined =
     seqA (if joined then bindA (docker cl (disconnect_arguments cf) [] 30) (\<lambda>_. ret ()) else ret ())
       (seqA (remove_egress_network cl cf)
         (\<lambda>s. if \<not> dk_started s then (s, Inr ())
              else tolerate (call cl loads cf ''cleanup_processes'' (JObj []) (Some 15)) s))"

definition with_egress :: "'d client \<Rightarrow> (pytext \<Rightarrow> json option) \<Rightarrow> config \<Rightarrow> ('d docker, json) act \<Rightarrow> ('d docker, json) act" where
  "with_egress cl loads cf body s =
     (case ok_or ''failed to attach pip network'' (docker cl (connect_arguments cf) [] 30) s of
        (s', Inl e) \<Rightarrow> finallyA (raise e) (leave_egress cl loads cf False) s'
      | (s', Inr _) \<Rightarrow> finallyA body (leave_egress cl loads cf True) s')"

definition install_requirements :: "'d client \<Rightarrow> (pytext \<Rightarrow> json option) \<Rightarrow> config \<Rightarrow> json \<Rightarrow> int \<Rightarrow> ('d docker, json) act" where
  "install_requirements cl loads cf requirements timeout =
     bindA (call cl loads cf ''pip_check_requirements'' (JObj [(u ''requirements'', requirements)]) (Some (min timeout 120)))
       (\<lambda>preflight.
         if \<not> truthy (field ''ok'' preflight) then ret preflight
         else if truthy (field ''satisfied'' preflight)
         then ret (with_field ''frozen'' (JList []) (with_field ''already_satisfied'' (JBool True)
                (with_field ''exit_code'' (JInt 0) preflight)))
         else seqA (create_egress_network cl cf)
                (with_egress cl loads cf
                  (call cl loads cf ''pip_install''
                    (JObj [(u ''requirements'', requirements), (u ''timeout'', JInt timeout)]) (Some timeout))))"

subsection \<open>When the container can reach the network\<close>

text \<open>
  The log decides when the container is attached to the egress network: from a successful \<open>network
  connect\<close> to the next \<open>network disconnect\<close> given to Docker. The second component is whether every
  helper request sent in between was a \<open>pip_install\<close>.
\<close>

definition is_install :: "config \<Rightarrow> pytext \<Rightarrow> bool" where
  "is_install cf t \<longleftrightarrow> starts_with (u ''{\"action\": \"pip_install\"'') t"

definition watch :: "config \<Rightarrow> bool \<times> bool \<Rightarrow> entry \<Rightarrow> bool \<times> bool" where
  "watch cf st e =
     ((if en_args e = connect_arguments cf \<and> en_code e = Some 0 then True
       else if en_args e = disconnect_arguments cf \<and> en_code e \<noteq> None then False else fst st),
      snd st \<and> (fst st \<and> take 1 (en_args e) = [u ''exec''] \<longrightarrow> is_install cf (en_input e)))"

definition egress_state :: "config \<Rightarrow> 'd docker \<Rightarrow> bool \<times> bool" where
  "egress_state cf s = foldl (watch cf) (False, True) (dk_log s)"

definition isolated :: "config \<Rightarrow> 'd docker \<Rightarrow> bool" where
  "isolated cf s \<longleftrightarrow> egress_state cf s = (False, True)"

definition attached :: "config \<Rightarrow> 'd docker \<Rightarrow> bool" where
  "attached cf s \<longleftrightarrow> egress_state cf s = (True, True)"

lemma docker_state:
  "egress_state cf (fst (docker cl args inp t s)) =
     watch cf (egress_state cf s) \<lparr>en_args = args, en_input = inp,
       en_code = map_option dr_code (snd (cl (dk_daemon s) args inp t))\<rparr>"
  by (simp add: docker_def egress_state_def split: prod.splits)

lemma keeps_docker [keeps_intros]: "args \<noteq> connect_arguments cf \<Longrightarrow> keeps (isolated cf) (docker cl args inp t)"
  by (simp add: keeps_def isolated_def docker_state watch_def)

lemmas argument_defs = connect_arguments_def disconnect_arguments_def run_arguments_def

lemma keeps_ok_or [keeps_intros]: "keeps P m \<Longrightarrow> keeps P (ok_or e m)"
  unfolding ok_or_def by (intro keeps_intros)

lemma keeps_container_exists [keeps_intros]: "keeps (isolated cf) (container_exists cl cf)"
  unfolding container_exists_def by (intro keeps_intros) (simp add: argument_defs)

lemma keeps_remove_egress [keeps_intros]: "keeps (isolated cf) (remove_egress_network cl cf)"
  unfolding remove_egress_network_def by (intro keeps_intros) (simp add: argument_defs)

lemma keeps_remove_networks [keeps_intros]: "keeps (isolated cf) (remove_networks cl cf)"
  unfolding remove_networks_def by (intro keeps_intros) (simp add: argument_defs)

lemma keeps_create_isolation [keeps_intros]: "keeps (isolated cf) (create_isolation_network cl cf)"
  unfolding create_isolation_network_def by (intro keeps_intros) (simp add: argument_defs)

lemma keeps_create_egress [keeps_intros]: "keeps (isolated cf) (create_egress_network cl cf)"
  unfolding create_egress_network_def by (intro keeps_intros) (simp add: argument_defs)

lemma keeps_remove_stale [keeps_intros]: "keeps (isolated cf) (remove_stale_container cl cf)"
  unfolding remove_stale_container_def by (intro keeps_intros) (simp add: argument_defs)

lemma keeps_unless [keeps_intros]: "keeps P k \<Longrightarrow> keeps P (\<lambda>s. if b s then (s, r) else k s)"
  by (simp add: keeps_def)

lemma keeps_call_body:
  assumes "keeps P (docker cl [u ''exec'', u ''--interactive'', container_name cf, u ''lightworker-sandbox-helper'']
     (request_text cf action params)
     ((case timeout of None \<Rightarrow> cf_timeout cf | Some t \<Rightarrow> if t = 0 then cf_timeout cf else t) + 10))"
  shows "keeps P (call cl loads cf action params timeout)"
proof -
  have "keeps P (case x of None \<Rightarrow> raise (SandboxError ''sandbox action returned invalid JSON'')
      | Some v \<Rightarrow> guardA (\<not> is_obj v) (SandboxError ''sandbox action returned a non-object'') (ret v))" for x
    by (cases x) (auto intro!: keeps_intros)
  with assms show ?thesis
    unfolding call_def [abs_def] request_text_def by (intro keeps_intros)
qed

lemma keeps_call [keeps_intros]: "keeps (isolated cf) (call cl loads cf action params timeout)"
  by (rule keeps_call_body, rule keeps_docker) (simp add: argument_defs)

lemma keeps_install_call: "keeps (attached cf) (call cl loads cf ''pip_install'' params timeout)"
proof (rule keeps_call_body)
  have "is_install cf (request_text cf ''pip_install'' params)"
    by (simp add: is_install_def request_text_def dumps_default_def starts_with_def quote_def esc_char_def)
  then show "keeps (attached cf) (docker cl [u ''exec'', u ''--interactive'', container_name cf,
       u ''lightworker-sandbox-helper''] (request_text cf ''pip_install'' params)
       ((case timeout of None \<Rightarrow> cf_timeout cf | Some t \<Rightarrow> if t = 0 then cf_timeout cf else t) + 10))"
    by (simp add: keeps_def attached_def docker_state watch_def argument_defs)
qed

lemma keeps_stop [keeps_intros]: "keeps (isolated cf) (stop cl cf)"
proof -
  have "keeps (isolated cf) (\<lambda>s. (s\<lparr>dk_started := False\<rparr>, Inr ()))"
    by (simp add: keeps_def isolated_def egress_state_def)
  then show ?thesis
    unfolding stop_def by (intro keeps_intros) (simp_all add: argument_defs)
qed

lemma keeps_start [keeps_intros]: "keeps (isolated cf) (start cl loads cf)"
proof -
  have up: "keeps (isolated cf) (\<lambda>s. (s\<lparr>dk_started := True\<rparr>, Inr ()))"
    by (simp add: keeps_def isolated_def egress_state_def)
  have "keeps (isolated cf) (check_health cl loads cf)"
    unfolding check_health_def by (intro keeps_intros)
  with up show ?thesis
    unfolding start_def [abs_def] by (intro keeps_intros) (simp_all add: argument_defs)
qed

lemma leave_without: "keeps (isolated cf) (leave_egress cl loads cf False)"
  unfolding leave_egress_def by (simp only: if_False) (intro keeps_intros)

definition client_present :: "'d client \<Rightarrow> bool" where
  "client_present cl \<longleftrightarrow> (\<forall>d args inp t. snd (cl d args inp t) \<noteq> None)"

lemma docker_runs:
  assumes "client_present cl"
  shows "\<exists>s' r. docker cl args inp t s = (s', Inr r)"
proof -
  obtain d x where c: "cl (dk_daemon s) args inp t = (d, x)" by force
  then have "x \<noteq> None" using assms unfolding client_present_def by (metis snd_conv)
  with c show ?thesis by (auto simp: docker_def)
qed

lemma leave_attached:
  assumes "client_present cl" "attached cf s"
  shows "isolated cf (fst (leave_egress cl loads cf True s))"
proof -
  obtain s1 r where d: "docker cl (disconnect_arguments cf) [] 30 s = (s1, Inr r)"
    using docker_runs [OF assms(1)] by blast
  have "egress_state cf s1 = watch cf (True, True) \<lparr>en_args = disconnect_arguments cf, en_input = [],
      en_code = map_option dr_code (snd (cl (dk_daemon s) (disconnect_arguments cf) [] 30))\<rparr>"
    using docker_state [of cf cl "disconnect_arguments cf" "[]" 30 s] d assms(2) by (simp add: attached_def)
  moreover have "map_option dr_code (snd (cl (dk_daemon s) (disconnect_arguments cf) [] 30)) \<noteq> None"
    using assms(1) by (simp add: client_present_def)
  ultimately have "isolated cf s1" by (simp add: isolated_def watch_def argument_defs)
  moreover have "keeps (isolated cf) (leave_egress cl loads cf False)" by (rule leave_without)
  moreover have "leave_egress cl loads cf True s = leave_egress cl loads cf False s1"
    using d by (simp add: leave_egress_def seqA_def bindA_def ret_def)
  ultimately show ?thesis by (simp add: keeps_def)
qed

lemma connect_facts: "connect_arguments cf \<noteq> disconnect_arguments cf" "take 1 (connect_arguments cf) \<noteq> [u ''exec'']"
  by (simp_all add: argument_defs)

lemma keeps_with_egress:
  fixes cl :: "'d client"
  assumes "client_present cl" and "keeps (attached cf) body"
  shows "keeps (isolated cf) (with_egress cl loads cf body)"
  unfolding keeps_def
proof (intro allI impI)
  fix s :: "'d docker"
  assume iso: "isolated cf s"
  obtain s1 r where d: "docker cl (connect_arguments cf) [] 30 s = (s1, Inr r)"
    using docker_runs [OF assms(1)] by blast
  have st: "egress_state cf s1 = watch cf (False, True) \<lparr>en_args = connect_arguments cf, en_input = [],
      en_code = map_option dr_code (snd (cl (dk_daemon s) (connect_arguments cf) [] 30))\<rparr>"
    using docker_state [of cf cl "connect_arguments cf" "[]" 30 s] d iso by (simp add: isolated_def)
  have code: "map_option dr_code (snd (cl (dk_daemon s) (connect_arguments cf) [] 30)) = Some (dr_code r)"
    using d by (auto simp: docker_def split: prod.splits option.splits)
  show "isolated cf (fst (with_egress cl loads cf body s))"
  proof (cases "dr_code r = 0")
    case True
    then have "attached cf s1" using st [unfolded code] by (simp add: attached_def watch_def)
    then have body: "attached cf (fst (body s1))" using assms(2) by (simp add: keeps_def)
    then have "isolated cf (fst (leave_egress cl loads cf True (fst (body s1))))"
      using leave_attached [OF assms(1)] by blast
    with True d show ?thesis
      by (auto simp: with_egress_def ok_or_def bindA_def guardA_def ret_def finallyA_def split: prod.splits sum.splits)
  next
    case False
    then have "isolated cf s1" using st [unfolded code] connect_facts by (simp add: isolated_def watch_def)
    then have "isolated cf (fst (leave_egress cl loads cf False s1))"
      using leave_without [of cf cl loads] by (simp only: keeps_def)
    with False d show ?thesis
      by (auto simp: with_egress_def ok_or_def bindA_def guardA_def raise_def finallyA_def split: prod.splits sum.splits)
  qed
qed

lemma keeps_install_requirements:
  "client_present cl \<Longrightarrow> keeps (isolated cf) (install_requirements cl loads cf requirements timeout)"
  unfolding install_requirements_def
  by (intro keeps_intros keeps_with_egress keeps_install_call)

inductive operated :: "'d client \<Rightarrow> (pytext \<Rightarrow> json option) \<Rightarrow> config \<Rightarrow> 'd docker \<Rightarrow> bool"
  for cl :: "'d client" and loads :: "pytext \<Rightarrow> json option" and cf :: config where
  created: "init_sandbox cf d = Inr s \<Longrightarrow> operated cl loads cf s"
| started: "operated cl loads cf s \<Longrightarrow> operated cl loads cf (fst (start cl loads cf s))"
| stopped: "operated cl loads cf s \<Longrightarrow> operated cl loads cf (fst (stop cl cf s))"
| called: "operated cl loads cf s \<Longrightarrow> operated cl loads cf (fst (call cl loads cf action params timeout s))"
| installed: "operated cl loads cf s \<Longrightarrow>
    operated cl loads cf (fst (install_requirements cl loads cf requirements limit s))"


text \<open>A daemon that accepts everything, and a helper that finds the requirements missing.\<close>

definition easy_client :: "nat client" where
  "easy_client d args inp t = (Suc d, Some \<lparr>dr_code = 0, dr_out = u ''reply'', dr_err = []\<rparr>)"

definition easy_loads :: "pytext \<Rightarrow> json option" where
  "easy_loads t = Some (JObj [(u ''ok'', JBool True), (u ''protocol_version'', JInt 2)])"

definition easy_config :: config where
  "easy_config = \<lparr>cf_run = u ''run-1'', cf_workspace = u ''/w'', cf_workspace_ok = True, cf_image = u ''image'',
     cf_cpus = u ''1'', cf_memory = u ''1g'', cf_pids = 64, cf_policy = JObj [], cf_timeout = 60\<rparr>"

definition easy_start :: "nat docker" where
  "easy_start = \<lparr>dk_daemon = 0, dk_log = [], dk_started = False\<rparr>"


end
