(* ===== verification/Read_Only.thy ===== *)
theory Read_Only
  imports Workspace_Fs
begin

text \<open>
  \<open>sandbox/read_only.py\<close>: the fallback without Docker. It reads the host's workspace directly and runs
  no command. What the file system says is the record \<open>rofs\<close>; every operation is a function of it, so
  that nothing is written holds by construction.
\<close>

record rofs =
  \<comment> \<open>paths are the components below the workspace; the last field lists \<open>rglob("*")\<close>\<close>
  ro_exists :: "pytext list \<Rightarrow> bool"
  ro_dir :: "pytext list \<Rightarrow> bool"
  ro_inside :: "pytext list \<Rightarrow> pytext list option"  \<comment> \<open>where the path resolves, if below the workspace\<close>
  ro_bytes :: "pytext list \<Rightarrow> int list option"     \<comment> \<open>the bytes when \<open>is_file()\<close>, links followed\<close>
  ro_below :: "pytext list \<Rightarrow> pytext list list"

record ro_limits =
  ro_read_bytes :: int
  ro_output_bytes :: int
  ro_patterns :: "pytext list"

definition sensitive :: "ro_limits \<Rightarrow> pytext \<Rightarrow> bool" where
  "sensitive l relative =
     list_ex (\<lambda>p. fnmatch p relative \<or> fnmatch (remove_suffix (u ''/**'') p) relative) (ro_patterns l)"

definition ro_cap :: "ro_limits \<Rightarrow> pytext \<Rightarrow> pytext" where
  "ro_cap l v =
     (let raw = utf8 v
      in if int (length raw) \<le> ro_output_bytes l then v
         else decode_ignore (byte_prefix (ro_output_bytes l) raw) @ [10, 8230] @ u ''[truncated]'')"

definition ro_safe_path :: "rofs \<Rightarrow> pytext \<Rightarrow> pytext list result" where
  \<comment> \<open>always called with \<open>must_exist=True\<close>\<close>
  "ro_safe_path fs relative =
     guardE (relative = [] \<or> is_absolute relative \<or> dotdot \<in> set (path_parts relative) \<or> dotgit \<in> set (path_parts relative))
       (ValueError ''unsafe workspace path'')
       (guardE (\<not> ro_exists fs (path_parts relative)) FileNotFoundError
         (case ro_inside fs (path_parts relative) of
            None \<Rightarrow> Inl (ValueError ''path escapes workspace'')
          | Some p \<Rightarrow> Inr p))"

definition ro_files :: "rofs \<Rightarrow> pytext list \<Rightarrow> (pytext list \<times> int list) list" where
  \<comment> \<open>the regular files among \<open>sorted(root.rglob("*"))\<close>, outside \<open>.git\<close>\<close>
  "ro_files fs dir = List.map_filter
     (\<lambda>p. if dotgit \<in> set p then None else map_option (Pair p) (ro_bytes fs p)) (sort (ro_below fs dir))"

definition ro_list_files :: "rofs \<Rightarrow> ro_limits \<Rightarrow> json \<Rightarrow> json result" where
  "ro_list_files fs l params =
     bindE (ro_safe_path fs (str_or (field ''path'' params) ''.'')) (\<lambda>dir.
       guardE (\<not> ro_dir fs dir) (ValueError ''list_files path must be a directory'')
         (bindE (int_or (field ''limit'' params) 500) (\<lambda>n.
           let (names, truncated) = take_until (min n 2000) []
                 (filter (\<lambda>r. \<not> sensitive l r) (map (\<lambda>f. join [slash] (fst f)) (ro_files fs dir)))
           in Inr (JObj [(u ''files'', JList (map JStr names)), (u ''truncated'', JBool truncated),
                (u ''degraded'', JBool True)]))))"

definition ro_read_file :: "rofs \<Rightarrow> ro_limits \<Rightarrow> json \<Rightarrow> json result" where
  "ro_read_file fs l params =
     (let relative = str_or (field ''path'' params) []
      in guardE (sensitive l relative) (ValueError ''sensitive file cannot be read'')
         (bindE (ro_safe_path fs relative) (\<lambda>path.
           case ro_bytes fs path of
             None \<Rightarrow> Inl (ValueError ''read_file path must be a regular file'')
           | Some raw \<Rightarrow>
               guardE (ro_read_bytes l < int (length raw)) (ValueError ''file exceeds configured read limit'')
                 (guardE (0 \<in> set raw) (ValueError ''binary files cannot be read'')
                   (bindE (int_or (field ''start_line'' params) 1) (\<lambda>first.
                     bindE (int_or (field ''end_line'' params) 0) (\<lambda>stop.
                       let ls = splitlines (decode_replace raw); start = max first 1
                       in Inr (JObj [(u ''path'', JStr relative),
                            (u ''content'', JStr (ro_cap l (number_lines start (line_slice start stop ls)))),
                            (u ''size'', JInt (int (length raw))), (u ''line_count'', JInt (int (length ls))),
                            (u ''degraded'', JBool True)]))))))))"

fun search_file :: "ro_limits \<Rightarrow> (pytext \<Rightarrow> bool) \<Rightarrow> pytext \<Rightarrow> (int \<times> pytext) list \<Rightarrow> pytext list \<Rightarrow> pytext list \<times> bool" where
  \<comment> \<open>the lines of one file; the flag says that the output limit was reached\<close>
  "search_file l found name [] matches = (matches, False)"
| "search_file l found name ((n, line) # ls) matches =
     (if found line
      then (let matches = matches @ [name @ [58] @ int_repr n @ [58] @ line]
            in if ro_output_bytes l \<le> int (length (utf8 (join [10] matches))) then (matches, True)
               else search_file l found name ls matches)
      else search_file l found name ls matches)"

definition numbered :: "pytext list \<Rightarrow> (int \<times> pytext) list" where
  "numbered ls = zip (map int [1..<Suc (length ls)]) ls"

fun search_files :: "ro_limits \<Rightarrow> (pytext \<Rightarrow> bool) \<Rightarrow> (pytext list \<times> int list) list \<Rightarrow> pytext list \<Rightarrow> pytext list \<times> bool" where
  "search_files l found [] matches = (matches, False)"
| "search_files l found ((p, raw) # fs) matches =
     (let name = join [slash] p
      in if sensitive l name \<or> ro_read_bytes l < int (length raw) \<or> 0 \<in> set raw then search_files l found fs matches
         else (case search_file l found name (numbered (splitlines (decode_replace raw))) matches of
             (matches, True) \<Rightarrow> (matches, True)
           | (matches, False) \<Rightarrow> search_files l found fs matches))"

text \<open>
  The search expression: a fixed string, with letter case ignored unless asked otherwise (exact on
  ASCII letters); an expression of the caller is compiled by the \<open>re\<close> module, here \<open>compiled\<close>.
\<close>

definition finder :: "(pytext \<Rightarrow> bool \<Rightarrow> (pytext \<Rightarrow> bool) result) \<Rightarrow> json \<Rightarrow> pytext \<Rightarrow> (pytext \<Rightarrow> bool) result" where
  "finder compiled params pattern =
     (let exact = flag ''case_sensitive'' False params
      in if flag ''fixed_strings'' True params
         then Inr (if exact then contains pattern else (\<lambda>line. contains (lower pattern) (lower line)))
         else compiled pattern exact)"

definition ro_search_text :: "(pytext \<Rightarrow> bool \<Rightarrow> (pytext \<Rightarrow> bool) result) \<Rightarrow> rofs \<Rightarrow> ro_limits \<Rightarrow> json \<Rightarrow> json result" where
  "ro_search_text compiled fs l params =
     (let pattern = str_or (field ''pattern'' params) []
      in guardE (pattern = []) (ValueError ''search pattern is required'')
         (bindE (ro_safe_path fs (str_or (field ''path'' params) ''.'')) (\<lambda>dir.
           bindE (finder compiled params pattern) (\<lambda>found.
             case search_files l found (ro_files fs dir) [] of
               (matches, True) \<Rightarrow> Inr (JObj [(u ''matches'', JStr (ro_cap l (join [10] matches))),
                  (u ''found'', JBool True), (u ''truncated'', JBool True), (u ''degraded'', JBool True)])
             | (matches, False) \<Rightarrow> Inr (JObj [(u ''matches'', JStr (ro_cap l (join [10] matches))),
                  (u ''found'', JBool (matches \<noteq> [])), (u ''degraded'', JBool True)])))))"

definition ro_call :: "(pytext \<Rightarrow> bool \<Rightarrow> (pytext \<Rightarrow> bool) result) \<Rightarrow> rofs \<Rightarrow> ro_limits \<Rightarrow> bool \<Rightarrow> string \<Rightarrow> json \<Rightarrow> json result" where
  \<comment> \<open>the errors it answers as \<open>{"ok": False, ...}\<close> are the left values other than the first\<close>
  "ro_call compiled fs l started action params =
     (if \<not> started then Inl (SandboxError ''read-only workspace has not been started'')
      else if action = ''health'' then Inr (JObj [(u ''mode'', JStr (u ''read-only-no-host-shell''))])
      else if action = ''list_files'' then ro_list_files fs l params
      else if action = ''read_file'' then ro_read_file fs l params
      else if action = ''search_text'' then ro_search_text compiled fs l params
      else if action = ''git_status'' then Inr (JObj [(u ''status'', JStr []), (u ''degraded'', JBool True)])
      else if action = ''git_diff'' then Inr (JObj [(u ''diff'', JStr []), (u ''degraded'', JBool True)])
      else Inl (SandboxError ''requires Docker; host command and workspace writes remain disabled''))"

definition ro_install :: json where
  "ro_install = JObj [(u ''ok'', JBool False), (u ''error'', JStr (u ''dependency installation requires Docker''))]"

subsection \<open>Sensitive names\<close>

lemma search_skips_sensitive:
  "search_files l found (filter (\<lambda>f. \<not> sensitive l (join [slash] (fst f))) fs) ms = search_files l found fs ms"
  by (induction l found fs ms rule: search_files.induct) (auto simp: Let_def split: prod.splits bool.splits)

text \<open>
  The fallback compares the name as it was written with the sensitive patterns, the helper in the
  container compares its normal form: with \<open>.env\<close> sensitive, \<open>read_file\<close> of the fallback refuses
  \<open>.env\<close> and returns the same file for \<open>./.env\<close>, which the helper's check refuses.
\<close>

definition one_file :: rofs where
  "one_file = \<lparr>ro_exists = (\<lambda>p. p = [u ''.env'']), ro_dir = (\<lambda>p. p = []), ro_inside = Some,
     ro_bytes = (\<lambda>p. if p = [u ''.env''] then Some (utf8 (u ''KEY=1'')) else None), ro_below = (\<lambda>p. [[u ''.env'']])\<rparr>"

definition env_limits :: ro_limits where
  "env_limits = \<lparr>ro_read_bytes = 1000, ro_output_bytes = 1000, ro_patterns = [u ''.env'']\<rparr>"

theorem dotted_name_reads_sensitive_file:
  "ro_call (\<lambda>p e. Inl RecursionError) one_file env_limits True ''read_file'' (JObj [(u ''path'', JStr (u ''.env''))])
     = Inl (ValueError ''sensitive file cannot be read'')
   \<and> (case ro_call (\<lambda>p e. Inl RecursionError) one_file env_limits True ''read_file'' (JObj [(u ''path'', JStr (u ''./.env''))]) of
        Inl _ \<Rightarrow> False | Inr r \<Rightarrow> field ''content'' r = JStr (u ''1: KEY=1''))
   \<and> is_protected (u ''./.env'') (ro_patterns env_limits)"
  by code_simp

end
