(* ===== verification/Conversations.thy ===== *)
theory Conversations
  imports Message_Queue Schedules Control Credentials
begin

text \<open>
  The conversation side of \<open>web.py\<close>: which run of a conversation is the latest, when it blocks the
  follow-up queue, how a follow-up is prepared and submitted, how a finished run settles its message
  and starts the next one, and how due schedules are dispatched. The queue, the schedules and the
  credential vault are the models of those components; the task manager is seen through the state it
  reports for a run. The service runs these operations under one lock or one thread, so each is one
  step.
\<close>

subsection \<open>Runs and the service's state\<close>

datatype run_status = Created | Preparing | InProgress | Succeeded | NeedsAttention | RunFailed | RunInterrupted
  | RunPaused | WaitingInput | WaitingApproval | BudgetLimited | RunCancelled

record run =
  rn_id :: string
  rn_root :: "string option"     \<comment> \<open>\<open>metadata["task_spec"]["root_run_id"]\<close>\<close>
  rn_parent :: "string option"
  rn_item :: "string option"     \<comment> \<open>the queue item the run carries out\<close>
  rn_status :: run_status
  rn_task :: pytext
  rn_error :: "pytext option"
  rn_created :: nat
  rn_workspace :: bool           \<comment> \<open>the saved workspace is a directory\<close>
  rn_spec :: bool                \<comment> \<open>the saved task specification validates\<close>

record web =
  wb_runs :: "run list"
  wb_queues :: "(string, qevent list) dict"
  wb_jobs :: "(string, string) dict"   \<comment> \<open>the state \<open>manager.status\<close> reports\<close>
  wb_vault :: vault
  wb_schedules :: schedules
  wb_control :: "(string, control) dict"
  wb_clock :: nat

definition ACTIVE_STATUSES :: "run_status set" where
  "ACTIVE_STATUSES = {Created, Preparing, InProgress}"

definition QUEUE_BLOCKING_STATUSES :: "run_status set" where
  "QUEUE_BLOCKING_STATUSES = ACTIVE_STATUSES \<union> {NeedsAttention, RunPaused, WaitingInput, WaitingApproval}"

definition root_run_id :: "run \<Rightarrow> string" where
  "root_run_id r = (case rn_root r of None \<Rightarrow> rn_id r | Some x \<Rightarrow> if x = [] then rn_id r else x)"

definition load_record :: "web \<Rightarrow> string \<Rightarrow> run option" where
  "load_record w i = first_such (\<lambda>r. rn_id r = i) (wb_runs w)"

definition conversation_records :: "web \<Rightarrow> run \<Rightarrow> run list" where
  "conversation_records w selected =
     (let records = filter (\<lambda>r. root_run_id r = root_run_id selected) (wb_runs w)
      in if records = [] then [selected] else sort_key rn_created records)"

definition job_active :: "web \<Rightarrow> string \<Rightarrow> bool" where
  "job_active w i \<longleftrightarrow> dget (wb_jobs w) i \<in> {Some ''queued'', Some ''running''}"

definition run_blocks_queue :: "web \<Rightarrow> run \<Rightarrow> bool \<Rightarrow> bool" where
  "run_blocks_queue w r ignore_job \<longleftrightarrow>
     rn_status r \<in> QUEUE_BLOCKING_STATUSES \<or> (\<not> ignore_job \<and> job_active w (rn_id r))"

definition queue_of :: "web \<Rightarrow> string \<Rightarrow> qevent list" where
  "queue_of w rid = (case dget (wb_queues w) rid of None \<Rightarrow> [] | Some es \<Rightarrow> es)"

definition set_queue :: "string \<Rightarrow> qevent list \<Rightarrow> web \<Rightarrow> web" where
  "set_queue rid es w = w\<lparr>wb_queues := dput rid es (wb_queues w)\<rparr>"

subsection \<open>Preparing and submitting a follow-up\<close>

definition prepare_followup :: "web \<Rightarrow> run \<Rightarrow> pytext \<Rightarrow> string \<Rightarrow> string option \<Rightarrow> (web \<times> run) result" where
  \<comment> \<open>the parent is the latest run of the conversation; every text of the conversation is sanitised
      again and the credentials go to the vault of its rid\<close>
  "prepare_followup w selected message followup_id item =
     (let conversation = conversation_records w selected; parent = last conversation; base = hd conversation
      in guardE (\<not> rn_workspace parent) (ValueError ''saved workspace is missing'')
        (guardE (\<not> rn_spec parent) (ValueError ''saved task configuration is invalid'')
          (let (sanitized, credentials) = sanitize_and_capture_credentials (map rn_task conversation @ [message])
           in bindE (vault_merge (wb_vault w) (u (rn_id base)) credentials) (\<lambda>v.
                let safe = zip (map rn_id conversation) sanitized;
                    runs = map (\<lambda>r. case dget safe (rn_id r) of None \<Rightarrow> r | Some t \<Rightarrow> r\<lparr>rn_task := t\<rparr>) (wb_runs w)
                in Inr (w\<lparr>wb_vault := v, wb_runs := runs\<rparr>,
                     \<lparr>rn_id = followup_id, rn_root = Some (rn_id base), rn_parent = Some (rn_id parent),
                      rn_item = item, rn_status = Created, rn_task = last sanitized, rn_error = None,
                      rn_created = wb_clock w, rn_workspace = True, rn_spec = True\<rparr>)))))"

definition submit :: "web \<Rightarrow> string \<Rightarrow> web result" where
  \<comment> \<open>\<open>manager.submit\<close>, by the state it reports\<close>
  "submit w i = guardE (job_active w i) (ValueError ''run already has an active job'')
     (Inr (w\<lparr>wb_jobs := dput i ''queued'' (wb_jobs w)\<rparr>))"

definition submit_spec :: "web \<Rightarrow> run \<Rightarrow> web result" where
  "submit_spec w spec =
     submit (if load_record w (rn_id spec) = None
             then w\<lparr>wb_runs := wb_runs w @ [spec\<lparr>rn_created := wb_clock w\<rparr>], wb_clock := wb_clock w + 1\<rparr> else w) (rn_id spec)"

subsection \<open>Dispatching the next message\<close>

definition settle_running :: "(qevent list \<Rightarrow> imessage list) \<Rightarrow> string \<Rightarrow> web \<Rightarrow> string \<Rightarrow> string option \<Rightarrow> (web + string) option" where
  \<comment> \<open>the message that is marked running: its run still blocks (\<open>Inr\<close> the run), or it is released or
      completed (\<open>Inl\<close> the new state); \<open>None\<close> when the queue refuses\<close>
  "settle_running restore fresh w rid finished =
     (case first_such (\<lambda>x. qi_status x = QRunning) (active (queue_of w rid) []) of
        None \<Rightarrow> Some (Inl w)
      | Some it \<Rightarrow>
          (let queued = (case qi_run it of None \<Rightarrow> [] | Some r \<Rightarrow> r)
           in case load_record w queued of
                None \<Rightarrow>
                  if queued \<noteq> [] \<and> job_active w queued then Some (Inr queued)
                  else (case release restore (queue_of w rid) [] (qi_id it) [] fresh of
                      Inl _ \<Rightarrow> None | Inr es \<Rightarrow> Some (Inl (set_queue rid es w)))
              | Some r \<Rightarrow>
                  if run_blocks_queue w r (finished = Some (rn_id r)) then Some (Inr queued)
                  else (case complete restore (queue_of w rid) [] (qi_id it) [] fresh of
                      Inl _ \<Rightarrow> None | Inr es \<Rightarrow> Some (Inl (set_queue rid es w)))))"

definition start_pending :: "(qevent list \<Rightarrow> imessage list) \<Rightarrow> string \<times> string \<times> string \<Rightarrow> web \<Rightarrow> string \<Rightarrow> run \<Rightarrow> web \<times> string option" where
  "start_pending restore ids w rid parent =
     (case ids of (followup_id, fresh, now) \<Rightarrow>
      (case first_such (\<lambda>x. qi_status x = QPending) (active (queue_of w rid) []) of
         None \<Rightarrow> (w, None)
       | Some it \<Rightarrow>
          (case prepare_followup w parent (qi_message it) followup_id (Some (qi_id it)) of
             Inl e \<Rightarrow>
               (case complete restore (queue_of w rid) [] (qi_id it) (u ''cannot prepare the follow-up'') now of
                  Inl _ \<Rightarrow> (w, None) | Inr es \<Rightarrow> (set_queue rid es w, None))
           | Inr (w1, spec) \<Rightarrow>
               (case claim restore (queue_of w1 rid) [] (qi_id it) followup_id fresh now of
                  (es, None) \<Rightarrow> (set_queue rid es w1, None)
                | (es, Some claimed) \<Rightarrow>
                    (case submit_spec (set_queue rid es w1) spec of
                       Inr w2 \<Rightarrow> (w2, Some followup_id)
                     | Inl e \<Rightarrow>
                         (case release restore es [] (qi_id claimed) (u ''run already has an active job'') fresh of
                            Inl _ \<Rightarrow> (set_queue rid es w1, None)
                          | Inr es' \<Rightarrow> (set_queue rid es' w1, None)))))))"

definition dispatch_next :: "(qevent list \<Rightarrow> imessage list) \<Rightarrow> string \<times> string \<times> string \<Rightarrow> web \<Rightarrow> string \<Rightarrow> string option
    \<Rightarrow> web \<times> string option" where
  "dispatch_next restore ids w rid finished =
     (case load_record w rid of
        None \<Rightarrow> (w, None)
      | Some r \<Rightarrow>
          (let parent = last (conversation_records w r)
           in if run_blocks_queue w parent (finished = Some (rn_id parent)) then (w, None)
              else (case settle_running restore (snd (snd ids)) w rid finished of
                  None \<Rightarrow> (w, None)
                | Some (Inr queued) \<Rightarrow> (w, Some queued)
                | Some (Inl w1) \<Rightarrow> start_pending restore ids w1 rid parent)))"

definition settle_and_dispatch :: "(qevent list \<Rightarrow> imessage list) \<Rightarrow> string \<times> string \<times> string \<Rightarrow> web \<Rightarrow> string \<Rightarrow> string \<Rightarrow> string option
    \<Rightarrow> web" where
  \<comment> \<open>at the end of a run, inside its job\<close>
  "settle_and_dispatch restore ids w rid i item =
     (case load_record w i of
        None \<Rightarrow>
          (case item of
             None \<Rightarrow> w
           | Some q \<Rightarrow> (case complete restore (queue_of w rid) [] q (u ''run not found'') (snd (snd ids)) of
                 Inl _ \<Rightarrow> w | Inr es \<Rightarrow> set_queue rid es w))
      | Some r \<Rightarrow>
          if run_blocks_queue w r True then w
          else (let w1 = (case item of
                    None \<Rightarrow> w
                  | Some q \<Rightarrow>
                      (case complete restore (queue_of w rid) [] q
                          (if rn_status r = RunFailed then (case rn_error r of None \<Rightarrow> [] | Some t \<Rightarrow> t) else [])
                          (snd (snd ids)) of
                         Inl _ \<Rightarrow> w | Inr es \<Rightarrow> set_queue rid es w))
                in fst (dispatch_next restore ids w1 rid (Some i))))"

subsection \<open>Requests\<close>

definition create_followup :: "(qevent list \<Rightarrow> imessage list) \<Rightarrow> string \<times> string \<times> string \<Rightarrow> web \<Rightarrow> string \<Rightarrow> pytext \<Rightarrow> pytext option \<Rightarrow> string
    \<Rightarrow> (web \<times> string) result" where
  \<comment> \<open>the second component is the status of the answer\<close>
  "create_followup restore ids w i message key item_id =
     (case load_record w i of
        None \<Rightarrow> Inl FileNotFoundError
      | Some selected \<Rightarrow>
          (let conversation = conversation_records w selected; parent = last conversation; rid = rn_id (hd conversation);
               busy = (rn_status parent \<in> QUEUE_BLOCKING_STATUSES \<or> job_active w (rn_id parent))
           in if busy \<or> active (queue_of w rid) [] \<noteq> []
              then (let (sanitized, credentials) = sanitize_and_capture_credentials [message]
                    in bindE (vault_merge (wb_vault w) (u rid) credentials) (\<lambda>v.
                         let (es, it) = enqueue (queue_of w rid) [] item_id (hd sanitized) key (snd (snd ids));
                             w1 = set_queue rid es (w\<lparr>wb_vault := v\<rparr>)
                         in Inr (if busy then w1 else fst (dispatch_next restore ids w1 rid None), ''followup_queued'')))
              else bindE (prepare_followup w parent message (fst ids) None) (\<lambda>(w1, spec).
                     bindE (submit_spec w1 spec) (\<lambda>w2. Inr (w2, ''queued'')))))"

definition guide_message :: "(qevent list \<Rightarrow> imessage list) \<Rightarrow> web \<Rightarrow> string \<Rightarrow> string \<Rightarrow> string \<Rightarrow> web result" where
  "guide_message restore w i item now =
     (case load_record w i of
        None \<Rightarrow> Inl FileNotFoundError
      | Some selected \<Rightarrow>
          (let conversation = conversation_records w selected; current = last conversation; rid = rn_id (hd conversation)
           in guardE (rn_status current \<notin> ACTIVE_STATUSES \<and> \<not> job_active w (rn_id current))
                (ValueError ''only an active run accepts guidance'')
                (bindE (guide restore (queue_of w rid) [] item now) (\<lambda>(es, it).
                  (case add_steering (dget (wb_control w) (rn_id current)) (qi_message it) now of
                     (None, _) \<Rightarrow> Inr (set_queue rid es w)
                   | (Some c, _) \<Rightarrow> Inr ((set_queue rid es w)\<lparr>wb_control := dput (rn_id current) c (wb_control w)\<rparr>))))))"

definition resume_run :: "web \<Rightarrow> string \<Rightarrow> web result" where
  "resume_run w i =
     (case load_record w i of
        None \<Rightarrow> Inl FileNotFoundError
      | Some r \<Rightarrow>
          guardE (rn_status r \<notin> {RunFailed, RunInterrupted, RunPaused, NeedsAttention}) (ValueError ''run is not resumable'')
            (case set_control (dget (wb_control w) i) RRunning [] [] of
               (None, _) \<Rightarrow> submit w i
             | (Some c, _) \<Rightarrow> submit (w\<lparr>wb_control := dput i c (wb_control w)\<rparr>) i))"

definition control_run :: "web \<Rightarrow> string \<Rightarrow> rstate \<Rightarrow> pytext \<Rightarrow> string \<Rightarrow> web result" where
  \<comment> \<open>\<open>pause_run\<close> and \<open>cancel_run\<close>\<close>
  "control_run w i st reason now =
     (case load_record w i of
        None \<Rightarrow> Inl FileNotFoundError
      | Some r \<Rightarrow>
          guardE (rn_status r \<notin> ACTIVE_STATUSES) (ValueError ''only an active run can be paused or cancelled'')
            (case set_control (dget (wb_control w) i) st (strip reason) now of
               (None, _) \<Rightarrow> Inr w
             | (Some c, _) \<Rightarrow> Inr (w\<lparr>wb_control := dput i c (wb_control w)\<rparr>)))"

definition recover_stale :: "web \<Rightarrow> web" where
  "recover_stale w = w\<lparr>wb_runs := map (\<lambda>r.
     if rn_status r \<notin> ACTIVE_STATUSES \<or> job_active w (rn_id r) then r
     else r\<lparr>rn_status := RunInterrupted,
       rn_error := Some (u ''LightWorker service restarted; this task can be resumed from its durable workspace.'')\<rparr>) (wb_runs w)\<rparr>"

subsection \<open>Schedules\<close>

definition dispatch_schedule :: "web \<Rightarrow> time \<Rightarrow> schedule \<Rightarrow> web" where
  \<comment> \<open>one claimed schedule; a failure is recorded on it, a lost claim is ignored\<close>
  "dispatch_schedule w now s =
     (let finish = (\<lambda>w err. case dispatched (wb_schedules w) (s_id s) (s_epoch s) err now of
                      Inl _ \<Rightarrow> w | Inr d \<Rightarrow> w\<lparr>wb_schedules := d\<rparr>);
          failed = Some (u ''schedule could not be dispatched'')
      in case load_record w (s_source s) of
           None \<Rightarrow> finish w failed
         | Some src \<Rightarrow>
             if run_blocks_queue w src False then finish w failed
             else (case s_pending s of
                 None \<Rightarrow> finish w failed
               | Some i \<Rightarrow>
                   if dget (wb_jobs w) i \<noteq> None \<or> load_record w i \<noteq> None then finish w None
                   else (case bindE (prepare_followup w src (s_task s) i None) (\<lambda>(w1, spec). submit_spec w1 spec) of
                       Inl e \<Rightarrow> finish w failed
                     | Inr w1 \<Rightarrow> finish w1 None)))"

definition dispatch_schedules :: "(string \<Rightarrow> string) \<Rightarrow> (nat \<Rightarrow> string) \<Rightarrow> web \<Rightarrow> time \<Rightarrow> web" where
  "dispatch_schedules sha str w now =
     (let (d, claimed) = due sha str (wb_schedules w) now
      in foldl (\<lambda>w s. dispatch_schedule w now s) (w\<lparr>wb_schedules := d\<rparr>) claimed)"

subsection \<open>What a prepared follow-up changes\<close>

definition retasked :: "run \<Rightarrow> run \<Rightarrow> bool" where
  \<comment> \<open>equal but for the text of the task\<close>
  "retasked r s \<longleftrightarrow> s = r\<lparr>rn_task := rn_task s\<rparr>"

lemma retasked_fields:
  assumes "retasked r s"
  shows "rn_id s = rn_id r" "root_run_id s = root_run_id r" "rn_status s = rn_status r" "rn_created s = rn_created r"
proof -
  obtain t where "s = r\<lparr>rn_task := t\<rparr>" using assms by (auto simp: retasked_def)
  then show "rn_id s = rn_id r" "root_run_id s = root_run_id r" "rn_status s = rn_status r" "rn_created s = rn_created r"
    by (simp_all add: root_run_id_def split: option.splits)
qed

lemma prepare_followup_Inr:
  assumes "prepare_followup w sel m f item = Inr (w1, spec)"
  shows "(\<exists>g. wb_runs w1 = map g (wb_runs w) \<and> (\<forall>r. retasked r (g r)))
     \<and> wb_queues w1 = wb_queues w \<and> wb_jobs w1 = wb_jobs w \<and> wb_clock w1 = wb_clock w
     \<and> rn_id spec = f \<and> rn_root spec = Some (rn_id (hd (conversation_records w sel)))
     \<and> rn_parent spec = Some (rn_id (last (conversation_records w sel)))
     \<and> rn_status spec = Created \<and> rn_item spec = item"
proof -
  obtain sanitized credentials where sc: "sanitize_and_capture_credentials
      (map rn_task (conversation_records w sel) @ [m]) = (sanitized, credentials)" by force
  define g :: "run \<Rightarrow> run" where "g = (\<lambda>r. case dget (zip (map rn_id (conversation_records w sel)) sanitized) (rn_id r) of
      None \<Rightarrow> r | Some t \<Rightarrow> r\<lparr>rn_task := t\<rparr>)"
  have "retasked r (g r)" for r by (simp add: retasked_def g_def split: option.splits)
  moreover have "wb_runs w1 = map g (wb_runs w)" "wb_queues w1 = wb_queues w" "wb_jobs w1 = wb_jobs w"
    "wb_clock w1 = wb_clock w" "rn_id spec = f" "rn_root spec = Some (rn_id (hd (conversation_records w sel)))"
    "rn_parent spec = Some (rn_id (last (conversation_records w sel)))" "rn_status spec = Created" "rn_item spec = item"
    using assms unfolding prepare_followup_def Let_def sc g_def by (auto simp: bind_simps)
  ultimately show ?thesis by blast
qed

lemma first_such_map: "first_such p (map g xs) = map_option g (first_such (\<lambda>x. p (g x)) xs)"
  by (induction xs) auto

lemma first_such_filter: "(\<And>x. p x \<Longrightarrow> q x) \<Longrightarrow> first_such p (filter q xs) = first_such p xs"
  by (induction xs) auto

lemma first_such_cong: "(\<And>x. p x = q x) \<Longrightarrow> first_such p xs = first_such q xs"
  by (induction xs) auto

lemma sort_key_Nil_iff: "sort_key f xs = [] \<longleftrightarrow> xs = []"
  by (metis set_empty set_sort)

lemma insort_key_snoc: "f x \<le> f y \<Longrightarrow> insort_key f x (zs @ [y]) = insort_key f x zs @ [y]"
  by (induction zs) auto

lemma sort_key_snoc_max:
  fixes f :: "'a \<Rightarrow> 'b::linorder"
  assumes "\<forall>x\<in>set xs. f x \<le> f y"
  shows "sort_key f (xs @ [y]) = sort_key f xs @ [y]"
  using assms by (induction xs) (simp_all add: sort_key_def insort_key_snoc)

definition clock_ahead :: "web \<Rightarrow> bool" where
  \<comment> \<open>creation instants lie in the past\<close>
  "clock_ahead w \<longleftrightarrow> (\<forall>r\<in>set (wb_runs w). rn_created r < wb_clock w)"

lemma submitted_is_last:
  assumes "prepare_followup w sel m f item = Inr (w1, spec)" and "load_record w f = None" and "clock_ahead w"
    and "submit_spec w1' spec = Inr w2" and "wb_runs w1' = wb_runs w1" "wb_clock w1' = wb_clock w1"
    and "load_record w rid = Some r0" and "root_run_id r0 = rid" "rn_id (hd (conversation_records w sel)) = rid" "rid \<noteq> []"
  shows "\<exists>r new. load_record w2 rid = Some r \<and> last (conversation_records w2 r) = new \<and> rn_id new = f
     \<and> rn_status new = Created \<and> root_run_id new = rid \<and> rn_item new = item
     \<and> wb_jobs w2 = dput f ''queued'' (wb_jobs w1') \<and> wb_queues w2 = wb_queues w1'"
proof -
  obtain g where g: "wb_runs w1 = map g (wb_runs w)" "\<And>r. retasked r (g r)"
    and p: "wb_clock w1 = wb_clock w" "rn_id spec = f" "rn_root spec = Some rid" "rn_status spec = Created" "rn_item spec = item"
    using prepare_followup_Inr [OF assms(1)] assms(9) by auto
  define new where "new = spec\<lparr>rn_created := wb_clock w\<rparr>"
  have gf: "rn_id (g r) = rn_id r" "root_run_id (g r) = root_run_id r" "rn_created (g r) = rn_created r" for r
    using retasked_fields [OF g(2)] by auto
  have absent: "load_record w1' f = None"
    using assms(2,5) g(1) gf by (simp add: load_record_def first_such_map)
  have runs: "wb_runs w2 = map g (wb_runs w) @ [new]" and jobs: "wb_jobs w2 = dput f ''queued'' (wb_jobs w1')"
    and queues: "wb_queues w2 = wb_queues w1'"
    using assms(4,5,6) absent g(1) p by (auto simp: submit_spec_def submit_def new_def bind_simps)
  have root: "load_record w2 rid = Some (g r0)"
    using assms(7) gf unfolding load_record_def runs by (simp add: first_such_append first_such_map)
  have newroot: "root_run_id new = rid" using p(3) assms(10) by (simp add: new_def root_run_id_def)
  have "last (conversation_records w2 (g r0)) = new"
  proof -
    have keep: "filter (\<lambda>r. root_run_id r = root_run_id (g r0)) (wb_runs w2)
        = filter (\<lambda>r. root_run_id r = rid) (map g (wb_runs w)) @ [new]"
      using runs newroot gf(2) assms(8) by simp
    have "\<forall>x\<in>set (filter (\<lambda>r. root_run_id r = rid) (map g (wb_runs w))). rn_created x \<le> rn_created new"
      using assms(3) gf(3) by (auto simp: clock_ahead_def new_def intro: less_imp_le)
    from sort_key_snoc_max [OF this] show ?thesis
      unfolding conversation_records_def Let_def keep by simp
  qed
  with root newroot jobs queues p(2,4,5) show ?thesis
    by (intro exI [of _ "g r0"] exI [of _ new]) (simp add: new_def)
qed

subsection \<open>Properties\<close>

lemma pending_abs:
  assumes "hist es" and "first_such (\<lambda>(k, s). s = QPending) (abs_queue es) = Some (i, st)"
  shows "\<exists>x. first_such (\<lambda>x. qi_status x = QPending) (active es []) = Some x \<and> qi_id x = i"
proof -
  have "map_option qi_id (first_such (\<lambda>x. qi_status x = QPending) (project es)) = Some i"
    using first_pending [of "project es"] assms(2) by (simp add: abs_queue_def)
  moreover have "first_such (\<lambda>x. qi_status x = QPending) (active es [])
      = first_such (\<lambda>x. qi_status x = QPending) (project es)"
    unfolding active_def migrated_nil by (rule first_such_filter) simp
  ultimately show ?thesis by auto
qed

lemma none_running_abs:
  assumes "QRunning \<notin> snd ` set (abs_queue es)"
  shows "first_such (\<lambda>x. qi_status x = QRunning) (active es []) = None"
proof -
  have "qi_status x \<noteq> QRunning" if "x \<in> set (project es)" for x
    using assms that by (auto simp: abs_queue_def image_iff)
  then show ?thesis by (simp add: first_such_None_iff active_def)
qed

text \<open>
  C38. An idle conversation starts its first waiting message, once. If the latest run of the conversation
  does not block, no message is marked running and the first pending message can be prepared, then
  dispatching claims exactly that message, submits a new run for it that becomes the latest of the
  conversation, and dispatching again starts nothing: the new run blocks the queue.
\<close>

theorem idle_conversation_starts_first_message:
  assumes "hist (queue_of w rid)" and "load_record w rid = Some r0" "root_run_id r0 = rid" "rid \<noteq> []"
    and "rn_id (hd (conversation_records w r0)) = rid" and "clock_ahead w"
    and "\<not> run_blocks_queue w (last (conversation_records w r0)) False"
    and "QRunning \<notin> snd ` set (abs_queue (queue_of w rid))"
    and "first_such (\<lambda>(k, s). s = QPending) (abs_queue (queue_of w rid)) = Some (i, st)"
    and "\<And>m. \<exists>p. prepare_followup w (last (conversation_records w r0)) m f (Some i) = Inr p"
    and "load_record w f = None" "\<not> job_active w f"
  shows "\<exists>w' r new. dispatch_next restore (f, fresh, now) w rid None = (w', Some f)
     \<and> abs_queue (queue_of w' rid) = aset i QRunning (abs_queue (queue_of w rid))
     \<and> dget (wb_jobs w') f = Some ''queued''
     \<and> load_record w' rid = Some r \<and> last (conversation_records w' r) = new \<and> rn_id new = f
     \<and> rn_status new = Created \<and> rn_item new = Some i
     \<and> dispatch_next restore ids w' rid None = (w', None)"
proof -
  define parent where "parent = last (conversation_records w r0)"
  obtain x where x: "first_such (\<lambda>x. qi_status x = QPending) (active (queue_of w rid) []) = Some x" "qi_id x = i"
    using pending_abs [OF assms(1,9)] by blast
  obtain w1 spec where prep: "prepare_followup w parent (qi_message x) f (Some i) = Inr (w1, spec)"
    using assms(10) unfolding parent_def by fastforce
  have prep_eq: "prepare_followup w parent (qi_message x) f (Some (qi_id x)) = Inr (w1, spec)" using prep x(2) by simp
  have w1: "wb_queues w1 = wb_queues w" "wb_jobs w1 = wb_jobs w" "rn_id spec = f"
    using prepare_followup_Inr [OF prep] by auto
  have q1: "queue_of w1 rid = queue_of w rid" using w1(1) by (simp add: queue_of_def)
  have ac: "aclaim i (abs_queue (queue_of w rid)) = Some (aset i QRunning (abs_queue (queue_of w rid)))"
    using assms(8,9) by (simp add: aclaim_def)
  obtain es c where cl: "claim restore (queue_of w rid) [] i f fresh now = (es, Some c)"
    and es: "abs_queue es = aset i QRunning (abs_queue (queue_of w rid))"
    using claim_refines [OF assms(1), of restore i f fresh now] ac
    by (cases "claim restore (queue_of w rid) [] i f fresh now") auto
  define w2 where "w2 = set_queue rid es w1"
  have idle: "\<not> job_active w2 f" using assms(12) w1(2) by (simp add: w2_def set_queue_def job_active_def)
  have "\<not> job_active (if load_record w2 f = None
      then w2\<lparr>wb_runs := wb_runs w2 @ [spec\<lparr>rn_created := wb_clock w2\<rparr>], wb_clock := wb_clock w2 + 1\<rparr> else w2) f"
    using idle by (simp add: job_active_def)
  then obtain w3 where sub: "submit_spec w2 spec = Inr w3" using w1(3) by (auto simp: submit_spec_def submit_def)
  have base: "conversation_records w parent = conversation_records w r0"
  proof -
    have "parent \<in> set (conversation_records w r0)"
      unfolding parent_def conversation_records_def Let_def
      by (rule last_in_set) (auto simp: sort_key_Nil_iff)
    then have "root_run_id parent = root_run_id r0"
      by (auto simp: conversation_records_def Let_def split: if_splits)
    moreover have "r0 \<in> set (wb_runs w)" using first_such_Some assms(2) unfolding load_record_def by fast
    ultimately show ?thesis
      by (auto simp: conversation_records_def Let_def filter_empty_conv)
  qed
  have sp: "start_pending restore (f, fresh, now) w rid parent = (w3, Some f)"
    using x(1) prep_eq q1 cl sub x(2) by (simp add: start_pending_def w2_def)
  have d: "dispatch_next restore (f, fresh, now) w rid None = (w3, Some f)"
    using assms(2,7) none_running_abs [OF assms(8)] sp
    by (simp add: dispatch_next_def settle_running_def parent_def [symmetric] Let_def)
  obtain r new where fin: "load_record w3 rid = Some r" "last (conversation_records w3 r) = new" "rn_id new = f"
    "rn_status new = Created" "rn_item new = Some i" "wb_jobs w3 = dput f ''queued'' (wb_jobs w2)" "wb_queues w3 = wb_queues w2"
    using submitted_is_last [OF prep assms(11,6) sub _ _ assms(2,3) _ assms(4)] base assms(5)
    by (auto simp: w2_def set_queue_def)
  have "abs_queue (queue_of w3 rid) = aset i QRunning (abs_queue (queue_of w rid))"
    using fin(7) es by (simp add: queue_of_def w2_def set_queue_def dget_dput)
  moreover have "dget (wb_jobs w3) f = Some ''queued''" using fin(6) by (simp add: dget_dput)
  moreover have "dispatch_next restore ids w3 rid None = (w3, None)"
    using fin(1,2,4) by (simp add: dispatch_next_def Let_def run_blocks_queue_def QUEUE_BLOCKING_STATUSES_def ACTIVE_STATUSES_def)
  ultimately show ?thesis using d fin by blast
qed

lemma prepare_succeeds:
  assumes "rn_workspace (last (conversation_records w sel))" "rn_spec (last (conversation_records w sel))"
    and "SAFE_IDENTIFIER (u (rn_id (hd (conversation_records w sel))))"
  shows "\<exists>p. prepare_followup w sel m f item = Inr p"
proof -
  obtain sanitized credentials where sc: "sanitize_and_capture_credentials
      (map rn_task (conversation_records w sel) @ [m]) = (sanitized, credentials)" by force
  have "\<exists>v. vault_merge (wb_vault w) (u (rn_id (hd (conversation_records w sel)))) credentials = Inr v"
    using assms(3) by (simp add: vault_merge_def Let_def)
  with assms(1,2) show ?thesis unfolding prepare_followup_def Let_def sc by auto
qed

definition first_run :: run where
  "first_run = \<lparr>rn_id = ''r1'', rn_root = None, rn_parent = None, rn_item = None, rn_status = Succeeded,
     rn_task = u ''x'', rn_error = None, rn_created = 0, rn_workspace = True, rn_spec = True\<rparr>"

definition quiet_web :: web where
  "quiet_web = \<lparr>wb_runs = [first_run], wb_queues = [(''r1'', example_queue)], wb_jobs = [], wb_vault = [],
     wb_schedules = [], wb_control = [], wb_clock = 1\<rparr>"

lemma quiet_conversation: "conversation_records quiet_web first_run = [first_run]"
  by (simp add: conversation_records_def quiet_web_def first_run_def root_run_id_def)

theorem idle_conversation_starts_first_message_witness:
  "\<exists>w'. dispatch_next (\<lambda>es. []) (''r2'', ''m'', ''t'') quiet_web ''r1'' None = (w', Some ''r2'')
     \<and> dispatch_next (\<lambda>es. []) (''r3'', ''m'', ''t'') w' ''r1'' None = (w', None)"
proof -
  have q: "hist (queue_of quiet_web ''r1'')" "abs_queue (queue_of quiet_web ''r1'') = [(''a'', QPending)]"
    using example_queue_hist by (simp_all add: queue_of_def quiet_web_def)
  have l: "load_record quiet_web ''r1'' = Some first_run" "load_record quiet_web ''r2'' = None"
    by (simp_all add: load_record_def quiet_web_def first_run_def)
  have "SAFE_IDENTIFIER (u ''r1'')" by code_simp
  then have p: "\<exists>p. prepare_followup quiet_web (last (conversation_records quiet_web first_run)) m ''r2'' (Some ''a'') = Inr p" for m
    unfolding quiet_conversation by (intro prepare_succeeds) (simp_all add: quiet_conversation, simp_all add: first_run_def)
  have more: "root_run_id first_run = ''r1''" "rn_id (hd (conversation_records quiet_web first_run)) = ''r1''"
    "clock_ahead quiet_web" "\<not> run_blocks_queue quiet_web (last (conversation_records quiet_web first_run)) False"
    "\<not> job_active quiet_web ''r2''"
    unfolding quiet_conversation
    by (simp_all add: root_run_id_def first_run_def clock_ahead_def quiet_web_def run_blocks_queue_def job_active_def
        QUEUE_BLOCKING_STATUSES_def ACTIVE_STATUSES_def)
  have "QRunning \<notin> snd ` set (abs_queue (queue_of quiet_web ''r1''))"
    "first_such (\<lambda>(k, s). s = QPending) (abs_queue (queue_of quiet_web ''r1'')) = Some (''a'', QPending)"
    using q(2) by auto
  from idle_conversation_starts_first_message [OF q(1) l(1) more(1) _ more(2,3,4) this p l(2) more(5),
      of "\<lambda>es. []" "''m''" "''t''" "(''r3'', ''m'', ''t'')"]
  show ?thesis by auto
qed

text \<open>
  A due schedule starts a second run in a busy conversation. The dispatcher looks at the status of
  the schedule's source run, not at the latest run of its conversation: with the source finished and a
  follow-up of it in progress, the schedule prepares and submits another follow-up in the same
  workspace, although the follow-up queue would wait.
\<close>

definition busy_web :: web where
  "busy_web = quiet_web\<lparr>wb_runs := [first_run, first_run\<lparr>rn_id := ''r2'', rn_root := Some ''r1'',
        rn_parent := Some ''r1'', rn_status := InProgress, rn_created := 1\<rparr>],
      wb_jobs := [(''r2'', ''running'')], wb_clock := 2,
      wb_schedules := [(''a'', \<lparr>s_id = ''a'', s_task = u ''y'', s_source = ''r1'', s_next = 0, s_interval = None,
        s_status = Active, s_occurrence = 0, s_until = 0, s_epoch = 0, s_pending = None, s_last = None, s_error = None\<rparr>)]\<rparr>"

theorem schedule_starts_second_run:
  "map rn_id (filter (\<lambda>r. job_active (dispatch_schedules (\<lambda>t. ''r3'') (\<lambda>n. []) busy_web 1) (rn_id r))
      (conversation_records (dispatch_schedules (\<lambda>t. ''r3'') (\<lambda>n. []) busy_web 1) first_run)) = [''r2'', ''r3'']
   \<and> dispatch_next (\<lambda>es. []) (''r4'', ''m'', ''t'') busy_web ''r1'' None = (busy_web, None)"
proof
  show "map rn_id (filter (\<lambda>r. job_active (dispatch_schedules (\<lambda>t. ''r3'') (\<lambda>n. []) busy_web 1) (rn_id r))
      (conversation_records (dispatch_schedules (\<lambda>t. ''r3'') (\<lambda>n. []) busy_web 1) first_run)) = [''r2'', ''r3'']"
    by code_simp
  show "dispatch_next (\<lambda>es. []) (''r4'', ''m'', ''t'') busy_web ''r1'' None = (busy_web, None)"
    by (simp add: dispatch_next_def load_record_def conversation_records_def busy_web_def quiet_web_def first_run_def
        root_run_id_def run_blocks_queue_def QUEUE_BLOCKING_STATUSES_def ACTIVE_STATUSES_def)
qed

end
