(* ===== verification/Task_Scheduler.thy ===== *)
theory Task_Scheduler
  imports Jobs
begin

text \<open>
  \<open>TaskScheduler\<close> of \<open>web.py\<close>: the executor's in-memory states beside the durable job registry of a
  run. The model follows one run with its registry; the executor hands a submitted activation to a
  worker later, which claims the durable job first.
\<close>

datatype mem_state = MQueued | MRunning | MFailed pytext | MCompleted

record sched =
  sc_states :: "(string, mem_state) dict"
  sc_futures :: "(string \<times> string) list"   \<comment> \<open>submitted and not yet begun: run and job\<close>
  sc_registry :: registry

definition active_task :: "job \<Rightarrow> bool" where
  "active_task j \<longleftrightarrow> j_kind j = ''task'' \<and> j_status j \<in> {Pending, Running}"

definition task_payload :: "string \<Rightarrow> json" where
  "task_payload action = JObj [(u ''action'', JStr (u action))]"

definition submit_task :: "sched \<Rightarrow> string \<Rightarrow> string \<Rightarrow> string \<Rightarrow> nat \<Rightarrow> nat list \<Rightarrow> time \<Rightarrow> sched \<times> unit result" where
  \<comment> \<open>the state set before an error stays unless the code takes it back\<close>
  "submit_task s run action i pid alive now =
     (if dget (sc_states s) run \<in> {Some MQueued, Some MRunning}
      then (s, Inl (ValueError ''run already has an active job''))
      else (let r = recover (sc_registry s) alive now
            in if list_ex active_task (dvals (r_jobs r))
               then (s\<lparr>sc_registry := r, sc_states := filter (\<lambda>kv. fst kv \<noteq> run) (sc_states s)\<rparr>,
                     Inl (ValueError ''task already has a durable activation''))
               else (case create_job r i ''task'' (task_payload action) None None None pid now of
                   (r', j) \<Rightarrow> (s\<lparr>sc_registry := r', sc_states := dput run MQueued (sc_states s),
                      sc_futures := sc_futures s @ [(run, j_id j)]\<rparr>, Inr ()))))"

definition state_name :: "jstatus \<Rightarrow> string" where
  "state_name st = (if st = Pending then ''queued'' else status_name st)"

definition task_status :: "sched \<Rightarrow> string \<Rightarrow> nat list \<Rightarrow> time \<Rightarrow> sched \<times> string option" where
  \<comment> \<open>the last task job of the registry speaks for the run, the memory only when there is none\<close>
  "task_status s run alive now =
     (let r = recover (sc_registry s) alive now; tasks = filter (\<lambda>j. j_kind j = ''task'') (dvals (r_jobs r))
      in (s\<lparr>sc_registry := r\<rparr>,
          if tasks \<noteq> [] then Some (state_name (j_status (last tasks)))
          else map_option (\<lambda>m. case m of MQueued \<Rightarrow> ''queued'' | MRunning \<Rightarrow> ''running'' | MFailed t \<Rightarrow> ''failed''
                 | MCompleted \<Rightarrow> ''completed'') (dget (sc_states s) run)))"

definition begin_work :: "sched \<Rightarrow> string \<Rightarrow> string \<Rightarrow> string \<Rightarrow> nat \<Rightarrow> time \<Rightarrow> time \<Rightarrow> sched \<times> nat option" where
  \<comment> \<open>\<open>_work\<close> up to the operation: the epoch of the claim, or the early return without one\<close>
  "begin_work s run i me pid lease now =
     (let s1 = s\<lparr>sc_states := dput run MRunning (sc_states s), sc_futures := removeAll (run, i) (sc_futures s)\<rparr>
      in case claim (sc_registry s) me i pid lease now of
           Inl e \<Rightarrow> (s1\<lparr>sc_states := dput run (MFailed (u ''KeyError'')) (sc_states s1)\<rparr>, None)
         | Inr (r, None) \<Rightarrow> (s1\<lparr>sc_registry := r\<rparr>, None)
         | Inr (r, Some j) \<Rightarrow> (s1\<lparr>sc_registry := r\<rparr>, Some (j_epoch j)))"

definition end_work :: "sched \<Rightarrow> string \<Rightarrow> string \<Rightarrow> string \<Rightarrow> nat \<Rightarrow> string \<Rightarrow> outcome \<Rightarrow> time \<Rightarrow> sched" where
  \<comment> \<open>\<open>_drive\<close> turns the operation's error into the job's; it does not raise it again\<close>
  "end_work s run i me e ctl out now =
     (case drive_end (sc_registry s) me i e ctl out now of
        Inl err \<Rightarrow> s\<lparr>sc_states := dput run (MFailed (u ''error'')) (sc_states s)\<rparr>
      | Inr (r, _) \<Rightarrow> s\<lparr>sc_registry := r, sc_states := dput run MCompleted (sc_states s)\<rparr>)"

text \<open>
  A submission is admitted only for an idle run, and admits one activation: if it succeeds, the run
  was neither queued nor running in memory, after the recovery of lost jobs the registry held no pending
  or running task, and now it holds exactly one, pending, with the identifier given to the executor. If
  it is refused, no job is created.
\<close>

theorem submission_admits_one_activation:
  assumes "submit_task s run action i pid alive now = (s', r)"
    and "i \<notin> set (dkeys (r_jobs (recover (sc_registry s) alive now)))"
  shows "(r = Inr () \<longrightarrow> dget (sc_states s) run \<notin> {Some MQueued, Some MRunning}
        \<and> filter active_task (dvals (r_jobs (recover (sc_registry s) alive now))) = []
        \<and> map j_id (filter active_task (dvals (r_jobs (sc_registry s')))) = [i]
        \<and> sc_futures s' = sc_futures s @ [(run, i)] \<and> dget (sc_states s') run = Some MQueued)
    \<and> (r \<noteq> Inr () \<longrightarrow> r_jobs (sc_registry s') \<in> {r_jobs (sc_registry s), r_jobs (recover (sc_registry s) alive now)}
        \<and> sc_futures s' = sc_futures s)"
proof -
  let ?r = "recover (sc_registry s) alive now"
  consider (busy) "dget (sc_states s) run \<in> {Some MQueued, Some MRunning}"
    | (durable) "dget (sc_states s) run \<notin> {Some MQueued, Some MRunning}" "list_ex active_task (dvals (r_jobs ?r))"
    | (free) "dget (sc_states s) run \<notin> {Some MQueued, Some MRunning}" "\<not> list_ex active_task (dvals (r_jobs ?r))"
    by blast
  then show ?thesis
  proof cases
    case busy
    with assms(1) show ?thesis by (auto simp: submit_task_def)
  next
    case durable
    with assms(1) show ?thesis by (auto simp: submit_task_def Let_def)
  next
    case free
    define j where "j = new_job i ''task'' (task_payload action) None None None pid now"
    have c: "create_job ?r i ''task'' (task_payload action) None None None pid now = (save_job ''job.created'' j ?r, j)"
      by (simp add: create_job_def Let_def j_def)
    have none: "filter active_task (dvals (r_jobs ?r)) = []"
      using free(2) by (simp add: filter_empty_conv list_ex_iff)
    have jobs: "r_jobs (save_job ''job.created'' j ?r) = r_jobs ?r @ [(i, stored_job j)]"
      using dput_absent [OF assms(2)] by (simp add: j_def)
    have act: "active_task (stored_job j)" by (simp add: active_task_def j_def new_job_def)
    have "s' = s\<lparr>sc_registry := save_job ''job.created'' j ?r, sc_states := dput run MQueued (sc_states s),
        sc_futures := sc_futures s @ [(run, i)]\<rparr>" "r = Inr ()"
      using assms(1) free c by (auto simp: submit_task_def Let_def j_def)
    with free(1) none jobs act show ?thesis by (simp add: dget_dput j_def)
  qed
qed

theorem submission_admits_one_activation_witness:
  "\<exists>s'. submit_task \<lparr>sc_states = [], sc_futures = [], sc_registry = \<lparr>r_jobs = [], r_events = [], r_logs = [], r_handlers = []\<rparr>\<rparr>
       ''r'' ''run'' ''j'' 7 [7] 0 = (s', Inr ()) \<and> sc_futures s' = [(''r'', ''j'')]"
proof -
  define s0 where "s0 = \<lparr>sc_states = [], sc_futures = [],
      sc_registry = \<lparr>r_jobs = [], r_events = [], r_logs = [], r_handlers = []\<rparr>\<rparr>"
  obtain s' r where s: "submit_task s0 ''r'' ''run'' ''j'' 7 [7] 0 = (s', r)" by force
  have e: "r_jobs (recover (sc_registry s0) [7] 0) = []" by (simp add: s0_def recover_def)
  have "r = Inr ()" using s e by (auto simp: submit_task_def Let_def s0_def recover_def split: prod.splits)
  with submission_admits_one_activation [OF s] e s show ?thesis unfolding s0_def by auto
qed

text \<open>
  A worker whose durable job was taken or ended before it began leaves the run marked running: the
  early return sets no final state, so the next submission for the run is refused although the registry
  holds no activation.
\<close>

definition ended_before_start :: sched where
  "ended_before_start = \<lparr>sc_states = [(''r'', MQueued)], sc_futures = [(''r'', ''j'')],
     sc_registry = \<lparr>r_jobs = [(''j'', (new_job ''j'' ''task'' (task_payload ''run'') None None None 7 0)\<lparr>j_status := Cancelled\<rparr>)],
       r_events = [], r_logs = [], r_handlers = []\<rparr>\<rparr>"

lemma lost_claim_blocks_the_run:
  "snd (begin_work ended_before_start ''r'' ''j'' ''w'' 7 60 1) = None
   \<and> snd (task_status (fst (begin_work ended_before_start ''r'' ''j'' ''w'' 7 60 1)) ''r'' [7] 2) = Some ''cancelled''
   \<and> snd (submit_task (fst (begin_work ended_before_start ''r'' ''j'' ''w'' 7 60 1)) ''r'' ''resume'' ''k'' 7 [7] 2)
     = Inl (ValueError ''run already has an active job'')"
  by (simp add: begin_work_def claim_def get_job_def ended_before_start_def new_job_def task_status_def recover_def
      lost_def submit_task_def state_name_def)

end
