(* ===== verification/Store_Acts.thy ===== *)
theory Store_Acts
  imports Storage Py_Value
begin

text \<open>
  The operations of the run store as operations on a world that hold on to what was written before
  an error, for the components that write several documents, files and events in a row.
\<close>

definition modify :: "('w \<Rightarrow> 'w result) \<Rightarrow> ('w, unit) act" where
  \<comment> \<open>an operation that changes nothing when it raises\<close>
  "modify f w = (case f w of Inl e \<Rightarrow> (w, Inl e) | Inr w' \<Rightarrow> (w', Inr ()))"

definition query :: "('w \<Rightarrow> 'a) \<Rightarrow> ('w, 'a) act" where
  "query f w = (w, Inr (f w))"

lemma modify_eq [act_simps]:
  "modify f w = (w', r) \<longleftrightarrow> (r = Inr () \<and> f w = Inr w') \<or> (\<exists>e. r = Inl e \<and> f w = Inl e \<and> w' = w)"
  by (auto simp: modify_def split: sum.splits)

lemma query_eq [act_simps]: "query f w = (w', r) \<longleftrightarrow> w' = w \<and> r = Inr (f w)"
  by (auto simp: query_def)

lemma seqA_eq [act_simps]:
  "seqA m k w = (w', r) \<longleftrightarrow> (\<exists>w1 x. m w = (w1, Inr x) \<and> k w1 = (w', r)) \<or> (\<exists>e. m w = (w', Inl e) \<and> r = Inl e)"
  by (simp add: seqA_def bindA_eq)

lemma bindA_cases:
  assumes "bindA m f w = (w', r)"
  obtains (fails) e where "m w = (w', Inl e)" "r = Inl e"
  | (goes_on) w1 x where "m w = (w1, Inr x)" "f x w1 = (w', r)"
  using assms by (auto simp: bindA_eq)

definition save_text :: "string \<Rightarrow> pytext \<Rightarrow> pytext \<Rightarrow> (rstore, unit) act" where
  "save_text run name t = modify (\<lambda>s. write_text s run name t)"

definition save_json :: "string \<Rightarrow> pytext \<Rightarrow> json \<Rightarrow> (rstore, unit) act" where
  "save_json run name v = modify (\<lambda>s. write_json s run name v)"

definition open_json :: "string \<Rightarrow> pytext \<Rightarrow> (rstore, json) act" where
  "open_json run name s =
     (case read_json s run name of Inl e \<Rightarrow> (s, Inl e) | Inr (s', v) \<Rightarrow> (s', Inr v))"

definition open_json_or :: "string \<Rightarrow> pytext \<Rightarrow> json \<Rightarrow> (rstore, json) act" where
  \<comment> \<open>\<open>try: read_json except FileNotFoundError: a default\<close>\<close>
  "open_json_or run name d s =
     (case read_json s run name of
        Inl FileNotFoundError \<Rightarrow> (s, Inr d) | Inl e \<Rightarrow> (s, Inl e) | Inr (s', v) \<Rightarrow> (s', Inr v))"

definition log_event :: "string \<Rightarrow> string \<Rightarrow> json \<Rightarrow> (rstore, unit) act" where
  \<comment> \<open>\<open>session(run_id).append(kind, data)\<close>\<close>
  "log_event run kind data = modify (\<lambda>s. bindE (safe_identifier run) (\<lambda>_.
     bindE (task_append (rs_la s) (rs_db s) run kind data None) (\<lambda>(d, _). Inr (s\<lparr>rs_db := d\<rparr>))))"

definition transaction :: "(rstore, 'a) act \<Rightarrow> (rstore, 'a) act" where
  \<comment> \<open>the session's tables are rolled back when the block raises; files that were written stay\<close>
  "transaction m s = (case m s of (s', Inl e) \<Rightarrow> (s'\<lparr>rs_db := rs_db s\<rparr>, Inl e) | (s', Inr x) \<Rightarrow> (s', Inr x))"

lemma transaction_eq [act_simps]:
  "transaction m s = (s', r) \<longleftrightarrow> (\<exists>x. r = Inr x \<and> m s = (s', Inr x))
     \<or> (\<exists>e s1. r = Inl e \<and> m s = (s1, Inl e) \<and> s' = s1\<lparr>rs_db := rs_db s\<rparr>)"
  by (cases "m s"; cases "snd (m s)") (auto simp: transaction_def)

end
