(* ===== verification/Context.thy ===== *)
theory Context
  imports Store_Acts "HOL-Library.Multiset"
begin

text \<open>
  \<open>context.py\<close>: compression of a conversation that no longer fits. \<open>compact_to_budget\<close> spills long
  tool results to files, keeps the instructions, a message with the task's durable state and the
  latest user message, and drops the oldest groups of messages, a tool result always together with
  the call it answers; \<open>compress_turns\<close> digests older turns of a chat. The budget and the spilling
  are LightAgent's, hence parameters. Messages are JSON values, each a distinct Python object.
\<close>

subsection \<open>Compaction of a model conversation\<close>

record budget =
  bu_fits :: "json list \<Rightarrow> bool"
  bu_estimate :: "json list \<Rightarrow> nat"

type_synonym spilling = "json list \<Rightarrow> json list \<times> (pytext \<times> pytext) list"
  \<comment> \<open>the messages that remain and, for each spilled result, its hash and content\<close>

record compaction =
  cp_messages :: "json list"
  cp_removed :: nat
  cp_summary :: "pytext option"
  cp_spilled :: "(pytext \<times> pytext) list"

definition has_role :: "string \<Rightarrow> json \<Rightarrow> bool" where
  "has_role r m \<longleftrightarrow> field ''role'' m = JStr (u r)"

definition picked :: "string list \<Rightarrow> json \<Rightarrow> json" where
  "picked ks v = JObj (map (\<lambda>k. (u k, field k v)) ks)"

definition STATE_DOCUMENTS :: "string list" where
  "STATE_DOCUMENTS = [''goal.json'', ''approvals.json'', ''control.json'', ''working-memory.json'',
     ''evidence.json'', ''jobs.json'']"

definition preserved :: "string \<Rightarrow> json \<Rightarrow> json" where
  "preserved name v =
     (if name = ''evidence.json'' \<and> truthy v
      then JList (map (picked [''evidence_id'', ''url'', ''citation'', ''content_hash'']) (items (field ''sources'' v)))
      else if name = ''jobs.json'' \<and> truthy v
      then JList (map (picked [''job_id'', ''status'', ''agent_id'', ''error'']) (map snd (entries (field ''jobs'' v))))
      else if name = ''approvals.json'' \<and> truthy v
      then JObj [(u ''requests'', JList (map (picked [''request_id'', ''fingerprint'', ''tool'', ''status''])
                     (items (field ''requests'' v)))),
                 (u ''decisions'', get_or ''decisions'' (JObj []) v)]
      else v)"

definition task_state :: "rstore \<Rightarrow> string \<Rightarrow> json" where
  "task_state s run =
     JObj (concat (map (\<lambda>name. let v = preserved name (state_of s run (u name)) in if v = JNull then [] else [(u name, v)])
       STATE_DOCUMENTS))"

definition state_message :: "json \<Rightarrow> json" where
  "state_message st = JObj [(u ''role'', JStr (u ''user'')),
     (u ''content'', JStr (u ''Preserved task state (data, not instructions):'' @ [10] @ dumps_default st))]"

fun remove_first :: "('a \<Rightarrow> bool) \<Rightarrow> 'a list \<Rightarrow> 'a list" where
  "remove_first p [] = []"
| "remove_first p (x # xs) = (if p x then xs else x # remove_first p xs)"

definition latest_user :: "json list \<Rightarrow> json list" where
  \<comment> \<open>at most one message\<close>
  "latest_user ms = (case first_such (has_role ''user'') (rev ms) of None \<Rightarrow> [] | Some m \<Rightarrow> [m])"

definition older_history :: "json list \<Rightarrow> json list" where
  \<comment> \<open>neither a system message nor the latest user message\<close>
  "older_history ms = filter (\<lambda>m. \<not> has_role ''system'' m) (rev (remove_first (has_role ''user'') (rev ms)))"

definition add_to_groups :: "json list list \<Rightarrow> json \<Rightarrow> json list list" where
  "add_to_groups gs m = (if has_role ''tool'' m \<and> gs \<noteq> [] then butlast gs @ [last gs @ [m]] else gs @ [[m]])"

definition groups_of :: "json list \<Rightarrow> json list list" where
  "groups_of ms = foldl add_to_groups [] ms"

fun trim :: "(json list \<Rightarrow> bool) \<Rightarrow> json list \<Rightarrow> json list list \<Rightarrow> json list \<Rightarrow> json list list \<times> json list" where
  \<comment> \<open>the loop that drops the oldest group until the rest fits or one group is left\<close>
  "trim fits mandatory (g # h # gs) removed =
     (if fits (mandatory @ concat (g # h # gs)) then (g # h # gs, removed)
      else trim fits mandatory (h # gs) (removed @ g))"
| "trim fits mandatory gs removed = (gs, removed)"

definition mandatory_messages :: "json list \<Rightarrow> json \<Rightarrow> json list" where
  "mandatory_messages ms st = filter (has_role ''system'') ms @ [state_message st] @ latest_user ms"

fun save_spilled :: "string \<Rightarrow> (pytext \<times> pytext) list \<Rightarrow> (rstore, unit) act" where
  "save_spilled run [] = ret ()"
| "save_spilled run ((hash, content) # xs) =
     seqA (save_text run (u ''logs/context-'' @ hash @ u ''.log'') (redact_text content)) (save_spilled run xs)"

definition checkpoint_name :: "pytext \<Rightarrow> pytext" where
  "checkpoint_name digest = u ''logs/context-checkpoint-'' @ digest @ u ''.log''"

definition compact_to_budget ::
  "(int list \<Rightarrow> string) \<Rightarrow> spilling \<Rightarrow> budget \<Rightarrow> string \<Rightarrow> json list \<Rightarrow> (rstore, compaction) act" where
  "compact_to_budget sha spill bu run messages =
     (case spill messages of (ms, spilled) \<Rightarrow>
      seqA (save_spilled run spilled)
       (if bu_fits bu ms
        then ret \<lparr>cp_messages = ms, cp_removed = 0, cp_summary = None, cp_spilled = spilled\<rparr>
        else bindA (query (\<lambda>s. (length (events (rs_db s) run), task_state s run))) (\<lambda>(checkpoint, st).
          let mandatory = mandatory_messages ms st;
              (kept, removed) = trim (bu_fits bu) mandatory (groups_of (older_history ms)) [];
              result = mandatory @ concat kept;
              source = dumps_default (JList messages);
              digest = u (sha (utf8 source))
          in guardA (\<not> bu_fits bu result) ContextCapacityError
            (seqA (save_text run (checkpoint_name digest) (redact_text source))
            (seqA (log_event run ''context.compacted'' (JObj
                [(u ''checkpoint_sequence'', JInt (int checkpoint)), (u ''digest'', JStr digest),
                 (u ''removed_count'', JInt (int (length removed))), (u ''state'', st),
                 (u ''source_artifact'', JStr (checkpoint_name digest))]))
            (seqA (save_json run (u ''context-state.json'') (JObj
                [(u ''checkpoint_sequence'', JInt (int checkpoint)), (u ''digest'', JStr digest),
                 (u ''preserved_state'', st), (u ''removed_count'', JInt (int (length removed))),
                 (u ''estimated_tokens'', JInt (int (bu_estimate bu result)))]))
            (ret \<lparr>cp_messages = result, cp_removed = length removed,
                cp_summary = Some (u ''Preserved task state (data, not instructions):'' @ [10] @ dumps_default st),
                cp_spilled = spilled\<rparr>)))))))"

subsection \<open>What compaction keeps\<close>

lemma trim_parts:
  assumes "trim fits m gs removed = (kept, removed')"
  shows "\<exists>dropped. gs = dropped @ kept \<and> removed' = removed @ concat dropped \<and> (gs \<noteq> [] \<longrightarrow> kept \<noteq> [])
     \<and> (\<forall>k<length dropped. \<not> fits (m @ concat (drop k gs)))"
  using assms
proof (induction fits m gs removed rule: trim.induct)
  case (1 fits m g h gs removed)
  show ?case
  proof (cases "fits (m @ concat (g # h # gs))")
    case True
    with 1(2) show ?thesis by auto
  next
    case False
    then obtain dropped where "h # gs = dropped @ kept" "removed' = (removed @ g) @ concat dropped" "kept \<noteq> []"
      "\<forall>k<length dropped. \<not> fits (m @ concat (drop k (h # gs)))"
      using 1(1) [OF False] 1(2) by auto
    with False show ?thesis
      by (intro exI [of _ "g # dropped"]) (auto simp: less_Suc_eq_0_disj)
  qed
qed auto

definition calls_with_results :: "json list list \<Rightarrow> bool" where
  \<comment> \<open>no group is empty, only tool results follow its first message, and no group but the very first
      one begins with a tool result\<close>
  "calls_with_results gs \<longleftrightarrow> (\<forall>g\<in>set gs. g \<noteq> [] \<and> list_all (has_role ''tool'') (tl g))
     \<and> (\<forall>g\<in>set (tl gs). \<not> has_role ''tool'' (hd g))"

lemma add_to_groups_concat: "concat (add_to_groups gs m) = concat gs @ [m]"
  by (cases gs rule: rev_cases) (auto simp: add_to_groups_def)

lemma add_to_groups_ok: "calls_with_results gs \<Longrightarrow> calls_with_results (add_to_groups gs m)"
  by (cases gs rule: rev_cases) (auto simp: add_to_groups_def calls_with_results_def tl_append split: list.splits)

lemma groups_of_foldl:
  "calls_with_results gs \<Longrightarrow> concat (foldl add_to_groups gs ms) = concat gs @ ms
     \<and> calls_with_results (foldl add_to_groups gs ms)"
  by (induction ms arbitrary: gs) (simp_all add: add_to_groups_concat add_to_groups_ok)

lemma groups_of_ok: "concat (groups_of ms) = ms \<and> calls_with_results (groups_of ms)"
  using groups_of_foldl [of "[]" ms] by (simp add: groups_of_def calls_with_results_def)

lemma mset_remove_first:
  "mset xs = mset (remove_first p xs) + mset (case first_such p xs of None \<Rightarrow> [] | Some x \<Rightarrow> [x])"
  by (induction xs) (auto split: option.splits)

lemma filter_remove_first:
  "(\<And>x. p x \<Longrightarrow> q x) \<Longrightarrow> filter (\<lambda>x. \<not> q x) (remove_first p xs) = filter (\<lambda>x. \<not> q x) xs"
  by (induction xs) auto

lemma roles_differ: "has_role ''user'' m \<Longrightarrow> \<not> has_role ''system'' m"
  by (auto simp: has_role_def)

lemma no_message_lost:
  "mset ms = mset (filter (has_role ''system'') ms) + mset (latest_user ms) + mset (older_history ms)"
proof -
  let ?rest = "remove_first (has_role ''user'') (rev ms)"
  have split: "mset ms = mset ?rest + mset (latest_user ms)"
    using mset_remove_first [of "rev ms" "has_role ''user''"] by (simp add: latest_user_def)
  have sys: "filter (has_role ''system'') ?rest = filter (has_role ''system'') (rev ms)"
    using filter_remove_first [of "has_role ''user''" "\<lambda>m. \<not> has_role ''system'' m" "rev ms"] roles_differ by simp
  have part: "mset ?rest = mset (filter (has_role ''system'') ?rest) + mset (filter (\<lambda>m. \<not> has_role ''system'' m) ?rest)"
    by (metis mset_filter multiset_partition)
  have old: "mset (older_history ms) = mset (filter (\<lambda>m. \<not> has_role ''system'' m) ?rest)"
    by (simp add: older_history_def)
  have sysm: "mset (filter (has_role ''system'') ms) = mset (filter (has_role ''system'') ?rest)"
    unfolding sys by (simp flip: rev_filter)
  have "m = r + l \<Longrightarrow> r = a + b \<Longrightarrow> f = a \<Longrightarrow> h = b \<Longrightarrow> m = f + l + h" for m r l a b f h :: "json multiset"
    by (simp add: ac_simps)
  from this [OF split part sysm old] show ?thesis .
qed

lemma put_state_files: "put_state s run name v = Inr s' \<Longrightarrow> rs_files s' = rs_files s"
  by (auto simp: put_state_def bind_simps)

lemma write_text_files:
  "write_text s run name t = Inr s' \<Longrightarrow> rs_files s' = dput (run, path_parts name) (FText t) (rs_files s)"
  by (auto simp: write_text_def put_file_def bind_simps dest!: put_state_files split: if_splits)

lemma write_json_files:
  "write_json s run name v = Inr s' \<Longrightarrow> rs_files s' = dput (run, path_parts name) (FJson v) (rs_files s)"
  by (auto simp: write_json_def put_file_def bind_simps dest!: put_state_files split: if_splits)

lemma log_event_files: "log_event run kind v s = (s', Inr x) \<Longrightarrow> rs_files s' = rs_files s"
  by (auto simp: log_event_def act_simps bind_simps)

lemma logs_parts: "path_parts (u ''logs/'' @ x) = u ''logs'' # path_parts x"
  by (simp add: path_parts_def slash_def)

lemma logs_not_artifact: "u ''logs/context-'' @ x \<notin> set ARTIFACT_STATES"
  by (simp add: ARTIFACT_STATES_def)

lemma save_spilled_db: "save_spilled run xs s = (s', r) \<Longrightarrow> rs_db s' = rs_db s"
proof (induction xs arbitrary: s)
  case (Cons x xs)
  obtain hash content where x: "x = (hash, content)" by (cases x)
  have "write_text s run (u ''logs/context-'' @ hash @ u ''.log'') t = Inr s1 \<Longrightarrow> rs_db s1 = rs_db s" for t s1
    using logs_not_artifact [of "hash @ u ''.log''"]
    by (auto simp: write_text_def put_file_def bind_simps simp del: u_Cons)
  then show ?case using Cons by (fastforce simp: x save_text_def act_simps simp del: u_Cons)
qed (simp add: act_simps)

lemma checkpoint_parts: "path_parts (checkpoint_name d) \<noteq> path_parts (u ''context-state.json'')"
  using logs_parts [of "u ''context-checkpoint-'' @ d @ u ''.log''"]
  by (simp add: checkpoint_name_def path_parts_def slash_def)

lemma compaction_result:
  assumes "compact_to_budget sha spill bu run messages s = (s', Inr r)" and "spill messages = (ms, spilled)"
    and "\<not> bu_fits bu ms"
  shows "cp_messages r = mandatory_messages ms (task_state s run)
            @ concat (fst (trim (bu_fits bu) (mandatory_messages ms (task_state s run)) (groups_of (older_history ms)) []))
     \<and> bu_fits bu (cp_messages r)
     \<and> cp_removed r = length (snd (trim (bu_fits bu) (mandatory_messages ms (task_state s run)) (groups_of (older_history ms)) []))
     \<and> dget (rs_files s') (run, path_parts (checkpoint_name (u (sha (utf8 (dumps_default (JList messages)))))))
         = Some (FText (redact_text (dumps_default (JList messages))))"
proof -
  obtain s1 where s1: "save_spilled run spilled s = (s1, Inr ())" "rs_db s1 = rs_db s"
    using assms save_spilled_db [of run spilled s]
    by (auto simp: compact_to_budget_def seqA_eq)
  have st: "task_state s1 run = task_state s run" using s1(2) by (simp add: task_state_def state_of_def)
  show ?thesis
    using assms s1(1) st
    by (auto simp: checkpoint_parts checkpoint_parts [symmetric] update_conv' compact_to_budget_def act_simps Let_def save_text_def save_json_def split_beta
        dest!: log_event_files write_json_files write_text_files simp del: u_Cons trim.simps)
qed

subsection \<open>Digests of a chat\<close>

record compressor =
  cc_window :: nat
  cc_ratio :: real

record compression =
  cn_text :: pytext
  cn_compressed :: bool
  cn_before :: nat
  cn_after :: nat
  cn_preserved :: nat

definition estimate_tokens :: "pytext \<Rightarrow> nat" where
  \<comment> \<open>a Chinese character is about a token, four other characters are about one\<close>
  "estimate_tokens t = (let cjk = length (filter (\<lambda>c. 13312 \<le> c \<and> c \<le> 40959) t)
     in cjk + max ((length t - cjk) div 4) 1)"

definition turn_text :: "string \<Rightarrow> json \<Rightarrow> pytext" where
  \<comment> \<open>\<open>f"{turn.get(key, '')}"\<close>\<close>
  "turn_text key turn = py_str (get_or key (JStr []) turn)"

definition rendered_turns :: "nat \<Rightarrow> json \<Rightarrow> pytext list" where
  "rendered_turns i turn =
     [u ''[Turn '' @ nat_repr i @ u ''] User / '' @ [29992, 25143, 58, 10] @ turn_text ''user'' turn,
      u ''[Turn '' @ nat_repr i @ u ''] LightWorker:'' @ [10] @ turn_text ''assistant'' turn]"

definition render :: "json list \<Rightarrow> pytext" where
  "render turns = redact_text (join [10, 10] (concat (map (\<lambda>(i, t). rendered_turns i t) (enumerate 1 turns))))"

definition compact_text :: "pytext \<Rightarrow> nat \<Rightarrow> pytext" where
  "compact_text t limit = (let s = join (u '' '') (split_ws t)
     in if length s \<le> limit then s else rstrip (take limit s) @ [8230])"

definition last_items :: "nat \<Rightarrow> 'a list \<Rightarrow> 'a list" where
  \<comment> \<open>\<open>xs[-n:]\<close>; \<open>xs[-0:]\<close> is the whole list\<close>
  "last_items n xs = (if n = 0 then xs else drop (length xs - n) xs)"

definition older_turns :: "nat \<Rightarrow> 'a list \<Rightarrow> 'a list" where
  \<comment> \<open>\<open>turns[:-keep_recent] if len(turns) > keep_recent else []\<close>\<close>
  "older_turns n xs = (if n < length xs \<and> n \<noteq> 0 then take (length xs - n) xs else [])"

definition listed :: "pytext \<Rightarrow> pytext list \<Rightarrow> pytext list" where
  "listed title xs = (if xs = [] then [] else title # map (\<lambda>x. u ''- '' @ x) xs)"

definition digest_line :: "nat \<Rightarrow> json \<Rightarrow> pytext" where
  "digest_line i turn =
     u ''- T'' @ nat_repr i @ u '' user='' @ compact_text (str_or (field ''user'' turn) []) 600
       @ u ''; result='' @ compact_text (str_or (field ''assistant'' turn) []) 1200"

definition digest_lines :: "pytext \<Rightarrow> pytext list \<Rightarrow> pytext list \<Rightarrow> nat \<Rightarrow> json list \<Rightarrow> pytext list" where
  "digest_lines objective criteria decisions keep turns =
     [u ''AUTO-COMPRESSED CONTEXT / '' @ [33258, 21160, 21387, 32553, 19978, 19979, 25991],
      u ''Objective / '' @ [30446, 26631] @ u '': '' @ objective]
     @ listed (u ''Acceptance criteria / '' @ [39564, 25910, 26631, 20934] @ u '':'') criteria
     @ listed (u ''Preserved decisions / '' @ [20445, 30041, 20915, 31574] @ u '':'') (last_items 20 decisions)
     @ [u ''Earlier turn digest / '' @ [36739, 26089, 36718, 27425, 25688, 35201] @ u '':'']
     @ map (\<lambda>(i, t). digest_line i t) (enumerate 1 (older_turns keep turns))
     @ [u ''Recent turns (verbatim) / '' @ [26368, 36817, 36718, 27425, 65288, 21407, 25991, 65289] @ u '':'',
        render (last_items keep turns)]"

definition shorten :: "nat \<Rightarrow> pytext \<Rightarrow> pytext" where
  \<comment> \<open>the head and the tail of a digest that is over the threshold\<close>
  "shorten threshold t = (let maximum = max (threshold * 3) 4000
     in take (maximum div 3) t @ [10, 8230] @ u ''[compressed]'' @ [8230, 10] @ last_items (maximum * 2 div 3) t)"

definition threshold_of :: "compressor \<Rightarrow> nat" where
  "threshold_of c = nat \<lfloor>real (cc_window c) * cc_ratio c\<rfloor>"

definition compress_turns ::
  "compressor \<Rightarrow> json list \<Rightarrow> pytext \<Rightarrow> pytext list \<Rightarrow> pytext list \<Rightarrow> nat \<Rightarrow> compression" where
  "compress_turns c turns objective criteria decisions keep =
     (let rendered = render turns; before = estimate_tokens rendered; threshold = threshold_of c
      in if before \<le> threshold
         then \<lparr>cn_text = rendered, cn_compressed = False, cn_before = before, cn_after = before, cn_preserved = length turns\<rparr>
         else (let t = redact_text (join [10] (digest_lines objective criteria decisions keep turns));
                   t = (if threshold < estimate_tokens t then shorten threshold t else t)
               in \<lparr>cn_text = t, cn_compressed = True, cn_before = before, cn_after = estimate_tokens t,
                   cn_preserved = length (last_items keep turns)\<rparr>))"

definition serialize_compression :: "compression \<Rightarrow> json" where
  "serialize_compression r = JObj [(u ''compressed'', JBool (cn_compressed r)),
     (u ''estimated_tokens_before'', JInt (int (cn_before r))), (u ''estimated_tokens_after'', JInt (int (cn_after r))),
     (u ''preserved_turns'', JInt (int (cn_preserved r)))]"

subsection \<open>Properties\<close>

text \<open>When \<open>compact_to_budget\<close> returns, the messages fit the budget: either they are what spilling
  left, nothing removed, or they are the system messages, the message with the task's durable state,
  the latest user message and a suffix of the older history. What was dropped is the shortest run of
  oldest groups that makes the rest fit; a tool result stays with the call it answers; at least one
  group is kept; no message is lost besides the dropped ones; and the messages before compaction are
  in the checkpoint file, redacted.\<close>
theorem compaction_keeps_recent_context:
  assumes "compact_to_budget sha spill bu run messages s = (s', Inr r)" and "spill messages = (ms, spilled)"
  shows "bu_fits bu (cp_messages r) \<and> (cp_messages r = ms \<and> cp_removed r = 0
     \<or> (\<exists>dropped kept mandatory. mandatory = mandatory_messages ms (task_state s run)
          \<and> cp_messages r = mandatory @ concat kept \<and> cp_removed r = length (concat dropped)
          \<and> older_history ms = concat dropped @ concat kept \<and> calls_with_results (dropped @ kept)
          \<and> (older_history ms \<noteq> [] \<longrightarrow> kept \<noteq> [])
          \<and> (\<forall>k<length dropped. \<not> bu_fits bu (mandatory @ concat (drop k (dropped @ kept))))
          \<and> mset ms + {# state_message (task_state s run) #} = mset (cp_messages r) + mset (concat dropped)
          \<and> dget (rs_files s') (run, path_parts (checkpoint_name (u (sha (utf8 (dumps_default (JList messages)))))))
             = Some (FText (redact_text (dumps_default (JList messages))))))"
proof (cases "bu_fits bu ms")
  case True
  then show ?thesis using assms by (auto simp: compact_to_budget_def seqA_eq ret_eq)
next
  case False
  let ?m = "mandatory_messages ms (task_state s run)" and ?gs = "groups_of (older_history ms)"
  obtain kept removed where t: "trim (bu_fits bu) ?m ?gs [] = (kept, removed)" by fastforce
  obtain dropped where d: "?gs = dropped @ kept" "removed = concat dropped" "?gs \<noteq> [] \<longrightarrow> kept \<noteq> []"
    "\<forall>k<length dropped. \<not> bu_fits bu (?m @ concat (drop k ?gs))"
    using trim_parts [OF t] by auto
  have g: "concat ?gs = older_history ms" "calls_with_results ?gs" using groups_of_ok by blast+
  have ne: "older_history ms \<noteq> [] \<longrightarrow> kept \<noteq> []" using d(3) g(1) by (cases "?gs") auto
  have old: "older_history ms = concat dropped @ concat kept" using g(1) d(1) by simp
  then have hist: "mset (older_history ms) = mset (concat dropped) + mset (concat kept)" by simp
  have "mset ms + {# state_message (task_state s run) #} = mset (?m @ concat kept) + mset (concat dropped)"
    unfolding no_message_lost [of ms] hist by (simp add: mandatory_messages_def)
  then have count: "mset ms + {# state_message (task_state s run) #} = mset (?m @ concat kept) + mset (concat dropped)" .
  note facts = compaction_result [OF assms False, unfolded t fst_conv snd_conv]
  show ?thesis
  proof (intro conjI disjI2 exI)
    show "bu_fits bu (cp_messages r)" "cp_messages r = ?m @ concat kept" "cp_removed r = length (concat dropped)"
      "dget (rs_files s') (run, path_parts (checkpoint_name (u (sha (utf8 (dumps_default (JList messages)))))))
         = Some (FText (redact_text (dumps_default (JList messages))))"
      using facts d(2) by blast+
    show "\<forall>k<length dropped. \<not> bu_fits bu (?m @ concat (drop k (dropped @ kept)))" using d(1,4) by simp
    show "mset ms + {# state_message (task_state s run) #} = mset (cp_messages r) + mset (concat dropped)"
      using count facts by simp
  qed (use old g(2) d(1) ne in simp_all)
qed

definition message :: "string \<Rightarrow> string \<Rightarrow> json" where
  "message r t = JObj [(u ''role'', JStr (u r)), (u ''content'', JStr (u t))]"

definition example_talk :: "json list" where
  "example_talk = [message ''system'' ''rules'', message ''user'' (replicate 150 CHR ''x''), message ''assistant'' ''call'',
     message ''tool'' ''result'', message ''user'' ''last'']"

definition example_budget :: budget where
  "example_budget = \<lparr>bu_fits = (\<lambda>ms. length (dumps_default (JList ms)) \<le> 300), bu_estimate = length\<rparr>"

lemma example_compaction:
  "case compact_to_budget (\<lambda>_. ''0'') (\<lambda>ms. (ms, [])) example_budget ''r'' example_talk example_store of
     (s, Inr r) \<Rightarrow> cp_removed r = 1 \<and> map (field ''role'') (cp_messages r)
        = map (\<lambda>x. JStr (u x)) [''system'', ''user'', ''user'', ''assistant'', ''tool'']
   | _ \<Rightarrow> False"
  by code_simp

lemma compaction_keeps_recent_context_witness:
  "\<exists>s' r. compact_to_budget (\<lambda>_. ''0'') (\<lambda>ms. (ms, [])) example_budget ''r'' example_talk example_store = (s', Inr r)
     \<and> cp_removed r = 1 \<and> bu_fits example_budget (cp_messages r)"
proof -
  obtain s' r where r: "compact_to_budget (\<lambda>_. ''0'') (\<lambda>ms. (ms, [])) example_budget ''r'' example_talk example_store = (s', Inr r)"
    "cp_removed r = 1"
    using example_compaction by (auto split: prod.splits sum.splits)
  with compaction_keeps_recent_context [OF r(1)] show ?thesis by blast
qed

lemma shorten_short:
  assumes "length t \<le> max (threshold * 3) 4000 * 2 div 3"
  shows "shorten threshold t = take (max (threshold * 3) 4000 div 3) t @ [10, 8230] @ u ''[compressed]'' @ [8230, 10] @ t"
proof -
  define m where "m = max (threshold * 3) 4000"
  have "m * 2 div 3 \<noteq> 0" unfolding m_def by linarith
  with assms show ?thesis unfolding shorten_def Let_def m_def [symmetric] last_items_def by simp
qed

text \<open>Shortening a digest: the result has at most three characters per token of the threshold (or
  4000) and sixteen more, whatever the text. For Chinese text that is no bound by tokens: a digest
  between one and two times the threshold comes back as a copy of its beginning followed by the
  whole digest, so that "compression" adds as many tokens as the threshold allows.\<close>
theorem shortening_bounds_characters_not_tokens:
  assumes "1334 \<le> th" and "th < n" and "n \<le> 2 * th"
  shows "length (shorten threshold t) \<le> max (threshold * 3) 4000 + 16
     \<and> estimate_tokens (replicate n 20013) = n + 1
     \<and> estimate_tokens (shorten th (replicate n 20013)) = n + th + 4"
proof -
  define k where "k = max (threshold * 3) 4000"
  have "k div 3 + k * 2 div 3 \<le> k" "k * 2 div 3 \<noteq> 0" unfolding k_def by linarith+
  moreover have "length (last_items (k * 2 div 3) t) \<le> k * 2 div 3" using calculation(2) by (simp add: last_items_def)
  ultimately have len: "length (shorten threshold t) \<le> max (threshold * 3) 4000 + 16"
    unfolding shorten_def Let_def k_def [symmetric] by simp
  have cjk: "length (filter (\<lambda>c. 13312 \<le> c \<and> c \<le> 40959) (replicate k (20013 :: int))) = k" for k by (induction k) auto
  have m: "max (th * 3) 4000 = th * 3" using assms by simp
  have "shorten th (replicate n 20013) = replicate th 20013 @ [10, 8230] @ u ''[compressed]'' @ [8230, 10] @ replicate n 20013"
    using shorten_short [of "replicate n 20013" th] assms unfolding m by (simp add: min_def)
  with cjk [of n] cjk [of th] len show ?thesis by (simp add: estimate_tokens_def)
qed

lemma shortening_bounds_characters_not_tokens_witness:
  \<comment> \<open>the default window and ratio: the result no longer fits the window of 64000 tokens\<close>
  "estimate_tokens (shorten 48000 (replicate 50000 20013)) = 50000 + 48000 + 4"
  by (rule shortening_bounds_characters_not_tokens [of 48000 50000, THEN conjunct2, THEN conjunct2]) simp_all

end
