(* ===== verification/Workflow_Run.thy ===== *)
theory Workflow_Run
  imports Code_Mode Policy
begin

text \<open>
  \<open>WorkflowTools\<close> of \<open>loop_modes.py\<close>: fixed steps run in order, each at most once. What a run has
  reached is the document \<open>workflow-state.json\<close>: before a step's tool is called the step is marked
  as running, afterwards its result is recorded. A call with the same steps goes on after the
  recorded ones; a step that was left marked is not tried again. The document is kept in the
  session, so that reading it back yields redacted strings. The tools are the guarded tools of the
  run, functions of a world they may change; they do not touch the document.
\<close>

subsection \<open>The document and the steps\<close>

record wflow =
  wf_steps :: "json list"
  wf_completed :: "pytext list"
  wf_results :: "(pytext, json) dict"
  wf_running :: "pytext option"

record 'w whost =
  wh_world :: 'w
  wh_flows :: "(pytext, wflow) dict"
  wh_log :: "(string \<times> json) list"

type_synonym 'w wtool = "('w \<Rightarrow> json \<Rightarrow> 'w \<times> json result) \<times> bool"
  \<comment> \<open>what a call does, and whether the tool is declared read-only\<close>

definition stored_flow :: "wflow \<Rightarrow> wflow" where
  \<comment> \<open>what is read back after the session has redacted the document\<close>
  "stored_flow f = \<lparr>wf_steps = map redact_value (wf_steps f), wf_completed = map redact_text (wf_completed f),
     wf_results = map (\<lambda>(k, v). (k, redact_value v)) (wf_results f), wf_running = map_option redact_text (wf_running f)\<rparr>"

definition put_flow :: "pytext \<Rightarrow> wflow \<Rightarrow> 'w whost \<Rightarrow> 'w whost" where
  \<comment> \<open>\<open>state[workflow_id] = workflow\<close> and \<open>write_json\<close>\<close>
  "put_flow i f h = h\<lparr>wh_flows := map (\<lambda>(k, g). (k, stored_flow g)) (dput i f (wh_flows h))\<rparr>"

definition log_step :: "string \<Rightarrow> (string \<times> json) list \<Rightarrow> 'w whost \<Rightarrow> 'w whost" where
  "log_step kind data h = h\<lparr>wh_log := wh_log h @ [(kind, redact_value (JObj (map (\<lambda>(k, v). (u k, v)) data)))]\<rparr>"

definition step_ids :: "json list \<Rightarrow> pytext list" where
  "step_ids steps = map (\<lambda>(i, s). py_str (get_or ''id'' (JInt (int i)) s)) (enumerate 0 steps)"

definition step_tool :: "(pytext \<Rightarrow> 'w wtool option) \<Rightarrow> json \<Rightarrow> 'w wtool option" where
  "step_tool tools s = (case field ''tool'' s of JStr n \<Rightarrow> tools n | _ \<Rightarrow> None)"

definition step_stops :: "json \<Rightarrow> bool" where
  "step_stops v \<longleftrightarrow> is_obj v \<and> (field ''ok'' v = JBool False \<or> truthy (field ''approval_required'' v))"

definition stopped_reply :: "pytext \<Rightarrow> json \<Rightarrow> json" where
  "stopped_reply i v = JObj [(u ''ok'', JBool False), (u ''step_id'', JStr i), (u ''result'', v)]"

definition finished_reply :: "(pytext, json) dict \<Rightarrow> json" where
  "finished_reply rs = JObj [(u ''ok'', JBool True), (u ''results'', JObj rs)]"

definition unfinished :: exn where
  "unfinished = ValueError ''unfinished step may have side effects; inspect trace before retrying''"

definition unmarked :: "bool \<Rightarrow> json \<Rightarrow> wflow \<Rightarrow> wflow" where
  \<comment> \<open>a step that asked for approval, or a read-only one that failed, may be tried again\<close>
  "unmarked read_only v f = (if truthy (field ''approval_required'' v) \<or> read_only then f\<lparr>wf_running := None\<rparr> else f)"

fun run_steps :: "(pytext \<Rightarrow> 'w wtool option) \<Rightarrow> (pytext \<Rightarrow> json option) \<Rightarrow> pytext \<Rightarrow> (pytext \<times> json) list \<Rightarrow> wflow
    \<Rightarrow> 'w whost \<Rightarrow> 'w whost \<times> json result" where
  "run_steps tools loads i [] fl h = (h, Inr (finished_reply (wf_results fl)))"
| "run_steps tools loads i ((sid, step) # rest) fl h =
     (if sid \<in> set (wf_completed fl) then run_steps tools loads i rest fl h
      else case step_tool tools step of
        None \<Rightarrow> (h, Inl (ValueError ''unknown workflow capability''))
      | Some (f, read_only) \<Rightarrow>
          (case dget (wh_flows h) i of
             None \<Rightarrow> (h, Inl (KeyError ''workflow_id''))
           | Some fl \<Rightarrow>
               if sid \<in> set (wf_completed fl) then run_steps tools loads i rest fl h
               else if wf_running fl \<notin> {None, Some []} then (h, Inl unfinished)
               else (let fl = fl\<lparr>wf_running := Some sid\<rparr>;
                         h = log_step ''workflow.step.started''
                           [(''workflow_id'', JStr i), (''step_id'', JStr sid), (''tool'', field ''tool'' step)] (put_flow i fl h)
                     in case f (wh_world h) (get_or ''arguments'' (JObj []) step) of
                          (w, Inl e) \<Rightarrow> (h\<lparr>wh_world := w\<rparr>, Inl e)
                        | (w, Inr v0) \<Rightarrow>
                            (let v = loaded loads v0; h = h\<lparr>wh_world := w\<rparr>
                             in if step_stops v
                                then (case dget (wh_flows h) i of
                                       None \<Rightarrow> (h, Inl (KeyError ''workflow_id''))
                                     | Some g \<Rightarrow> (put_flow i (unmarked read_only v g) h, Inr (stopped_reply sid v)))
                                else (let fl = fl\<lparr>wf_results := dput sid v (wf_results fl),
                                            wf_completed := wf_completed fl @ [sid], wf_running := None\<rparr>
                                      in run_steps tools loads i rest fl
                                           (log_step ''workflow.step.completed''
                                             [(''workflow_id'', JStr i), (''step_id'', JStr sid), (''result'', v)]
                                             (put_flow i fl h)))))))"

definition workflow_run :: "(pytext \<Rightarrow> 'w wtool option) \<Rightarrow> (pytext \<Rightarrow> json list option) \<Rightarrow> (pytext \<Rightarrow> json option)
    \<Rightarrow> pytext \<Rightarrow> json list \<Rightarrow> 'w whost \<Rightarrow> 'w whost \<times> json result" where
  "workflow_run tools presets loads i steps0 h =
     (let steps = (if steps0 = [] then (case presets i of None \<Rightarrow> [] | Some xs \<Rightarrow> xs) else steps0)
      in if steps = [] \<or> 24 < length steps then (h, Inl (ValueError ''workflow requires 1 to 24 steps''))
         else if \<not> list_all is_obj steps then (h, Inl (TypeError ''a step is an object''))
         else if \<not> distinct (step_ids steps) then (h, Inl (ValueError ''workflow step IDs must be unique''))
         else (case dget (wh_flows h) i of
             None \<Rightarrow>
               (let fl = \<lparr>wf_steps = steps, wf_completed = [], wf_results = [], wf_running = None\<rparr>
                in run_steps tools loads i (zip (step_ids steps) steps) fl (put_flow i fl h))
           | Some fl \<Rightarrow>
               if \<not> py_eq (JList (wf_steps fl)) (JList steps)
               then (h, Inl (ValueError ''workflow steps changed; use a new workflow_id''))
               else run_steps tools loads i (zip (step_ids steps) steps) fl (put_flow i fl h)))"

subsection \<open>A run goes on where the last one stopped\<close>

primrec direct_steps :: "(pytext \<Rightarrow> 'w wtool option) \<Rightarrow> (pytext \<Rightarrow> json option) \<Rightarrow> (pytext \<times> json) list
    \<Rightarrow> (pytext, json) dict \<Rightarrow> 'w \<Rightarrow> 'w \<times> json result" where
  \<comment> \<open>the reference: each of the steps called once, in order, until one fails or asks for approval\<close>
  "direct_steps tools loads [] rs w = (w, Inr (finished_reply rs))"
| "direct_steps tools loads (s # rest) rs w =
     (case step_tool tools (snd s) of
        None \<Rightarrow> (w, Inl (ValueError ''unknown workflow capability''))
      | Some (f, read_only) \<Rightarrow>
          (case f w (get_or ''arguments'' (JObj []) (snd s)) of
             (w, Inl e) \<Rightarrow> (w, Inl e)
           | (w, Inr v0) \<Rightarrow>
               if step_stops (loaded loads v0) then (w, Inr (stopped_reply (fst s) (loaded loads v0)))
               else direct_steps tools loads rest (rs @ [(fst s, loaded loads v0)]) w))"

definition clean_tools :: "(pytext \<Rightarrow> 'w wtool option) \<Rightarrow> (pytext \<Rightarrow> json option) \<Rightarrow> bool" where
  \<comment> \<open>the guarded tools redact their results, so that redacting them again changes nothing\<close>
  "clean_tools tools loads \<longleftrightarrow> (\<forall>n f ro w a w' v. tools n = Some (f, ro) \<and> f w a = (w', Inr v) \<longrightarrow>
     redact_value (loaded loads v) = loaded loads v)"

definition clean_steps :: "json list \<Rightarrow> bool" where
  \<comment> \<open>acceptable steps that hold nothing that looks like a secret\<close>
  "clean_steps steps \<longleftrightarrow> steps \<noteq> [] \<and> length steps \<le> 24 \<and> list_all is_obj steps \<and> distinct (step_ids steps)
     \<and> list_all (\<lambda>s. redact_value s = s) steps \<and> list_all (\<lambda>i. redact_text i = i \<and> i \<noteq> []) (step_ids steps)"

definition reached :: "'w whost \<Rightarrow> pytext \<Rightarrow> json list \<Rightarrow> nat \<Rightarrow> (pytext, json) dict \<Rightarrow> pytext option \<Rightarrow> bool" where
  \<comment> \<open>the document says that the first \<open>n\<close> steps are done, with these results\<close>
  "reached h i steps n rs marked \<longleftrightarrow> n \<le> length steps \<and> map fst rs = take n (step_ids steps)
     \<and> list_all (\<lambda>(k, v). redact_value v = v) rs
     \<and> (case dget (wh_flows h) i of
          None \<Rightarrow> n = 0 \<and> marked = None
        | Some f \<Rightarrow> f = \<lparr>wf_steps = steps, wf_completed = take n (step_ids steps), wf_results = rs, wf_running = marked\<rparr>)"

lemma length_step_ids [simp]: "length (step_ids steps) = length steps"
  by (simp add: step_ids_def)

lemma dget_map_value: "dget (map (\<lambda>(k, v). (k, g v)) d) k = map_option g (dget d k)"
  by (induction d) auto

lemma put_flow_get [simp]:
  "dget (wh_flows (put_flow i f h)) i = Some (stored_flow f)" "wh_world (put_flow i f h) = wh_world h"
  by (simp_all add: put_flow_def dget_map_value update_conv')

lemma log_step_keeps [simp]:
  "wh_flows (log_step kind d h) = wh_flows h" "wh_world (log_step kind d h) = wh_world h"
  by (simp_all add: log_step_def)

lemma dput_fresh: "k \<notin> fst ` set d \<Longrightarrow> dput k v d = d @ [(k, v)]"
  by (induction d) auto

lemma flow_is_stored:
  assumes "clean_steps steps" "list_all (\<lambda>(k, v). redact_value v = v) rs" "\<And>i. marked = Some i \<Longrightarrow> redact_text i = i"
  shows "stored_flow \<lparr>wf_steps = steps, wf_completed = take n (step_ids steps), wf_results = rs, wf_running = marked\<rparr>
     = \<lparr>wf_steps = steps, wf_completed = take n (step_ids steps), wf_results = rs, wf_running = marked\<rparr>"
proof -
  have "map redact_value steps = steps" using assms(1) by (simp add: clean_steps_def list_all_iff map_idI)
  moreover have "map redact_text (take n (step_ids steps)) = take n (step_ids steps)"
    using assms(1) by (auto simp: clean_steps_def list_all_iff dest: in_set_takeD intro!: map_idI)
  moreover have "map (\<lambda>(k, v). (k, redact_value v)) rs = rs"
    using assms(2) by (auto simp: list_all_iff intro!: map_idI)
  ultimately show ?thesis using assms(3) by (cases marked) (simp_all add: stored_flow_def)
qed

lemma run_steps_skip:
  "fst ` set xs \<subseteq> set (wf_completed fl) \<Longrightarrow> run_steps tools loads i (xs @ ys) fl h = run_steps tools loads i ys fl h"
proof (induction xs)
  case (Cons x xs)
  then show ?case by (cases x) simp
qed simp

abbreviation flow_at :: "json list \<Rightarrow> nat \<Rightarrow> (pytext, json) dict \<Rightarrow> pytext option \<Rightarrow> wflow" where
  "flow_at steps n rs marked \<equiv>
     \<lparr>wf_steps = steps, wf_completed = take n (step_ids steps), wf_results = rs, wf_running = marked\<rparr>"

definition went_on :: "'w whost \<Rightarrow> json result \<Rightarrow> pytext \<Rightarrow> json list \<Rightarrow> nat \<Rightarrow> (pytext, json) dict \<Rightarrow> bool" where
  \<comment> \<open>the document fits the outcome: all steps are done, or the first step not done is open or marked\<close>
  "went_on h r i steps n rs \<longleftrightarrow> (\<exists>m rs' marked. n \<le> m \<and> reached h i steps m rs' marked \<and> take n rs' = rs
     \<and> (r = Inr (finished_reply rs') \<and> m = length steps \<and> marked = None
        \<or> m < length steps \<and> marked \<in> {None, Some (step_ids steps ! m)})
     \<and> (\<forall>x. r = Inr x \<and> truthy (field ''approval_required'' (field ''result'' x)) \<longrightarrow> marked = None))"

lemma went_on_later:
  assumes "went_on h r i steps (Suc n) (rs @ [p])" "length rs = n"
  shows "went_on h r i steps n rs"
proof -
  from assms(1) obtain m rs' marked where m: "Suc n \<le> m" "reached h i steps m rs' marked" "take (Suc n) rs' = rs @ [p]"
     "r = Inr (finished_reply rs') \<and> m = length steps \<and> marked = None
        \<or> m < length steps \<and> marked \<in> {None, Some (step_ids steps ! m)}"
     "\<forall>x. r = Inr x \<and> truthy (field ''approval_required'' (field ''result'' x)) \<longrightarrow> marked = None"
    unfolding went_on_def by blast
  have "take n rs' = take n (take (Suc n) rs')" by simp
  also have "\<dots> = rs" unfolding m(3) using assms(2) by simp
  finally show ?thesis unfolding went_on_def using m by (intro exI [of _ m] exI [of _ rs'] exI [of _ marked]) auto
qed

lemma stopped_fields [simp]:
  "field ''result'' (stopped_reply i v) = v" "field ''result'' (finished_reply rs) = JNull"
  by (simp_all add: field_def stopped_reply_def finished_reply_def)

lemma went_onI:
  assumes "reached h i steps n rs marked" "n < length steps" "marked \<in> {None, Some (step_ids steps ! n)}"
    and "\<And>x. r = Inr x \<Longrightarrow> truthy (field ''approval_required'' (field ''result'' x)) \<Longrightarrow> marked = None"
  shows "went_on h r i steps n rs"
proof -
  have "length rs = n" using assms(1,2) by (auto simp: reached_def dest: arg_cong [where f = length])
  with assms show ?thesis unfolding went_on_def by (intro exI [of _ n] exI [of _ rs] exI [of _ marked]) auto
qed

lemma run_steps_direct:
  assumes clean: "clean_steps steps" "clean_tools tools loads"
    and "reached h i steps n rs None" and "dget (wh_flows h) i \<noteq> None"
  shows "\<exists>h'. run_steps tools loads i (drop n (zip (step_ids steps) steps)) (flow_at steps n rs None) h
        = (h', snd (direct_steps tools loads (drop n (zip (step_ids steps) steps)) rs (wh_world h)))
     \<and> wh_world h' = fst (direct_steps tools loads (drop n (zip (step_ids steps) steps)) rs (wh_world h))
     \<and> went_on h' (snd (direct_steps tools loads (drop n (zip (step_ids steps) steps)) rs (wh_world h))) i steps n rs"
  using assms(3,4)
proof (induction "length steps - n" arbitrary: h n rs)
  case 0
  then have n: "n = length steps" by (simp add: reached_def)
  with 0 have "length rs = n" by (auto simp: reached_def dest: arg_cong [where f = length])
  with 0 n show ?case by (auto simp: went_on_def intro!: exI [of _ rs] exI [of _ n])
next
  case (Suc k)
  let ?ids = "step_ids steps"
  let ?sid = "?ids ! n" and ?s = "steps ! n"
  have n: "n < length steps" using Suc.hyps(2) by simp
  have z: "drop n (zip ?ids steps) = (?sid, ?s) # drop (Suc n) (zip ?ids steps)"
    using n by (subst Cons_nth_drop_Suc [symmetric]) simp_all
  have fl: "dget (wh_flows h) i = Some (flow_at steps n rs None)"
    using Suc.prems by (auto simp: reached_def split: option.splits)
  have fresh: "?sid \<notin> set (take n ?ids)"
    using clean(1) n by (auto simp: clean_steps_def distinct_conv_nth in_set_conv_nth)
  have red: "redact_text ?sid = ?sid" "?sid \<noteq> []"
    using clean(1) n by (auto simp: clean_steps_def list_all_length)
  have rs: "list_all (\<lambda>(k, v). redact_value v = v) rs" "map fst rs = take n ?ids"
    using Suc.prems(1) by (auto simp: reached_def)
  have same: "stored_flow (flow_at steps n rs None) = flow_at steps n rs None"
    "stored_flow (flow_at steps n rs (Some ?sid)) = flow_at steps n rs (Some ?sid)"
    using red(1) by (auto intro!: flow_is_stored [OF clean(1) rs(1)])
  show ?case
  proof (cases "step_tool tools ?s")
    case None
    then show ?thesis using z fresh Suc.prems(1) n by (auto intro!: went_onI [where marked = None])
  next
    case (Some p)
    then obtain f ro where p: "step_tool tools ?s = Some (f, ro)" by (cases p) auto
    obtain w r0 where f: "f (wh_world h) (get_or ''arguments'' (JObj []) ?s) = (w, r0)" by force
    show ?thesis
    proof (cases r0)
      case (Inl e)
      show ?thesis using z fresh p f Inl fl red n rs
        by (auto simp: Let_def reached_def same intro!: went_onI [where marked = "Some ?sid"])
    next
      case (Inr v0)
      define v where "v = loaded loads v0"
      have v: "redact_value v = v"
        using clean(2) p f Inr unfolding clean_tools_def step_tool_def v_def by (auto split: json.splits)
      show ?thesis
      proof (cases "step_stops v")
        case True
        let ?marked = "if truthy (field ''approval_required'' v) \<or> ro then None else Some ?sid"
        show ?thesis using z fresh p f Inr fl red n rs True v_def
          by (auto simp: Let_def reached_def unmarked_def same
              intro!: went_onI [where marked = ?marked])
      next
        case False
        define rs1 where "rs1 = rs @ [(?sid, v)]"
        have upd: "take n ?ids @ [?sid] = take (Suc n) ?ids" "dput ?sid v rs = rs1"
          using n fresh rs(2) by (simp_all add: take_Suc_conv_app_nth rs1_def dput_fresh flip: set_map)
        have rs1: "list_all (\<lambda>(k, v). redact_value v = v) rs1" "map fst rs1 = take (Suc n) ?ids"
          using rs v upd(1) by (simp_all add: rs1_def)
        define h1 where "h1 = log_step ''workflow.step.completed''
            [(''workflow_id'', JStr i), (''step_id'', JStr ?sid), (''result'', v)]
            (put_flow i (flow_at steps (Suc n) rs1 None)
              ((log_step ''workflow.step.started''
                 [(''workflow_id'', JStr i), (''step_id'', JStr ?sid), (''tool'', field ''tool'' ?s)]
                 (put_flow i (flow_at steps n rs (Some ?sid)) h))\<lparr>wh_world := w\<rparr>))"
        have h1: "reached h1 i steps (Suc n) rs1 None" "dget (wh_flows h1) i \<noteq> None" "wh_world h1 = w"
          using n rs1 flow_is_stored [OF clean(1) rs1(1), of None "Suc n"] by (simp_all add: h1_def reached_def)
        have run: "run_steps tools loads i (drop n (zip ?ids steps)) (flow_at steps n rs None) h
            = run_steps tools loads i (drop (Suc n) (zip ?ids steps)) (flow_at steps (Suc n) rs1 None) h1"
          using z fresh p f Inr fl False upd unfolding h1_def v_def by (simp add: Let_def)
        have dir: "direct_steps tools loads (drop n (zip ?ids steps)) rs (wh_world h)
            = direct_steps tools loads (drop (Suc n) (zip ?ids steps)) rs1 (wh_world h1)"
          using z p f Inr False h1(3) unfolding rs1_def v_def by simp
        have "length rs = n" using rs(2) n by (auto dest: arg_cong [where f = length])
        then have "went_on h' r i steps (Suc n) rs1 \<Longrightarrow> went_on h' r i steps n rs" for h' :: "'a whost" and r
          unfolding rs1_def using went_on_later by blast
        with Suc.hyps(1) [of "Suc n" h1 rs1] Suc.hyps(2) h1 show ?thesis unfolding run dir by fastforce
      qed
    qed
  qed
qed

lemma steps_run:
  assumes "clean_steps steps"
  shows "workflow_run tools presets loads i steps h =
     (case dget (wh_flows h) i of
        None \<Rightarrow> run_steps tools loads i (zip (step_ids steps) steps) (flow_at steps 0 [] None) (put_flow i (flow_at steps 0 [] None) h)
      | Some fl \<Rightarrow> if \<not> py_eq (JList (wf_steps fl)) (JList steps)
          then (h, Inl (ValueError ''workflow steps changed; use a new workflow_id''))
          else run_steps tools loads i (zip (step_ids steps) steps) fl (put_flow i fl h))"
  using assms by (auto simp: workflow_run_def clean_steps_def Let_def split: option.splits)

lemma marked_step_blocks:
  assumes "clean_steps steps" and "reached h i steps n rs (Some (step_ids steps ! n))" and "n < length steps"
  shows "\<exists>h' e. workflow_run tools presets loads i steps h = (h', Inl e) \<and> wh_world h' = wh_world h"
proof -
  let ?ids = "step_ids steps" and ?fl = "flow_at steps n rs (Some (step_ids steps ! n))"
  have fl: "dget (wh_flows h) i = Some ?fl" using assms(2) by (auto simp: reached_def split: option.splits)
  have z: "zip ?ids steps = take n (zip ?ids steps) @ (?ids ! n, steps ! n) # drop (Suc n) (zip ?ids steps)"
    using assms(3) id_take_nth_drop [of n "zip ?ids steps"] by simp
  have skip: "fst ` set (take n (zip ?ids steps)) \<subseteq> set (wf_completed ?fl)"
    by (auto simp: take_zip dest: set_zip_leftD)
  have red: "redact_text (?ids ! n) = ?ids ! n" "?ids ! n \<noteq> []"
    using assms(1,3) by (auto simp: clean_steps_def list_all_length)
  have fresh: "?ids ! n \<notin> set (take n ?ids)"
    using assms(1,3) by (auto simp: clean_steps_def distinct_conv_nth in_set_conv_nth)
  have same: "stored_flow ?fl = ?fl"
    using assms red(1) by (auto simp: reached_def intro!: flow_is_stored)
  have ran: "run_steps tools loads i (zip ?ids steps) ?fl h0
      = run_steps tools loads i ((?ids ! n, steps ! n) # drop (Suc n) (zip ?ids steps)) ?fl h0" for h0
    using run_steps_skip [OF skip, of tools loads i "(?ids ! n, steps ! n) # drop (Suc n) (zip ?ids steps)" h0]
    unfolding z [symmetric] .
  have "workflow_run tools presets loads i steps h
      = run_steps tools loads i ((?ids ! n, steps ! n) # drop (Suc n) (zip ?ids steps)) ?fl (put_flow i ?fl h)"
    unfolding steps_run [OF assms(1)] fl by (simp add: ran del: run_steps.simps)
  then show ?thesis using fresh red(2) by (cases "step_tool tools (steps ! n)") (auto simp: same unfinished_def)
qed


definition example_steps :: "json list" where
  "example_steps = map (\<lambda>n. JObj [(u ''id'', JStr (u n)), (u ''tool'', JStr (u ''count''))]) [''a'', ''b'']"

definition counting :: "pytext \<Rightarrow> nat wtool option" where
  \<comment> \<open>a tool that counts its calls and asks for approval at the second one\<close>
  "counting n = (if n = u ''count'' then Some (\<lambda>w a. (w + 1, Inr (if w = 1 then JObj [(u ''approval_required'', JBool True)]
     else JInt (int w))), False) else None)"


end
