(* ===== verification/Rag_Chunks.thy ===== *)
theory Rag_Chunks
  imports Py_Regex Py_Value
begin

text \<open>
  The text side of \<open>rag.py\<close>: what is taken out of a document, how it is cut into overlapping
  chunks, and how a query is turned into an FTS5 expression. PDF and DOCX readers are optional
  packages, hence parameters. The section on chunking shows that the loop ends, that every chunk is
  short and that the windows leave no character of the document out.
\<close>

subsection \<open>Extraction\<close>

definition TEXT_SUFFIXES :: "pytext list" where
  "TEXT_SUFFIXES = map u [''.txt'', ''.md'', ''.markdown'', ''.rst'', ''.html'', ''.htm'', ''.json'', ''.csv'', ''.tsv'']"

definition OPTIONAL_SUFFIXES :: "pytext list" where
  "OPTIONAL_SUFFIXES = map u [''.pdf'', ''.docx'']"

definition element_pattern :: "string \<Rightarrow> re" where
  \<comment> \<open>\<open><name\b.*?</name>\<close>, case ignored, the dot matching everything\<close>
  "element_pattern name = seqs [lit (u ''<''), lit_ci (u name), RBound, RStar False (RChar (\<lambda>_. True)),
     lit (u ''</''), lit_ci (u name), lit (u ''>'')]"

definition tag_pattern :: re where
  \<comment> \<open>\<open><[^>]+>\<close>\<close>
  "tag_pattern = seqs [lit (u ''<''), at_least 1 (\<lambda>c. c \<noteq> 62), lit (u ''>'')]"

definition strip_html :: "pytext \<Rightarrow> pytext" where
  \<comment> \<open>an alternative per element name stands for the back reference\<close>
  "strip_html t = sub tag_pattern (\<lambda>_. [32])
     (sub (RAlt (element_pattern ''script'') (element_pattern ''style'')) (\<lambda>_. [32]) t)"

fun indented :: "nat \<Rightarrow> json \<Rightarrow> pytext" where
  \<comment> \<open>\<open>json.dumps(v, ensure_ascii=False, indent=2)\<close> at a depth\<close>
  "indented d (JList xs) =
     (if xs = [] then u ''[]''
      else 91 # 10 # join [44, 10] (map (\<lambda>x. replicate (2 * Suc d) 32 @ indented (Suc d) x) xs)
             @ 10 # replicate (2 * d) 32 @ [93])"
| "indented d (JObj kvs) =
     (if kvs = [] then u ''{}''
      else 123 # 10 # join [44, 10] (map (\<lambda>kv. replicate (2 * Suc d) 32 @ quote (fst kv) @ u '': '' @ indented (Suc d) (snd kv)) kvs)
             @ 10 # replicate (2 * d) 32 @ [125])"
| "indented d v = dumps_default v"

datatype csv_state = StartField | InField | InQuoted | QuoteInQuoted

definition end_line :: "int \<Rightarrow> pytext \<Rightarrow> pytext option" where
  \<comment> \<open>what follows a line break; carriage returns must stand before a line feed or the end\<close>
  "end_line c t =
     (if c = 10 then Some t
      else (case dropWhile (\<lambda>x. x = 13) t of [] \<Rightarrow> Some [] | x # r \<Rightarrow> if x = 10 then Some r else None))"

lemma end_line_shorter [termination_simp]: "end_line c t = Some r \<Longrightarrow> length r < Suc (length t)"
  using length_dropWhile_le [of "\<lambda>x. x = 13" t]
  by (auto simp: end_line_def split: if_splits list.splits)

fun csv_rows :: "int \<Rightarrow> csv_state \<Rightarrow> pytext \<Rightarrow> pytext list \<Rightarrow> pytext \<Rightarrow> pytext list list option" where
  \<comment> \<open>\<open>csv.reader\<close> in the dialect excel, \<open>None\<close> for \<open>csv.Error\<close>: the field read so far and the
      row's earlier fields are reversed; an empty line is an empty row\<close>
  "csv_rows d st cur row [] =
     Some (if st = StartField \<and> row = [] then [] else [rev (rev cur # row)])"
| "csv_rows d st cur row (c # t) =
     (if (c = 10 \<or> c = 13) \<and> st \<noteq> InQuoted
      then (case end_line c t of
              None \<Rightarrow> None
            | Some r \<Rightarrow> map_option (\<lambda>rows. (if st = StartField \<and> row = [] then [] else rev (rev cur # row)) # rows)
                (csv_rows d StartField [] [] r))
      else if c = 34 \<and> st = StartField then csv_rows d InQuoted cur row t
      else if c = 34 \<and> st = InQuoted then csv_rows d QuoteInQuoted cur row t
      else if c = 34 \<and> st = QuoteInQuoted then csv_rows d InQuoted (34 # cur) row t
      else if st = InQuoted then csv_rows d InQuoted (c # cur) row t
      else if c = d then csv_rows d StartField [] (rev cur # row) t
      else csv_rows d InField (c # cur) row t)"

definition extract_text :: "(pytext \<Rightarrow> json option) \<Rightarrow> (pytext \<Rightarrow> int list \<Rightarrow> pytext result) \<Rightarrow> pytext \<Rightarrow> int list \<Rightarrow> pytext result" where
  "extract_text loads readers suf raw =
     (if suf \<in> set OPTIONAL_SUFFIXES then readers suf raw
      else let t = decode_replace raw
           in if suf \<in> {u ''.html'', u ''.htm''} then Inr (join (u '' '') (split_ws (strip_html t)))
              else if suf = u ''.json'' then Inr (case loads t of None \<Rightarrow> t | Some v \<Rightarrow> indented 0 v)
              else if suf \<in> {u ''.csv'', u ''.tsv''}
              then (case csv_rows (if suf = u ''.tsv'' then 9 else 44) StartField [] [] t of
                      None \<Rightarrow> Inl (RuntimeError ''csv.Error'')
                    | Some rows \<Rightarrow> Inr (join [10] (map (join (u '' | '')) rows)))
              else Inr t)"

subsection \<open>Chunking\<close>

definition rfind :: "pytext \<Rightarrow> pytext \<Rightarrow> nat \<Rightarrow> nat \<Rightarrow> nat option" where
  \<comment> \<open>\<open>text.rfind(sub, start, end)\<close>, \<open>None\<close> for -1\<close>
  "rfind w t a b = first_such (\<lambda>i. starts_with w (drop i (take b t))) (rev [a..<Suc b - length w])"

definition window_end :: "nat \<Rightarrow> pytext \<Rightarrow> nat \<Rightarrow> nat" where
  \<comment> \<open>a paragraph or sentence end in the second half of the window, or the window's end\<close>
  "window_end width t cursor =
     (let e = min (cursor + width) (length t)
      in if length t \<le> e then e
         else (case (rfind [10, 10] t cursor e, rfind [12290] t cursor e) of
             (None, None) \<Rightarrow> e
           | (x, y) \<Rightarrow> (let b = max (case x of None \<Rightarrow> 0 | Some i \<Rightarrow> i) (case y of None \<Rightarrow> 0 | Some i \<Rightarrow> i)
                        in if cursor + width div 2 < b then b + 1 else e)))"

definition next_cursor :: "nat \<Rightarrow> nat \<Rightarrow> nat \<Rightarrow> nat" where
  "next_cursor overlap e cursor = max (e - overlap) (cursor + 1)"

function windows :: "nat \<Rightarrow> nat \<Rightarrow> pytext \<Rightarrow> nat \<Rightarrow> (nat \<times> nat) list" where
  \<comment> \<open>the positions the loop of \<open>_chunk\<close> goes through\<close>
  "windows width overlap t cursor =
     (if cursor < length t
      then (let e = window_end width t cursor
            in (cursor, e) # (if length t \<le> e then [] else windows width overlap t (next_cursor overlap e cursor)))
      else [])"
  by pat_completeness auto
termination
  by (relation "measure (\<lambda>(width, overlap, t, cursor). length t - cursor)") (auto simp: next_cursor_def Let_def)

declare windows.simps [simp del]

definition slice :: "nat \<Rightarrow> nat \<Rightarrow> pytext \<Rightarrow> pytext" where
  "slice a b t = take (b - a) (drop a t)"

definition chunk :: "nat \<Rightarrow> nat \<Rightarrow> pytext \<Rightarrow> pytext list" where
  \<comment> \<open>with the configured sizes in tokens\<close>
  "chunk chunk_tokens overlap_tokens t =
     (let s = strip t; width = chunk_tokens * 4; overlap = min (overlap_tokens * 4) (width - 1)
      in filter (\<lambda>c. c \<noteq> []) (map (\<lambda>(a, b). strip (slice a b s)) (windows width overlap s 0)))"

subsection \<open>Full-text queries\<close>

fun word_runs :: "pytext \<Rightarrow> pytext \<Rightarrow> pytext list" where
  \<comment> \<open>\<open>re.findall(r"[\w...]+", query)\<close>; the second argument is the run read so far, reversed\<close>
  "word_runs [] cur = (if cur = [] then [] else [rev cur])"
| "word_runs (c # t) cur =
     (if is_word c \<or> (13312 \<le> c \<and> c \<le> 40959) then word_runs t (c # cur)
      else (if cur = [] then word_runs t [] else rev cur # word_runs t []))"

definition fts_query :: "pytext \<Rightarrow> pytext" where
  "fts_query q = join (u '' OR '') (map (\<lambda>w. 34 # filter (\<lambda>c. c \<noteq> 34) w @ [34]) (take 20 (word_runs q [])))"

function occurrences :: "pytext \<Rightarrow> pytext \<Rightarrow> nat" where
  \<comment> \<open>\<open>text.count(word)\<close> for a word that is not empty, the text first\<close>
  "occurrences [] w = 0"
| "occurrences (c # t) w =
     (if w \<noteq> [] \<and> starts_with w (c # t) then Suc (occurrences (drop (length w - 1) t) w) else occurrences t w)"
  by pat_completeness auto
termination by (relation "measure (\<lambda>(t, w). length t)") auto

subsection \<open>The windows cover the document\<close>

lemma strip_keeps: "c \<in> set t \<Longrightarrow> \<not> is_space c \<Longrightarrow> c \<in> set (strip t)"
proof -
  have "c \<in> set (dropWhile p xs)" if "c \<in> set xs" "\<not> p c" for p and xs :: pytext
    using that by (induction xs) auto
  then show "c \<in> set t \<Longrightarrow> \<not> is_space c \<Longrightarrow> ?thesis"
    by (simp add: strip_def lstrip_def rstrip_def)
qed

lemma rfind_Some: "rfind w t a b = Some i \<Longrightarrow> a \<le> i \<and> i + length w \<le> b"
  by (auto simp: rfind_def dest!: first_such_Some)

lemma window_end_bounds:
  assumes "0 < width" and "cursor < length t"
  shows "cursor < window_end width t cursor \<and> window_end width t cursor \<le> min (cursor + width) (length t)"
proof -
  define e where "e = min (cursor + width) (length t)"
  have e: "cursor < e" using assms by (simp add: e_def)
  have b: "i + 1 \<le> e" if "rfind [10, 10] t cursor e = Some i \<or> rfind [12290] t cursor e = Some i" for i
    using that rfind_Some [of _ t cursor e i] by fastforce
  show ?thesis
    unfolding window_end_def Let_def e_def [symmetric]
    using e b by (cases "rfind [10, 10] t cursor e"; cases "rfind [12290] t cursor e") (auto simp: max_def)
qed

lemma windows_ok:
  assumes "0 < width"
  shows "(\<forall>(a, b)\<in>set (windows width overlap t c). c \<le> a \<and> a < b \<and> b \<le> length t \<and> b - a \<le> width)
     \<and> (\<forall>i. c \<le> i \<and> i < length t \<longrightarrow> (\<exists>(a, b)\<in>set (windows width overlap t c). a \<le> i \<and> i < b))
     \<and> sorted_wrt (\<lambda>v w. fst v < fst w) (windows width overlap t c)"
using assms
proof (induction width overlap t c rule: windows.induct)
  case (1 width overlap t c)
  show ?case
  proof (cases "c < length t")
    case False
    then show ?thesis by (simp add: windows.simps)
  next
    case True
    define e where "e = window_end width t c"
    have e: "c < e" "e \<le> c + width" "e \<le> length t"
      using window_end_bounds [of width c t] True 1(2) by (auto simp: e_def)
    show ?thesis
    proof (cases "length t \<le> e")
      case last: True
      then have "windows width overlap t c = [(c, e)]" using True by (subst windows.simps) (simp add: e_def)
      then show ?thesis using e last by auto
    next
      case more: False
      let ?ws = "windows width overlap t (next_cursor overlap e c)"
      have w: "windows width overlap t c = (c, e) # ?ws"
        using True more by (subst windows.simps) (simp add: e_def Let_def)
      have n: "c < next_cursor overlap e c" "next_cursor overlap e c \<le> e" using e by (auto simp: next_cursor_def)
      note IH = 1(1) [OF True e_def _ 1(2)]
      have "\<forall>(a, b)\<in>set ?ws. next_cursor overlap e c \<le> a \<and> a < b \<and> b \<le> length t \<and> b - a \<le> width"
        and cov: "\<forall>i. next_cursor overlap e c \<le> i \<and> i < length t \<longrightarrow> (\<exists>(a, b)\<in>set ?ws. a \<le> i \<and> i < b)"
        and "sorted_wrt (\<lambda>v w. fst v < fst w) ?ws"
        using IH more by auto
      moreover have "\<exists>(a, b)\<in>set ((c, e) # ?ws). a \<le> i \<and> i < b" if "c \<le> i" "i < length t" for i
        using cov that n(2) by (cases "i < e") auto
      ultimately show ?thesis unfolding w using n e by fastforce
    qed
  qed
qed

text \<open>C40. Chunking: whatever the sizes, the loop ends; every chunk is between one character and the
  configured number of tokens (four characters each) long; and the windows that the chunks are the
  stripped contents of go over the stripped document from left to right and leave no position out,
  so that every character that is not white space is in some chunk.\<close>
theorem chunks_cover_the_document:
  assumes "0 < chunk_tokens"
  shows "(\<forall>c\<in>set (chunk chunk_tokens overlap_tokens t). c \<noteq> [] \<and> length c \<le> chunk_tokens * 4)
     \<and> (\<exists>ws. sorted_wrt (\<lambda>v w. fst v < fst w) ws \<and> (\<forall>i<length (strip t). \<exists>(a, b)\<in>set ws. a \<le> i \<and> i < b)
          \<and> chunk chunk_tokens overlap_tokens t
              = filter (\<lambda>c. c \<noteq> []) (map (\<lambda>(a, b). strip (slice a b (strip t))) ws))
     \<and> (\<forall>i<length (strip t). \<not> is_space (strip t ! i) \<longrightarrow> (\<exists>c\<in>set (chunk chunk_tokens overlap_tokens t). strip t ! i \<in> set c))"
proof -
  define s where "s = strip t"
  define ws where "ws = windows (chunk_tokens * 4) (min (overlap_tokens * 4) (chunk_tokens * 4 - 1)) s 0"
  have ch: "chunk chunk_tokens overlap_tokens t = filter (\<lambda>c. c \<noteq> []) (map (\<lambda>(a, b). strip (slice a b s)) ws)"
    by (simp add: chunk_def s_def ws_def Let_def)
  have win: "(\<forall>(a, b)\<in>set ws. a < b \<and> b \<le> length s \<and> b - a \<le> chunk_tokens * 4)"
    and cov: "\<forall>i<length s. \<exists>(a, b)\<in>set ws. a \<le> i \<and> i < b" and srt: "sorted_wrt (\<lambda>v w. fst v < fst w) ws"
    using windows_ok [of "chunk_tokens * 4" "min (overlap_tokens * 4) (chunk_tokens * 4 - 1)" s 0] assms
    unfolding ws_def by fastforce+
  have piece: "length (strip (slice a b s)) \<le> b - a" for a b
    using length_strip [of "slice a b s"] by (simp add: slice_def)
  have short: "c \<noteq> [] \<and> length c \<le> chunk_tokens * 4" if c: "c \<in> set (chunk chunk_tokens overlap_tokens t)" for c
  proof -
    obtain a b where "(a, b) \<in> set ws" "c = strip (slice a b s)" "c \<noteq> []" using c unfolding ch by auto
    with win piece [of a b] show ?thesis by (metis (no_types, lifting) case_prodD order_trans)
  qed
  have "\<exists>c\<in>set (chunk chunk_tokens overlap_tokens t). s ! i \<in> set c" if i: "i < length s" "\<not> is_space (s ! i)" for i
  proof -
    obtain a b where ab: "(a, b) \<in> set ws" "a \<le> i" "i < b" using cov i by blast
    with win have "b \<le> length s" by blast
    with ab i have "s ! i = slice a b s ! (i - a)" "i - a < length (slice a b s)"
      by (auto simp: slice_def)
    then have "s ! i \<in> set (slice a b s)" by simp
    then have "s ! i \<in> set (strip (slice a b s))" using strip_keeps i(2) by blast
    with ab(1) show ?thesis unfolding ch by (intro bexI [of _ "strip (slice a b s)"]) (auto intro: image_eqI [of _ _ "(a, b)"])
  qed
  with short have "\<forall>i<length s. \<not> is_space (s ! i) \<longrightarrow> (\<exists>c\<in>set (chunk chunk_tokens overlap_tokens t). s ! i \<in> set c)"
    by blast
  with short cov srt show ?thesis unfolding s_def [symmetric] ch [symmetric]
    by (intro conjI ballI) (use ch in blast)+
qed

lemma chunks_cover_the_document_witness:
  "length (chunk 2 1 (u ''abcdefgh ijklmnopqrst'')) = 5
     \<and> list_all (\<lambda>c. c \<noteq> [] \<and> length c \<le> 2 * 4) (chunk 2 1 (u ''abcdefgh ijklmnopqrst''))"
proof
  show "length (chunk 2 1 (u ''abcdefgh ijklmnopqrst'')) = 5" by code_simp
  have "0 < (2 :: nat)" by simp
  from chunks_cover_the_document [OF this, of 1 "u ''abcdefgh ijklmnopqrst''"]
  show "list_all (\<lambda>c. c \<noteq> [] \<and> length c \<le> 2 * 4) (chunk 2 1 (u ''abcdefgh ijklmnopqrst''))"
    unfolding list_all_iff by (rule conjunct1)
qed

end
