(* ===== verification/Rag_Index.thy ===== *)
theory Rag_Index
  imports Rag_Chunks Prelude "HOL-Library.Multiset"
begin

text \<open>
  The index of \<open>rag.py\<close>: four tables of documents, chunks, embeddings and full-text rows, kept in
  insertion order, and the operations on one scope of it. SQLite's full-text matching and the
  embedding service are parameters: \<open>fts\<close> gives the rows that match an expression with their ranks,
  best first, and \<open>serve\<close> answers one batch of texts with indexed vectors. Vectors and scores are
  real numbers.
\<close>

subsection \<open>The tables\<close>

record rag_doc =
  rd_id :: string
  rd_scope :: string
  rd_path :: pytext
  rd_hash :: string
  rd_suffix :: pytext
  rd_size :: nat
  rd_updated :: string

record rag_chunk =
  rc_id :: string
  rc_doc :: string
  rc_scope :: string
  rc_path :: pytext
  rc_ordinal :: nat
  rc_content :: pytext

record rag_fts =
  rf_content :: pytext
  rf_chunk :: string
  rf_scope :: string
  rf_path :: pytext

record rag_embedding =
  re_chunk :: string
  re_scope :: string
  re_model :: string
  re_vector :: "real list"

record rag_db =
  rg_docs :: "rag_doc list"
  rg_chunks :: "rag_chunk list"
  rg_embeddings :: "rag_embedding list"
  rg_fts :: "rag_fts list"

record rag_config =
  cf_scope :: string
  cf_chunk_tokens :: nat
  cf_overlap :: nat
  cf_max_results :: int
  cf_embed :: bool
  cf_model :: string
  cf_batch :: nat

subsection \<open>Ingestion\<close>

type_synonym service = "pytext list \<Rightarrow> (nat \<times> real list) list result"

function embed :: "service \<Rightarrow> nat \<Rightarrow> pytext list \<Rightarrow> real list list result" where
  \<comment> \<open>\<open>_embed\<close> once the key is found, batch by batch\<close>
  "embed serve batch texts =
     (if texts = [] \<or> batch = 0 then Inr []
      else bindE (serve (take batch texts)) (\<lambda>answer.
        let data = map snd (sort_key fst answer)
        in guardE (length data \<noteq> length (take batch texts))
             (RuntimeError ''embedding provider returned an unexpected vector count'')
             (guardE (list_ex (\<lambda>v. v = []) data) (RuntimeError ''embedding provider returned an invalid vector'')
               (bindE (embed serve batch (drop batch texts)) (\<lambda>vs. Inr (data @ vs))))))"
  by pat_completeness auto
termination by (relation "measure (\<lambda>(serve, batch, texts). length texts)") auto

declare embed.simps [simp del]

definition document_at :: "rag_config \<Rightarrow> rag_db \<Rightarrow> pytext \<Rightarrow> rag_doc option" where
  "document_at cf d path = first_such (\<lambda>x. rd_scope x = cf_scope cf \<and> rd_path x = path) (rg_docs d)"

definition chunks_of :: "rag_db \<Rightarrow> string \<Rightarrow> rag_chunk list" where
  "chunks_of d doc = filter (\<lambda>c. rc_doc c = doc) (rg_chunks d)"

definition embedded_count :: "rag_config \<Rightarrow> rag_db \<Rightarrow> string \<Rightarrow> nat" where
  "embedded_count cf d doc = length (filter (\<lambda>(e, c). rc_id c = re_chunk e \<and> rc_doc c = doc \<and> re_model e = cf_model cf)
     (List.product (rg_embeddings d) (rg_chunks d)))"

definition up_to_date :: "rag_config \<Rightarrow> rag_db \<Rightarrow> pytext \<Rightarrow> string \<Rightarrow> bool" where
  "up_to_date cf d path digest \<longleftrightarrow>
     (case document_at cf d path of
        None \<Rightarrow> False
      | Some x \<Rightarrow> rd_hash x = digest
          \<and> (\<not> cf_embed cf \<or> embedded_count cf d (rd_id x) = length (chunks_of d (rd_id x))))"

definition drop_chunks :: "string \<Rightarrow> rag_db \<Rightarrow> rag_db" where
  \<comment> \<open>the deletions by chunk id, then those by document id\<close>
  "drop_chunks doc d =
     (let old = map rc_id (chunks_of d doc)
      in d\<lparr>rg_fts := filter (\<lambda>f. rf_chunk f \<notin> set old) (rg_fts d),
           rg_embeddings := filter (\<lambda>e. re_chunk e \<notin> set old) (rg_embeddings d),
           rg_chunks := filter (\<lambda>c. rc_doc c \<noteq> doc) (rg_chunks d)\<rparr>)"

definition new_chunks :: "rag_config \<Rightarrow> string \<Rightarrow> pytext \<Rightarrow> (nat \<Rightarrow> string) \<Rightarrow> pytext list \<Rightarrow> rag_chunk list" where
  "new_chunks cf doc path ids texts = map (\<lambda>(i, t). \<lparr>rc_id = ids i, rc_doc = doc, rc_scope = cf_scope cf,
     rc_path = path, rc_ordinal = i, rc_content = t\<rparr>) (enumerate 1 texts)"

definition fts_row :: "rag_chunk \<Rightarrow> rag_fts" where
  "fts_row c = \<lparr>rf_content = rc_content c, rf_chunk = rc_id c, rf_scope = rc_scope c, rf_path = rc_path c\<rparr>"

definition embedding_row :: "rag_config \<Rightarrow> rag_chunk \<times> real list \<Rightarrow> rag_embedding" where
  "embedding_row cf cv = \<lparr>re_chunk = rc_id (fst cv), re_scope = cf_scope cf, re_model = cf_model cf, re_vector = snd cv\<rparr>"

definition prepared_docs ::
  "rag_config \<Rightarrow> pytext \<Rightarrow> string \<Rightarrow> pytext \<Rightarrow> nat \<Rightarrow> string \<Rightarrow> string \<Rightarrow> rag_db \<Rightarrow> rag_db" where
  \<comment> \<open>the state of the second transaction before the new chunks are inserted\<close>
  "prepared_docs cf path digest suf bytes now fresh d =
     (case document_at cf d path of
        None \<Rightarrow> d\<lparr>rg_docs := rg_docs d @ [\<lparr>rd_id = fresh, rd_scope = cf_scope cf, rd_path = path, rd_hash = digest,
           rd_suffix = suf, rd_size = bytes, rd_updated = now\<rparr>]\<rparr>
      | Some x \<Rightarrow> (drop_chunks (rd_id x) d)\<lparr>rg_docs := map (\<lambda>y. if rd_id y = rd_id x
           then y\<lparr>rd_hash := digest, rd_suffix := suf, rd_size := bytes, rd_updated := now\<rparr> else y)
             (rg_docs (drop_chunks (rd_id x) d))\<rparr>)"

definition stored_document ::
  "rag_config \<Rightarrow> pytext \<Rightarrow> string \<Rightarrow> pytext \<Rightarrow> nat \<Rightarrow> string \<Rightarrow> string \<Rightarrow> pytext list \<Rightarrow> real list list
     \<Rightarrow> (nat \<Rightarrow> string) \<Rightarrow> rag_db \<Rightarrow> rag_db" where
  \<comment> \<open>the second transaction of \<open>_ingest_file\<close>\<close>
  "stored_document cf path digest suf bytes now fresh texts vectors ids d =
     (let doc = (case document_at cf d path of None \<Rightarrow> fresh | Some x \<Rightarrow> rd_id x);
          d = prepared_docs cf path digest suf bytes now fresh d;
          new = new_chunks cf doc path ids texts
      in d\<lparr>rg_chunks := rg_chunks d @ new, rg_fts := rg_fts d @ map fts_row new,
           rg_embeddings := rg_embeddings d @ map (embedding_row cf) (zip new vectors)\<rparr>)"

record ingested =
  in_unchanged :: bool
  in_chunks :: nat
  in_embeddings :: nat
  in_error :: "exn option"

definition ingest_file ::
  "(int list \<Rightarrow> string) \<Rightarrow> (pytext \<Rightarrow> int list \<Rightarrow> pytext result) \<Rightarrow> service \<Rightarrow> rag_config \<Rightarrow> pytext \<Rightarrow> int list
     \<Rightarrow> string \<Rightarrow> string \<Rightarrow> (nat \<Rightarrow> string) \<Rightarrow> rag_db \<Rightarrow> rag_db \<times> ingested result" where
  "ingest_file sha extractor serve cf path raw now fresh ids d =
     (let suf = lower (path_suffix path); digest = sha raw
      in if suf \<notin> set (TEXT_SUFFIXES @ OPTIONAL_SUFFIXES) then (d, Inl (ValueError ''unsupported document type''))
         else if 10485760 < int (length raw) then (d, Inl (ValueError ''document exceeds 10 MiB limit''))
         else if up_to_date cf d path digest
         then (let doc = rd_id (the (document_at cf d path))
               in (d, Inr \<lparr>in_unchanged = True, in_chunks = length (chunks_of d doc),
                     in_embeddings = embedded_count cf d doc, in_error = None\<rparr>))
         else (case extractor suf raw of
             Inl e \<Rightarrow> (d, Inl e)
           | Inr t \<Rightarrow>
               (let texts = chunk (cf_chunk_tokens cf) (cf_overlap cf) t;
                    answer = (if cf_embed cf \<and> texts \<noteq> [] then embed serve (cf_batch cf) texts else Inr []);
                    vectors = (case answer of Inl _ \<Rightarrow> [] | Inr vs \<Rightarrow> vs);
                    failure = (case answer of Inl e \<Rightarrow> Some e | Inr _ \<Rightarrow> None)
                in (stored_document cf path digest suf (length raw) now fresh texts vectors ids d,
                    Inr \<lparr>in_unchanged = False, in_chunks = length texts, in_embeddings = length vectors,
                      in_error = failure\<rparr>))))"

definition remove :: "rag_config \<Rightarrow> pytext \<Rightarrow> rag_db \<Rightarrow> rag_db \<times> bool" where
  "remove cf path d =
     (case document_at cf d path of
        None \<Rightarrow> (d, False)
      | Some x \<Rightarrow> (let d = drop_chunks (rd_id x) d
                  in (d\<lparr>rg_docs := filter (\<lambda>y. rd_id y \<noteq> rd_id x) (rg_docs d)\<rparr>, True)))"

record workspace_files =
  \<comment> \<open>the resolved root; strict resolution below it; the bytes of a regular file\<close>
  wf_root :: "pytext list"
  wf_resolve :: "pytext list \<Rightarrow> pytext list option"
  wf_file :: "pytext list \<Rightarrow> int list option"

definition safe_workspace_file :: "workspace_files \<Rightarrow> pytext \<Rightarrow> (pytext list \<times> int list) result" where
  "safe_workspace_file fs relative =
     guardE (relative = [] \<or> is_absolute relative \<or> dotdot \<in> set (path_parts relative) \<or> dotgit \<in> set (path_parts relative))
       (ValueError ''unsafe workspace document path'')
       (case wf_resolve fs (path_parts relative) of
          None \<Rightarrow> Inl FileNotFoundError
        | Some p \<Rightarrow> guardE (take (length (wf_root fs)) p \<noteq> wf_root fs) (ValueError ''document path escapes workspace'')
            (case wf_file fs p of
               None \<Rightarrow> Inl (ValueError ''document is not a regular file'')
             | Some bytes \<Rightarrow> Inr (p, bytes)))"

fun reported :: "exn \<Rightarrow> bool" where
  \<comment> \<open>an \<open>OSError\<close> or a \<open>ValueError\<close>\<close>
  "reported (ValueError _) = True"
| "reported (OSError _) = True"
| "reported FileNotFoundError = True"
| "reported (PermissionError _) = True"
| "reported _ = False"

fun ingest ::
  "(int list \<Rightarrow> string) \<Rightarrow> (pytext \<Rightarrow> int list \<Rightarrow> pytext result) \<Rightarrow> service \<Rightarrow> rag_config \<Rightarrow> workspace_files \<Rightarrow> string
     \<Rightarrow> (nat \<Rightarrow> string \<times> (nat \<Rightarrow> string)) \<Rightarrow> pytext list \<Rightarrow> rag_db \<Rightarrow> rag_db \<times> (pytext \<times> ingested result) list result" where
  \<comment> \<open>any other error ends the loop and passes through\<close>
  "ingest sha extractor serve cf fs now fresh [] d = (d, Inr [])"
| "ingest sha extractor serve cf fs now fresh (relative # rest) d =
     (case (case safe_workspace_file fs relative of
              Inl e \<Rightarrow> (d, Inl e)
            | Inr (p, raw) \<Rightarrow> ingest_file sha extractor serve cf (join [slash] (drop (length (wf_root fs)) p)) raw now
                 (fst (fresh (length rest))) (snd (fresh (length rest))) d) of
        (d', r) \<Rightarrow>
          (case r of
             Inl e \<Rightarrow> if reported e then
                 (case ingest sha extractor serve cf fs now fresh rest d' of
                    (d'', rs) \<Rightarrow> (d'', bindE rs (\<lambda>xs. Inr ((relative, Inl e) # xs))))
               else (d', Inl e)
           | Inr x \<Rightarrow>
               (case ingest sha extractor serve cf fs now fresh rest d' of
                  (d'', rs) \<Rightarrow> (d'', bindE rs (\<lambda>xs. Inr ((relative, Inr x) # xs))))))"

subsection \<open>Retrieval\<close>

record rag_result =
  rr_chunk :: string
  rr_path :: pytext
  rr_ordinal :: nat
  rr_content :: pytext
  rr_score :: real
  rr_retrieval :: pytext
  rr_citation :: pytext

definition citation :: "rag_chunk \<Rightarrow> pytext" where
  "citation c = u ''['' @ rc_path c @ u ''#chunk-'' @ nat_repr (rc_ordinal c) @ u '']''"

definition result_row :: "string \<Rightarrow> rag_chunk \<times> real \<Rightarrow> rag_result" where
  "result_row retrieval cs = (case cs of (c, score) \<Rightarrow> \<lparr>rr_chunk = rc_id c, rr_path = rc_path c, rr_ordinal = rc_ordinal c,
     rr_content = rc_content c, rr_score = score, rr_retrieval = u retrieval, rr_citation = citation c\<rparr>)"

type_synonym matcher = "rag_fts list \<Rightarrow> pytext \<Rightarrow> (rag_fts \<times> real) list result"

definition fts_rows :: "matcher \<Rightarrow> rag_config \<Rightarrow> rag_db \<Rightarrow> pytext \<Rightarrow> nat \<Rightarrow> (rag_chunk \<times> real) list" where
  \<comment> \<open>the joined rows of the scope; an error of the matcher counts as no row\<close>
  "fts_rows fts cf d expression limit =
     (if expression = [] then []
      else (case fts (rg_fts d) expression of
          Inl _ \<Rightarrow> []
        | Inr rows \<Rightarrow> take limit (concat (map (\<lambda>(f, rank). map (\<lambda>c. (c, rank)) (filter (\<lambda>c. rc_id c = rf_chunk f) (rg_chunks d)))
            (filter (\<lambda>(f, _). rf_scope f = cf_scope cf) rows)))))"

definition scanned_rows :: "rag_config \<Rightarrow> rag_db \<Rightarrow> pytext \<Rightarrow> nat \<Rightarrow> (rag_chunk \<times> real) list" where
  \<comment> \<open>the fallback: count the words of the query in the first thousand chunks of the scope\<close>
  "scanned_rows cf d q limit =
     (let words = map lower (split_ws q);
          scored = map (\<lambda>c. (sum_list (map (occurrences (lower (rc_content c))) words), c))
            (take 1000 (filter (\<lambda>c. rc_scope c = cf_scope cf) (rg_chunks d)))
      in take limit (map (\<lambda>(_, c). (c, 0)) (filter (\<lambda>(n, _). n \<noteq> 0) (sort_key (\<lambda>(n, _). - int n) scored))))"

definition cosine :: "real list \<Rightarrow> real list \<Rightarrow> real option" where
  \<comment> \<open>\<open>None\<close> when the dimensions do not match\<close>
  "cosine l r =
     (if l = [] \<or> length l \<noteq> length r then None
      else (let a = sqrt (sum_list (map (\<lambda>x. x * x) l)); b = sqrt (sum_list (map (\<lambda>x. x * x) r))
            in if a = 0 \<or> b = 0 then Some 0 else Some (sum_list (map2 (*) l r) / (a * b))))"

definition semantic_search :: "service \<Rightarrow> rag_config \<Rightarrow> rag_db \<Rightarrow> pytext \<Rightarrow> nat \<Rightarrow> rag_result list result" where
  "semantic_search serve cf d q limit =
     bindE (embed serve (cf_batch cf) [q]) (\<lambda>vs.
       let v = hd vs;
           rows = take 10000 (rev (concat (map (\<lambda>c. map (\<lambda>e. (c, re_vector e))
             (filter (\<lambda>e. re_chunk e = rc_id c \<and> re_scope e = cf_scope cf \<and> re_model e = cf_model cf) (rg_embeddings d)))
             (rg_chunks d))));
           scored = concat (map (\<lambda>(c, w). case cosine v w of None \<Rightarrow> [] | Some s \<Rightarrow> [(c, s)]) rows)
       in Inr (map (result_row ''embedding'') (take limit (sort_key (\<lambda>(_, s). - s) scored))))"

subsection \<open>Rank fusion\<close>

record fused =
  fu_item :: rag_result
  fu_score :: real
  fu_sources :: "pytext list"

definition fuse_one :: "nat \<times> rag_result \<Rightarrow> (string, fused) dict \<Rightarrow> (string, fused) dict" where
  \<comment> \<open>one step of the loop over both result sets; the sources are a set in the code\<close>
  "fuse_one ri acc =
     (case ri of (rank, item) \<Rightarrow>
        (let f = (case dget acc (rr_chunk item) of
               None \<Rightarrow> \<lparr>fu_item = item, fu_score = 0, fu_sources = []\<rparr> | Some f \<Rightarrow> f)
         in dput (rr_chunk item) (f\<lparr>fu_score := fu_score f + 1 / (60 + real rank),
              fu_sources := List.insert (rr_retrieval item) (fu_sources f)\<rparr>) acc))"

definition reciprocal_rank_fusion :: "rag_result list \<Rightarrow> rag_result list \<Rightarrow> nat \<Rightarrow> rag_result list" where
  "reciprocal_rank_fusion lexical semantic limit =
     (let acc = fold fuse_one (enumerate 1 lexical @ enumerate 1 semantic) []
      in map (\<lambda>(_, f). (fu_item f)\<lparr>rr_score := fu_score f, rr_retrieval := join (u ''+'') (sort (fu_sources f))\<rparr>)
           (take limit (sort_key (\<lambda>(_, f). - fu_score f) acc)))"

definition maximum_of :: "rag_config \<Rightarrow> int option \<Rightarrow> int" where
  "maximum_of cf limit = min (case limit of None \<Rightarrow> cf_max_results cf | Some l \<Rightarrow> if l = 0 then cf_max_results cf else l) 50"

definition upto_index :: "int \<Rightarrow> 'a list \<Rightarrow> 'a list" where
  \<comment> \<open>\<open>xs[:n]\<close>\<close>
  "upto_index n xs = (if 0 \<le> n then take (nat n) xs else take (length xs - nat (- n)) xs)"

definition search_index :: "matcher \<Rightarrow> service \<Rightarrow> rag_config \<Rightarrow> rag_db \<Rightarrow> pytext \<Rightarrow> int option \<Rightarrow> rag_result list" where
  "search_index fts serve cf d q limit =
     (let maximum = maximum_of cf limit; candidates = nat (min (max (maximum * 4) 20) 200);
          rows = (case fts_rows fts cf d (fts_query q) candidates of [] \<Rightarrow> scanned_rows cf d q candidates | r # rs \<Rightarrow> r # rs);
          lexical = map (\<lambda>(c, rank). result_row ''fts5'' (c, - rank)) rows
      in if \<not> cf_embed cf then upto_index maximum lexical
         else (case semantic_search serve cf d q candidates of
             Inl _ \<Rightarrow> upto_index maximum lexical
           | Inr [] \<Rightarrow> upto_index maximum lexical
           | Inr semantic \<Rightarrow> if 0 \<le> maximum then reciprocal_rank_fusion lexical semantic (nat maximum)
               else upto_index maximum (reciprocal_rank_fusion lexical semantic (length lexical + length semantic))))"

definition read_chunk :: "rag_config \<Rightarrow> rag_db \<Rightarrow> string \<Rightarrow> rag_chunk result" where
  "read_chunk cf d i =
     (case first_such (\<lambda>c. rc_id c = i \<and> rc_scope c = cf_scope cf) (rg_chunks d) of
        None \<Rightarrow> Inl (ValueError ''RAG chunk not found'') | Some c \<Rightarrow> Inr c)"

definition list_documents :: "rag_config \<Rightarrow> rag_db \<Rightarrow> (rag_doc \<times> nat) list" where
  "list_documents cf d = sort_key (\<lambda>(x, _). rd_path x)
     (map (\<lambda>x. (x, length (chunks_of d (rd_id x)))) (filter (\<lambda>x. rd_scope x = cf_scope cf) (rg_docs d)))"

subsection \<open>The tables stay consistent\<close>

definition rag_inv :: "rag_db \<Rightarrow> bool" where
  "rag_inv d \<longleftrightarrow> distinct (map rd_id (rg_docs d)) \<and> distinct (map (\<lambda>x. (rd_scope x, rd_path x)) (rg_docs d))
     \<and> distinct (map rc_id (rg_chunks d))
     \<and> (\<forall>c\<in>set (rg_chunks d). \<exists>x\<in>set (rg_docs d). rd_id x = rc_doc c \<and> rd_scope x = rc_scope c \<and> rd_path x = rc_path c)
     \<and> rg_fts d = map fts_row (rg_chunks d)
     \<and> distinct (map re_chunk (rg_embeddings d))
     \<and> (\<forall>e\<in>set (rg_embeddings d). \<exists>c\<in>set (rg_chunks d). rc_id c = re_chunk e \<and> rc_scope c = re_scope e)"

definition fresh_for :: "rag_db \<Rightarrow> string \<Rightarrow> (nat \<Rightarrow> string) \<Rightarrow> bool" where
  \<comment> \<open>what \<open>uuid4\<close> promises\<close>
  "fresh_for d fresh ids \<longleftrightarrow> fresh \<notin> rd_id ` set (rg_docs d) \<and> inj ids \<and> range ids \<inter> rc_id ` set (rg_chunks d) = {}"

lemma document_at_Some:
  "document_at cf d path = Some x \<Longrightarrow> x \<in> set (rg_docs d) \<and> rd_scope x = cf_scope cf \<and> rd_path x = path"
  by (auto simp: document_at_def dest: first_such_Some)

lemma document_at_None:
  "document_at cf d path = None \<Longrightarrow> x \<in> set (rg_docs d) \<Longrightarrow> (rd_scope x, rd_path x) \<noteq> (cf_scope cf, path)"
  by (auto simp: document_at_def first_such_None_iff)

lemma distinct_map_filter: "distinct (map f xs) \<Longrightarrow> distinct (map f (filter p xs))"
  by (induction xs) auto

lemma distinct_map_same: "distinct (map f xs) \<Longrightarrow> x \<in> set xs \<Longrightarrow> y \<in> set xs \<Longrightarrow> f x = f y \<Longrightarrow> x = y"
  by (auto simp: distinct_map inj_on_def)

lemma drop_chunks_tables:
  assumes "rag_inv d"
  shows "rg_docs (drop_chunks doc d) = rg_docs d"
    and "rg_chunks (drop_chunks doc d) = filter (\<lambda>c. rc_doc c \<noteq> doc) (rg_chunks d)"
    and "rg_fts (drop_chunks doc d) = map fts_row (filter (\<lambda>c. rc_doc c \<noteq> doc) (rg_chunks d))"
proof -
  have ids: "distinct (map rc_id (rg_chunks d))" and fts: "rg_fts d = map fts_row (rg_chunks d)"
    using assms by (auto simp: rag_inv_def)
  have "rc_id c \<notin> set (map rc_id (chunks_of d doc)) \<longleftrightarrow> rc_doc c \<noteq> doc" if "c \<in> set (rg_chunks d)" for c
    using distinct_map_same [OF ids] that by (auto simp: chunks_of_def)
  then have "filter (\<lambda>c. rf_chunk (fts_row c) \<notin> set (map rc_id (chunks_of d doc))) (rg_chunks d)
      = filter (\<lambda>c. rc_doc c \<noteq> doc) (rg_chunks d)"
    by (intro filter_cong) (simp_all add: fts_row_def)
  then show "rg_fts (drop_chunks doc d) = map fts_row (filter (\<lambda>c. rc_doc c \<noteq> doc) (rg_chunks d))"
    by (simp add: drop_chunks_def Let_def fts filter_map comp_def)
qed (simp_all add: drop_chunks_def Let_def)

lemma drop_chunks_embeddings:
  assumes "e \<in> set (rg_embeddings (drop_chunks doc d))" and "c \<in> set (rg_chunks d)" and "rc_id c = re_chunk e"
  shows "e \<in> set (rg_embeddings d) \<and> rc_doc c \<noteq> doc"
  using assms by (auto simp: drop_chunks_def Let_def chunks_of_def image_iff)

lemma drop_chunks_inv:
  assumes "rag_inv d"
  shows "rag_inv (drop_chunks doc d)"
proof -
  have "\<exists>c\<in>set (filter (\<lambda>c. rc_doc c \<noteq> doc) (rg_chunks d)). rc_id c = re_chunk e \<and> rc_scope c = re_scope e"
    if e: "e \<in> set (rg_embeddings (drop_chunks doc d))" for e
  proof -
    have "e \<in> set (rg_embeddings d)" using e by (auto simp: drop_chunks_def Let_def)
    then obtain c where "c \<in> set (rg_chunks d)" "rc_id c = re_chunk e" "rc_scope c = re_scope e"
      using assms by (auto simp: rag_inv_def)
    with drop_chunks_embeddings [OF e] show ?thesis by auto
  qed
  moreover have "distinct (map re_chunk (rg_embeddings (drop_chunks doc d)))"
    using assms by (simp add: drop_chunks_def Let_def rag_inv_def distinct_map_filter)
  ultimately show ?thesis
    using assms unfolding rag_inv_def drop_chunks_tables [OF assms] by (auto simp: distinct_map_filter)
qed

lemma new_chunks_ids: "map rc_id (new_chunks cf doc path ids texts) = map ids [1..<Suc (length texts)]"
proof -
  have "map rc_id (new_chunks cf doc path ids texts) = map ids (map fst (enumerate 1 texts))"
    unfolding new_chunks_def map_map by (rule map_cong) auto
  then show ?thesis by (simp only: map_fst_enumerate) simp
qed

lemma new_chunks_texts: "map rc_content (new_chunks cf doc path ids texts) = texts"
proof -
  have "map rc_content (new_chunks cf doc path ids texts) = map snd (enumerate 1 texts)"
    unfolding new_chunks_def map_map by (rule map_cong) auto
  then show ?thesis by simp
qed

lemma new_chunks_doc:
  "c \<in> set (new_chunks cf doc path ids texts) \<Longrightarrow> rc_doc c = doc \<and> rc_scope c = cf_scope cf \<and> rc_path c = path"
  by (auto simp: new_chunks_def)

lemma add_chunks_inv:
  assumes "rag_inv d" and "inj ids" and "range ids \<inter> rc_id ` set (rg_chunks d) = {}"
    and "x \<in> set (rg_docs d)" "rd_id x = doc" "rd_scope x = cf_scope cf" "rd_path x = path"
  shows "rag_inv (d\<lparr>rg_chunks := rg_chunks d @ new_chunks cf doc path ids texts,
     rg_fts := rg_fts d @ map fts_row (new_chunks cf doc path ids texts),
     rg_embeddings := rg_embeddings d @ map (embedding_row cf) (zip (new_chunks cf doc path ids texts) vectors)\<rparr>)"
proof -
  let ?new = "new_chunks cf doc path ids texts" and ?emb = "map (embedding_row cf) (zip (new_chunks cf doc path ids texts) vectors)"
  have dn: "distinct (map rc_id ?new)"
    unfolding new_chunks_ids using assms(2) by (simp add: distinct_map inj_on_subset [OF assms(2)])
  have "rc_id ` set ?new \<subseteq> range ids" using new_chunks_ids [of cf doc path ids texts] by (metis image_mono list.set_map top_greatest)
  then have disj: "rc_id ` set ?new \<inter> rc_id ` set (rg_chunks d) = {}" using assms(3) by blast
  have em: "map re_chunk ?emb = take (length vectors) (map rc_id ?new)"
  proof -
    have "map re_chunk ?emb = map rc_id (map fst (zip ?new vectors))" by (simp add: embedding_row_def)
    then show ?thesis by (simp only: map_fst_zip_take take_map) (simp add: min_def)
  qed
  have "set (map re_chunk ?emb) \<subseteq> rc_id ` set ?new" unfolding em by (metis list.set_map set_take_subset)
  moreover have "re_chunk ` set (rg_embeddings d) \<subseteq> rc_id ` set (rg_chunks d)"
    using assms(1) unfolding rag_inv_def by (auto simp: image_iff) metis
  ultimately have de: "distinct (map re_chunk (rg_embeddings d) @ map re_chunk ?emb)"
    using disj dn assms(1) unfolding em by (fastforce simp: rag_inv_def)
  have ee: "\<exists>c\<in>set ?new. rc_id c = re_chunk e \<and> rc_scope c = re_scope e" if "e \<in> set ?emb" for e
    using that new_chunks_doc by (fastforce simp: embedding_row_def dest: set_zip_leftD)
  have dc: "distinct (map rc_id (rg_chunks d) @ map rc_id ?new)"
    using dn disj assms(1) by (auto simp: rag_inv_def)
  have inv: "\<forall>c\<in>set (rg_chunks d). \<exists>x\<in>set (rg_docs d). rd_id x = rc_doc c \<and> rd_scope x = rc_scope c \<and> rd_path x = rc_path c"
    "\<forall>e\<in>set (rg_embeddings d). \<exists>c\<in>set (rg_chunks d). rc_id c = re_chunk e \<and> rc_scope c = re_scope e"
    using assms(1) by (simp_all add: rag_inv_def)
  have docs: "\<exists>x\<in>set (rg_docs d). rd_id x = rc_doc c \<and> rd_scope x = rc_scope c \<and> rd_path x = rc_path c"
    if "c \<in> set ?new" for c
    using new_chunks_doc [OF that] assms(4-7) by (intro bexI [of _ x]) simp_all
  have embs: "\<exists>c\<in>set (rg_chunks d) \<union> set ?new. rc_id c = re_chunk e \<and> rc_scope c = re_scope e"
    if "e \<in> set (rg_embeddings d) \<union> set ?emb" for e
    using that inv(2) ee [of e] by blast
  from assms(1) have "distinct (map rd_id (rg_docs d))" "distinct (map (\<lambda>x. (rd_scope x, rd_path x)) (rg_docs d))"
    "rg_fts d = map fts_row (rg_chunks d)" by (simp_all add: rag_inv_def)
  with inv(1) docs embs dc de show ?thesis
    unfolding rag_inv_def by (simp del: distinct_append) blast
qed

definition belongs :: "rag_config \<Rightarrow> pytext \<Rightarrow> rag_chunk \<Rightarrow> bool" where
  "belongs cf path c \<longleftrightarrow> rc_scope c = cf_scope cf \<and> rc_path c = path"

lemma chunk_owner:
  assumes "rag_inv d" and "c \<in> set (rg_chunks d)"
  shows "(case document_at cf d path of None \<Rightarrow> \<not> belongs cf path c | Some x \<Rightarrow> rc_doc c = rd_id x \<longleftrightarrow> belongs cf path c)"
proof -
  obtain y where y: "y \<in> set (rg_docs d)" "rd_id y = rc_doc c" "rd_scope y = rc_scope c" "rd_path y = rc_path c"
    using assms by (auto simp: rag_inv_def)
  have i: "distinct (map rd_id (rg_docs d))" and p: "distinct (map (\<lambda>x. (rd_scope x, rd_path x)) (rg_docs d))"
    using assms(1) by (simp_all add: rag_inv_def)
  show ?thesis
  proof (cases "document_at cf d path")
    case None
    then show ?thesis using document_at_None [OF None y(1)] y by (auto simp: belongs_def)
  next
    case (Some x)
    note x = document_at_Some [OF Some]
    have "rc_doc c = rd_id x \<Longrightarrow> y = x" using distinct_map_same [OF i y(1)] x y(2) by auto
    moreover have "belongs cf path c \<Longrightarrow> y = x" using distinct_map_same [OF p y(1)] x y(3,4) by (auto simp: belongs_def)
    ultimately show ?thesis using Some x y by (auto simp: belongs_def)
  qed
qed

lemma dropped_chunks:
  assumes "rag_inv d" and "document_at cf d path = Some x"
  shows "rg_chunks (drop_chunks (rd_id x) d) = filter (\<lambda>c. \<not> belongs cf path c) (rg_chunks d)"
  unfolding drop_chunks_tables(2) [OF assms(1)] using chunk_owner [OF assms(1), of _ cf path] assms(2)
  by (intro filter_cong) simp_all

lemma no_chunks: "rag_inv d \<Longrightarrow> document_at cf d path = None \<Longrightarrow> filter (\<lambda>c. \<not> belongs cf path c) (rg_chunks d) = rg_chunks d"
  using chunk_owner [of d _ cf path] by (auto simp: filter_id_conv)

lemma prepared_docs_all:
  assumes inv: "rag_inv d" and fresh: "fresh \<notin> rd_id ` set (rg_docs d)"
    and d1_def: "d1 = prepared_docs cf path digest suf bytes now fresh d"
  shows "rag_inv d1 \<and> rg_chunks d1 = filter (\<lambda>c. \<not> belongs cf path c) (rg_chunks d)
     \<and> (\<exists>x. document_at cf d1 path = Some x \<and> rd_hash x = digest
      \<and> rd_id x = (case document_at cf d path of None \<Rightarrow> fresh | Some y \<Rightarrow> rd_id y))
     \<and> (\<forall>y. rd_scope y \<noteq> cf_scope cf \<or> rd_path y \<noteq> path \<longrightarrow> (y \<in> set (rg_docs d1) \<longleftrightarrow> y \<in> set (rg_docs d)))"
proof (cases "document_at cf d path")
  case None
  note no = document_at_None [OF None]
  have d1: "d1 = d\<lparr>rg_docs := rg_docs d @ [\<lparr>rd_id = fresh, rd_scope = cf_scope cf, rd_path = path, rd_hash = digest,
           rd_suffix = suf, rd_size = bytes, rd_updated = now\<rparr>]\<rparr>" by (simp add: d1_def prepared_docs_def None)
  have "(cf_scope cf, path) \<notin> set (map (\<lambda>x. (rd_scope x, rd_path x)) (rg_docs d))" using no by (metis (mono_tags, lifting) imageE list.set_map)
  then have A: "rag_inv d1" unfolding d1 using inv fresh unfolding rag_inv_def by (simp del: image_iff)
  have B: "rg_chunks d1 = filter (\<lambda>c. \<not> belongs cf path c) (rg_chunks d)" using no_chunks [OF inv None] by (simp add: d1)
  have C: "\<exists>x. document_at cf d1 path = Some x \<and> rd_hash x = digest
      \<and> rd_id x = (case document_at cf d path of None \<Rightarrow> fresh | Some y \<Rightarrow> rd_id y)"
    using None by (simp add: d1 document_at_def first_such_append)
  have D: "y \<in> set (rg_docs d1) \<longleftrightarrow> y \<in> set (rg_docs d)" if "rd_scope y \<noteq> cf_scope cf \<or> rd_path y \<noteq> path" for y
    using that by (auto simp: d1)
  show ?thesis using A B C D by blast
next
  case (Some x)
  let ?upd = "\<lambda>y. if rd_id y = rd_id x then y\<lparr>rd_hash := digest, rd_suffix := suf, rd_size := bytes, rd_updated := now\<rparr> else y"
  note x = document_at_Some [OF Some]
  have dr: "rag_inv (drop_chunks (rd_id x) d)" by (rule drop_chunks_inv [OF inv])
  have docs: "rg_docs (drop_chunks (rd_id x) d) = rg_docs d" by (rule drop_chunks_tables(1) [OF inv])
  have d1: "d1 = (drop_chunks (rd_id x) d)\<lparr>rg_docs := map ?upd (rg_docs d)\<rparr>"
    by (simp add: d1_def prepared_docs_def Some docs)
  have keys: "map rd_id (map ?upd ys) = map rd_id ys" "map (\<lambda>x. (rd_scope x, rd_path x)) (map ?upd ys) = map (\<lambda>x. (rd_scope x, rd_path x)) ys" for ys
    by (induction ys) auto
  have "\<exists>y\<in>set (map ?upd (rg_docs d)). rd_id y = rc_doc c \<and> rd_scope y = rc_scope c \<and> rd_path y = rc_path c"
    if given: "\<exists>y\<in>set (rg_docs d). rd_id y = rc_doc c \<and> rd_scope y = rc_scope c \<and> rd_path y = rc_path c" for c
  proof -
    obtain y where "y \<in> set (rg_docs d)" "rd_id y = rc_doc c" "rd_scope y = rc_scope c" "rd_path y = rc_path c"
      using given by blast
    then show ?thesis by (intro bexI [of _ "?upd y"]) auto
  qed
  moreover have tabs: "rg_docs d1 = map ?upd (rg_docs d)" "rg_chunks d1 = rg_chunks (drop_chunks (rd_id x) d)"
    "rg_fts d1 = rg_fts (drop_chunks (rd_id x) d)" "rg_embeddings d1 = rg_embeddings (drop_chunks (rd_id x) d)"
    by (simp_all add: d1)
  ultimately have A: "rag_inv d1" using dr unfolding rag_inv_def docs tabs keys by blast
  have B: "rg_chunks d1 = filter (\<lambda>c. \<not> belongs cf path c) (rg_chunks d)" using dropped_chunks [OF inv Some] by (simp add: d1)
  have first: "first_such p (map ?upd ys) = map_option ?upd (first_such p ys)" if "\<And>y. p (?upd y) = p y" for p ys
    using that by (induction ys) auto
  have "document_at cf d1 path = map_option ?upd (document_at cf d path)"
    unfolding document_at_def tabs by (rule first) auto
  then have C: "\<exists>x. document_at cf d1 path = Some x \<and> rd_hash x = digest
      \<and> rd_id x = (case document_at cf d path of None \<Rightarrow> fresh | Some y \<Rightarrow> rd_id y)" using Some by simp
  have ids: "distinct (map rd_id (rg_docs d))" using inv by (simp add: rag_inv_def)
  have D: "y \<in> set (rg_docs d1) \<longleftrightarrow> y \<in> set (rg_docs d)" if "rd_scope y \<noteq> cf_scope cf \<or> rd_path y \<noteq> path" for y
    using that distinct_map_same [OF ids, of _ x] x by (auto simp: d1 image_iff split: if_splits) (metis+)
  show ?thesis using A B C D by blast
qed

lemma prepared_docs_ok:
  assumes inv: "rag_inv d" and fresh: "fresh \<notin> rd_id ` set (rg_docs d)"
    and d1_def: "d1 = prepared_docs cf path digest suf bytes now fresh d"
  shows "rag_inv d1" and "rg_chunks d1 = filter (\<lambda>c. \<not> belongs cf path c) (rg_chunks d)"
    and "\<exists>x. document_at cf d1 path = Some x \<and> rd_hash x = digest
      \<and> rd_id x = (case document_at cf d path of None \<Rightarrow> fresh | Some y \<Rightarrow> rd_id y)"
    and "rd_scope y \<noteq> cf_scope cf \<or> rd_path y \<noteq> path \<Longrightarrow> y \<in> set (rg_docs d1) \<longleftrightarrow> y \<in> set (rg_docs d)"
  using prepared_docs_all [OF assms] by blast+

definition index_rows :: "rag_config \<Rightarrow> pytext \<Rightarrow> rag_db \<Rightarrow> pytext list" where
  \<comment> \<open>the texts of the chunks of a document, in their order\<close>
  "index_rows cf path d = map rc_content (filter (belongs cf path) (rg_chunks d))"

lemma stored_document_ok:
  assumes inv: "rag_inv d" and fresh: "fresh_for d fresh ids"
    and d': "d' = stored_document cf path digest suf bytes now fresh texts vectors ids d"
  shows "rag_inv d' \<and> index_rows cf path d' = texts
     \<and> filter (\<lambda>c. \<not> belongs cf path c) (rg_chunks d') = filter (\<lambda>c. \<not> belongs cf path c) (rg_chunks d)
     \<and> (\<forall>y. (rd_scope y, rd_path y) \<noteq> (cf_scope cf, path) \<longrightarrow> (y \<in> set (rg_docs d') \<longleftrightarrow> y \<in> set (rg_docs d)))
     \<and> (\<exists>x. document_at cf d' path = Some x \<and> rd_hash x = digest)"
proof -
  define d1 where "d1 = prepared_docs cf path digest suf bytes now fresh d"
  define doc where "doc = (case document_at cf d path of None \<Rightarrow> fresh | Some x \<Rightarrow> rd_id x)"
  define new where "new = new_chunks cf doc path ids texts"
  have f: "fresh \<notin> rd_id ` set (rg_docs d)" "inj ids" "range ids \<inter> rc_id ` set (rg_chunks d) = {}"
    using fresh by (auto simp: fresh_for_def)
  note p = prepared_docs_ok [OF inv f(1) d1_def]
  obtain x where x: "document_at cf d1 path = Some x" "rd_hash x = digest" "rd_id x = doc"
    using p(3) unfolding doc_def by blast
  have e: "d' = d1\<lparr>rg_chunks := rg_chunks d1 @ new, rg_fts := rg_fts d1 @ map fts_row new,
      rg_embeddings := rg_embeddings d1 @ map (embedding_row cf) (zip new vectors)\<rparr>"
    unfolding d' stored_document_def Let_def d1_def new_def doc_def ..
  have "range ids \<inter> rc_id ` set (rg_chunks d1) = {}" using f(3) unfolding p(2) by auto
  then have i: "rag_inv d'" unfolding e new_def
    using p(1) f(2) document_at_Some [OF x(1)] x(3) by (intro add_chunks_inv [of d1 ids x]) auto
  have b: "\<forall>c\<in>set new. belongs cf path c" using new_chunks_doc unfolding new_def belongs_def by blast
  have "filter (belongs cf path) (rg_chunks d') = new" using b unfolding e by (simp add: p(2) filter_id_conv)
  then have t: "index_rows cf path d' = texts" unfolding index_rows_def new_def by (simp add: new_chunks_texts)
  have o: "filter (\<lambda>c. \<not> belongs cf path c) (rg_chunks d') = filter (\<lambda>c. \<not> belongs cf path c) (rg_chunks d)"
    using b unfolding e by (simp add: p(2) filter_empty_conv)
  have "rg_docs d' = rg_docs d1" by (simp add: e)
  with i t o x p(4) show ?thesis by (auto simp: document_at_def)
qed

lemma ingest_file_cases:
  assumes "ingest_file sha extractor serve cf path raw now fresh ids d = (d', r)"
  obtains (bad) e where "d' = d" "r = Inl e"
    | (same) x where "d' = d" "r = Inr x" "in_unchanged x" "up_to_date cf d path (sha raw)"
        "lower (path_suffix path) \<in> set (TEXT_SUFFIXES @ OPTIONAL_SUFFIXES)" "int (length raw) \<le> 10485760"
    | (stored) t vs x where "r = Inr x" "\<not> in_unchanged x" "extractor (lower (path_suffix path)) raw = Inr t"
        "d' = stored_document cf path (sha raw) (lower (path_suffix path)) (length raw) now fresh
           (chunk (cf_chunk_tokens cf) (cf_overlap cf) t) vs ids d"
        "lower (path_suffix path) \<in> set (TEXT_SUFFIXES @ OPTIONAL_SUFFIXES)" "int (length raw) \<le> 10485760"
  using assms by (auto simp: ingest_file_def Let_def split: if_splits sum.splits)

lemma ingestion_keeps_inv:
  assumes "rag_inv d" and "fresh_for d fresh ids"
  shows "rag_inv (fst (ingest_file sha extractor serve cf path raw now fresh ids d))"
proof -
  obtain d' r where i: "ingest_file sha extractor serve cf path raw now fresh ids d = (d', r)" by fastforce
  then have "rag_inv d'"
  proof (cases rule: ingest_file_cases)
    case stored
    from stored_document_ok [OF assms stored(4)] show ?thesis by blast
  qed (use assms(1) in simp_all)
  with i show ?thesis by simp
qed

text \<open>Ingesting a file replaces what the index holds about this file in this scope and nothing else:
  on success with a change the indexed texts are the chunks of the extracted text, in order; on an
  error, or when the file is unchanged, the tables are as before; the chunks of every other document
  and the other documents stay, the tables stay consistent, and ingesting the same bytes again finds
  the document unchanged.\<close>
theorem ingestion_replaces_one_document:
  assumes "rag_inv d" and "fresh_for d fresh ids"
    and "ingest_file sha extractor serve cf path raw now fresh ids d = (d', r)"
  shows "rag_inv d' \<and> filter (\<lambda>c. \<not> belongs cf path c) (rg_chunks d') = filter (\<lambda>c. \<not> belongs cf path c) (rg_chunks d)
     \<and> (\<forall>y. (rd_scope y, rd_path y) \<noteq> (cf_scope cf, path) \<longrightarrow> (y \<in> set (rg_docs d') \<longleftrightarrow> y \<in> set (rg_docs d)))
     \<and> (case r of
          Inl e \<Rightarrow> d' = d
        | Inr x \<Rightarrow> (if in_unchanged x then d' = d
            else \<exists>t. extractor (lower (path_suffix path)) raw = Inr t
                 \<and> index_rows cf path d' = chunk (cf_chunk_tokens cf) (cf_overlap cf) t)
          \<and> (cf_embed cf \<or> (\<exists>y. ingest_file sha extractor serve cf path raw now2 fresh2 ids2 d' = (d', Inr y) \<and> in_unchanged y)))"
proof -
  from assms(3) show ?thesis
  proof (cases rule: ingest_file_cases)
    case bad
    then show ?thesis using assms(1) by simp
  next
    case same
    have "\<exists>y. ingest_file sha extractor serve cf path raw now2 fresh2 ids2 d = (d, Inr y) \<and> in_unchanged y"
      using same by (simp add: ingest_file_def Let_def)
    then show ?thesis using same assms(1) by simp
  next
    case stored
    note s = stored_document_ok [OF assms(1,2) stored(4)]
    then have "\<not> cf_embed cf \<Longrightarrow> up_to_date cf d' path (sha raw)" by (auto simp: up_to_date_def)
    then have "cf_embed cf \<or> (\<exists>y. ingest_file sha extractor serve cf path raw now2 fresh2 ids2 d' = (d', Inr y) \<and> in_unchanged y)"
      using stored(5,6) by (auto simp: ingest_file_def Let_def)
    then show ?thesis using s stored by auto
  qed
qed

lemma remove_inv:
  assumes "rag_inv d"
  shows "rag_inv (fst (remove cf path d)) \<and> rg_chunks (fst (remove cf path d)) = filter (\<lambda>c. \<not> belongs cf path c) (rg_chunks d)
     \<and> document_at cf (fst (remove cf path d)) path = None"
proof (cases "document_at cf d path")
  case None
  then show ?thesis using assms no_chunks [OF assms None] by (simp add: remove_def)
next
  case (Some x)
  note x = document_at_Some [OF Some]
  let ?d = "drop_chunks (rd_id x) d"
  have r: "fst (remove cf path d) = ?d\<lparr>rg_docs := filter (\<lambda>y. rd_id y \<noteq> rd_id x) (rg_docs d)\<rparr>"
    by (simp add: remove_def Some drop_chunks_tables(1) [OF assms])
  have inv: "rag_inv ?d" by (rule drop_chunks_inv [OF assms])
  have docs: "rg_docs ?d = rg_docs d" by (rule drop_chunks_tables(1) [OF assms])
  have ch: "\<forall>c\<in>set (rg_chunks ?d). rc_doc c \<noteq> rd_id x" using drop_chunks_tables(2) [OF assms] by auto
  have "rag_inv (fst (remove cf path d))"
    using inv ch unfolding r rag_inv_def docs by (auto simp: distinct_map_filter) (metis)
  moreover have "document_at cf (fst (remove cf path d)) path = None"
  proof -
    have p: "distinct (map (\<lambda>x. (rd_scope x, rd_path x)) (rg_docs d))" using assms by (simp add: rag_inv_def)
    have "y = x" if "y \<in> set (rg_docs d)" "rd_scope y = cf_scope cf" "rd_path y = path" for y
      using distinct_map_same [OF p that(1), of x] x that by simp
    then show ?thesis by (auto simp: r document_at_def first_such_None_iff)
  qed
  ultimately show ?thesis using dropped_chunks [OF assms Some] by (simp add: r)
qed

inductive indexed :: "rag_db \<Rightarrow> bool" where
  \<comment> \<open>what ingesting and removing, in any scope, make of an empty index\<close>
  nothing: "indexed \<lparr>rg_docs = [], rg_chunks = [], rg_embeddings = [], rg_fts = []\<rparr>"
| ingested: "indexed d \<Longrightarrow> fresh_for d fresh ids \<Longrightarrow>
     indexed (fst (ingest_file sha extractor serve cf path raw now fresh ids d))"
| removed: "indexed d \<Longrightarrow> indexed (fst (remove cf path d))"

lemma indexed_inv: "indexed d \<Longrightarrow> rag_inv d"
proof (induction rule: indexed.induct)
  case nothing
  then show ?case by (simp add: rag_inv_def)
next
  case (ingested d fresh ids sha extractor serve cf path raw now)
  then show ?case
    using ingestion_keeps_inv [of d fresh ids sha extractor serve cf path raw now] by (metis prod.collapse)
next
  case (removed d cf path)
  then show ?case using remove_inv by blast
qed

subsection \<open>Searching\<close>

definition sound_matcher :: "matcher \<Rightarrow> bool" where
  \<comment> \<open>the full-text index returns rows of the table, each at most once\<close>
  "sound_matcher fts \<longleftrightarrow> (\<forall>rows e xs. fts rows e = Inr xs \<longrightarrow> fst ` set xs \<subseteq> set rows \<and> (distinct rows \<longrightarrow> distinct (map fst xs)))"

definition shows_chunk :: "rag_config \<Rightarrow> rag_db \<Rightarrow> rag_result \<Rightarrow> bool" where
  "shows_chunk cf d r \<longleftrightarrow> (\<exists>c\<in>set (rg_chunks d). rc_scope c = cf_scope cf \<and> rr_chunk r = rc_id c \<and> rr_path r = rc_path c
     \<and> rr_ordinal r = rc_ordinal c \<and> rr_content r = rc_content c \<and> rr_citation r = citation c)"

lemma fts_rows_scope:
  assumes "rag_inv d" "sound_matcher fts" "(c, s) \<in> set (fts_rows fts cf d e n)"
  shows "c \<in> set (rg_chunks d) \<and> rc_scope c = cf_scope cf"
proof -
  obtain xs where xs: "fts (rg_fts d) e = Inr xs"
    using assms(3) by (cases "fts (rg_fts d) e") (auto simp: fts_rows_def split: if_splits)
  then obtain f where f: "fts (rg_fts d) e = Inr xs" "(f, s) \<in> set xs" "rf_scope f = cf_scope cf"
      "c \<in> set (rg_chunks d)" "rc_id c = rf_chunk f"
    using assms(3) by (auto simp: fts_rows_def split: if_splits dest!: in_set_takeD)
  then have "f \<in> set (rg_fts d)" using assms(2) by (force simp: sound_matcher_def)
  then obtain c' where c': "c' \<in> set (rg_chunks d)" "f = fts_row c'" using assms(1) by (auto simp: rag_inv_def)
  have "c' = c" using distinct_map_same [of rc_id "rg_chunks d" c' c] assms(1) c' f(4,5)
    by (simp add: rag_inv_def fts_row_def)
  with c'(2) f(3,4) show ?thesis by (simp add: fts_row_def)
qed

lemma scanned_rows_scope:
  "(c, s) \<in> set (scanned_rows cf d q n) \<Longrightarrow> c \<in> set (rg_chunks d) \<and> rc_scope c = cf_scope cf"
  by (auto simp: scanned_rows_def Let_def dest!: in_set_takeD)

lemma lexical_shows:
  assumes "rag_inv d" "sound_matcher fts"
  shows "\<forall>r\<in>set (map (\<lambda>(c, s). result_row ''fts5'' (c, - s))
     (case fts_rows fts cf d e n of [] \<Rightarrow> scanned_rows cf d q n | r # rs \<Rightarrow> r # rs)). shows_chunk cf d r"
proof -
  have "c \<in> set (rg_chunks d) \<and> rc_scope c = cf_scope cf"
    if "(c, s) \<in> set (case fts_rows fts cf d e n of [] \<Rightarrow> scanned_rows cf d q n | r # rs \<Rightarrow> r # rs)" for c s
    using that fts_rows_scope [OF assms, of c s cf e n] scanned_rows_scope [of c s cf d q n]
    by (cases "fts_rows fts cf d e n") auto
  then show ?thesis by (fastforce simp: result_row_def shows_chunk_def)
qed

lemma semantic_shows:
  assumes "rag_inv d" "semantic_search serve cf d q n = Inr rs"
  shows "\<forall>r\<in>set rs. shows_chunk cf d r"
proof
  fix r assume "r \<in> set rs"
  then obtain c s e where c: "r = result_row ''embedding'' (c, s)" "c \<in> set (rg_chunks d)" "e \<in> set (rg_embeddings d)"
      "re_chunk e = rc_id c" "re_scope e = cf_scope cf"
    using assms(2) by (auto simp: semantic_search_def Let_def bind_simps dest!: in_set_takeD split: option.splits if_splits)
  then obtain c' where "c' \<in> set (rg_chunks d)" "rc_id c' = rc_id c" "rc_scope c' = cf_scope cf"
    using assms(1) unfolding rag_inv_def by metis
  then have "rc_scope c = cf_scope cf"
    using distinct_map_same [of rc_id "rg_chunks d" c' c] c(2) assms(1) by (simp add: rag_inv_def)
  with c show "shows_chunk cf d r" by (auto simp: shows_chunk_def result_row_def)
qed

lemma fuse_shows:
  assumes "\<forall>(n, r)\<in>set xs. shows_chunk cf d r" "\<forall>(k, f)\<in>set acc. rr_chunk (fu_item f) = k \<and> shows_chunk cf d (fu_item f)"
    and "distinct (map fst acc)"
  shows "(\<forall>(k, f)\<in>set (fold fuse_one xs acc). rr_chunk (fu_item f) = k \<and> shows_chunk cf d (fu_item f))
     \<and> distinct (map fst (fold fuse_one xs acc))"
  using assms
proof (induction xs arbitrary: acc)
  case (Cons x xs)
  obtain n r where x: "x = (n, r)" by (cases x)
  obtain f where f: "fuse_one x acc = dput (rr_chunk r) f acc" "rr_chunk (fu_item f) = rr_chunk r" "shows_chunk cf d (fu_item f)"
    using Cons.prems(1,2) map_of_SomeD [of acc "rr_chunk r"] unfolding x
    by (cases "dget acc (rr_chunk r)") (auto simp: fuse_one_def Let_def)
  have "\<forall>(k, g)\<in>set (dput (rr_chunk r) f acc). rr_chunk (fu_item g) = k \<and> shows_chunk cf d (fu_item g)"
    using Cons.prems(2,3) f(2,3) dput_memD [of acc _ _ "rr_chunk r" f] by fastforce
  moreover have "distinct (map fst (dput (rr_chunk r) f acc))" using Cons.prems(3) by (simp add: distinct_update)
  ultimately show ?case using Cons.IH [of "dput (rr_chunk r) f acc"] Cons.prems(1) f(1) by simp
qed simp

lemma fusion_shows:
  assumes "\<forall>r\<in>set xs. shows_chunk cf d r" "\<forall>r\<in>set ys. shows_chunk cf d r"
  shows "(\<forall>r\<in>set (reciprocal_rank_fusion xs ys n). shows_chunk cf d r)
     \<and> distinct (map rr_chunk (reciprocal_rank_fusion xs ys n)) \<and> length (reciprocal_rank_fusion xs ys n) \<le> n"
proof -
  define acc where "acc = fold fuse_one (enumerate 1 xs @ enumerate 1 ys) []"
  have "\<forall>(n, r)\<in>set (enumerate 1 xs @ enumerate 1 ys). shows_chunk cf d r"
    using assms by (auto simp: enumerate_eq_zip dest: set_zip_rightD)
  then have acc: "\<forall>(k, f)\<in>set acc. rr_chunk (fu_item f) = k \<and> shows_chunk cf d (fu_item f)" "distinct (map fst acc)"
    using fuse_shows [of "enumerate 1 xs @ enumerate 1 ys" cf d "[]"] unfolding acc_def by auto
  define top where "top = take n (sort_key (\<lambda>(_, f). - fu_score f) acc)"
  have r: "reciprocal_rank_fusion xs ys n
      = map (\<lambda>(_, f). (fu_item f)\<lparr>rr_score := fu_score f, rr_retrieval := join (u ''+'') (sort (fu_sources f))\<rparr>) top"
    by (simp add: reciprocal_rank_fusion_def Let_def acc_def top_def)
  have sub: "set top \<subseteq> set acc" unfolding top_def using set_take_subset by fastforce
  have "map rr_chunk (reciprocal_rank_fusion xs ys n) = map fst top"
    using sub acc(1) unfolding r by (auto simp: comp_def split_beta)
  moreover have "distinct (map fst top)" unfolding top_def
    using acc(2) by (simp add: take_map [symmetric] distinct_map inj_on_def)
  ultimately have "distinct (map rr_chunk (reciprocal_rank_fusion xs ys n))" by simp
  moreover have "length (reciprocal_rank_fusion xs ys n) \<le> n" by (simp add: r top_def)
  moreover have "\<forall>r\<in>set (reciprocal_rank_fusion xs ys n). shows_chunk cf d r"
    using sub acc(1) unfolding r by (fastforce simp: shows_chunk_def)
  ultimately show ?thesis by blast
qed

text \<open>A search shows nothing of another scope and makes nothing up: every result is a chunk that the
  index holds for the searched scope, with its text, path and citation, whether it was found by the
  full-text index, by the fallback scan or by its embedding; the fusion of both rankings lists no
  chunk twice; and a limit that is not negative bounds the number of results, as does fifty.\<close>
theorem search_stays_in_scope:
  assumes "indexed d" and "sound_matcher fts"
  shows "(\<forall>r\<in>set (search_index fts serve cf d q limit). shows_chunk cf d r)
     \<and> (0 \<le> maximum_of cf limit \<longrightarrow> length (search_index fts serve cf d q limit) \<le> nat (maximum_of cf limit)
          \<and> length (search_index fts serve cf d q limit) \<le> 50)
     \<and> (\<forall>s ss. cf_embed cf \<and> semantic_search serve cf d q (nat (min (max (maximum_of cf limit * 4) 20) 200)) = Inr (s # ss) \<longrightarrow>
          distinct (map rr_chunk (search_index fts serve cf d q limit)))"
proof -
  note inv = indexed_inv [OF assms(1)]
  define m where "m = maximum_of cf limit"
  define n where "n = nat (min (max (m * 4) 20) 200)"
  define lexical where "lexical = map (\<lambda>(c, s). result_row ''fts5'' (c, - s))
     (case fts_rows fts cf d (fts_query q) n of [] \<Rightarrow> scanned_rows cf d q n | r # rs \<Rightarrow> r # rs)"
  have lex: "\<forall>r\<in>set lexical. shows_chunk cf d r"
    using lexical_shows [OF inv assms(2)] unfolding lexical_def .
  have up: "set (upto_index m xs) \<subseteq> set xs" "0 \<le> m \<Longrightarrow> length (upto_index m xs) \<le> nat m"
    "distinct (map f xs) \<Longrightarrow> distinct (map f (upto_index m xs))" for xs :: "rag_result list" and f :: "rag_result \<Rightarrow> string"
    by (auto simp: upto_index_def take_map [symmetric] dest: in_set_takeD)
  have fifty: "nat m \<le> 50" by (simp add: m_def maximum_of_def)
  have si: "search_index fts serve cf d q limit =
     (if \<not> cf_embed cf then upto_index m lexical
      else (case semantic_search serve cf d q n of
          Inl _ \<Rightarrow> upto_index m lexical
        | Inr [] \<Rightarrow> upto_index m lexical
        | Inr semantic \<Rightarrow> if 0 \<le> m then reciprocal_rank_fusion lexical semantic (nat m)
            else upto_index m (reciprocal_rank_fusion lexical semantic (length lexical + length semantic))))"
    unfolding search_index_def Let_def m_def n_def lexical_def ..
  consider (plain) "search_index fts serve cf d q limit = upto_index m lexical"
      "\<And>s ss. \<not> (cf_embed cf \<and> semantic_search serve cf d q n = Inr (s # ss))"
    | (both) s ss k where "semantic_search serve cf d q n = Inr (s # ss)"
      "search_index fts serve cf d q limit = upto_index m (reciprocal_rank_fusion lexical (s # ss) k)"
      "0 \<le> m \<longrightarrow> k = nat m"
  proof (cases "cf_embed cf \<and> (\<exists>s ss. semantic_search serve cf d q n = Inr (s # ss))")
    case True
    then obtain s ss where s: "cf_embed cf" "semantic_search serve cf d q n = Inr (s # ss)" by blast
    have "length (reciprocal_rank_fusion lexical (s # ss) (nat m)) \<le> nat m"
      by (simp add: reciprocal_rank_fusion_def Let_def)
    then have "0 \<le> m \<Longrightarrow> reciprocal_rank_fusion lexical (s # ss) (nat m) = upto_index m (reciprocal_rank_fusion lexical (s # ss) (nat m))"
      by (simp add: upto_index_def)
    with s both [of s ss "if 0 \<le> m then nat m else length lexical + length (s # ss)"] show ?thesis
      by (auto simp: si)
  next
    case False
    then show ?thesis using plain
      by (auto simp: si split: sum.splits list.splits)
  qed
  then show ?thesis
  proof cases
    case plain
    then show ?thesis using lex up(1) [of lexical] up(2) [of lexical] fifty
      unfolding m_def [symmetric] n_def [symmetric] by (auto intro: order_trans)
  next
    case both
    have sem: "\<forall>r\<in>set (s # ss). shows_chunk cf d r" by (rule semantic_shows [OF inv both(1)])
    note f = fusion_shows [OF lex sem, of k]
    show ?thesis using f up(1) [of "reciprocal_rank_fusion lexical (s # ss) k"]
        up(2) [of "reciprocal_rank_fusion lexical (s # ss) k"] up(3) fifty both(2)
      unfolding m_def [symmetric] n_def [symmetric] by (auto intro: order_trans)
  qed
qed

subsection \<open>An index of two scopes\<close>

definition example_config :: "string \<Rightarrow> rag_config" where
  "example_config s = \<lparr>cf_scope = s, cf_chunk_tokens = 200, cf_overlap = 20, cf_max_results = 8, cf_embed = False,
     cf_model = ''m'', cf_batch = 64\<rparr>"

definition empty_index :: rag_db where
  "empty_index = \<lparr>rg_docs = [], rg_chunks = [], rg_embeddings = [], rg_fts = []\<rparr>"

definition example_ingest :: "string \<Rightarrow> rag_db \<Rightarrow> rag_db \<times> ingested result" where
  "example_ingest s d = ingest_file (\<lambda>_. ''h'') (\<lambda>_ raw. Inr raw) (\<lambda>_. Inl (RuntimeError ''no key'')) (example_config s)
     (u ''notes.md'') (u ''alpha beta'') ''now'' s (\<lambda>n. s @ replicate n CHR ''+'') d"

lemma search_without_embeddings:
  assumes "\<not> cf_embed cf"
  shows "search_index fts serve cf d q limit =
     (let n = nat (min (max (maximum_of cf limit * 4) 20) 200)
      in upto_index (maximum_of cf limit) (map (\<lambda>(c, rank). result_row ''fts5'' (c, - rank))
           (case fts_rows fts cf d (fts_query q) n of [] \<Rightarrow> scanned_rows cf d q n | r # rs \<Rightarrow> r # rs)))"
  using assms by (simp add: search_index_def Let_def)

definition all_rows :: matcher where
  "all_rows rows e = Inr (map (\<lambda>f. (f, 0)) rows)"

lemma replicate_ids: "inj (\<lambda>n. s @ replicate n CHR ''+'')"
  by (auto simp: inj_def dest: arg_cong [where f = length])

lemma ingestion_replaces_one_document_witness:
  "index_rows (example_config ''a'') (u ''notes.md'') (fst (example_ingest ''a'' empty_index)) = [u ''alpha beta'']
     \<and> rag_inv (fst (example_ingest ''a'' empty_index))"
proof
  show "index_rows (example_config ''a'') (u ''notes.md'') (fst (example_ingest ''a'' empty_index)) = [u ''alpha beta'']"
    by code_simp
  have "rag_inv empty_index" by (simp add: rag_inv_def empty_index_def)
  moreover have "fresh_for empty_index ''a'' (\<lambda>n. ''a'' @ replicate n CHR ''+'')"
    using replicate_ids [of "''a''"] by (simp add: fresh_for_def empty_index_def)
  ultimately show "rag_inv (fst (example_ingest ''a'' empty_index))"
    unfolding example_ingest_def by (rule ingestion_replaces_one_document [THEN conjunct1]) (rule prod.collapse [symmetric])
qed

lemma example_ids:
  "map rc_id (rg_chunks (fst (example_ingest ''a'' empty_index))) = [''a+'']"
  "map rd_id (rg_docs (fst (example_ingest ''a'' empty_index))) = [''a'']"
  by code_simp+

lemma search_stays_in_scope_witness:
  "map rr_content (search_index all_rows (\<lambda>_. Inl (RuntimeError ''no key'')) (example_config ''b'')
       (fst (example_ingest ''b'' (fst (example_ingest ''a'' empty_index)))) (u ''beta'') None) = [u ''alpha beta'']
   \<and> list_all (shows_chunk (example_config ''b'') (fst (example_ingest ''b'' (fst (example_ingest ''a'' empty_index)))))
       (search_index all_rows (\<lambda>_. Inl (RuntimeError ''no key'')) (example_config ''b'')
         (fst (example_ingest ''b'' (fst (example_ingest ''a'' empty_index)))) (u ''beta'') None)"
proof
  let ?d = "fst (example_ingest ''a'' empty_index)"
  show "map rr_content (search_index all_rows (\<lambda>_. Inl (RuntimeError ''no key'')) (example_config ''b'')
       (fst (example_ingest ''b'' ?d)) (u ''beta'') None) = [u ''alpha beta'']"
    by (subst search_without_embeddings, simp add: example_config_def) code_simp
  have "fresh_for empty_index ''a'' (\<lambda>n. ''a'' @ replicate n CHR ''+'')"
    using replicate_ids [of "''a''"] by (simp add: fresh_for_def empty_index_def)
  from indexed.ingested [OF indexed.nothing [folded empty_index_def] this]
  have "indexed ?d" unfolding example_ingest_def .
  moreover have "fresh_for ?d ''b'' (\<lambda>n. ''b'' @ replicate n CHR ''+'')"
    using replicate_ids [of "''b''"] example_ids by (auto simp: fresh_for_def simp flip: set_map)
  ultimately have "indexed (fst (example_ingest ''b'' ?d))"
    unfolding example_ingest_def [of "''b''"] by (rule indexed.ingested)
  moreover have "sound_matcher all_rows" by (auto simp: sound_matcher_def all_rows_def comp_def)
  ultimately show "list_all (shows_chunk (example_config ''b'') (fst (example_ingest ''b'' ?d)))
     (search_index all_rows (\<lambda>_. Inl (RuntimeError ''no key'')) (example_config ''b'')
       (fst (example_ingest ''b'' ?d)) (u ''beta'') None)"
    unfolding list_all_iff
    using search_stays_in_scope [of "fst (example_ingest ''b'' ?d)" all_rows _ "example_config ''b''"] by blast
qed

end
