(* ===== verification/Memory.thy ===== *)
theory Memory
  imports Store_Acts Rag_Chunks
begin

text \<open>
  \<open>memory.py\<close>: the scratch memory of a task, the durable memory of a workspace with its candidates
  that expire unless they are promoted, and the loading of the instruction files. Clock readings are
  numbers; the table keeps its rows in insertion order. The directory walk that finds the
  instruction files is a parameter, its result in the order of \<open>sorted\<close>.
\<close>

subsection \<open>Working memory\<close>

definition working_load :: "string \<Rightarrow> (rstore, json) act" where
  "working_load run s =
     (case read_json s run (u ''working-memory.json'') of
        Inl FileNotFoundError \<Rightarrow> (s, Inr (JObj []))
      | Inl (ValueError _) \<Rightarrow> (s, Inr (JObj []))
      | Inl e \<Rightarrow> (s, Inl e)
      | Inr (s', v) \<Rightarrow> (s', Inr (if is_obj v then v else JObj [])))"

definition working_set :: "string \<Rightarrow> pytext \<Rightarrow> json \<Rightarrow> (rstore, json) act" where
  "working_set run key v =
     guardA (key = [] \<or> 128 < length key) (ValueError ''working-memory key must contain 1 to 128 characters'')
       (bindA (working_load run) (\<lambda>memory.
          let memory = JObj (dput key v (entries memory))
          in seqA (save_json run (u ''working-memory.json'') memory) (ret memory)))"

subsection \<open>Workspace memory\<close>

datatype mem_status = Candidate | Promoted

record mem_row =
  mm_id :: string
  mm_scope :: string
  mm_kind :: pytext
  mm_content :: pytext
  mm_provenance :: pytext
  mm_confidence :: real
  mm_status :: mem_status
  mm_created :: time
  mm_expires :: "time option"

definition DAY :: time where
  "DAY = 86400"

definition propose ::
  "nat \<Rightarrow> string \<Rightarrow> pytext \<Rightarrow> pytext \<Rightarrow> pytext \<Rightarrow> real \<Rightarrow> string \<Rightarrow> time \<Rightarrow> mem_row list \<Rightarrow> mem_row list \<times> mem_row result" where
  "propose ttl scope kind content provenance confidence fresh now ms =
     (let safe = redact_text (strip content)
      in if safe = [] \<or> 20000 < int (length safe)
         then (ms, Inl (ValueError ''memory content must contain 1 to 20000 characters''))
         else if contains (u ''[redacted]'') safe \<and> safe \<noteq> strip content
         then (ms, Inl (ValueError ''memory containing a detected secret cannot be stored''))
         else (let row = \<lparr>mm_id = fresh, mm_scope = scope, mm_kind = kind, mm_content = safe,
                     mm_provenance = take 2000 (redact_text provenance), mm_confidence = max 0 (min confidence 1),
                     mm_status = Candidate, mm_created = now, mm_expires = Some (now + real ttl * DAY)\<rparr>
               in (ms @ [row], Inr row)))"

definition promote :: "string \<Rightarrow> mem_row list \<Rightarrow> mem_row list \<times> mem_row result" where
  "promote i ms =
     (let ms' = map (\<lambda>r. if mm_id r = i then r\<lparr>mm_status := Promoted, mm_expires := None\<rparr> else r) ms
      in case first_such (\<lambda>r. mm_id r = i) ms' of
           None \<Rightarrow> (ms', Inl (ValueError ''memory entry not found'')) | Some r \<Rightarrow> (ms', Inr r))"

definition forget :: "string \<Rightarrow> mem_row list \<Rightarrow> mem_row list \<times> bool" where
  "forget i ms = (filter (\<lambda>r. mm_id r \<noteq> i) ms, list_ex (\<lambda>r. mm_id r = i) ms)"

definition expired :: "time \<Rightarrow> mem_row \<Rightarrow> bool" where
  "expired now r \<longleftrightarrow> mm_status r = Candidate \<and> (case mm_expires r of None \<Rightarrow> False | Some t \<Rightarrow> t < now)"

definition prune_expired :: "time \<Rightarrow> mem_row list \<Rightarrow> mem_row list \<times> nat" where
  "prune_expired now ms = (filter (\<lambda>r. \<not> expired now r) ms, length (filter (expired now) ms))"

definition list_memory :: "string \<Rightarrow> bool \<Rightarrow> int \<Rightarrow> time \<Rightarrow> mem_row list \<Rightarrow> mem_row list \<times> mem_row list" where
  \<comment> \<open>a negative LIMIT is no limit in SQLite\<close>
  "list_memory scope candidates limit now ms =
     (let ms' = fst (prune_expired now ms);
          found = sort_key (\<lambda>r. - mm_created r)
            (filter (\<lambda>r. mm_scope r = scope \<and> (mm_status r = Promoted \<or> candidates)) ms');
          n = min limit 500
      in (ms', if n < 0 then found else take (nat n) found))"

definition haystack :: "mem_row \<Rightarrow> pytext" where
  "haystack r = lower (mm_kind r @ u '' '' @ mm_content r @ u '' '' @ mm_provenance r)"

definition first_items :: "int \<Rightarrow> 'a list \<Rightarrow> 'a list" where
  \<comment> \<open>\<open>xs[:n]\<close>\<close>
  "first_items n xs = (if 0 \<le> n then take (nat n) xs else take (length xs - nat (- n)) xs)"

definition search_memory :: "string \<Rightarrow> pytext \<Rightarrow> int \<Rightarrow> time \<Rightarrow> mem_row list \<Rightarrow> mem_row list \<times> mem_row list" where
  "search_memory scope q limit now ms =
     (let words = map lower (split_ws q);
          (ms', found) = list_memory scope False 500 now ms;
          score = (\<lambda>r. sum_list (map (occurrences (haystack r)) words));
          hits = filter (\<lambda>r. score r \<noteq> 0) found
      in (ms', if words = [] then first_items limit found
                 else first_items limit (sort_key (\<lambda>r. - int (score r)) (sort_key (\<lambda>r. - mm_created r) hits))))"

definition MEMORY_KINDS :: "pytext list" where
  "MEMORY_KINDS = map u [''user'', ''feedback'', ''project'', ''reference'']"

datatype mem_op =
  \<comment> \<open>the tools of a task, for the scope of its workspace, at a time\<close>
    Propose pytext pytext pytext real string
  | Promote string
  | Delete string
  | Search pytext int

definition memory_tool :: "nat \<Rightarrow> string \<Rightarrow> time \<Rightarrow> mem_op \<Rightarrow> mem_row list \<Rightarrow> mem_row list \<times> mem_row list result" where
  "memory_tool ttl scope now op ms =
     (case op of
        Propose kind content provenance confidence fresh \<Rightarrow>
          if kind \<notin> set MEMORY_KINDS then (ms, Inl (ValueError ''unsupported memory kind''))
          else (case propose ttl scope kind content provenance confidence fresh now ms of
              (ms', r) \<Rightarrow> (ms', bindE r (\<lambda>x. Inr [x])))
      | Promote i \<Rightarrow> (case promote i ms of (ms', r) \<Rightarrow> (ms', bindE r (\<lambda>x. Inr [x])))
      | Delete i \<Rightarrow> (fst (forget i ms), Inr [])
      | Search q limit \<Rightarrow> (case search_memory scope q (min limit 50) now ms of (ms', xs) \<Rightarrow> (ms', Inr xs)))"

subsection \<open>Instruction files\<close>

datatype level = UserFile | ProjectFile | NestedFile

definition instruction_candidates ::
  "pytext list \<Rightarrow> (pytext \<times> int list option) option \<Rightarrow> int list option option \<Rightarrow> (pytext \<times> int list option) list \<Rightarrow> (level \<times> pytext \<times> int list option) list" where
  \<comment> \<open>the parts of the workspace's path, the global file, the file at the root, the nested ones; a file has no bytes when reading it fails\<close>
  "instruction_candidates workspace global_file root_file nested =
     (case global_file of None \<Rightarrow> [] | Some (p, b) \<Rightarrow> [(UserFile, p, b)])
     @ (case root_file of None \<Rightarrow> [] | Some b \<Rightarrow> [(ProjectFile, u ''AGENTS.md'', b)])
     @ map (\<lambda>(p, b). (NestedFile, p, b)) (filter (\<lambda>(p, _). p \<noteq> u ''AGENTS.md'' \<and> dotgit \<notin> set (workspace @ path_parts p)) nested)"

fun load_instructions :: "nat \<Rightarrow> nat \<Rightarrow> (level \<times> pytext \<times> int list option) list \<Rightarrow> (level \<times> pytext \<times> pytext) list" where
  \<comment> \<open>the limit and the bytes consumed so far\<close>
  "load_instructions maximum consumed [] = []"
| "load_instructions maximum consumed ((l, p, b) # rest) =
     (case b of
        None \<Rightarrow> load_instructions maximum consumed rest
      | Some raw \<Rightarrow> if maximum < consumed + length raw then []
          else (l, p, redact_text (decode_replace raw)) # load_instructions maximum (consumed + length raw) rest)"

definition level_name :: "level \<Rightarrow> pytext" where
  "level_name l = (case l of UserFile \<Rightarrow> u ''user'' | ProjectFile \<Rightarrow> u ''project'' | NestedFile \<Rightarrow> u ''nested'')"

definition render_instructions :: "(level \<times> pytext \<times> pytext) list \<Rightarrow> pytext" where
  "render_instructions vs =
     (if vs = [] then []
      else join [10] ((u ''AGENTS.md INSTRUCTIONS / '' @ [39033, 30446, 25351, 20196, 65288] @ u ''scope follows directory hierarchy'' @ [65289])
        # map (\<lambda>(l, p, t). 10 # u ''['' @ level_name l @ u '': '' @ p @ u '']'' @ [10] @ t) vs))"

subsection \<open>What a search shows\<close>

type_synonym mem_event = "string \<times> time \<times> mem_op"
  \<comment> \<open>the scope of the task that calls the tool, the time and the call\<close>

fun mem_run :: "nat \<Rightarrow> mem_event list \<Rightarrow> mem_row list \<Rightarrow> mem_row list" where
  "mem_run ttl [] ms = ms"
| "mem_run ttl ((scope, now, op) # es) ms = mem_run ttl es (fst (memory_tool ttl scope now op ms))"

definition proposed :: "mem_event list \<Rightarrow> mem_row \<Rightarrow> bool" where
  "proposed es r \<longleftrightarrow> (\<exists>t k c p x. (mm_scope r, t, Propose k c p x (mm_id r)) \<in> set es \<and> k \<in> set MEMORY_KINDS
     \<and> mm_kind r = k \<and> mm_content r = redact_text (strip c) \<and> mm_content r \<noteq> []
     \<and> \<not> (contains (u ''[redacted]'') (mm_content r) \<and> mm_content r \<noteq> strip c))"

definition promoted :: "mem_event list \<Rightarrow> mem_row \<Rightarrow> bool" where
  "promoted es r \<longleftrightarrow> (\<exists>s t. (s, t, Promote (mm_id r)) \<in> set es)"

definition mem_ok :: "mem_event list \<Rightarrow> mem_row list \<Rightarrow> bool" where
  "mem_ok es ms \<longleftrightarrow> (\<forall>r\<in>set ms. proposed es r \<and> 0 \<le> mm_confidence r \<and> mm_confidence r \<le> 1
     \<and> (case mm_status r of Promoted \<Rightarrow> promoted es r | Candidate \<Rightarrow> mm_expires r \<noteq> None))"

lemma mem_ok_mono: "mem_ok es ms \<Longrightarrow> set es \<subseteq> set es' \<Longrightarrow> mem_ok es' ms"
  unfolding mem_ok_def proposed_def promoted_def by (fastforce split: mem_status.splits)

lemma mem_ok_subset: "mem_ok es ms \<Longrightarrow> set ms' \<subseteq> set ms \<Longrightarrow> mem_ok es ms'"
  by (auto simp: mem_ok_def)

lemma list_memory_subset:
  "list_memory scope cs limit now ms = (ms', found) \<Longrightarrow> set ms' \<subseteq> set ms
     \<and> (\<forall>r\<in>set found. r \<in> set ms \<and> \<not> expired now r \<and> mm_scope r = scope \<and> (mm_status r = Promoted \<or> cs))"
  by (auto simp: list_memory_def prune_expired_def Let_def dest!: in_set_takeD split: if_splits)

lemma search_memory_subset:
  assumes "search_memory scope q limit now ms = (ms', found)"
  shows "set ms' \<subseteq> set ms \<and> (\<forall>r\<in>set found. r \<in> set ms \<and> mm_scope r = scope \<and> mm_status r = Promoted)
     \<and> (0 \<le> limit \<longrightarrow> length found \<le> nat limit)"
proof -
  obtain ms1 xs where l: "list_memory scope False 500 now ms = (ms1, xs)" by fastforce
  have f: "set (first_items limit ys) \<subseteq> set ys" "0 \<le> limit \<Longrightarrow> length (first_items limit ys) \<le> nat limit" for ys :: "mem_row list"
    by (auto simp: first_items_def dest: in_set_takeD)
  from assms l have "ms' = ms1" "set found \<subseteq> set xs" "0 \<le> limit \<Longrightarrow> length found \<le> nat limit"
    using f by (auto simp: search_memory_def Let_def split: if_splits dest: subsetD [OF f(1)])
  with list_memory_subset [OF l] show ?thesis by fastforce
qed

lemma memory_tool_ok:
  assumes "mem_ok es ms"
  shows "mem_ok (es @ [(scope, now, op)]) (fst (memory_tool ttl scope now op ms))"
proof -
  let ?es = "es @ [(scope, now, op)]"
  have old: "mem_ok ?es ms" by (rule mem_ok_mono [OF assms]) auto
  show ?thesis
  proof (cases op)
    case (Propose k c p x i)
    then show ?thesis using old unfolding mem_ok_def
      by (auto simp: memory_tool_def propose_def Let_def proposed_def split: prod.splits)
  next
    case (Promote i)
    have "\<forall>r\<in>set ms. proposed ?es (r\<lparr>mm_status := Promoted, mm_expires := None\<rparr>)"
      using old by (auto simp: mem_ok_def proposed_def)
    moreover have "promoted ?es (r\<lparr>mm_status := Promoted, mm_expires := None\<rparr>)" if "mm_id r = i" for r
      unfolding promoted_def using that Promote by (intro exI [of _ scope] exI [of _ now]) simp
    ultimately show ?thesis using Promote old unfolding mem_ok_def
      by (auto simp: memory_tool_def promote_def Let_def split: prod.splits option.splits)
  next
    case (Delete i)
    then show ?thesis by (intro mem_ok_subset [OF old]) (auto simp: memory_tool_def forget_def)
  next
    case (Search q limit)
    obtain ms' found where s: "search_memory scope q (min limit 50) now ms = (ms', found)" by fastforce
    from search_memory_subset [OF s] show ?thesis
      by (intro mem_ok_subset [OF old]) (simp add: memory_tool_def Search s)
  qed
qed

lemma mem_run_ok: "mem_ok es0 ms \<Longrightarrow> mem_ok (es0 @ es) (mem_run ttl es ms)"
proof (induction es arbitrary: es0 ms)
  case (Cons e es)
  obtain scope now op where "e = (scope, now, op)" by (cases e) auto
  with Cons.IH [OF memory_tool_ok [OF Cons.prems, of scope now op ttl]] show ?case by simp
qed simp

text \<open>Nothing is remembered without a promotion: after any calls of the memory tools by tasks of any
  scopes, a search of a scope shows only entries that a task of this scope proposed with an allowed
  kind, whose content is the proposed text, stripped and free of anything redaction would replace by
  its marker, and that a promotion was called for; and no more entries than the limit or fifty.
  Candidates are never shown, and each of them has a date at which it expires.\<close>
theorem search_shows_promoted_proposals:
  assumes "memory_tool ttl scope now (Search q limit) (mem_run ttl es []) = (ms', Inr found)"
  shows "(\<forall>r\<in>set found. mm_scope r = scope \<and> proposed es r \<and> promoted es r)
     \<and> (0 \<le> limit \<longrightarrow> length found \<le> nat (min limit 50))
     \<and> (\<forall>r\<in>set ms'. mm_status r = Candidate \<longrightarrow> mm_expires r \<noteq> None)"
proof -
  have s: "search_memory scope q (min limit 50) now (mem_run ttl es []) = (ms', found)"
    using assms by (auto simp: memory_tool_def split: prod.splits)
  have ok: "mem_ok es (mem_run ttl es [])" using mem_run_ok [of "[]" "[]" es ttl] by (simp add: mem_ok_def)
  with search_memory_subset [OF s] show ?thesis unfolding mem_ok_def by fastforce
qed

definition example_memory :: "mem_event list" where
  "example_memory = [(''a'', 0, Propose (u ''project'') (u '' uses tabs '') (u ''review'') (1 / 2) ''m1''),
     (''a'', 1, Propose (u ''project'') (u ''uses spaces'') (u ''guess'') (1 / 2) ''m2''), (''a'', 2, Promote ''m1'')]"

lemma search_shows_promoted_proposals_witness:
  "\<exists>ms' r. memory_tool 30 ''a'' 3 (Search (u ''Uses'') 10) (mem_run 30 example_memory []) = (ms', Inr [r])
     \<and> mm_content r = u ''uses tabs'' \<and> promoted example_memory r"
proof -
  have "case memory_tool 30 ''a'' 3 (Search (u ''Uses'') 10) (mem_run 30 example_memory []) of
      (ms', Inr [r]) \<Rightarrow> mm_content r = u ''uses tabs'' | _ \<Rightarrow> False"
    by code_simp
  then obtain ms' r where r: "memory_tool 30 ''a'' 3 (Search (u ''Uses'') 10) (mem_run 30 example_memory []) = (ms', Inr [r])"
    "mm_content r = u ''uses tabs''"
    by (auto split: prod.splits sum.splits list.splits)
  with search_shows_promoted_proposals [OF r(1)] show ?thesis by auto
qed

lemma instructions_bounded:
  \<comment> \<open>the files that are loaded are a subsequence of the candidates and together within the limit\<close>
  assumes "consumed \<le> maximum"
  shows "\<exists>raws. length raws = length (load_instructions maximum consumed cs)
     \<and> consumed + sum_list (map length raws) \<le> maximum
     \<and> map (\<lambda>(l, p, t). t) (load_instructions maximum consumed cs) = map (\<lambda>b. redact_text (decode_replace b)) raws"
  using assms
proof (induction maximum consumed cs rule: load_instructions.induct)
  case (2 maximum consumed l p b rest)
  show ?case
  proof (cases b)
    case None
    with 2 show ?thesis by simp
  next
    case (Some raw)
    show ?thesis
    proof (cases "maximum < consumed + length raw")
      case True
      with 2(3) Some show ?thesis by simp
    next
      case False
      then obtain raws where "length raws = length (load_instructions maximum (consumed + length raw) rest)"
        "consumed + length raw + sum_list (map length raws) \<le> maximum"
        "map (\<lambda>(l, p, t). t) (load_instructions maximum (consumed + length raw) rest) = map (\<lambda>b. redact_text (decode_replace b)) raws"
        using 2(2) [OF Some False] by auto
      with Some False show ?thesis by (intro exI [of _ "raw # raws"]) simp
    qed
  qed
qed (simp add: exI [of _ "[]"])

end
