(* ===== verification/Subagents.thy ===== *)
theory Subagents
  imports Py_Value Policy
begin

text \<open>
  \<open>subagents.py\<close>: the supervisor's read-only helpers. A delegation adds a node per subtask to the
  tree of the run, runs an agent for it, tries a synthesis without tools when the agent gave no valid
  answer, and closes the node. An agent may delegate again until the depth limit. The model's side of
  an agent is a program that answers, crashes or uses a tool and goes on with the reply; the factory
  that makes it is a parameter, as are the read-only tools, which act on a world. The pool of threads
  is run one task after the other; the tree is only touched in transactions.
\<close>

subsection \<open>Results of an agent\<close>

record agent_result =
  ar_content :: pytext
  ar_error :: "pytext option"
  ar_trace :: "json list"

definition truthy_text :: "pytext option \<Rightarrow> bool" where
  "truthy_text t \<longleftrightarrow> t \<noteq> None \<and> t \<noteq> Some []"

definition is_run_end :: "json \<Rightarrow> bool" where
  "is_run_end e \<longleftrightarrow> is_obj e \<and> field ''type'' e = JStr (u ''run_end'')"

definition failed_end :: "json \<Rightarrow> bool" where
  "failed_end e \<longleftrightarrow> is_run_end e \<and> field ''success'' (field ''data'' e) = JBool False"

definition result_failed :: "agent_result \<Rightarrow> bool" where
  "result_failed r \<longleftrightarrow> truthy_text (ar_error r)
     \<or> lower (strip (ar_content r)) \<in> {[], u ''failed to generate a valid response.'', u ''failed to stream a valid response.''}
     \<or> list_ex failed_end (ar_trace r)"

definition failure_reason :: "agent_result \<Rightarrow> pytext" where
  "failure_reason r =
     (if truthy_text (ar_error r) then redact_text (the (ar_error r))
      else (case first_such failed_end (rev (ar_trace r)) of
          None \<Rightarrow> u ''tool loop ended without a final answer''
        | Some e \<Rightarrow> (let d = field ''data'' e in redact_text (py_str (or_else (field ''error'' d)
              (or_else (field ''stage'' d) (JStr (u ''agent run failed''))))))))"

definition DELEGATE :: "pytext list" where
  "DELEGATE = [u ''delegate_task'', u ''delegate_tasks'']"

definition evidence_output :: "(pytext \<Rightarrow> json option) \<Rightarrow> json \<Rightarrow> json" where
  "evidence_output loads v =
     (let v = (case v of JStr t \<Rightarrow> (case loads t of None \<Rightarrow> JStr (take 5000 t) | Some w \<Rightarrow> w) | _ \<Rightarrow> v);
          encoded = dumps_default (redact_value v)
      in if 6000 < int (length encoded) then JStr (take 6000 encoded @ [8230] @ u ''[truncated]'') else v)"

definition evidence_of :: "(pytext \<Rightarrow> json option) \<Rightarrow> json \<Rightarrow> json list" where
  \<comment> \<open>what one event of the trace contributes\<close>
  "evidence_of loads e =
     (let d = field ''data'' e; tool = str_or (field ''name'' d) []
      in if \<not> is_obj e \<or> field ''type'' e \<noteq> JStr (u ''tool_result'') \<or> tool = [] \<or> tool \<in> set DELEGATE then []
         else [JObj [(u ''tool'', JStr tool), (u ''output'', evidence_output loads (field ''output'' d))]])"

definition trace_evidence :: "(pytext \<Rightarrow> json option) \<Rightarrow> (json \<Rightarrow> pytext) \<Rightarrow> json list \<Rightarrow> pytext" where
  \<comment> \<open>\<open>pretty\<close> is \<open>json.dumps\<close> with an indent\<close>
  "trace_evidence loads pretty trace =
     take 40000 (pretty (JList (take 16 (concat (map (evidence_of loads) trace)))))"

subsection \<open>The tree of agents\<close>

datatype node_status = NRunning | NCompleted | NFailed

record node =
  nd_index :: nat
  nd_id :: string
  nd_parent :: string
  nd_role :: pytext
  nd_task :: pytext
  nd_depth :: nat
  nd_status :: node_status
  nd_result :: "pytext option"
  nd_error :: "pytext option"
  nd_recovered :: bool

definition stored_node :: "node \<Rightarrow> node" where
  \<comment> \<open>a node as the session gives it back\<close>
  "stored_node n = n\<lparr>nd_task := redact_text (nd_task n), nd_result := map_option redact_text (nd_result n),
     nd_error := map_option redact_text (nd_error n)\<rparr>"

record 'w tstate =
  ts_world :: 'w
  ts_tree :: "node list"
  ts_durable :: nat     \<comment> \<open>the agents of \<open>agents.json\<close>\<close>
  ts_events :: "(string \<times> json) list"
  ts_traces :: "(string \<times> nat \<times> pytext) list"
  ts_next :: nat        \<comment> \<open>how many identifiers were drawn\<close>

record limits =
  lm_children :: nat
  lm_depth :: nat
  lm_total :: nat

definition add_node :: "limits \<Rightarrow> nat \<Rightarrow> string \<Rightarrow> string \<Rightarrow> pytext \<Rightarrow> pytext \<Rightarrow> 'w tstate \<Rightarrow> ('w tstate \<times> nat) option" where
  \<comment> \<open>\<open>None\<close> when the limit of agents is reached\<close>
  "add_node lm depth parent i role task s =
     (if lm_total lm \<le> length (ts_tree s) + ts_durable s then None
      else Some (s\<lparr>ts_tree := map stored_node (ts_tree s @ [\<lparr>nd_index = length (ts_tree s), nd_id = i, nd_parent = parent,
             nd_role = role, nd_task = task, nd_depth = depth + 1, nd_status = NRunning, nd_result = None,
             nd_error = None, nd_recovered = False\<rparr>])\<rparr>, length (ts_tree s)))"

fun close_first :: "string \<Rightarrow> (node \<Rightarrow> node) \<Rightarrow> node list \<Rightarrow> node list" where
  "close_first i f [] = []"
| "close_first i f (n # ns) = (if nd_id n = i then f n # ns else n # close_first i f ns)"

definition finish_node :: "string \<Rightarrow> bool \<Rightarrow> pytext \<Rightarrow> pytext option \<Rightarrow> bool \<Rightarrow> 'w tstate \<Rightarrow> 'w tstate" where
  "finish_node i ok content err recovered s =
     (if list_ex (\<lambda>n. nd_id n = i) (ts_tree s)
      then s\<lparr>ts_tree := map stored_node (close_first i (\<lambda>n. n\<lparr>nd_status := (if ok then NCompleted else NFailed),
             nd_result := Some content, nd_error := err, nd_recovered := recovered\<rparr>) (ts_tree s))\<rparr>
      else s)"

subsection \<open>Agents\<close>

datatype aprog = Answer agent_result | Crash pytext | Use pytext json "json \<Rightarrow> aprog"

type_synonym 'w handler = "pytext \<Rightarrow> json \<Rightarrow> 'w tstate \<Rightarrow> 'w tstate \<times> json"

primrec run_agent :: "'w handler \<Rightarrow> aprog \<Rightarrow> 'w tstate \<Rightarrow> 'w tstate \<times> (pytext + agent_result)" where
  "run_agent h (Answer r) = (\<lambda>s. (s, Inr r))"
| "run_agent h (Crash t) = (\<lambda>s. (s, Inl t))"
| "run_agent h (Use n a k) = (\<lambda>s. case h n a s of (s', v) \<Rightarrow> run_agent h (k v) s')"

record 'w setting =
  \<comment> \<open>the factory: role, permitted tools and prompt; the read-only tools; the identifiers\<close>
  st_limits :: limits
  st_factory :: "pytext \<Rightarrow> pytext list \<Rightarrow> pytext \<Rightarrow> aprog"
  st_read_tools :: "(pytext \<times> (json \<Rightarrow> 'w \<Rightarrow> 'w \<times> json)) list"
  st_ids :: "nat \<Rightarrow> string"
  st_evidence :: "json list \<Rightarrow> pytext"

definition failure_reply :: "string \<Rightarrow> json" where
  "failure_reply e = JObj [(u ''ok'', JBool False), (u ''error'', JStr (u e))]"

definition no_tools :: "'w handler" where
  "no_tools n a s = (s, failure_reply ''tool is not available'')"

definition read_tool :: "'w setting \<Rightarrow> 'w handler" where
  "read_tool st n a s =
     (case dget (st_read_tools st) n of
        None \<Rightarrow> no_tools n a s
      | Some f \<Rightarrow> (case f a (ts_world s) of (w, v) \<Rightarrow> (s\<lparr>ts_world := w\<rparr>, v)))"

definition emit :: "string \<Rightarrow> json \<Rightarrow> 'w tstate \<Rightarrow> 'w tstate" where
  "emit kind v s = s\<lparr>ts_events := ts_events s @ [(kind, v)]\<rparr>"

definition save_trace :: "string \<Rightarrow> nat \<Rightarrow> agent_result \<Rightarrow> 'w tstate \<Rightarrow> 'w tstate" where
  "save_trace i attempt r s =
     (if ar_trace r = [] then s
      else s\<lparr>ts_traces := ts_traces s @ [(i, attempt, join [10] (map (\<lambda>e. dumps_default (redact_value e)) (ar_trace r)) @ [10])]\<rparr>)"

definition subtask_prompt :: "pytext \<Rightarrow> nat \<Rightarrow> pytext \<Rightarrow> pytext" where
  "subtask_prompt role depth task =
     u ''You are a '' @ role @ u '' subagent at depth '' @ nat_repr (depth + 1) @ u ''. Complete only this bounded subtask. ''
     @ u ''All workspace tools are read-only. For code work, return a concrete unified-diff proposal ''
     @ u ''without claiming it was applied. Include evidence and uncertainties.'' @ [10, 10] @ u ''SUBTASK:'' @ [10] @ task"

definition synthesis_prompt :: "pytext \<Rightarrow> pytext \<Rightarrow> pytext" where
  "synthesis_prompt task evidence =
     u ''FINAL SUBAGENT SYNTHESIS PASS. The earlier tool-using pass ended without a valid final ''
     @ u ''response. No tools are available now. Complete the bounded subtask using only the untrusted ''
     @ u ''captured evidence below. Preserve exact source URLs and citations, distinguish facts from ''
     @ u ''inference, state missing data, and never invent values. Return a useful report even when ''
     @ u ''evidence is incomplete.'' @ [10, 10] @ u ''SUBTASK:'' @ [10] @ task @ [10, 10] @ u ''CAPTURED EVIDENCE:'' @ [10]
     @ (if evidence = [] then u ''No usable tool evidence was captured.'' else evidence)"

definition event_fields :: "(string \<times> json) list \<Rightarrow> json" where
  "event_fields kvs = JObj (map (\<lambda>(k, v). (u k, v)) kvs)"

definition recover ::
  "'w setting \<Rightarrow> string \<Rightarrow> pytext \<Rightarrow> pytext \<Rightarrow> agent_result \<Rightarrow> 'w tstate \<Rightarrow> 'w tstate \<times> agent_result option \<times> pytext option" where
  "recover st i role task failed s =
     (let s = emit ''subagent_recovery_started'' (event_fields [(''agent_id'', JStr (u i)), (''role'', JStr role),
            (''reason'', JStr (failure_reason failed))]) s
      in case run_agent no_tools (st_factory st role [] (synthesis_prompt task (st_evidence st (ar_trace failed)))) s of
           (s, Inr r) \<Rightarrow>
             (let s = emit ''subagent_recovery_completed'' (event_fields [(''agent_id'', JStr (u i)), (''role'', JStr role),
                    (''valid'', JBool (\<not> result_failed r))]) (save_trace i 2 r s)
              in (s, Some r, if result_failed r then Some (u ''subagent synthesis recovery did not produce a valid response'') else None))
         | (s, Inl t) \<Rightarrow>
             (emit ''subagent_recovery_completed'' (event_fields [(''agent_id'', JStr (u i)), (''role'', JStr role),
                (''valid'', JBool False), (''error'', JStr (redact_text t))]) s,
              None, Some (u ''subagent synthesis recovery failed: '' @ redact_text t)))"

record outcome =
  oc_index :: nat
  oc_id :: string
  oc_role :: pytext
  oc_ok :: bool
  oc_content :: pytext
  oc_recovered :: "bool option"
  oc_error :: "pytext option"

definition outcome_json :: "outcome \<Rightarrow> json" where
  "outcome_json x = event_fields ([(''index'', JInt (int (oc_index x))), (''agent_id'', JStr (u (oc_id x))), (''role'', JStr (oc_role x)),
     (''ok'', JBool (oc_ok x)), (''content'', JStr (oc_content x))]
     @ (case oc_recovered x of None \<Rightarrow> [] | Some b \<Rightarrow> [(''recovered'', JBool b)])
     @ [(''error'', case oc_error x of None \<Rightarrow> JNull | Some t \<Rightarrow> JStr t)])"

definition settled_pass ::
  "'w setting \<Rightarrow> string \<Rightarrow> pytext \<Rightarrow> pytext \<Rightarrow> nat \<Rightarrow> 'w tstate \<times> (pytext + agent_result) \<Rightarrow> 'w tstate \<times> outcome" where
  \<comment> \<open>from the answer of the first pass to the value that is reported\<close>
  "settled_pass st i role task index p =
     (case p of
        (s, Inl t) \<Rightarrow> (s, \<lparr>oc_index = index, oc_id = i, oc_role = role, oc_ok = False, oc_content = [],
           oc_recovered = None, oc_error = Some (redact_text t)\<rparr>)
      | (s, Inr r) \<Rightarrow>
          (let s = save_trace i 1 r s;
               (s, replacement, why) = (if result_failed r then recover st i role task r s else (s, None, None));
               recovered = (case replacement of None \<Rightarrow> False | Some x \<Rightarrow> \<not> result_failed x);
               r = (if recovered then the replacement else r);
               invalid = result_failed r
           in (s, \<lparr>oc_index = index, oc_id = i, oc_role = role, oc_ok = \<not> truthy_text (ar_error r) \<and> \<not> invalid,
                 oc_content = ar_content r, oc_recovered = Some recovered,
                 oc_error = (if truthy_text (ar_error r) then ar_error r
                   else if invalid then (if truthy_text why then why else Some (u ''subagent did not produce a valid response''))
                   else None)\<rparr>)))"

definition child_tools :: "'w setting \<Rightarrow> nat \<Rightarrow> pytext list" where
  \<comment> \<open>what an agent may use that runs with so many levels below it\<close>
  "child_tools st below = map fst (st_read_tools st) @ (if 0 < below then DELEGATE else [])"

definition execute ::
  "'w setting \<Rightarrow> nat \<Rightarrow> nat \<Rightarrow> (string \<Rightarrow> 'w handler) \<Rightarrow> string \<Rightarrow> pytext \<Rightarrow> pytext \<Rightarrow> 'w tstate \<Rightarrow> 'w tstate \<times> outcome" where
  \<comment> \<open>\<open>_execute\<close> of a manager at a depth, with the levels below its agents and their tools\<close>
  "execute st depth below tools parent role task s =
     (let i = st_ids st (ts_next s); s = s\<lparr>ts_next := ts_next s + 1\<rparr>
      in case add_node (st_limits st) depth parent i role task s of
           None \<Rightarrow> (s, \<lparr>oc_index = lm_total (st_limits st), oc_id = i, oc_role = role, oc_ok = False, oc_content = [],
              oc_recovered = None, oc_error = Some (u ''global subagent limit reached: '' @ nat_repr (lm_total (st_limits st)))\<rparr>)
         | Some (s, index) \<Rightarrow>
             (let s = emit ''subagent_started'' (event_fields [(''agent_id'', JStr (u i)), (''parent_id'', JStr (u parent)),
                    (''role'', JStr role), (''task'', JStr task)]) s;
                  (s, x) = settled_pass st i role task index
                    (run_agent (tools i) (st_factory st role (child_tools st below) (subtask_prompt role depth task)) s);
                  s = finish_node i (oc_ok x) (oc_content x) (oc_error x) (oc_recovered x = Some True) s
              in (emit ''subagent_completed'' (outcome_json x) s, x)))"

definition ROLES :: "pytext list" where
  "ROLES = map u [''explore'', ''research'', ''code'', ''test'', ''review'', ''rag'']"

fun normalized :: "json list \<Rightarrow> (string, (pytext \<times> pytext) list) sum" where
  "normalized [] = Inr []"
| "normalized (v # vs) =
     (if \<not> is_obj v then Inl ''each subtask must be an object''
      else (let role = lower (str_or (field ''role'' v) []); task = strip (str_or (field ''task'' v) [])
            in if role \<notin> set ROLES \<or> task = [] then Inl ''invalid subagent role or task''
               else (case normalized vs of Inl e \<Rightarrow> Inl e | Inr xs \<Rightarrow> Inr ((role, task) # xs))))"

fun run_all :: "('w tstate \<Rightarrow> pytext \<Rightarrow> pytext \<Rightarrow> 'w tstate \<times> outcome) \<Rightarrow> (pytext \<times> pytext) list \<Rightarrow> 'w tstate \<Rightarrow> 'w tstate \<times> outcome list" where
  "run_all run [] s = (s, [])"
| "run_all run ((role, task) # rest) s =
     (case run s role task of (s, x) \<Rightarrow> (case run_all run rest s of (s, xs) \<Rightarrow> (s, x # xs)))"

definition delegate_tasks ::
  "'w setting \<Rightarrow> nat \<Rightarrow> nat \<Rightarrow> (string \<Rightarrow> 'w handler) \<Rightarrow> string \<Rightarrow> json list \<Rightarrow> 'w tstate \<Rightarrow> 'w tstate \<times> json" where
  "delegate_tasks st depth below tools parent tasks s =
     (if lm_depth (st_limits st) \<le> depth then (s, failure_reply ''subagent depth limit reached'')
      else if tasks = [] \<or> lm_children (st_limits st) < length tasks
      then (s, failure_reply ''tasks must contain 1 to max_children items'')
      else (case normalized tasks of
          Inl e \<Rightarrow> (s, failure_reply e)
        | Inr xs \<Rightarrow>
            (case run_all (\<lambda>s role task. execute st depth below tools parent role task s) xs s of
               (s, os) \<Rightarrow> (s, JObj [(u ''ok'', JBool (list_all oc_ok os)),
                  (u ''results'', JList (map outcome_json (sort_key oc_index os)))]))))"

definition delegate ::
  "'w setting \<Rightarrow> nat \<Rightarrow> nat \<Rightarrow> (string \<Rightarrow> 'w handler) \<Rightarrow> string \<Rightarrow> 'w handler" where
  \<comment> \<open>both delegation tools, and the read-only ones\<close>
  "delegate st depth below tools parent n a s =
     (if n = u ''delegate_tasks'' then delegate_tasks st depth below tools parent (items (field ''tasks'' a)) s
      else if n = u ''delegate_task''
      then delegate_tasks st depth below tools parent
        [JObj [(u ''role'', field ''role'' a), (u ''task'', field ''task'' a)]] s
      else read_tool st n a s)"

primrec agent_tools :: "'w setting \<Rightarrow> nat \<Rightarrow> string \<Rightarrow> 'w handler" where
  \<comment> \<open>the tools of an agent with so many levels below it: at the last level it only reads\<close>
  "agent_tools st 0 parent = read_tool st"
| "agent_tools st (Suc below) parent =
     delegate st (lm_depth (st_limits st) - Suc below) below (agent_tools st below) parent"

definition supervise :: "'w setting \<Rightarrow> aprog \<Rightarrow> 'w tstate \<Rightarrow> 'w tstate \<times> (pytext + agent_result)" where
  \<comment> \<open>the supervisor's own run: the manager at depth 0\<close>
  "supervise st p s = run_agent (agent_tools st (lm_depth (st_limits st)) ''supervisor'') p s"

subsection \<open>How the tree grows\<close>

definition skel :: "node \<Rightarrow> string \<times> string \<times> nat \<times> bool" where
  "skel n = (nd_id n, nd_parent n, nd_depth n, nd_status n = NRunning)"

definition reads_only :: "'w setting \<Rightarrow> ('w \<Rightarrow> bool) \<Rightarrow> bool" where
  "reads_only st Q \<longleftrightarrow> (\<forall>(n, f)\<in>set (st_read_tools st). \<forall>a w. Q w \<longrightarrow> Q (fst (f a w)))"

definition world_kept :: "'w setting \<Rightarrow> 'w \<Rightarrow> 'w \<Rightarrow> bool" where
  \<comment> \<open>whatever every read-only tool keeps is kept\<close>
  "world_kept st w w' \<longleftrightarrow> (\<forall>Q. reads_only st Q \<longrightarrow> Q w \<longrightarrow> Q w')"

lemma world_kept_refl [simp]: "world_kept st w w"
  by (simp add: world_kept_def)

lemma world_kept_trans: "world_kept st w w1 \<Longrightarrow> world_kept st w1 w2 \<Longrightarrow> world_kept st w w2"
  unfolding world_kept_def by blast

lemma world_kept_tool: "(n, f) \<in> set (st_read_tools st) \<Longrightarrow> world_kept st w (fst (f a w))"
  unfolding world_kept_def reads_only_def by fast

definition hangs :: "string \<Rightarrow> nat \<Rightarrow> (string \<times> string \<times> nat \<times> bool) list \<Rightarrow> bool" where
  \<comment> \<open>every node is a child of the given parent at the given depth, or of another node of the list\<close>
  "hangs parent depth ks \<longleftrightarrow> (\<forall>(i, p, d, r)\<in>set ks. (p = parent \<and> d = depth + 1)
     \<or> (\<exists>(i', p', d', r')\<in>set ks. i' = p \<and> d = d' + 1))"

definition grows :: "'w setting \<Rightarrow> string \<Rightarrow> nat \<Rightarrow> 'w tstate \<Rightarrow> 'w tstate \<Rightarrow> bool" where
  "grows st parent depth s s' \<longleftrightarrow> ts_next s \<le> ts_next s' \<and> ts_durable s' = ts_durable s
     \<and> world_kept st (ts_world s) (ts_world s')
     \<and> (\<exists>new. map skel (ts_tree s') = map skel (ts_tree s) @ new \<and> hangs parent depth new
          \<and> (\<forall>(i, p, d, r)\<in>set new. \<not> r \<and> depth < d \<and> d \<le> lm_depth (st_limits st) \<and> i \<in> st_ids st ` {ts_next s..<ts_next s'})
          \<and> (new \<noteq> [] \<longrightarrow> length (ts_tree s') + ts_durable s' \<le> lm_total (st_limits st)))"

definition unused :: "'w setting \<Rightarrow> 'w tstate \<Rightarrow> bool" where
  \<comment> \<open>no node has an identifier that is still to be drawn\<close>
  "unused st s \<longleftrightarrow> (\<forall>n\<in>set (ts_tree s). \<forall>k\<ge>ts_next s. nd_id n \<noteq> st_ids st k)"

definition tame :: "'w setting \<Rightarrow> string \<Rightarrow> nat \<Rightarrow> ('w tstate \<Rightarrow> 'w tstate \<times> 'x) \<Rightarrow> bool" where
  "tame st parent depth m \<longleftrightarrow> (\<forall>s s' x. unused st s \<and> m s = (s', x) \<longrightarrow> grows st parent depth s s' \<and> unused st s')"

lemma hangs_append: "hangs p d xs \<Longrightarrow> hangs p d ys \<Longrightarrow> hangs p d (xs @ ys)"
  unfolding hangs_def by fastforce

lemma tree_grows_same:
  assumes "ts_tree s' = ts_tree s" "ts_next s \<le> ts_next s'" "ts_durable s' = ts_durable s" "ts_world s' = ts_world s"
  shows "grows st p d s s' \<and> (unused st s \<longrightarrow> unused st s')"
  using assms by (auto simp: grows_def unused_def hangs_def)

lemma tree_grows_trans:
  assumes "grows st p d s s1" and "grows st p d s1 s2"
  shows "grows st p d s s2"
proof -
  obtain new1 where n1: "map skel (ts_tree s1) = map skel (ts_tree s) @ new1" "hangs p d new1"
    "\<forall>(i, q, e, r)\<in>set new1. \<not> r \<and> d < e \<and> e \<le> lm_depth (st_limits st) \<and> i \<in> st_ids st ` {ts_next s..<ts_next s1}"
    "new1 \<noteq> [] \<longrightarrow> length (ts_tree s1) + ts_durable s1 \<le> lm_total (st_limits st)"
    using assms(1) by (auto simp: grows_def)
  obtain new2 where n2: "map skel (ts_tree s2) = map skel (ts_tree s1) @ new2" "hangs p d new2"
    "\<forall>(i, q, e, r)\<in>set new2. \<not> r \<and> d < e \<and> e \<le> lm_depth (st_limits st) \<and> i \<in> st_ids st ` {ts_next s1..<ts_next s2}"
    "new2 \<noteq> [] \<longrightarrow> length (ts_tree s2) + ts_durable s2 \<le> lm_total (st_limits st)"
    using assms(2) by (auto simp: grows_def)
  have nx: "ts_next s \<le> ts_next s1" "ts_next s1 \<le> ts_next s2" "ts_durable s1 = ts_durable s" "ts_durable s2 = ts_durable s1"
    using assms by (auto simp: grows_def)
  have "\<forall>(i, q, e, r)\<in>set (new1 @ new2). \<not> r \<and> d < e \<and> e \<le> lm_depth (st_limits st) \<and> i \<in> st_ids st ` {ts_next s..<ts_next s2}"
    using n1(3) n2(3) nx by fastforce
  moreover have "new1 @ new2 \<noteq> [] \<longrightarrow> length (ts_tree s2) + ts_durable s2 \<le> lm_total (st_limits st)"
  proof (cases "new2 = []")
    case True
    then have "length (ts_tree s2) = length (ts_tree s1)" using n2(1) by (metis append_Nil2 length_map)
    with True n1(4) nx show ?thesis by simp
  qed (use n2(4) in simp)
  moreover have "world_kept st (ts_world s) (ts_world s2)"
  proof (rule world_kept_trans)
    show "world_kept st (ts_world s) (ts_world s1)" "world_kept st (ts_world s1) (ts_world s2)"
      using assms unfolding grows_def by blast+
  qed
  ultimately show ?thesis unfolding grows_def using nx n1(1,2) n2(1,2) hangs_append [OF n1(2) n2(2)]
    by (intro conjI exI [of _ "new1 @ new2"]) simp_all
qed

lemma tame_same:
  assumes "\<And>s s' x. m s = (s', x) \<Longrightarrow> ts_tree s' = ts_tree s \<and> ts_next s' = ts_next s \<and> ts_durable s' = ts_durable s \<and> ts_world s' = ts_world s"
  shows "tame st p d m"
  unfolding tame_def using assms tree_grows_same by (metis order_refl)

lemma tame_bind:
  assumes "tame st p d m" and "\<And>x. tame st p d (k x)"
  shows "tame st p d (\<lambda>s. case m s of (s', x) \<Rightarrow> k x s')"
  unfolding tame_def
proof (intro allI impI, elim conjE)
  fix s s' y assume u: "unused st s" and e: "(case m s of (s', x) \<Rightarrow> k x s') = (s', y)"
  obtain s1 x where m: "m s = (s1, x)" by fastforce
  with e have "k x s1 = (s', y)" by simp
  with assms u m show "grows st p d s s' \<and> unused st s'" unfolding tame_def using tree_grows_trans by blast
qed

lemma tame_run_agent:
  assumes "\<And>n a. tame st p d (h n a)"
  shows "tame st p d (run_agent h a)"
proof (induction a)
  case (Use n a k)
  show ?case using tame_bind [OF assms, of "\<lambda>v. run_agent h (k v)" n a] Use by simp
qed (auto intro!: tame_same)

lemma tame_read_tool: "tame st p d (read_tool st n a)"
proof (cases "dget (st_read_tools st) n")
  case None
  then show ?thesis by (intro tame_same) (simp add: read_tool_def no_tools_def)
next
  case (Some f)
  then have f: "(n, f) \<in> set (st_read_tools st)" by (rule map_of_SomeD)
  show ?thesis unfolding tame_def
  proof (intro allI impI, elim conjE)
    fix s s' x assume "unused st s" "read_tool st n a s = (s', x)"
    then show "grows st p d s s' \<and> unused st s'"
      using Some world_kept_tool [OF f, of "ts_world s" a]
      by (auto simp: read_tool_def grows_def unused_def hangs_def split: prod.splits)
  qed
qed

lemma skel_stored [simp]: "skel (stored_node n) = skel n" "nd_id (stored_node n) = nd_id n"
  by (simp_all add: skel_def stored_node_def)

lemma skel_comp_stored [simp]: "skel \<circ> stored_node = skel"
  by (simp add: fun_eq_iff)

lemma skel_close_first:
  assumes "\<And>n. skel (f n) = (nd_id n, nd_parent n, nd_depth n, False)" and "i \<notin> nd_id ` set ns"
  shows "map skel (close_first i f (ns @ n # ms)) =
     map skel ns @ (if nd_id n = i then (i, nd_parent n, nd_depth n, False) # map skel ms else map skel (n # close_first i f ms))"
  using assms(2) by (induction ns) (auto simp: assms(1))

lemma run_no_tools: "run_agent no_tools a s = (s', x) \<Longrightarrow> s' = s"
  by (induction a arbitrary: s) (auto simp: no_tools_def)

lemma settled_pass_same:
  assumes "settled_pass st i role task index (s, x) = (s', y)"
  shows "ts_tree s' = ts_tree s \<and> ts_next s' = ts_next s \<and> ts_durable s' = ts_durable s \<and> ts_world s' = ts_world s"
proof -
  have tr: "ts_tree (save_trace i k r s) = ts_tree s \<and> ts_next (save_trace i k r s) = ts_next s
      \<and> ts_durable (save_trace i k r s) = ts_durable s \<and> ts_world (save_trace i k r s) = ts_world s" for k r s
    by (simp add: save_trace_def)
  have re: "ts_tree s1 = ts_tree s \<and> ts_next s1 = ts_next s \<and> ts_durable s1 = ts_durable s \<and> ts_world s1 = ts_world s"
    if "recover st i role task r s = (s1, q)" for r s s1 q
    using that by (auto simp: recover_def Let_def emit_def tr split: prod.splits sum.splits dest!: run_no_tools)
  show ?thesis
  proof (cases x)
    case (Inl t)
    with assms show ?thesis by (simp add: settled_pass_def)
  next
    case (Inr r)
    then show ?thesis using assms tr [of 1 r s] re [of r "save_trace i 1 r s"]
      by (auto simp: settled_pass_def Let_def split: prod.splits if_splits)
  qed
qed

lemma unused_ids: "unused st s \<longleftrightarrow> (\<forall>x\<in>set (map skel (ts_tree s)). \<forall>k\<ge>ts_next s. fst x \<noteq> st_ids st k)"
  by (auto simp: unused_def skel_def)

lemma unused_image: "unused st s \<longleftrightarrow> (\<forall>i\<in>fst ` set (map skel (ts_tree s)). \<forall>k\<ge>ts_next s. i \<noteq> st_ids st k)"
  unfolding unused_ids by (rule ball_simps(9) [symmetric])

lemma close_own_node:
  assumes "map skel (ts_tree s) = old @ (i, p, d, b) # new" and "i \<notin> fst ` set old"
  shows "map skel (ts_tree (finish_node i ok content err recovered s)) = old @ (i, p, d, False) # new"
proof -
  from assms(1) obtain ns n ms where t: "ts_tree s = ns @ n # ms" "map skel ns = old" "skel n = (i, p, d, b)" "map skel ms = new"
    by (auto simp: map_eq_append_conv)
  have n: "nd_id n = i" "nd_parent n = p" "nd_depth n = d" using t(3) by (auto simp: skel_def)
  have "i \<notin> nd_id ` set ns" using assms(2) t(2) by (force simp: skel_def)
  let ?f = "\<lambda>n. n\<lparr>nd_status := (if ok then NCompleted else NFailed), nd_result := Some content,
      nd_error := err, nd_recovered := recovered\<rparr>"
  have "skel (?f n) = (nd_id n, nd_parent n, nd_depth n, False)" for n by (simp add: skel_def)
  from skel_close_first [of ?f, OF this \<open>i \<notin> nd_id ` set ns\<close>, of n ms] n t(2,4)
  have "map skel (close_first i ?f (ts_tree s)) = old @ (i, p, d, False) # new" by (simp add: t(1))
  moreover have "list_ex (\<lambda>n. nd_id n = i) (ts_tree s)" by (simp add: t(1) n)
  ultimately show ?thesis by (simp add: finish_node_def)
qed

lemma tame_execute:
  assumes "inj (st_ids st)" and "depth < lm_depth (st_limits st)" and "\<And>i n a. tame st i (depth + 1) (tools i n a)"
  shows "tame st parent depth (execute st depth below tools parent role task)"
  unfolding tame_def
proof (intro allI impI, elim conjE)
  fix s s' x
  assume u: "unused st s" and e: "execute st depth below tools parent role task s = (s', x)"
  define i where "i = st_ids st (ts_next s)"
  define s0 where "s0 = s\<lparr>ts_next := ts_next s + 1\<rparr>"
  show "grows st parent depth s s' \<and> unused st s'"
  proof (cases "add_node (st_limits st) depth parent i role task s0")
    case None
    then have "s' = s0" using e by (simp add: execute_def Let_def i_def s0_def)
    then show ?thesis using tree_grows_same [of s' s st parent depth] u by (simp add: s0_def)
  next
    case (Some p)
    then obtain s1 index where s1: "add_node (st_limits st) depth parent i role task s0 = Some (s1, index)" by (cases p) auto
    then have t1: "map skel (ts_tree s1) = map skel (ts_tree s) @ [(i, parent, depth + 1, True)]"
      "ts_next s1 = ts_next s + 1" "ts_durable s1 = ts_durable s" "ts_world s1 = ts_world s"
      "length (ts_tree s) + ts_durable s < lm_total (st_limits st)"
      by (auto simp: add_node_def s0_def skel_def stored_node_def comp_def split: if_splits)
    define s2 where "s2 = emit ''subagent_started'' (event_fields [(''agent_id'', JStr (u i)), (''parent_id'', JStr (u parent)),
                    (''role'', JStr role), (''task'', JStr task)]) s1"
    have t2: "ts_tree s2 = ts_tree s1" "ts_next s2 = ts_next s1" "ts_durable s2 = ts_durable s1" "ts_world s2 = ts_world s1"
      by (simp_all add: s2_def emit_def)
    obtain s3 r where r: "run_agent (tools i) (st_factory st role (child_tools st below) (subtask_prompt role depth task)) s2 = (s3, r)"
      by fastforce
    obtain s4 y where y: "settled_pass st i role task index (s3, r) = (s4, y)" by fastforce
    note t4 = settled_pass_same [OF y]
    have x: "s' = emit ''subagent_completed'' (outcome_json y) (finish_node i (oc_ok y) (oc_content y) (oc_error y) (oc_recovered y = Some True) s4)"
      using e s1 r y by (auto simp: execute_def Let_def i_def s0_def s2_def)
    have idk: "i \<noteq> st_ids st k" if "ts_next s < k" for k
      using assms(1) that unfolding i_def by (auto dest: injD)
    have "unused st s2" using u idk unfolding unused_ids t2 t1 by auto
    then have g: "grows st i (depth + 1) s2 s3" "unused st s3"
      using tame_run_agent [of st i "depth + 1" "tools i", OF assms(3)] r unfolding tame_def by blast+
    obtain new where new: "map skel (ts_tree s3) = map skel (ts_tree s) @ (i, parent, depth + 1, True) # new"
       "hangs i (depth + 1) new" "new \<noteq> [] \<longrightarrow> length (ts_tree s3) + ts_durable s3 \<le> lm_total (st_limits st)"
       "\<forall>(j, q, d, b)\<in>set new. \<not> b \<and> depth + 1 < d \<and> d \<le> lm_depth (st_limits st) \<and> j \<in> st_ids st ` {ts_next s2..<ts_next s3}"
      using g(1) t1(1) t2(1) by (auto simp: grows_def)
    have nx: "ts_next s < ts_next s3" "ts_durable s3 = ts_durable s" using g(1) t1 t2 by (auto simp: grows_def)
    have notin: "i \<notin> fst ` set (map skel (ts_tree s))" using u unfolding unused_ids i_def by (metis imageE le_refl)
    have fin: "map skel (ts_tree s') = map skel (ts_tree s) @ (i, parent, depth + 1, False) # new"
      unfolding x using close_own_node [where s = s4 and i = i and new = new, OF _ notin] new(1) t4 by (simp add: emit_def)
    have rest: "ts_next s' = ts_next s3" "ts_durable s' = ts_durable s3" "ts_world s' = ts_world s3"
      using t4 by (simp_all add: x emit_def finish_node_def)
    have "length (ts_tree s') = length (ts_tree s3)" using fin new(1) by (metis length_append length_map list.size(4))
    then have bound: "length (ts_tree s') + ts_durable s' \<le> lm_total (st_limits st)"
    proof (cases "new = []")
      case True
      then have "length (ts_tree s') = length (ts_tree s) + 1" using fin by (metis length_append_singleton length_map Suc_eq_plus1)
      then show ?thesis using t1(5) rest nx by simp
    qed (use new(3) rest in simp)
    have "hangs parent depth ((i, parent, depth + 1, False) # new)"
      using new(2) unfolding hangs_def by fastforce
    moreover have "\<forall>(j, q, d, b)\<in>set ((i, parent, depth + 1, False) # new). \<not> b \<and> depth < d \<and> d \<le> lm_depth (st_limits st)
        \<and> j \<in> st_ids st ` {ts_next s..<ts_next s'}"
      using new(4) assms(2) nx(1) t1(2) t2(2) unfolding rest by (auto simp: i_def)
    moreover have "world_kept st (ts_world s) (ts_world s')"
      using g(1) t1(4) t2(4) unfolding rest grows_def by simp
    moreover have "unused st s'"
    proof -
      have "fst ` set (map skel (ts_tree s')) = fst ` set (map skel (ts_tree s3))" unfolding fin new(1) by simp
      with g(2) show ?thesis unfolding unused_image rest by (simp only:)
    qed
    ultimately show ?thesis using fin bound nx rest unfolding grows_def
      by (intro conjI exI [of _ "(i, parent, depth + 1, False) # new"]) simp_all
  qed
qed

lemma tame_run_all:
  assumes "\<And>role task. tame st p d (\<lambda>s. run s role task)"
  shows "tame st p d (run_all run xs)"
proof (induction xs)
  case Nil
  then show ?case by (intro tame_same) simp
next
  case (Cons x xs)
  obtain role task where x: "x = (role, task)" by (cases x)
  have "tame st p d (\<lambda>s. case run_all run xs s of (s, ys) \<Rightarrow> (s, y # ys))" for y :: outcome
    using Cons unfolding tame_def by (fastforce split: prod.splits)
  from tame_bind [OF assms [of role task] this] show ?case by (simp add: x)
qed

lemma tame_delegate_tasks:
  assumes "inj (st_ids st)" and "\<And>i n a. tame st i (depth + 1) (tools i n a)"
  shows "tame st parent depth (delegate_tasks st depth below tools parent tasks)"
proof (cases "lm_depth (st_limits st) \<le> depth \<or> tasks = [] \<or> lm_children (st_limits st) < length tasks \<or> (\<exists>e. normalized tasks = Inl e)")
  case True
  then have "fst (delegate_tasks st depth below tools parent tasks s) = s" for s
    by (auto simp: delegate_tasks_def split: if_splits)
  then show ?thesis by (intro tame_same) (metis fst_conv)
next
  case False
  then obtain xs where xs: "normalized tasks = Inr xs" "depth < lm_depth (st_limits st)" "tasks \<noteq> []"
    "\<not> lm_children (st_limits st) < length tasks" by (cases "normalized tasks") auto
  have "tame st parent depth (run_all (\<lambda>s role task. execute st depth below tools parent role task s) xs)"
    using tame_execute [OF assms(1) xs(2) assms(2)] by (intro tame_run_all) simp
  then show ?thesis using xs unfolding tame_def delegate_tasks_def by (fastforce split: prod.splits)
qed

lemma delegate_alt:
  "delegate st depth below tools parent n a =
     (if n = u ''delegate_tasks'' then delegate_tasks st depth below tools parent (items (field ''tasks'' a))
      else if n = u ''delegate_task''
      then delegate_tasks st depth below tools parent [JObj [(u ''role'', field ''role'' a), (u ''task'', field ''task'' a)]]
      else read_tool st n a)"
  by (simp add: fun_eq_iff delegate_def)

lemma tame_agent_tools:
  assumes "inj (st_ids st)" and "below \<le> lm_depth (st_limits st)"
  shows "tame st parent (lm_depth (st_limits st) - below) (agent_tools st below parent n a)"
  using assms(2)
proof (induction below arbitrary: parent n a)
  case 0
  then show ?case by (simp add: tame_read_tool)
next
  case (Suc below)
  let ?d = "lm_depth (st_limits st) - Suc below"
  have "?d + 1 = lm_depth (st_limits st) - below" using Suc.prems by simp
  then have sub: "tame st i (?d + 1) (agent_tools st below i n a)" for i n a using Suc.IH Suc.prems by simp
  have "tame st parent ?d (delegate_tasks st ?d below (agent_tools st below) parent tasks)" for tasks
    by (rule tame_delegate_tasks [OF assms(1) sub])
  then have "tame st parent ?d (delegate st ?d below (agent_tools st below) parent n a)"
    using tame_read_tool [of st parent ?d n a] unfolding delegate_alt by simp
  then show ?case by (simp only: agent_tools.simps)
qed


definition example_setting :: "nat setting" where
  \<comment> \<open>a factory whose agents always try to delegate further\<close>
  "example_setting = \<lparr>st_limits = \<lparr>lm_children = 4, lm_depth = 2, lm_total = 8\<rparr>,
     st_factory = (\<lambda>role allowed prompt. Use (u ''delegate_task'') (JObj [(u ''role'', JStr (u ''code'')), (u ''task'', JStr (u ''more''))])
       (\<lambda>v. Answer \<lparr>ar_content = u ''done'', ar_error = None, ar_trace = []\<rparr>)),
     st_read_tools = [], st_ids = (\<lambda>n. replicate n CHR ''i''), st_evidence = (\<lambda>_. [])\<rparr>"

definition example_tree :: "nat tstate" where
  "example_tree = \<lparr>ts_world = 0, ts_tree = [], ts_durable = 0, ts_events = [], ts_traces = [], ts_next = 1\<rparr>"

definition example_supervisor :: aprog where
  "example_supervisor = st_factory example_setting [] [] []"


end
