(* ===== verification/Continuation.thy ===== *)
theory Continuation
  imports Jobs Sessions Subagents Store_Acts "HOL-Library.Char_ord"
begin

text \<open>
  \<open>continuation.py\<close>: durable child conversations. A child is an entry of the document \<open>agents.json\<close>
  with the messages it has been sent; an activation is a background job that takes the messages one
  by one. Every store transaction of the file is an operation here, and the loop of an activation is
  their composition. The model behind a child, the copy of a parent's session and the new identifiers
  are parameters. Identifiers are not changed by redaction; the texts of all children go through it
  whenever the document is written.
\<close>

subsection \<open>Children and the service\<close>

datatype mstatus = MPending | MClaimed | MCompleted

record child_message =
  cm_id :: string
  cm_text :: pytext
  cm_status :: mstatus
  cm_result :: "pytext option"

datatype cstatus = ChPending | ChRunning | ChIdle | ChPaused | ChInterrupted | ChCancelled | ChFailed

record child =
  ch_id :: string
  ch_session :: string
  ch_role :: pytext
  ch_provider :: string
  ch_parent :: string
  ch_depth :: nat
  ch_status :: cstatus
  ch_messages :: "child_message list"
  ch_allowed :: "string list"
  ch_job :: "string option"
  ch_result :: "pytext option"

record agents =
  ag_children :: "(string, child) dict"
  ag_jobs :: registry
  ag_db :: db
  ag_log :: "(string \<times> string) list"
  ag_started :: "(string \<times> string \<times> nat) list"  \<comment> \<open>activations handed to the executor\<close>
  ag_control :: string
  ag_now :: time

type_synonym tool = "json \<Rightarrow> (agents, json) act"

record 'f provider =
  cp_continuation :: bool
  cp_fork :: bool
  cp_factory :: "'f option"

record 'f service =
  sv_run :: string
  sv_tools :: "(string \<times> tool) list"  \<comment> \<open>the read-only tools, by name\<close>
  sv_max_agents :: nat
  sv_max_depth :: nat
  sv_depth :: nat
  sv_parent :: string
  sv_owner :: string
  sv_pid :: nat
  sv_lease :: time
  sv_factory :: 'f
  sv_providers :: "(string, 'f provider) dict"
  sv_la :: lightagent
  sv_copy :: "session \<Rightarrow> string \<Rightarrow> json \<Rightarrow> session"  \<comment> \<open>LightAgent's \<open>Session.fork\<close>\<close>

definition BUILTIN_PROVIDERS :: "(string, 'f provider) dict" where
  "BUILTIN_PROVIDERS =
     [(''spawn'', \<lparr>cp_continuation = True, cp_fork = False, cp_factory = None\<rparr>),
      (''fork'', \<lparr>cp_continuation = True, cp_fork = True, cp_factory = None\<rparr>)]"

definition register_provider :: "'f service \<Rightarrow> string \<Rightarrow> 'f provider \<Rightarrow> 'f service result" where
  "register_provider sv name p =
     guardE (name \<in> set (dkeys (sv_providers sv))) (ValueError ''subagent provider already registered'')
       (Inr (sv\<lparr>sv_providers := dput name p (sv_providers sv)\<rparr>))"

subsection \<open>The document\<close>

definition stored_message :: "child_message \<Rightarrow> child_message" where
  "stored_message m = m\<lparr>cm_text := redact_text (cm_text m), cm_result := map_option redact_text (cm_result m)\<rparr>"

definition stored_child :: "child \<Rightarrow> child" where
  "stored_child c = c\<lparr>ch_messages := map stored_message (ch_messages c),
     ch_result := map_option redact_text (ch_result c)\<rparr>"

definition save_child :: "string \<Rightarrow> child \<Rightarrow> agents \<Rightarrow> agents" where
  \<comment> \<open>\<open>_save\<close> after one child changed: the whole document is rewritten\<close>
  "save_child kind c st = st\<lparr>
     ag_children := map (\<lambda>(k, x). (k, stored_child x)) (dput (ch_id c) c (ag_children st)),
     ag_log := ag_log st @ [(kind, ch_id c)]\<rparr>"

definition get_child :: "agents \<Rightarrow> string \<Rightarrow> child result" where
  "get_child st i = (case dget (ag_children st) i of None \<Rightarrow> Inl (KeyError i) | Some c \<Rightarrow> Inr c)"

primrec update_first :: "('a \<Rightarrow> bool) \<Rightarrow> ('a \<Rightarrow> 'a) \<Rightarrow> 'a list \<Rightarrow> 'a list" where
  \<comment> \<open>the first such item is changed in place\<close>
  "update_first P f [] = []"
| "update_first P f (x # xs) = (if P x then f x # xs else x # update_first P f xs)"

subsection \<open>Starting an activation\<close>

definition activate :: "'f service \<Rightarrow> agents \<Rightarrow> string \<Rightarrow> string \<Rightarrow> agents result" where
  \<comment> \<open>the last argument is the identifier of the new job\<close>
  "activate sv st i jid =
     bindE (get_child st i) (\<lambda>c.
       case create_job (ag_jobs st) jid ''subagent'' (JObj [(u ''agent_id'', JStr (u i))]) (Some i) None None
              (sv_pid sv) (ag_now st) of (r, j) \<Rightarrow>
         (let st = save_child ''agent.activated'' (c\<lparr>ch_status := ChRunning, ch_job := Some (j_id j)\<rparr>)
                (st\<lparr>ag_jobs := r\<rparr>)
          in bindE (claim r (sv_owner sv) (j_id j) (sv_pid sv) (sv_lease sv) (ag_now st)) (\<lambda>(r, claimed).
               Inr (st\<lparr>ag_jobs := r, ag_started := ag_started st
                 @ (case claimed of None \<Rightarrow> [] | Some j \<Rightarrow> [(i, j_id j, j_epoch j)])\<rparr>))))"

definition send_message :: "'f service \<Rightarrow> agents \<Rightarrow> string \<Rightarrow> pytext \<Rightarrow> string \<Rightarrow> string \<Rightarrow> (agents \<times> string option) result" where
  "send_message sv st i text mid jid =
     guardE (strip text = []) (ValueError ''message cannot be blank'')
       (bindE (get_child st i) (\<lambda>c.
         let c = c\<lparr>ch_messages := ch_messages c @ [\<lparr>cm_id = mid, cm_text = text, cm_status = MPending, cm_result = None\<rparr>]\<rparr>;
             st = save_child ''agent.message'' c st
         in bindE (if ch_status c \<notin> {ChRunning, ChPaused, ChInterrupted} then activate sv st i jid else Inr st) (\<lambda>st.
            bindE (get_child st i) (\<lambda>c. Inr (st, ch_job c)))))"

definition foreign_event :: "event \<Rightarrow> bool" where
  \<comment> \<open>events of the parent's own machinery, which a fork does not inherit\<close>
  "foreign_event e \<longleftrightarrow> list_ex (\<lambda>p. take (length p) (ev_type e) = p)
     [''lightworker.'', ''job.'', ''agent.'', ''goal.'', ''control.'']"

definition inherited :: "event list \<Rightarrow> event list" where
  "inherited es = (let es = filter (\<lambda>e. \<not> foreign_event e) es
     in map (\<lambda>(n, e). e\<lparr>ev_seq := n + 1\<rparr>) (enumerate 0 es))"

definition fork_session :: "'f service \<Rightarrow> agents \<Rightarrow> string \<Rightarrow> agents result" where
  "fork_session sv st sid =
     (case load (ag_db st) (sv_run sv) of
        None \<Rightarrow> Inr st
      | Some parent \<Rightarrow>
          (let f = sv_copy sv parent sid (JObj [(u ''parent_agent_id'', JStr (u (sv_parent sv)))])
           in bindE (Sessions.create (sv_la sv) (ag_db st) (f\<lparr>se_events := inherited (se_events f)\<rparr>)) (\<lambda>(d, _).
                Inr (st\<lparr>ag_db := d\<rparr>))))"

definition legacy_agents :: "'f service \<Rightarrow> agents \<Rightarrow> nat" where
  "legacy_agents sv st =
     (case field ''agents'' (Sessions.state (ag_db st) (sv_run sv) (u ''agent-tree.json'')) of
        JList xs \<Rightarrow> length xs | JObj d \<Rightarrow> length d | _ \<Rightarrow> 0)"

definition add_child :: "'f service \<Rightarrow> agents \<Rightarrow> pytext \<Rightarrow> string \<Rightarrow> 'f provider \<Rightarrow> string \<Rightarrow> agents result" where
  \<comment> \<open>the first transaction of \<open>spawn_agent\<close>\<close>
  "add_child sv st role name p i =
     guardE (length (ag_children st) + legacy_agents sv st \<ge> sv_max_agents sv \<or> sv_depth sv \<ge> sv_max_depth sv)
       (ValueError ''agent tree/depth limit reached'')
       (let sid = sv_run sv @ ''-child-'' @ i
        in bindE (if cp_fork p then fork_session sv st sid else Inr st) (\<lambda>st.
             Inr (save_child ''agent.created'' \<lparr>ch_id = i, ch_session = sid, ch_role = role, ch_provider = name,
               ch_parent = sv_parent sv, ch_depth = sv_depth sv + 1, ch_status = ChPending, ch_messages = [],
               ch_allowed = sort (map fst (sv_tools sv)), ch_job = None, ch_result = None\<rparr> st)))"

definition spawn_agent ::
  "'f service \<Rightarrow> pytext \<Rightarrow> pytext \<Rightarrow> string \<Rightarrow> string \<Rightarrow> string \<Rightarrow> string \<Rightarrow> (agents, string option) act" where
  "spawn_agent sv role task name i mid jid =
     guardA (role \<notin> set ROLES \<or> strip task = []) (ValueError ''invalid specialist role or task'')
       (case dget (sv_providers sv) name of
          None \<Rightarrow> raise (ValueError ''unsupported continuation provider'')
        | Some p \<Rightarrow>
            guardA (\<not> cp_continuation p) (ValueError ''unsupported continuation provider'')
              (seqA (modify (\<lambda>st. add_child sv st role name p i))
                (\<lambda>st. case send_message sv st i task mid jid of
                    Inl e \<Rightarrow> (st, Inl e) | Inr (st', j) \<Rightarrow> (st', Inr j))))"

subsection \<open>An activation\<close>

definition uncompleted :: "child_message \<Rightarrow> bool" where
  "uncompleted m \<longleftrightarrow> cm_status m \<in> {MPending, MClaimed}"

datatype turn = Idle "pytext option" | Turn child_message child

definition claim_turn :: "agents \<Rightarrow> string \<Rightarrow> (agents \<times> turn) result" where
  "claim_turn st i =
     bindE (get_child st i) (\<lambda>c.
       case first_such uncompleted (ch_messages c) of
         None \<Rightarrow> Inr (save_child ''agent.idle'' (c\<lparr>ch_status := ChIdle\<rparr>) st, Idle (ch_result c))
       | Some m \<Rightarrow>
           (let c = c\<lparr>ch_messages := update_first uncompleted (\<lambda>m. m\<lparr>cm_status := MClaimed\<rparr>) (ch_messages c)\<rparr>
            in Inr (save_child ''agent.turn.started'' c st, Turn m c)))"

definition checked :: "agents \<Rightarrow> string \<Rightarrow> nat \<Rightarrow> unit result" where
  "checked st job e = checkpoint (ag_jobs st) job e (ag_control st) (ag_now st)"

definition end_turn :: "agents \<Rightarrow> string \<Rightarrow> string \<Rightarrow> nat \<Rightarrow> string \<Rightarrow> pytext \<Rightarrow> agents result" where
  "end_turn st i job e mid content =
     bindE (checked st job e) (\<lambda>_.
     bindE (get_child st i) (\<lambda>c.
       case first_such (\<lambda>m. cm_id m = mid) (ch_messages c) of
         None \<Rightarrow> Inl StopIteration
       | Some _ \<Rightarrow> Inr (save_child ''agent.report'' (c\<lparr>
           ch_messages := update_first (\<lambda>m. cm_id m = mid)
             (\<lambda>m. m\<lparr>cm_status := MCompleted, cm_result := Some content\<rparr>) (ch_messages c),
           ch_result := Some content\<rparr>) st)))"

definition report :: "'f service \<Rightarrow> agents \<Rightarrow> string \<Rightarrow> string \<Rightarrow> nat \<Rightarrow> string \<Rightarrow> pytext \<Rightarrow> agents result" where
  \<comment> \<open>\<open>context.output\<close>\<close>
  "report sv st i job e mid content =
     bindE (checked st job e) (\<lambda>_.
     bindE (publish_output (ag_jobs st) (sv_owner sv) job
         (JObj [(u ''agent_id'', JStr (u i)), (u ''message_id'', JStr (u mid)), (u ''content'', JStr content)])
         e (ag_now st)) (\<lambda>r. Inr (st\<lparr>ag_jobs := r\<rparr>)))"

record reply =
  rp_error :: "pytext option"
  rp_content :: pytext

type_synonym 'f runner = "'f \<Rightarrow> pytext \<Rightarrow> (string \<times> tool) list \<Rightarrow> string \<Rightarrow> pytext \<Rightarrow> (agents, reply) act"

definition guarded :: "string \<Rightarrow> nat \<Rightarrow> tool \<Rightarrow> tool" where
  "guarded job e t = (\<lambda>args. bindA (\<lambda>st. (st, checked st job e)) (\<lambda>_. t args))"

definition settle_turn :: "'f service \<Rightarrow> string \<Rightarrow> string \<Rightarrow> nat \<Rightarrow> string \<Rightarrow> reply \<Rightarrow> (agents, unit) act" where
  "settle_turn sv i job e mid rp =
     seqA (\<lambda>st. (st, checked st job e))
     (guardA (rp_error rp \<notin> {None, Some []}) (RuntimeError ''the error of the child'')
     (guardA (strip (rp_content rp) = [] \<or> starts_with (u ''Failed to generate'') (rp_content rp))
        (RuntimeError ''child did not produce a valid response'')
     (seqA (modify (\<lambda>st. end_turn st i job e mid (rp_content rp)))
           (modify (\<lambda>st. report sv st i job e mid (rp_content rp))))))"

definition run_turn :: "'f service \<Rightarrow> 'f runner \<Rightarrow> string \<Rightarrow> string \<Rightarrow> nat \<Rightarrow> child_message \<Rightarrow> child \<Rightarrow> (agents, unit) act" where
  \<comment> \<open>the body of the loop between the claim of a message and the next round\<close>
  "run_turn sv run i job e m c =
     (case dget (sv_providers sv) (ch_provider c) of
        None \<Rightarrow> raise (ValueError ''configured child provider is unavailable'')
      | Some p \<Rightarrow>
          bindA (run (case cp_factory p of None \<Rightarrow> sv_factory sv | Some f \<Rightarrow> f) (ch_role c)
              (map (\<lambda>(n, t). (n, guarded job e t)) (filter (\<lambda>(n, _). n \<in> set (ch_allowed c)) (sv_tools sv)))
              (ch_session c) (cm_text m))
            (settle_turn sv i job e (cm_id m)))"

fun turns :: "nat \<Rightarrow> 'f service \<Rightarrow> 'f runner \<Rightarrow> string \<Rightarrow> string \<Rightarrow> nat \<Rightarrow> agents \<Rightarrow> (agents \<times> pytext option result) option" where
  \<comment> \<open>the loop; it may go on for ever when messages keep coming, so its rounds are counted\<close>
  "turns 0 sv run i job e st = None"
| "turns (Suc n) sv run i job e st =
     (case checked st job e of
        Inl x \<Rightarrow> Some (st, Inl x)
      | Inr _ \<Rightarrow>
          (case claim_turn st i of
             Inl x \<Rightarrow> Some (st, Inl x)
           | Inr (st, Idle v) \<Rightarrow> Some (st, Inr v)
           | Inr (st, Turn m c) \<Rightarrow>
               (case run_turn sv run i job e m c st of
                  (st, Inl x) \<Rightarrow> Some (st, Inl x)
                | (st, Inr _) \<Rightarrow> turns n sv run i job e st)))"

definition interrupted_child :: "agents \<Rightarrow> string \<Rightarrow> string \<Rightarrow> agents result" where
  "interrupted_child st i job =
     bindE (get_child st i) (\<lambda>c.
       if ch_job c = Some job
       then bindE (get_job (ag_jobs st) job) (\<lambda>j.
         Inr (save_child ''agent.interrupted'' (c\<lparr>ch_status :=
           (case j_status j of Paused \<Rightarrow> ChPaused | Cancelled \<Rightarrow> ChCancelled | _ \<Rightarrow> ChInterrupted)\<rparr>) st))
       else Inr st)"

definition failed_child :: "agents \<Rightarrow> string \<Rightarrow> agents result" where
  "failed_child st i =
     bindE (get_child st i) (\<lambda>c. Inr (save_child ''agent.failed'' (c\<lparr>ch_status := ChFailed\<rparr>) st))"

definition drive :: "nat \<Rightarrow> 'f service \<Rightarrow> 'f runner \<Rightarrow> string \<Rightarrow> string \<Rightarrow> nat \<Rightarrow> agents \<Rightarrow> (agents \<times> pytext option result) option" where
  "drive n sv run i job e st =
     (case turns n sv run i job e st of
        None \<Rightarrow> None
      | Some (st, Inr v) \<Rightarrow> Some (st, Inr v)
      | Some (st, Inl x) \<Rightarrow>
          (case (case x of JobInterrupted _ \<Rightarrow> interrupted_child st i job | _ \<Rightarrow> failed_child st i) of
             Inl y \<Rightarrow> Some (st, Inl y)
           | Inr st \<Rightarrow> Some (st, Inl x)))"

definition child_outcome :: "(exn \<Rightarrow> pytext) \<Rightarrow> pytext option result \<Rightarrow> Jobs.outcome" where
  "child_outcome message v =
     (case v of Inr None \<Rightarrow> Returned JNull | Inr (Some t) \<Rightarrow> Returned (JStr t)
        | Inl (JobInterrupted _) \<Rightarrow> Stopped | Inl x \<Rightarrow> Raised (message x))"

definition activation ::
  "nat \<Rightarrow> 'f service \<Rightarrow> (exn \<Rightarrow> pytext) \<Rightarrow> 'f runner \<Rightarrow> string \<Rightarrow> string \<Rightarrow> nat \<Rightarrow> agents \<Rightarrow> (agents result) option" where
  \<comment> \<open>the driver of the job around it, as \<open>start\<close> composes them\<close>
  "activation n sv message run i job e st =
     (case (case checked st job e of Inl x \<Rightarrow> Some (st, Inl x) | Inr _ \<Rightarrow> drive n sv run i job e st) of
        None \<Rightarrow> None
      | Some (st, v) \<Rightarrow> Some (bindE (drive_end (ag_jobs st) (sv_owner sv) job e (ag_control st) (child_outcome message v) (ag_now st))
          (\<lambda>(r, _). Inr (st\<lparr>ag_jobs := r\<rparr>))))"

subsection \<open>Controlling a child\<close>

definition list_agents :: "agents \<Rightarrow> child list" where
  "list_agents st = dvals (ag_children st)"

definition child_job :: "agents \<Rightarrow> child \<Rightarrow> job result" where
  "child_job st c = (case ch_job c of None \<Rightarrow> Inl (KeyError ''None'') | Some j \<Rightarrow> get_job (ag_jobs st) j)"

definition interrupt_agent :: "nat \<Rightarrow> 'f service \<Rightarrow> agents \<Rightarrow> string \<Rightarrow> agents result" where
  \<comment> \<open>the number is Python's recursion limit, for the cascade over child jobs\<close>
  "interrupt_agent n sv st i =
     bindE (get_child st i) (\<lambda>c.
     bindE (case ch_job c of None \<Rightarrow> Inl (KeyError ''None'')
       | Some j \<Rightarrow> control n (ag_jobs st) (sv_owner sv) j ''pause'' (sv_pid sv) (sv_lease sv) (ag_now st)) (\<lambda>r.
       Inr (save_child ''agent.paused'' (c\<lparr>ch_status := ChPaused\<rparr>) (st\<lparr>ag_jobs := r\<rparr>))))"

definition resume_agent :: "'f service \<Rightarrow> agents \<Rightarrow> string \<Rightarrow> string \<Rightarrow> agents result" where
  "resume_agent sv st i jid =
     bindE (get_child st i) (\<lambda>c.
     bindE (child_job st c) (\<lambda>j.
       guardE (j_status j = Running \<and> j_until j > ag_now st) (ValueError ''child still has a live activation'')
         (activate sv (save_child ''agent.resumed'' (c\<lparr>ch_status := ChInterrupted\<rparr>) st) i jid)))"

definition resume_job :: "nat \<Rightarrow> 'f service \<Rightarrow> agents \<Rightarrow> string \<Rightarrow> agents result" where
  \<comment> \<open>\<open>jobs.control(job, "resume")\<close>: the registered handler drives the child the job was made for\<close>
  "resume_job n sv st job =
     bindE (control_tree n (ag_jobs st) job Resume) (\<lambda>r.
     bindE (dispatch r (sv_owner sv) job (sv_pid sv) (sv_lease sv) (ag_now st)) (\<lambda>(r, claimed).
       Inr (st\<lparr>ag_jobs := r, ag_started := ag_started st
         @ (case claimed of None \<Rightarrow> [] | Some j \<Rightarrow> [(case j_agent j of None \<Rightarrow> [] | Some i \<Rightarrow> i, job, j_epoch j)])\<rparr>)))"

fun recover_children :: "'f service \<Rightarrow> (nat \<Rightarrow> string) \<Rightarrow> child list \<Rightarrow> (agents, unit) act" where
  "recover_children sv jids [] = ret ()"
| "recover_children sv jids (c # cs) =
     bindA (\<lambda>st. (st, case ch_job c of None \<Rightarrow> Inr None | Some _ \<Rightarrow> bindE (child_job st c) (\<lambda>j. Inr (Some j)))) (\<lambda>job.
       seqA (if list_ex uncompleted (ch_messages c)
               \<and> (case job of None \<Rightarrow> True | Some j \<Rightarrow> j_status j \<in> {Interrupted, Paused, Pending, Completed, Failed})
             then modify (\<lambda>st. resume_agent sv st (ch_id c) (jids (length cs))) else ret ())
         (recover_children sv jids cs))"

definition recover_agents :: "'f service \<Rightarrow> (nat \<Rightarrow> string) \<Rightarrow> nat list \<Rightarrow> (agents, unit) act" where
  "recover_agents sv jids alive st =
     (let st = st\<lparr>ag_jobs := Jobs.recover (ag_jobs st) alive (ag_now st)\<rparr>
      in recover_children sv jids (dvals (ag_children st)) st)"

subsection \<open>The order of messages\<close>

fun fifo :: "child_message list \<Rightarrow> bool" where
  \<comment> \<open>completed messages, then at most one that is claimed, then pending ones\<close>
  "fifo [] = True"
| "fifo (m # ms) = (if cm_status m = MCompleted then fifo ms else list_all (\<lambda>m. cm_status m = MPending) ms)"

definition advances :: "child_message list \<Rightarrow> child_message list \<Rightarrow> bool" where
  \<comment> \<open>messages are only added at the end, and what is completed stays completed\<close>
  "advances ms ms' \<longleftrightarrow> prefix (map cm_id ms) (map cm_id ms')
     \<and> (\<forall>n<length ms. cm_status (ms ! n) = MCompleted \<longrightarrow> cm_status (ms' ! n) = MCompleted)"

definition reached :: "child_message list \<Rightarrow> string \<Rightarrow> bool" where
  \<comment> \<open>the message is there, and all before it are completed\<close>
  "reached ms mid \<longleftrightarrow> (\<exists>n<length ms. cm_id (ms ! n) = mid \<and> (\<forall>k<n. cm_status (ms ! k) = MCompleted))"

lemma advances_refl [simp]: "advances ms ms"
  by (simp add: advances_def)

lemma advances_length: "advances ms ms' \<Longrightarrow> length ms \<le> length ms'"
  by (auto simp: advances_def dest: prefix_length_le)

lemma advances_nth: "advances ms ms' \<Longrightarrow> n < length ms \<Longrightarrow> cm_id (ms' ! n) = cm_id (ms ! n)"
proof -
  assume a: "advances ms ms'" and n: "n < length ms"
  obtain zs where "map cm_id ms' = map cm_id ms @ zs" using a by (auto simp: advances_def prefix_def)
  then have "map cm_id ms' ! n = map cm_id ms ! n" using n by (simp add: nth_append)
  then show ?thesis using n advances_length [OF a] by simp
qed

lemma advances_trans: "advances a b \<Longrightarrow> advances b c \<Longrightarrow> advances a c"
  using advances_length [of a b] by (auto simp: advances_def)

lemma reached_advances: "reached ms mid \<Longrightarrow> advances ms ms' \<Longrightarrow> reached ms' mid"
proof -
  assume r: "reached ms mid" and a: "advances ms ms'"
  then obtain n where n: "n < length ms" "cm_id (ms ! n) = mid" "\<forall>k<n. cm_status (ms ! k) = MCompleted"
    by (auto simp: reached_def)
  with a advances_length [OF a] advances_nth [OF a n(1)] show ?thesis
    unfolding reached_def advances_def by (intro exI [of _ n]) auto
qed

lemma map_nth_eqI: "map f xs = map f ys \<Longrightarrow> n < length xs \<Longrightarrow> f (xs ! n) = f (ys ! n)"
  by (metis length_map nth_map)

lemma advances_same:
  assumes "map cm_id ms' = map cm_id ms" "map cm_status ms' = map cm_status ms"
  shows "advances ms ms'"
  using assms(1) map_nth_eqI [OF assms(2) [symmetric]] by (simp add: advances_def)

lemma fifo_same: "map cm_status ms' = map cm_status ms \<Longrightarrow> fifo ms' = fifo ms"
proof (induction ms arbitrary: ms')
  case (Cons m ms)
  then obtain m' ns where ns: "ms' = m' # ns" "cm_status m' = cm_status m" "map cm_status ns = map cm_status ms"
    by (cases ms') auto
  have "list_all (\<lambda>m. cm_status m = MPending) xs = list_all (\<lambda>s. s = MPending) (map cm_status xs)" for xs
    by (simp add: list_all_iff)
  from this [of ns] this [of ms]
  have "list_all (\<lambda>m. cm_status m = MPending) ns = list_all (\<lambda>m. cm_status m = MPending) ms"
    unfolding ns(3) by simp
  then show ?case using Cons.IH [OF ns(3)] ns(2) by (simp add: ns(1))
qed simp

lemma fifo_snoc: "fifo ms \<Longrightarrow> cm_status m = MPending \<Longrightarrow> fifo (ms @ [m])"
  by (induction ms) auto

lemma advances_snoc: "advances ms (ms @ [m])"
  by (auto simp: advances_def nth_append)

lemma update_first_ids: "(\<And>m. cm_id (f m) = cm_id m) \<Longrightarrow> map cm_id (update_first P f ms) = map cm_id ms"
  by (induction ms) auto

lemma fifo_claim: "fifo ms \<Longrightarrow> fifo (update_first uncompleted (\<lambda>m. m\<lparr>cm_status := MClaimed\<rparr>) ms)"
proof (induction ms)
  case (Cons m ms)
  then show ?case by (cases "cm_status m") (auto simp: uncompleted_def)
qed simp

lemma update_first_keeps:
  assumes "\<And>m. cm_id (f m) = cm_id m"
    and "\<And>m. P m \<Longrightarrow> cm_status m = MCompleted \<Longrightarrow> cm_status (f m) = MCompleted"
  shows "advances ms (update_first P f ms)"
proof -
  have "\<forall>n<length ms. cm_status (ms ! n) = MCompleted \<longrightarrow> cm_status (update_first P f ms ! n) = MCompleted"
    by (induction ms) (auto simp: nth_Cons assms(2) split: nat.splits)
  then show ?thesis by (simp add: advances_def update_first_ids assms(1))
qed

lemma fifo_complete:
  assumes "fifo ms" "reached ms mid"
  shows "fifo (update_first (\<lambda>m. cm_id m = mid) (\<lambda>m. m\<lparr>cm_status := MCompleted, cm_result := v\<rparr>) ms)"
  using assms
proof (induction ms)
  case (Cons m ms)
  show ?case
  proof (cases "cm_id m = mid")
    case True
    have "list_all (\<lambda>m. cm_status m = MPending) ms \<Longrightarrow> fifo ms" by (cases ms) auto
    with True Cons.prems show ?thesis by (auto split: if_splits)
  next
    case False
    obtain n where n: "n < Suc (length ms)" "cm_id ((m # ms) ! n) = mid" "\<forall>k<n. cm_status ((m # ms) ! k) = MCompleted"
      using Cons.prems(2) by (auto simp: reached_def)
    with False obtain n' where n': "n = Suc n'" by (cases n) auto
    have "cm_status m = MCompleted" using n(3) n' by fastforce
    moreover have "reached ms mid" using n n' unfolding reached_def by fastforce
    ultimately show ?thesis using Cons False by simp
  qed
qed simp

lemma claimed_reached: "first_such uncompleted ms = Some m \<Longrightarrow> reached ms (cm_id m)"
proof (induction ms)
  case (Cons x ms)
  show ?case
  proof (cases "uncompleted x")
    case True
    with Cons.prems show ?thesis by (auto simp: reached_def intro: exI [of _ 0])
  next
    case False
    then have x: "cm_status x = MCompleted" by (cases "cm_status x") (auto simp: uncompleted_def)
    have "reached ms (cm_id m)" using Cons False by auto
    then obtain n where "n < length ms" "cm_id (ms ! n) = cm_id m" "\<forall>k<n. cm_status (ms ! k) = MCompleted"
      by (auto simp: reached_def)
    then show ?thesis using x unfolding reached_def
      by (intro exI [of _ "Suc n"]) (auto simp: nth_Cons split: nat.splits)
  qed
qed simp

subsection \<open>Every transaction keeps the order\<close>

definition wf_child :: "string \<Rightarrow> child \<Rightarrow> bool" where
  "wf_child k c \<longleftrightarrow> ch_id c = k \<and> fifo (ch_messages c) \<and> distinct (map cm_id (ch_messages c))"

definition wf_agents :: "agents \<Rightarrow> (string \<times> string) set \<Rightarrow> bool" where
  \<comment> \<open>the second argument collects the messages an activation has ever taken, by child\<close>
  "wf_agents st held \<longleftrightarrow> wf_registry (ag_jobs st) \<and> distinct (dkeys (ag_children st))
     \<and> (\<forall>i c. dget (ag_children st) i = Some c \<longrightarrow> wf_child i c)
     \<and> (\<forall>(i, mid)\<in>held. \<exists>c. dget (ag_children st) i = Some c \<and> reached (ch_messages c) mid)"

definition child_goes_on :: "child \<Rightarrow> child \<Rightarrow> bool" where
  "child_goes_on c c' \<longleftrightarrow> ch_session c' = ch_session c \<and> ch_allowed c' = ch_allowed c
     \<and> advances (ch_messages c) (ch_messages c')"

definition later :: "agents \<Rightarrow> agents \<Rightarrow> bool" where
  "later st st' \<longleftrightarrow> (\<forall>i c. dget (ag_children st) i = Some c \<longrightarrow>
     (\<exists>c'. dget (ag_children st') i = Some c' \<and> child_goes_on c c'))"

lemma later_refl [simp]: "later st st"
  by (simp add: later_def child_goes_on_def)

lemma child_goes_on_trans: "child_goes_on a b \<Longrightarrow> child_goes_on b c \<Longrightarrow> child_goes_on a c"
  by (auto simp: child_goes_on_def intro: advances_trans)

lemma later_trans: "later a b \<Longrightarrow> later b c \<Longrightarrow> later a c"
  unfolding later_def using child_goes_on_trans by blast

lemma later_children: "ag_children st' = ag_children st \<Longrightarrow> later st st'"
  by (simp add: later_def child_goes_on_def)

lemma stored_child_messages [simp]:
  "map cm_id (ch_messages (stored_child c)) = map cm_id (ch_messages c)"
  "map cm_status (ch_messages (stored_child c)) = map cm_status (ch_messages c)"
  by (simp_all add: stored_child_def stored_message_def comp_def)

lemma stored_child_fields [simp]:
  "ch_id (stored_child c) = ch_id c" "ch_session (stored_child c) = ch_session c"
  "ch_allowed (stored_child c) = ch_allowed c" "ch_status (stored_child c) = ch_status c"
  "ch_job (stored_child c) = ch_job c" "ch_provider (stored_child c) = ch_provider c"
  by (simp_all add: stored_child_def)

lemma stored_child_goes_on: "child_goes_on c (stored_child c)"
  by (simp add: child_goes_on_def advances_same)

lemma wf_stored_child: "wf_child k c \<Longrightarrow> wf_child k (stored_child c)"
  unfolding wf_child_def by (simp add: fifo_same [of "ch_messages (stored_child c)" "ch_messages c"])

lemma save_child_fields [simp]:
  "ag_jobs (save_child kind c st) = ag_jobs st" "ag_started (save_child kind c st) = ag_started st"
  "ag_control (save_child kind c st) = ag_control st" "ag_now (save_child kind c st) = ag_now st"
  by (simp_all add: save_child_def)

lemma get_save_child:
  "dget (ag_children (save_child kind c st)) i
     = map_option stored_child (if i = ch_id c then Some c else dget (ag_children st) i)"
  by (simp add: save_child_def map_of_map dget_dput)

lemma get_child_Inr [simp]: "get_child st i = Inr c \<longleftrightarrow> dget (ag_children st) i = Some c"
  by (auto simp: get_child_def split: option.splits)

lemma dkeys_save_child:
  "dkeys (ag_children (save_child kind c st)) = dkeys (dput (ch_id c) c (ag_children st))"
  by (simp add: save_child_def case_prod_beta comp_def)

lemma save_child_later:
  assumes "\<And>c0. dget (ag_children st) (ch_id c) = Some c0 \<Longrightarrow> child_goes_on c0 c"
  shows "later st (save_child kind c st)"
  unfolding later_def get_save_child
  using assms stored_child_goes_on child_goes_on_trans by (auto split: if_splits)

lemma save_child_wf:
  assumes "wf_agents st held" and "wf_child (ch_id c) c"
    and "\<And>c0. dget (ag_children st) (ch_id c) = Some c0 \<Longrightarrow> child_goes_on c0 c"
  shows "wf_agents (save_child kind c st) held"
proof -
  have l: "later st (save_child kind c st)" using save_child_later [OF assms(3)] .
  have "wf_child i c'" if "dget (ag_children (save_child kind c st)) i = Some c'" for i c'
    using that assms(1,2) wf_stored_child unfolding get_save_child wf_agents_def by (auto split: if_splits)
  moreover have "\<exists>c'. dget (ag_children (save_child kind c st)) i = Some c' \<and> reached (ch_messages c') mid"
    if "(i, mid) \<in> held" for i mid
  proof -
    obtain c0 where c0: "dget (ag_children st) i = Some c0" "reached (ch_messages c0) mid"
      using assms(1) \<open>(i, mid) \<in> held\<close> unfolding wf_agents_def by blast
    with l show ?thesis unfolding later_def child_goes_on_def using reached_advances by blast
  qed
  ultimately show ?thesis using assms(1)
    unfolding wf_agents_def by (auto simp: dkeys_save_child distinct_dput)
qed

lemma wf_get_child: "wf_agents st held \<Longrightarrow> dget (ag_children st) i = Some c \<Longrightarrow> wf_child i c \<and> ch_id c = i"
  by (auto simp: wf_agents_def wf_child_def)

definition fresh_job :: "registry \<Rightarrow> string \<Rightarrow> bool" where
  "fresh_job r jid \<longleftrightarrow> jid \<notin> set (dkeys (r_jobs r)) \<and> Some jid \<notin> j_parent ` set (dvals (r_jobs r))"

definition fresh_message :: "agents \<Rightarrow> string \<Rightarrow> string \<Rightarrow> bool" where
  "fresh_message st i mid \<longleftrightarrow> (\<forall>c. dget (ag_children st) i = Some c \<longrightarrow> mid \<notin> set (map cm_id (ch_messages c)))"

definition kept :: "(string \<times> string) set \<Rightarrow> agents \<Rightarrow> agents \<Rightarrow> bool" where
  \<comment> \<open>what every transaction but a spawn does: the same children go on, the jobs take steps\<close>
  "kept held st st' \<longleftrightarrow> wf_agents st' held \<and> later st st' \<and> dkeys (ag_children st') = dkeys (ag_children st)
     \<and> jstep\<^sup>*\<^sup>* (ag_jobs st) (ag_jobs st')"

lemma kept_refl: "wf_agents st held \<Longrightarrow> kept held st st"
  by (simp add: kept_def)

lemma kept_trans: "kept held a b \<Longrightarrow> kept held b c \<Longrightarrow> kept held a c"
  unfolding kept_def using later_trans by (metis rtranclp_trans)

lemma wf_kept: "kept held st st' \<Longrightarrow> wf_agents st' held"
  by (simp add: kept_def)

text \<open>The usual change of one child: some fields and its messages, which go on.\<close>

lemma change_child:
  assumes "wf_agents st held" "dget (ag_children st) i = Some c" "ch_id c' = ch_id c"
    and "child_goes_on c c'" "fifo (ch_messages c')" "distinct (map cm_id (ch_messages c'))"
  shows "kept held st (save_child kind c' st)"
proof -
  have i: "ch_id c' = i" using wf_get_child [OF assms(1,2)] assms(3) by simp
  have "wf_agents (save_child kind c' st) held"
    using assms i by (intro save_child_wf) (auto simp: wf_child_def)
  moreover have "later st (save_child kind c' st)"
    using assms(2,4) i by (intro save_child_later) auto
  moreover have "dkeys (ag_children (save_child kind c' st)) = dkeys (ag_children st)"
    using dget_Some_in [OF assms(2)] unfolding dkeys_save_child i by (simp add: dkeys_dput)
  ultimately show ?thesis by (simp add: kept_def)
qed

lemma change_status:
  assumes "wf_agents st held" "dget (ag_children st) i = Some c" "ch_id c' = ch_id c"
    and "ch_session c' = ch_session c" "ch_allowed c' = ch_allowed c" "ch_messages c' = ch_messages c"
  shows "kept held st (save_child kind c' st)"
  using change_child [OF assms(1-3)] wf_get_child [OF assms(1,2)] assms(4-6)
  by (simp add: child_goes_on_def wf_child_def)

lemma change_jobs:
  assumes "wf_agents st held" and "jstep\<^sup>*\<^sup>* (ag_jobs st) (ag_jobs st')" and "ag_children st' = ag_children st"
  shows "kept held st st'"
proof -
  have "wf_registry (ag_jobs st)" using assms(1) by (simp add: wf_agents_def)
  then have w: "wf_registry (ag_jobs st')" by (rule jobs.steps_inv [OF assms(2)])
  have "wf_agents st' held" using assms(1) w unfolding wf_agents_def assms(3) by blast
  with assms show ?thesis by (simp add: kept_def later_def child_goes_on_def)
qed

lemma activate_kept:
  assumes "wf_agents st held" "fresh_job (ag_jobs st) jid" "activate sv st i jid = Inr st'"
  shows "kept held st st'"
proof -
  obtain c where c: "dget (ag_children st) i = Some c" using assms(3) by (auto simp: activate_def bind_simps)
  obtain r j where r: "create_job (ag_jobs st) jid ''subagent'' (JObj [(u ''agent_id'', JStr (u i))]) (Some i) None None
      (sv_pid sv) (ag_now st) = (r, j)" by force
  define st1 where "st1 = save_child ''agent.activated'' (c\<lparr>ch_status := ChRunning, ch_job := Some (j_id j)\<rparr>) (st\<lparr>ag_jobs := r\<rparr>)"
  obtain r' x where x: "claim r (sv_owner sv) (j_id j) (sv_pid sv) (sv_lease sv) (ag_now st) = Inr (r', x)"
    "ag_children st' = ag_children st1" "ag_jobs st' = r'"
    using assms(3) c r by (auto simp: activate_def bind_simps st1_def)
  have "jstep (ag_jobs st) r" using assms(2) jstep.created [OF r] by (auto simp: fresh_job_def)
  then have 0: "kept held st (st\<lparr>ag_jobs := r\<rparr>)" using assms(1) by (intro change_jobs) auto
  have 1: "kept held (st\<lparr>ag_jobs := r\<rparr>) st1"
    unfolding st1_def using wf_kept [OF 0] c by (intro change_status [of _ held i c]) auto
  have "jstep (ag_jobs st1) r'" using jstep.claimed [OF x(1)] by (simp add: st1_def)
  then have "kept held st1 st'" using wf_kept [OF 1] x(2,3) by (intro change_jobs) auto
  with 0 1 show ?thesis using kept_trans by blast
qed

lemma send_kept:
  assumes "wf_agents st held" "fresh_message st i mid" "fresh_job (ag_jobs st) jid"
    and "send_message sv st i text mid jid = Inr (st', v)"
  shows "kept held st st'"
proof -
  obtain c where c: "dget (ag_children st) i = Some c"
    using assms(4) by (auto simp: send_message_def bind_simps guardE_def split: if_splits)
  define c' where "c' = c\<lparr>ch_messages := ch_messages c @ [\<lparr>cm_id = mid, cm_text = text, cm_status = MPending, cm_result = None\<rparr>]\<rparr>"
  define st1 where "st1 = save_child ''agent.message'' c' st"
  have st': "st' = st1 \<or> activate sv st1 i jid = Inr st'"
    using assms(4) c by (auto simp: send_message_def bind_simps guardE_def st1_def c'_def Let_def split: if_splits)
  have 1: "kept held st st1"
    using wf_get_child [OF assms(1) c] assms(2) c unfolding st1_def
    by (intro change_child [OF assms(1) c])
      (auto simp: c'_def child_goes_on_def advances_snoc fifo_snoc wf_child_def fresh_message_def)
  moreover have "kept held st1 st'" if "activate sv st1 i jid = Inr st'"
    using assms(3) that by (intro activate_kept [OF wf_kept [OF 1]]) (simp_all add: st1_def)
  ultimately show ?thesis using st' kept_trans by blast
qed

lemma claim_turn_kept:
  assumes "wf_agents st held" "claim_turn st i = Inr (st', t)"
  shows "kept held st st' \<and> (\<forall>m c. t = Turn m c \<longrightarrow> wf_agents st' (insert (i, cm_id m) held))"
proof -
  obtain c where c: "dget (ag_children st) i = Some c" using assms(2) by (auto simp: claim_turn_def bind_simps)
  note wc = wf_get_child [OF assms(1) c] and g = get_child_Inr [THEN iffD2, OF c]
  show ?thesis
  proof (cases "first_such uncompleted (ch_messages c)")
    case None
    then have "st' = save_child ''agent.idle'' (c\<lparr>ch_status := ChIdle\<rparr>) st" "t = Idle (ch_result c)"
      using assms(2) g by (auto simp: claim_turn_def)
    then show ?thesis using change_status [OF assms(1) c] by simp
  next
    case (Some m)
    let ?c = "c\<lparr>ch_messages := update_first uncompleted (\<lambda>m. m\<lparr>cm_status := MClaimed\<rparr>) (ch_messages c)\<rparr>"
    have st': "st' = save_child ''agent.turn.started'' ?c st" "t = Turn m ?c"
      using assms(2) g Some by (auto simp: claim_turn_def Let_def)
    have k: "kept held st st'" using wc unfolding st'(1)
      by (intro change_child [OF assms(1) c])
        (auto simp: child_goes_on_def fifo_claim update_first_ids wf_child_def uncompleted_def intro: update_first_keeps)
    then obtain c' where "dget (ag_children st') i = Some c'" "advances (ch_messages c) (ch_messages c')"
      using c unfolding kept_def later_def child_goes_on_def by blast
    with claimed_reached [OF Some] reached_advances have "wf_agents st' (insert (i, cm_id m) held)"
      using wf_kept [OF k] unfolding wf_agents_def by blast
    with k st'(2) show ?thesis by simp
  qed
qed

lemma end_turn_kept:
  assumes "wf_agents st held" "(i, mid) \<in> held" "end_turn st i job e mid content = Inr st'"
  shows "kept held st st'"
proof -
  obtain c where c: "dget (ag_children st) i = Some c" "reached (ch_messages c) mid"
    using assms(1,2) by (auto simp: wf_agents_def)
  let ?c = "c\<lparr>ch_messages := update_first (\<lambda>m. cm_id m = mid)
      (\<lambda>m. m\<lparr>cm_status := MCompleted, cm_result := Some content\<rparr>) (ch_messages c), ch_result := Some content\<rparr>"
  have st': "st' = save_child ''agent.report'' ?c st"
    using assms(3) c(1) by (auto simp: end_turn_def bind_simps split: option.splits)
  show ?thesis using wf_get_child [OF assms(1) c(1)] c unfolding st'
    by (intro change_child [OF assms(1) c(1)])
      (auto simp: child_goes_on_def fifo_complete update_first_ids wf_child_def intro: update_first_keeps)
qed

lemma report_kept:
  assumes "wf_agents st held" "report sv st i job e mid content = Inr st'"
  shows "kept held st st'"
proof -
  obtain v r where r: "publish_output (ag_jobs st) (sv_owner sv) job v e (ag_now st) = Inr r" "st' = st\<lparr>ag_jobs := r\<rparr>"
    using assms(2) by (auto simp: report_def bind_simps)
  then have "jstep\<^sup>*\<^sup>* (ag_jobs st) (ag_jobs st')" using jstep.published [OF r(1)] by simp
  then show ?thesis using assms(1) r(2) by (intro change_jobs) simp_all
qed

lemma interrupted_child_kept: "wf_agents st held \<Longrightarrow> interrupted_child st i job = Inr st' \<Longrightarrow> kept held st st'"
  by (auto simp: interrupted_child_def bind_simps kept_refl split: if_splits intro!: change_status)

lemma failed_child_kept: "wf_agents st held \<Longrightarrow> failed_child st i = Inr st' \<Longrightarrow> kept held st st'"
  by (auto simp: failed_child_def bind_simps intro!: change_status)

lemma control_pause: "control n r me j ''pause'' pid lease now = control_tree n r j Pause"
  by (simp add: control_def bindE_def split: sum.splits)

lemma interrupt_agent_kept:
  assumes "wf_agents st held" "interrupt_agent n sv st i = Inr st'"
  shows "kept held st st'"
proof -
  obtain c j r where c: "dget (ag_children st) i = Some c" "ch_job c = Some j" "control_tree n (ag_jobs st) j Pause = Inr r"
    "st' = save_child ''agent.paused'' (c\<lparr>ch_status := ChPaused\<rparr>) (st\<lparr>ag_jobs := r\<rparr>)"
    using assms(2) by (auto simp: interrupt_agent_def bind_simps control_pause split: option.splits)
  have w: "wf_registry (ag_jobs st)" using assms(1) by (simp add: wf_agents_def)
  have 0: "kept held st (st\<lparr>ag_jobs := r\<rparr>)"
    using control_keys(1) [OF w c(3)] assms(1) by (intro change_jobs) simp_all
  moreover have "kept held (st\<lparr>ag_jobs := r\<rparr>) st'"
    unfolding c(4) using c(1) by (intro change_status [OF wf_kept [OF 0], of i c]) simp_all
  ultimately show ?thesis by (rule kept_trans)
qed

lemma resume_agent_kept:
  assumes "wf_agents st held" "fresh_job (ag_jobs st) jid" "resume_agent sv st i jid = Inr st'"
  shows "kept held st st'"
proof -
  obtain c where c: "dget (ag_children st) i = Some c"
    "activate sv (save_child ''agent.resumed'' (c\<lparr>ch_status := ChInterrupted\<rparr>) st) i jid = Inr st'"
    using assms(3) by (auto simp: resume_agent_def bind_simps guardE_def split: if_splits)
  have 0: "kept held st (save_child ''agent.resumed'' (c\<lparr>ch_status := ChInterrupted\<rparr>) st)"
    by (rule change_status [OF assms(1) c(1)]) simp_all
  moreover have "kept held (save_child ''agent.resumed'' (c\<lparr>ch_status := ChInterrupted\<rparr>) st) st'"
    using assms(2) c(2) by (intro activate_kept [OF wf_kept [OF 0]]) simp_all
  ultimately show ?thesis by (rule kept_trans)
qed

lemma resume_job_kept:
  assumes "wf_agents st held" "resume_job n sv st job = Inr st'"
  shows "kept held st st'"
proof -
  obtain r r' x where r: "control_tree n (ag_jobs st) job Resume = Inr r"
    "claim r (sv_owner sv) job (sv_pid sv) (sv_lease sv) (ag_now st) = Inr (r', x)"
    "ag_jobs st' = r'" "ag_children st' = ag_children st"
    using assms(2) by (auto simp: resume_job_def bind_simps dispatch_def guardE_def split: if_splits)
  have w: "wf_registry (ag_jobs st)" using assms(1) by (simp add: wf_agents_def)
  have "jstep\<^sup>*\<^sup>* (ag_jobs st) (ag_jobs st')"
    using control_keys(1) [OF w r(1)] jstep.claimed [OF r(2)] r(3) by (auto intro: rtranclp.rtrancl_into_rtrancl)
  then show ?thesis using assms(1) r(4) by (intro change_jobs)
qed

lemma fork_session_fields:
  "fork_session sv st sid = Inr st' \<Longrightarrow> ag_children st' = ag_children st \<and> ag_jobs st' = ag_jobs st"
  by (auto simp: fork_session_def bind_simps Let_def split: option.splits)

lemma add_child_steps:
  assumes "wf_agents st held" "i \<notin> set (dkeys (ag_children st))" "add_child sv st role name p i = Inr st'"
  shows "wf_agents st' held \<and> later st st' \<and> ag_jobs st' = ag_jobs st
     \<and> length (ag_children st) < sv_max_agents sv \<and> length (ag_children st') = Suc (length (ag_children st))"
proof -
  define c where "c = \<lparr>ch_id = i, ch_session = sv_run sv @ ''-child-'' @ i, ch_role = role, ch_provider = name,
     ch_parent = sv_parent sv, ch_depth = sv_depth sv + 1, ch_status = ChPending, ch_messages = [],
     ch_allowed = sort (map fst (sv_tools sv)), ch_job = None, ch_result = None\<rparr>"
  obtain s1 where s1: "ag_children s1 = ag_children st" "ag_jobs s1 = ag_jobs st" "st' = save_child ''agent.created'' c s1"
    "length (ag_children st) < sv_max_agents sv"
    using assms(3) fork_session_fields
    by (fastforce simp: add_child_def bind_simps guardE_def Let_def c_def split: if_splits)
  have none: "dget (ag_children s1) (ch_id c) = None" using assms(2) by (simp add: s1(1) c_def dget_None_iff)
  have w: "wf_agents s1 held" using wf_kept [OF change_jobs [OF assms(1)]] s1(1,2) by simp
  have "wf_agents st' held" "later s1 st'"
    unfolding s1(3) using none by (auto intro!: save_child_wf [OF w] save_child_later simp: wf_child_def c_def)
  moreover have "length (ag_children st') = Suc (length (ag_children st))"
    using none by (simp add: s1(1,3) save_child_def length_dput dget_None_iff)
  ultimately show ?thesis using s1 by (simp add: later_def)
qed

subsection \<open>The transactions of all parties, in any order\<close>

inductive cstep :: "'f service \<Rightarrow> agents \<times> (string \<times> string) set \<Rightarrow> agents \<times> (string \<times> string) set \<Rightarrow> bool"
  for sv where
  spawned: "add_child sv st role name p i = Inr st' \<Longrightarrow> i \<notin> set (dkeys (ag_children st)) \<Longrightarrow> cstep sv (st, h) (st', h)"
| sent: "send_message sv st i text mid jid = Inr (st', v) \<Longrightarrow> fresh_message st i mid \<Longrightarrow> fresh_job (ag_jobs st) jid \<Longrightarrow>
    cstep sv (st, h) (st', h)"
| claimed: "claim_turn st i = Inr (st', Turn m c) \<Longrightarrow> cstep sv (st, h) (st', insert (i, cm_id m) h)"
| idle: "claim_turn st i = Inr (st', Idle v) \<Longrightarrow> cstep sv (st, h) (st', h)"
| ended: "end_turn st i job e mid content = Inr st' \<Longrightarrow> (i, mid) \<in> h \<Longrightarrow> cstep sv (st, h) (st', h)"
| reported: "report sv st i job e mid content = Inr st' \<Longrightarrow> cstep sv (st, h) (st', h)"
| interrupted: "interrupted_child st i job = Inr st' \<Longrightarrow> cstep sv (st, h) (st', h)"
| failed: "failed_child st i = Inr st' \<Longrightarrow> cstep sv (st, h) (st', h)"
| paused: "interrupt_agent n sv st i = Inr st' \<Longrightarrow> cstep sv (st, h) (st', h)"
| resumed: "resume_agent sv st i jid = Inr st' \<Longrightarrow> fresh_job (ag_jobs st) jid \<Longrightarrow> cstep sv (st, h) (st', h)"
| redispatched: "resume_job n sv st job = Inr st' \<Longrightarrow> cstep sv (st, h) (st', h)"
| elsewhere: "jstep (ag_jobs st) r \<or> r = ag_jobs st \<Longrightarrow>
    cstep sv (st, h) (st\<lparr>ag_jobs := r, ag_db := d, ag_started := x, ag_control := ctl, ag_now := t\<rparr>, h)"

definition csteps :: "'f service \<Rightarrow> agents \<times> (string \<times> string) set \<Rightarrow> agents \<times> (string \<times> string) set \<Rightarrow> bool" where
  "csteps sv = (cstep sv)\<^sup>*\<^sup>*"

definition going_on :: "'f service \<Rightarrow> agents \<times> (string \<times> string) set \<Rightarrow> agents \<times> (string \<times> string) set \<Rightarrow> bool" where
  "going_on sv x y \<longleftrightarrow> wf_agents (fst y) (snd y) \<and> later (fst x) (fst y)
     \<and> jstep\<^sup>*\<^sup>* (ag_jobs (fst x)) (ag_jobs (fst y))
     \<and> length (ag_children (fst y)) \<le> max (length (ag_children (fst x))) (sv_max_agents sv)"

lemma kept_going_on: "kept h st st' \<Longrightarrow> going_on sv (st, h) (st', h)"
  unfolding kept_def going_on_def using map_eq_imp_length_eq [of fst "ag_children st'" fst "ag_children st"] by simp

lemma cstep_going_on: "cstep sv x y \<Longrightarrow> wf_agents (fst x) (snd x) \<Longrightarrow> going_on sv x y"
proof (induction rule: cstep.induct)
  case (spawned st role name p i st' h)
  then show ?case using add_child_steps [OF _ spawned(2,1)] by (fastforce simp: going_on_def)
next
  case (sent st i t mid jid st' v h)
  then show ?case using send_kept [OF _ sent(2,3,1)] by (auto intro: kept_going_on)
next
  case (claimed st i st' m c h)
  then show ?case using claim_turn_kept [OF _ claimed(1)] kept_going_on [of h st st' sv] by (simp add: going_on_def)
next
  case (idle st i st' v h)
  then show ?case using claim_turn_kept [OF _ idle(1)] by (auto intro: kept_going_on)
next
  case (ended st i job e mid content st' h)
  then show ?case using end_turn_kept [OF _ ended(2,1)] by (auto intro: kept_going_on)
next
  case (reported st i job e mid content st' h)
  then show ?case using report_kept [OF _ reported(1)] by (auto intro: kept_going_on)
next
  case (interrupted st i job st' h)
  then show ?case using interrupted_child_kept [OF _ interrupted(1)] by (auto intro: kept_going_on)
next
  case (failed st i st' h)
  then show ?case using failed_child_kept [OF _ failed(1)] by (auto intro: kept_going_on)
next
  case (paused n st i st' h)
  then show ?case using interrupt_agent_kept [OF _ paused(1)] by (auto intro: kept_going_on)
next
  case (resumed st i jid st' h)
  then show ?case using resume_agent_kept [OF _ resumed(2,1)] by (auto intro: kept_going_on)
next
  case (redispatched n st job st' h)
  then show ?case using resume_job_kept [OF _ redispatched(1)] by (auto intro: kept_going_on)
next
  case (elsewhere st r h d x ctl t)
  then show ?case by (auto intro!: kept_going_on change_jobs)
qed

lemma csteps_going_on: "csteps sv x y \<Longrightarrow> wf_agents (fst x) (snd x) \<Longrightarrow> going_on sv x y"
  unfolding csteps_def
proof (induction rule: rtranclp_induct)
  case base
  then show ?case by (simp add: going_on_def)
next
  case (step y z)
  then have g: "going_on sv x y" by simp
  then have "going_on sv y z" using cstep_going_on [OF step(2)] by (simp add: going_on_def)
  with g show ?case using later_trans [of "fst x" "fst y" "fst z"] rtranclp_trans [of jstep]
    by (fastforce simp: going_on_def)
qed

text \<open>An activation takes only such steps, whatever its model's tools and the other parties do meanwhile.\<close>

definition runs_steps :: "'f service \<Rightarrow> 'f runner \<Rightarrow> bool" where
  "runs_steps sv run \<longleftrightarrow> (\<forall>f role tools sid t st h. \<exists>h'. csteps sv (st, h) (fst (run f role tools sid t st), h \<union> h'))"

lemma csteps_refl: "csteps sv x x"
  by (simp add: csteps_def)

lemma csteps_step: "csteps sv x y \<Longrightarrow> cstep sv y z \<Longrightarrow> csteps sv x z"
  unfolding csteps_def by (rule rtranclp.rtrancl_into_rtrancl)

lemma csteps_trans: "csteps sv x y \<Longrightarrow> csteps sv y z \<Longrightarrow> csteps sv x z"
  unfolding csteps_def by (rule rtranclp_trans)

lemma run_turn_steps:
  assumes "runs_steps sv run" "run_turn sv run i job e m c st = (st', v)" "(i, cm_id m) \<in> h"
  shows "\<exists>h'. csteps sv (st, h) (st', h \<union> h')"
proof (cases "dget (sv_providers sv) (ch_provider c)")
  case None
  then show ?thesis using assms(2) csteps_refl [of sv "(st, h)"] by (intro exI [of _ "{}"]) (auto simp: run_turn_def act_simps)
next
  case (Some p)
  then obtain f role tools sid t where r: "run_turn sv run i job e m c = bindA (run f role tools sid t) (settle_turn sv i job e (cm_id m))"
    by (simp add: run_turn_def)
  let ?s = "fst (run f role tools sid t st)"
  obtain h' where h': "csteps sv (st, h) (?s, h \<union> h')" using assms(1) unfolding runs_steps_def by blast
  have "st' = ?s \<or> (\<exists>t. end_turn ?s i job e (cm_id m) t = Inr st')
     \<or> (\<exists>t s1. end_turn ?s i job e (cm_id m) t = Inr s1 \<and> report sv s1 i job e (cm_id m) t = Inr st')"
    using assms(2) unfolding r settle_turn_def by (auto simp: act_simps)
  moreover have "(i, cm_id m) \<in> h \<union> h'" using assms(3) by simp
  ultimately have "csteps sv (st, h) (st', h \<union> h')"
    using h' csteps_step [OF h' cstep.ended] csteps_step [OF csteps_step [OF h' cstep.ended] cstep.reported] by blast
  then show ?thesis ..
qed

lemma turns_steps:
  assumes "runs_steps sv run"
  shows "turns n sv run i job e st = Some (st', v) \<Longrightarrow> \<exists>h'. csteps sv (st, h) (st', h \<union> h')"
proof (induction n arbitrary: st h)
  case (Suc n)
  note none = exI [of "\<lambda>h'. csteps sv (st, h) (st', h \<union> h')" "{}"]
  show ?case
  proof (cases "\<exists>s1 m c. checked st job e = Inr () \<and> claim_turn st i = Inr (s1, Turn m c)")
    case False
    then have "st' = st \<or> (\<exists>w. claim_turn st i = Inr (st', Idle w))"
      using Suc.prems by (auto split: sum.splits turn.splits prod.splits)
    then show ?thesis using csteps_refl [of sv "(st, h)"] csteps_step [OF csteps_refl cstep.idle]
      by (intro none) auto
  next
    case True
    then obtain s1 m c where 1: "checked st job e = Inr ()" "claim_turn st i = Inr (s1, Turn m c)" by blast
    obtain s2 w where 2: "run_turn sv run i job e m c s1 = (s2, w)" by force
    have a: "csteps sv (st, h) (s1, insert (i, cm_id m) h)" using csteps_step [OF csteps_refl cstep.claimed [OF 1(2)]] .
    obtain h1 where b: "csteps sv (s1, insert (i, cm_id m) h) (s2, insert (i, cm_id m) h \<union> h1)"
      using run_turn_steps [OF assms 2, of "insert (i, cm_id m) h"] by blast
    have "\<exists>h2. csteps sv (s2, insert (i, cm_id m) h \<union> h1) (st', insert (i, cm_id m) h \<union> h1 \<union> h2)"
    proof (cases w)
      case (Inl x)
      then have "st' = s2" using Suc.prems 1 2 by simp
      then show ?thesis using csteps_refl by (intro exI [of _ "{}"]) simp
    next
      case (Inr x)
      then have "turns n sv run i job e s2 = Some (st', v)" using Suc.prems 1 2 by simp
      then show ?thesis by (rule Suc.IH)
    qed
    then obtain h2 where "csteps sv (s2, insert (i, cm_id m) h \<union> h1) (st', insert (i, cm_id m) h \<union> h1 \<union> h2)" ..
    from csteps_trans [OF csteps_trans [OF a b] this]
    show ?thesis by (intro exI [of _ "insert (i, cm_id m) (h1 \<union> h2)"]) (simp add: Un_assoc insert_commute)
  qed
qed simp

lemma drive_steps:
  assumes "runs_steps sv run" "drive n sv run i job e st = Some (st', v)"
  shows "\<exists>h'. csteps sv (st, h) (st', h \<union> h')"
proof -
  obtain s1 w where s1: "turns n sv run i job e st = Some (s1, w)"
    using assms(2) by (cases "turns n sv run i job e st") (auto simp: drive_def)
  then obtain h' where h': "csteps sv (st, h) (s1, h \<union> h')" using turns_steps [OF assms(1)] by blast
  have "st' = s1 \<or> interrupted_child s1 i job = Inr st' \<or> failed_child s1 i = Inr st'"
    using assms(2) s1 by (auto simp: drive_def split: sum.splits exn.splits)
  then show ?thesis using h' csteps_step [OF h' cstep.interrupted] csteps_step [OF h' cstep.failed] by blast
qed

lemma activation_steps:
  assumes "runs_steps sv run" "activation n sv message run i job e st = Some (Inr st')"
  shows "\<exists>h'. csteps sv (st, h) (st', h \<union> h')"
proof -
  obtain s1 w where w: "(case checked st job e of Inl x \<Rightarrow> Some (st, Inl x) | Inr _ \<Rightarrow> drive n sv run i job e st) = Some (s1, w)"
    using assms(2) by (cases "case checked st job e of Inl x \<Rightarrow> Some (st, Inl x) | Inr _ \<Rightarrow> drive n sv run i job e st")
      (auto simp: activation_def)
  then obtain r m where s1: "s1 = st \<or> drive n sv run i job e st = Some (s1, w)"
    "drive_end (ag_jobs s1) (sv_owner sv) job e (ag_control s1) (child_outcome message w) (ag_now s1) = Inr (r, m)"
    "st' = s1\<lparr>ag_jobs := r\<rparr>"
    using assms(2) by (auto simp: activation_def bind_simps split: sum.splits)
  obtain h' where h': "csteps sv (st, h) (s1, h \<union> h')"
    using s1(1) drive_steps [OF assms(1)] csteps_refl by (metis Un_empty_right)
  have "jstep (ag_jobs s1) r \<or> r = ag_jobs s1"
    using s1(2) unfolding drive_end_def
    by (auto simp: bind_simps intro: jstep.finished jstep.interrupted split: Jobs.outcome.splits sum.splits exn.splits)
  then have "cstep sv (s1, h \<union> h') (s1\<lparr>ag_jobs := r, ag_db := ag_db s1, ag_started := ag_started s1,
      ag_control := ag_control s1, ag_now := ag_now s1\<rparr>, h \<union> h')" by (rule cstep.elsewhere)
  then have "cstep sv (s1, h \<union> h') (st', h \<union> h')" by (simp add: s1(3))
  then show ?thesis using csteps_step [OF h'] by blast
qed

lemma spawn_steps:
  assumes "spawn_agent sv role task name i mid jid st = (st', Inr v)"
    and "i \<notin> set (dkeys (ag_children st))" and "fresh_job (ag_jobs st) jid"
  shows "csteps sv (st, h) (st', h)"
proof -
  obtain p s1 where p: "add_child sv st role name p i = Inr s1" "send_message sv s1 i task mid jid = Inr (st', v)"
  proof -
    obtain p s1 where "add_child sv st role name p i = Inr s1"
      "(case send_message sv s1 i task mid jid of Inl e \<Rightarrow> (s1, Inl e) | Inr (s, j) \<Rightarrow> (s, Inr j)) = (st', Inr v)"
      using assms(1) by (auto simp: spawn_agent_def act_simps split: option.splits)
    then show ?thesis by (intro that) (auto split: sum.splits)
  qed
  have "ag_jobs s1 = ag_jobs st" "\<forall>c. dget (ag_children s1) i = Some c \<longrightarrow> ch_messages c = []"
    using p(1)
    by (auto simp: add_child_def bind_simps guardE_def Let_def get_save_child stored_child_def
      dest!: fork_session_fields split: if_splits)
  then have "fresh_message s1 i mid" "fresh_job (ag_jobs s1) jid" using assms(3) by (simp_all add: fresh_message_def)
  from csteps_step [OF csteps_step [OF csteps_refl cstep.spawned [OF p(1) assms(2)]] cstep.sent [OF p(2) this]]
  show ?thesis .
qed

subsection \<open>A child that is left alone answers everything\<close>

definition live :: "'f service \<Rightarrow> agents \<Rightarrow> string \<Rightarrow> nat \<Rightarrow> bool" where
  \<comment> \<open>the activation holds the lease of its job and nothing has been paused\<close>
  "live sv st job e \<longleftrightarrow> ag_control st = ''running'' \<and> (\<exists>j. dget (r_jobs (ag_jobs st)) job = Some j \<and> j_id j = job
     \<and> j_status j = Running \<and> j_epoch j = e \<and> j_owner j = Some (sv_owner sv) \<and> ag_now st \<le> j_until j)"

definition answering :: "(pytext \<Rightarrow> pytext) \<Rightarrow> 'f runner" where
  \<comment> \<open>a model that answers at once and uses no tool\<close>
  "answering ans f role tools sid t = ret \<lparr>rp_error = None, rp_content = ans t\<rparr>"

definition proper :: "pytext \<Rightarrow> bool" where
  "proper t \<longleftrightarrow> strip t \<noteq> [] \<and> \<not> starts_with (u ''Failed to generate'') t"

definition open_turns :: "child \<Rightarrow> nat" where
  "open_turns c = length (filter uncompleted (ch_messages c))"

definition cursor :: "agents \<Rightarrow> string \<Rightarrow> nat" where
  "cursor st job = (case dget (r_jobs (ag_jobs st)) job of None \<Rightarrow> 0 | Some j \<Rightarrow> j_cursor j)"

lemma live_checked: "live sv st job e \<Longrightarrow> checked st job e = Inr ()"
  by (auto simp: live_def checked_def checkpoint_def bindE_def guardE_def get_job_def)

lemma live_save [simp]: "live sv (save_child kind c st) job e = live sv st job e"
  by (simp add: live_def)

lemma live_report:
  assumes "live sv st job e"
  shows "\<exists>st'. report sv st i job e mid t = Inr st' \<and> live sv st' job e \<and> ag_children st' = ag_children st
     \<and> cursor st' job = Suc (cursor st job)"
  using assms live_checked [OF assms]
  by (auto simp: live_def report_def publish_output_def get_job_def fenced_def guardE_def Let_def cursor_def dget_dput)

lemma first_such_split:
  "first_such P xs = Some x \<Longrightarrow> \<exists>as bs. xs = as @ x # bs \<and> P x \<and> list_all (\<lambda>y. \<not> P y) as"
proof (induction xs)
  case (Cons y xs)
  show ?case
  proof (cases "P y")
    case True
    with Cons.prems have "y # xs = [] @ x # xs \<and> P x \<and> list_all (\<lambda>y. \<not> P y) []" by simp
    then show ?thesis by blast
  next
    case False
    with Cons obtain as bs where "xs = as @ x # bs" "P x" "list_all (\<lambda>y. \<not> P y) as" by auto
    with False have "y # xs = (y # as) @ x # bs \<and> P x \<and> list_all (\<lambda>y. \<not> P y) (y # as)" by simp
    then show ?thesis by blast
  qed
qed simp

lemma update_first_split: "list_all (\<lambda>y. \<not> P y) as \<Longrightarrow> P x \<Longrightarrow> update_first P f (as @ x # bs) = as @ f x # bs"
  by (induction as) auto

lemma first_such_skip: "list_all (\<lambda>y. \<not> P y) as \<Longrightarrow> P x \<Longrightarrow> first_such P (as @ x # bs) = Some x"
  by (induction as) auto

lemma uncompleted_stored [simp]: "uncompleted (stored_message m) = uncompleted m" "cm_id (stored_message m) = cm_id m"
  by (simp_all add: uncompleted_def stored_message_def)

lemma one_turn:
  assumes st: "dget (ag_children st) i = Some c" "wf_child i c" and live: "live sv st job e"
    and p: "dget (sv_providers sv) (ch_provider c) = Some p" and ans: "\<forall>t. proper (ans t)"
    and m: "first_such uncompleted (ch_messages c) = Some m"
  shows "\<exists>s1 c1 s2 c2. claim_turn st i = Inr (s1, Turn m c1) \<and> run_turn sv (answering ans) i job e m c1 s1 = (s2, Inr ())
     \<and> dget (ag_children s2) i = Some c2 \<and> wf_child i c2 \<and> live sv s2 job e \<and> ch_provider c2 = ch_provider c
     \<and> map cm_id (ch_messages c2) = map cm_id (ch_messages c)
     \<and> open_turns c = Suc (open_turns c2) \<and> cursor s2 job = Suc (cursor st job)"
proof -
  obtain as bs where ms: "ch_messages c = as @ m # bs" "uncompleted m" "list_all (\<lambda>y. \<not> uncompleted y) as"
    using first_such_split [OF m] by blast
  define c1 where "c1 = c\<lparr>ch_messages := as @ m\<lparr>cm_status := MClaimed\<rparr> # bs\<rparr>"
  define s1 where "s1 = save_child ''agent.turn.started'' c1 st"
  have claim: "claim_turn st i = Inr (s1, Turn m c1)"
    using m by (simp add: claim_turn_def get_child_Inr [THEN iffD2, OF st(1)] Let_def ms(1) update_first_split [OF ms(3,2)] c1_def s1_def)
  have id: "ch_id c1 = i" using st(2) by (simp add: wf_child_def c1_def)
  have g1: "dget (ag_children s1) i = Some (stored_child c1)" using id by (simp add: s1_def get_save_child)
  have l1: "live sv s1 job e" using live by (simp add: s1_def)
  define as' m' bs' where "as' = map stored_message as" and "m' = stored_message (m\<lparr>cm_status := MClaimed\<rparr>)"
    and "bs' = map stored_message bs"
  have ms1: "ch_messages (stored_child c1) = as' @ m' # bs'" by (simp add: stored_child_def c1_def as'_def m'_def bs'_def)
  have dist: "distinct (map cm_id (as @ m # bs))" using st(2) by (simp add: wf_child_def ms(1))
  then have "\<forall>y\<in>set as. cm_id y \<noteq> cm_id m" by (simp add: image_iff) metis
  then have id': "list_all (\<lambda>y. cm_id y \<noteq> cm_id m) as'" "cm_id m' = cm_id m"
    by (simp_all add: as'_def m'_def list_all_iff)
  define d where "d = (stored_child c1)\<lparr>
     ch_messages := as' @ m'\<lparr>cm_status := MCompleted, cm_result := Some (ans (cm_text m))\<rparr> # bs',
     ch_result := Some (ans (cm_text m))\<rparr>"
  define s2 where "s2 = save_child ''agent.report'' d s1"
  have e: "end_turn s1 i job e (cm_id m) (ans (cm_text m)) = Inr s2"
    using live_checked [OF l1]
    by (simp add: end_turn_def get_child_Inr [THEN iffD2, OF g1] ms1 first_such_skip [OF id'] update_first_split [OF id']
      d_def s2_def)
  have l2: "live sv s2 job e" using l1 by (simp add: s2_def)
  obtain s3 where s3: "report sv s2 i job e (cm_id m) (ans (cm_text m)) = Inr s3" "live sv s3 job e"
    "ag_children s3 = ag_children s2" "cursor s3 job = Suc (cursor s2 job)" using live_report [OF l2] by blast
  have "run_turn sv (answering ans) i job e m c1 s1 = (s3, Inr ())"
    using p ans [rule_format, of "cm_text m"] live_checked [OF l1] e s3(1)
    by (simp add: run_turn_def settle_turn_def answering_def ret_def bindA_def seqA_def guardA_def modify_def proper_def c1_def)
  moreover have "dget (ag_children s3) i = Some (stored_child d)"
    using id by (simp add: s3(3) s2_def get_save_child d_def)
  moreover have "wf_child i (stored_child d)"
  proof (rule wf_stored_child)
    have "fifo (as @ m # bs)" using st(2) by (simp add: wf_child_def ms(1))
    moreover have "fifo (xs @ x # ys) \<Longrightarrow> uncompleted x \<Longrightarrow> list_all (\<lambda>m. cm_status m = MPending) ys" for xs x ys
      by (induction xs) (auto simp: uncompleted_def list_all_iff split: if_splits)
    ultimately have "list_all (\<lambda>m. cm_status m = MPending) bs'"
      using ms(2) by (fastforce simp: bs'_def list_all_iff stored_message_def)
    moreover have "list_all (\<lambda>m. cm_status m = MCompleted) as'"
      using ms(3) by (auto simp: as'_def list_all_iff stored_message_def uncompleted_def intro: mstatus.exhaust)
    moreover have "fifo (xs @ x # ys)" if "list_all (\<lambda>m. cm_status m = MCompleted) xs" "cm_status x = MCompleted"
      "list_all (\<lambda>m. cm_status m = MPending) ys" for xs x ys
    proof -
      have "fifo ys" using that(3) by (cases ys) auto
      then show ?thesis using that(1,2) by (induction xs) auto
    qed
    ultimately show "wf_child i d" using dist id
      by (auto simp: wf_child_def d_def as'_def m'_def bs'_def comp_def)
  qed
  moreover have "map cm_id (ch_messages (stored_child d)) = map cm_id (ch_messages c)"
    by (simp add: d_def ms(1) as'_def m'_def bs'_def comp_def)
  moreover have "open_turns c = Suc (open_turns (stored_child d))"
    using ms(2,3)
    by (simp add: open_turns_def ms(1) stored_child_def d_def as'_def bs'_def filter_map comp_def)
      (simp add: uncompleted_def stored_message_def)
  moreover have "cursor s3 job = Suc (cursor st job)" using s3(4) by (simp add: s2_def s1_def cursor_def)
  moreover have "ch_provider (stored_child d) = ch_provider c" by (simp add: d_def c1_def)
  ultimately show ?thesis using claim s3(2) by blast
qed

lemma answers_all:
  assumes "\<forall>t. proper (ans t)" and "dget (sv_providers sv) name = Some p"
  shows "dget (ag_children st) i = Some c \<Longrightarrow> wf_child i c \<Longrightarrow> live sv st job e \<Longrightarrow> ch_provider c = name \<Longrightarrow>
    open_turns c < n \<Longrightarrow>
    \<exists>st' v c'. turns n sv (answering ans) i job e st = Some (st', Inr v) \<and> dget (ag_children st') i = Some c'
      \<and> ch_status c' = ChIdle \<and> map cm_id (ch_messages c') = map cm_id (ch_messages c)
      \<and> list_all (\<lambda>m. cm_status m = MCompleted) (ch_messages c')
      \<and> live sv st' job e \<and> cursor st' job = cursor st job + open_turns c"
proof (induction n arbitrary: st c)
  case (Suc n)
  note g = get_child_Inr [THEN iffD2, OF Suc.prems(1)] and ok = live_checked [OF Suc.prems(3)]
  show ?case
  proof (cases "first_such uncompleted (ch_messages c)")
    case None
    let ?c = "c\<lparr>ch_status := ChIdle\<rparr>" and ?st = "save_child ''agent.idle'' (c\<lparr>ch_status := ChIdle\<rparr>) st"
    have none: "\<forall>m\<in>set (ch_messages c). \<not> uncompleted m" using None by (simp add: first_such_None_iff)
    then have "\<forall>m\<in>set (ch_messages c). cm_status m = MCompleted"
      by (auto simp: uncompleted_def intro: mstatus.exhaust)
    then have "list_all (\<lambda>m. cm_status m = MCompleted) (ch_messages (stored_child ?c))"
      by (simp add: stored_child_def stored_message_def list_all_iff)
    moreover have "dget (ag_children ?st) i = Some (stored_child ?c)"
      using Suc.prems(2) by (simp add: get_save_child wf_child_def)
    moreover have "turns (Suc n) sv (answering ans) i job e st = Some (?st, Inr (ch_result c))"
      using None by (simp add: claim_turn_def g ok)
    moreover have "open_turns c = 0" using none by (simp add: open_turns_def)
    ultimately show ?thesis using Suc.prems(3) by (auto simp: cursor_def)
  next
    case (Some m)
    obtain s1 c1 s2 c2 where 1: "claim_turn st i = Inr (s1, Turn m c1)"
      "run_turn sv (answering ans) i job e m c1 s1 = (s2, Inr ())"
      and 2: "dget (ag_children s2) i = Some c2" "wf_child i c2" "live sv s2 job e" "ch_provider c2 = name"
      "map cm_id (ch_messages c2) = map cm_id (ch_messages c)"
      "open_turns c = Suc (open_turns c2)" "cursor s2 job = Suc (cursor st job)"
      using one_turn [OF Suc.prems(1-3) _ assms(1) Some] assms(2) Suc.prems(4) by blast
    have "turns (Suc n) sv (answering ans) i job e st = turns n sv (answering ans) i job e s2"
      using 1 ok by simp
    moreover obtain st' v c' where "turns n sv (answering ans) i job e s2 = Some (st', Inr v)"
      "dget (ag_children st') i = Some c'" "ch_status c' = ChIdle" "map cm_id (ch_messages c') = map cm_id (ch_messages c2)"
      "list_all (\<lambda>m. cm_status m = MCompleted) (ch_messages c')" "live sv st' job e"
      "cursor st' job = cursor s2 job + open_turns c2"
      using Suc.IH [OF 2(1-4)] Suc.prems(5) 2(6) by auto
    ultimately show ?thesis using 2(5-7) by auto
  qed
qed simp

subsection \<open>Properties\<close>

text \<open>
  C5. The turns of a child happen in the order in which its messages were sent. Whatever the parties do
  in whatever order - senders, several activations of the same child, interruptions, resumptions - the
  messages of a child are never lost or reordered, what is completed stays completed, at most the first
  open message is claimed, no child loses its session or gains a tool, and the number of children stays
  within the limit. The steps are those that an activation takes.
\<close>

theorem child_messages_stay_in_order:
  assumes "wf_agents st h" and "csteps sv (st, h) (st1, h1)" and "runs_steps sv run"
    and "activation n sv message run i job e st1 = Some (Inr st2)"
  shows "(\<forall>k c. dget (ag_children st) k = Some c \<longrightarrow> (\<exists>c'. dget (ag_children st2) k = Some c'
        \<and> prefix (map cm_id (ch_messages c)) (map cm_id (ch_messages c'))
        \<and> (\<forall>x<length (ch_messages c). cm_status (ch_messages c ! x) = MCompleted \<longrightarrow>
             cm_status (ch_messages c' ! x) = MCompleted)
        \<and> ch_session c' = ch_session c \<and> ch_allowed c' = ch_allowed c))
     \<and> (\<forall>k c'. dget (ag_children st2) k = Some c' \<longrightarrow> fifo (ch_messages c') \<and> distinct (map cm_id (ch_messages c')))
     \<and> length (ag_children st2) \<le> max (length (ag_children st)) (sv_max_agents sv)"
proof -
  obtain h2 where "csteps sv (st1, h1) (st2, h1 \<union> h2)" using activation_steps [OF assms(3,4)] by blast
  then have g: "going_on sv (st, h) (st2, h1 \<union> h2)"
    using csteps_going_on [OF csteps_trans [OF assms(2)]] assms(1) by simp
  show ?thesis
  proof (intro conjI allI impI)
    fix k c assume c: "dget (ag_children st) k = Some c"
    then obtain c' where "dget (ag_children st2) k = Some c'" "child_goes_on c c'"
      using g unfolding going_on_def later_def by auto
    then show "\<exists>c'. dget (ag_children st2) k = Some c' \<and> prefix (map cm_id (ch_messages c)) (map cm_id (ch_messages c'))
        \<and> (\<forall>x<length (ch_messages c). cm_status (ch_messages c ! x) = MCompleted \<longrightarrow>
             cm_status (ch_messages c' ! x) = MCompleted)
        \<and> ch_session c' = ch_session c \<and> ch_allowed c' = ch_allowed c"
      unfolding child_goes_on_def advances_def by (intro exI [of _ c']) blast
  next
    fix k c' assume "dget (ag_children st2) k = Some c'"
    with g have "wf_child k c'" unfolding going_on_def wf_agents_def by simp
    then show "fifo (ch_messages c')" "distinct (map cm_id (ch_messages c'))" by (simp_all add: wf_child_def)
  next
    show "length (ag_children st2) \<le> max (length (ag_children st)) (sv_max_agents sv)"
      using g by (simp add: going_on_def)
  qed
qed

text \<open>
  C28. An interrupted activation completes nothing more. After \<open>interrupt_agent\<close>, whatever happens, the
  activation under the job and epoch that it had can neither complete a message, nor report one, nor
  call another tool, nor take another message.
\<close>

theorem interrupted_activation_completes_nothing:
  assumes "wf_agents st h" and "dget (ag_children st) i = Some c" and "ch_job c = Some job"
    and "interrupt_agent n sv st i = Inr st1" and "csteps sv (st1, h) (st2, h2)" and "e \<le> jepoch (ag_jobs st) job"
  shows "(\<forall>x mid t s. end_turn st2 x job e mid t \<noteq> Inr s)
     \<and> (\<forall>x mid t s. report sv st2 x job e mid t \<noteq> Inr s)
     \<and> (\<forall>f args s v. guarded job e f args st2 \<noteq> (s, Inr v))
     \<and> (\<exists>err. turns (Suc k) sv run i job e st2 = Some (st2, Inl err))"
proof -
  obtain r where r: "control_tree n (ag_jobs st) job Pause = Inr r" "ag_jobs st1 = r"
    using assms(2-4) by (auto simp: interrupt_agent_def bind_simps control_pause)
  have w: "wf_registry (ag_jobs st)" using assms(1) by (simp add: wf_agents_def)
  obtain j where j: "dget (r_jobs (ag_jobs st)) job = Some j"
    using r(1) by (cases n) (auto simp: bind_simps control_one_def)
  have w1: "wf_agents st1 h" using interrupt_agent_kept [OF assms(1,4)] by (rule wf_kept)
  then have s: "jstep\<^sup>*\<^sup>* (ag_jobs st1) (ag_jobs st2)" using csteps_going_on [OF assms(5)] by (simp add: going_on_def)
  have "jepoch (ag_jobs st1) job \<le> jepoch (ag_jobs st2) job"
    using w1 by (intro jobs.steps_epoch [OF s]) (simp add: wf_agents_def)
  with control_tree_epoch [OF w j r(1)] assms(6) j r(2) have "e < jepoch (ag_jobs st2) job" by (simp add: jepoch_def)
  then obtain err where err: "checked st2 job e = Inl err"
    by (auto simp: checked_def checkpoint_def bindE_def get_job_def guardE_def jepoch_def split: option.splits)
  show ?thesis by (simp add: end_turn_def report_def guarded_def bindA_def err)
qed


subsection \<open>Examples\<close>

definition example_service :: "unit service" where
  "example_service = \<lparr>sv_run = ''r'', sv_tools = [(''read_file'', \<lambda>_. ret JNull)], sv_max_agents = 8, sv_max_depth = 2,
     sv_depth = 0, sv_parent = ''supervisor'', sv_owner = ''o'', sv_pid = 7, sv_lease = 60, sv_factory = (),
     sv_providers = BUILTIN_PROVIDERS, sv_la = example_lightagent, sv_copy = \<lambda>s sid m. s\<lparr>se_id := sid\<rparr>\<rparr>"

definition no_agents :: agents where
  "no_agents = \<lparr>ag_children = [], ag_jobs = \<lparr>r_jobs = [], r_events = [], r_logs = [], r_handlers = [''subagent'']\<rparr>,
     ag_db = empty_db, ag_log = [], ag_started = [], ag_control = ''running'', ag_now = 0\<rparr>"

definition one_child :: agents where
  \<comment> \<open>one child with one message, just activated\<close>
  "one_child = fst (spawn_agent example_service (u ''explore'') (u ''look'') ''spawn'' ''c1'' ''m1'' ''j1'' no_agents)"

lemma wf_no_agents: "wf_agents no_agents {}"
  by (simp add: wf_agents_def no_agents_def wf_registry_def parents_older_def)

lemma one_child_spawned:
  "spawn_agent example_service (u ''explore'') (u ''look'') ''spawn'' ''c1'' ''m1'' ''j1'' no_agents = (one_child, Inr (Some ''j1''))"
proof -
  have "snd (spawn_agent example_service (u ''explore'') (u ''look'') ''spawn'' ''c1'' ''m1'' ''j1'' no_agents) = Inr (Some ''j1'')"
    by code_simp
  then show ?thesis by (simp add: one_child_def prod_eq_iff)
qed

lemma one_child_steps: "csteps example_service (no_agents, {}) (one_child, {})"
  by (rule spawn_steps [OF one_child_spawned]) (simp_all add: no_agents_def fresh_job_def)

lemma wf_one_child: "wf_agents one_child {}"
  using csteps_going_on [OF one_child_steps] wf_no_agents by (simp add: going_on_def)

lemma answering_steps: "runs_steps sv (answering ans)"
  unfolding runs_steps_def answering_def ret_def by (simp, metis csteps_refl sup_bot.right_neutral)

definition answered :: agents where
  "answered = (case activation 3 example_service (\<lambda>_. []) (answering (\<lambda>_. u ''done'')) ''c1'' ''j1'' 1 one_child of
     Some (Inr st) \<Rightarrow> st | _ \<Rightarrow> no_agents)"

lemma child_messages_stay_in_order_witness:
  "map_option (map cm_status \<circ> ch_messages) (dget (ag_children answered) ''c1'') = Some [MCompleted]
     \<and> length (ag_children answered) \<le> max 0 8"
proof
  show "map_option (map cm_status \<circ> ch_messages) (dget (ag_children answered) ''c1'') = Some [MCompleted]"
    by code_simp
  have "(case activation 3 example_service (\<lambda>_. []) (answering (\<lambda>_. u ''done'')) ''c1'' ''j1'' 1 one_child of
     Some (Inr st) \<Rightarrow> True | _ \<Rightarrow> False)" by code_simp
  then have a: "activation 3 example_service (\<lambda>_. []) (answering (\<lambda>_. u ''done'')) ''c1'' ''j1'' 1 one_child = Some (Inr answered)"
    unfolding answered_def by (auto split: option.splits sum.splits)
  show "length (ag_children answered) \<le> max 0 8"
    using child_messages_stay_in_order [OF wf_no_agents one_child_steps answering_steps a]
    by (simp add: no_agents_def example_service_def)
qed

definition paused_child :: agents where
  "paused_child = (case interrupt_agent 5 example_service one_child ''c1'' of Inr st \<Rightarrow> st | _ \<Rightarrow> no_agents)"

lemma paused_child: "interrupt_agent 5 example_service one_child ''c1'' = Inr paused_child"
proof -
  have "(case interrupt_agent 5 example_service one_child ''c1'' of Inr st \<Rightarrow> True | _ \<Rightarrow> False)" by code_simp
  then show ?thesis unfolding paused_child_def by (auto split: sum.splits)
qed

lemma one_child_job: "\<exists>c. dget (ag_children one_child) ''c1'' = Some c \<and> ch_job c = Some ''j1'' \<and> ch_provider c = ''spawn''
     \<and> open_turns c = 1"
proof -
  have "(case dget (ag_children one_child) ''c1'' of None \<Rightarrow> False
     | Some c \<Rightarrow> ch_job c = Some ''j1'' \<and> ch_provider c = ''spawn'' \<and> open_turns c = 1)" by code_simp
  then show ?thesis by (auto split: option.splits)
qed

lemma interrupted_activation_completes_nothing_witness:
  "end_turn one_child ''c1'' ''j1'' 1 ''m1'' (u ''late'') \<noteq> Inl StopIteration
     \<and> end_turn paused_child ''c1'' ''j1'' 1 ''m1'' (u ''late'') \<noteq> Inr paused_child"
proof
  show "end_turn one_child ''c1'' ''j1'' 1 ''m1'' (u ''late'') \<noteq> Inl StopIteration" by code_simp
  have "jepoch (ag_jobs one_child) ''j1'' = 1" by code_simp
  then show "end_turn paused_child ''c1'' ''j1'' 1 ''m1'' (u ''late'') \<noteq> Inr paused_child"
    using one_child_job interrupted_activation_completes_nothing [OF wf_one_child _ _ paused_child csteps_refl, of _ "''j1''" 1]
    by fastforce
qed


text \<open>
  A child that has been interrupted and resumed can be run twice at once. \<open>resume_agent\<close> starts a new
  job and leaves the paused one behind; resuming that one as a job dispatches the registered handler, and
  both activations pass their checkpoint and take the same message.
\<close>

theorem resumed_child_runs_twice:
  "(case bindE (resume_agent example_service paused_child ''c1'' ''j2'') (\<lambda>st. resume_job 5 example_service st ''j1'') of
      Inl _ \<Rightarrow> False
    | Inr st \<Rightarrow> ag_started st = [(''c1'', ''j1'', 1), (''c1'', ''j2'', 1), (''c1'', ''j1'', 4)]
        \<and> checked st ''j1'' 4 = Inr () \<and> checked st ''j2'' 1 = Inr ()
        \<and> (case claim_turn st ''c1'' of Inr (st1, Turn m _) \<Rightarrow>
             (case claim_turn st1 ''c1'' of Inr (_, Turn m' _) \<Rightarrow> cm_id m = ''m1'' \<and> cm_id m' = ''m1'' | _ \<Rightarrow> False)
           | _ \<Rightarrow> False))"
  by code_simp

end
