(* ===== verification/Repo_Tools.thy ===== *)
theory Repo_Tools
  imports Path_Guard Storage Py_Value
begin

text \<open>
  \<open>repo_tools.py\<close>: the repository tools of an agent, all of them calls of the sandbox, and the
  verification commands with their logs. The sandbox is a parameter: its calls change a world and may
  raise. Artifacts are the files written below the run's directory, latest last; the duration of a
  command is not kept.
\<close>

subsection \<open>State\<close>

record 'w sandbox =
  sb_call :: "string \<Rightarrow> json \<Rightarrow> int option \<Rightarrow> ('w, json) act"
  sb_install :: "pytext list \<Rightarrow> ('w, json) act"
  sb_supports_write :: bool
  sb_supports_shell :: bool

record vcommand =
  vc_name :: pytext
  vc_kind :: string
  vc_argv :: "pytext list"
  vc_timeout :: int
  vc_required :: bool

record vresult =
  vr_name :: pytext
  vr_kind :: string
  vr_argv :: "pytext list"
  vr_exit :: int
  vr_passed :: bool
  vr_timed_out :: bool
  vr_excerpt :: pytext
  vr_log :: pytext
  vr_required :: bool

record installed =
  in_requested :: "pytext list"
  in_frozen :: "pytext list"

record 'w repo =
  rp_run :: string
  rp_world :: 'w
  rp_round :: nat
  rp_artifacts :: "(pytext \<times> pytext) list"
  rp_installed :: "installed list"  \<comment> \<open>of the run's record\<close>

subsection \<open>Calls of the sandbox\<close>

definition on_world :: "('w, 'a) act \<Rightarrow> (('w, 'z) repo_scheme, 'a) act" where
  "on_world f s = (case f (rp_world s) of (w, r) \<Rightarrow> (s\<lparr>rp_world := w\<rparr>, r))"

definition call_sandbox :: "'w sandbox \<Rightarrow> string \<Rightarrow> json \<Rightarrow> int option \<Rightarrow> (('w, 'z) repo_scheme, json) act" where
  "call_sandbox sb action params timeout = on_world (sb_call sb action params timeout)"

definition put_artifact :: "pytext \<Rightarrow> pytext \<Rightarrow> (('w, 'z) repo_scheme, unit) act" where
  \<comment> \<open>\<open>store.write_text\<close>\<close>
  "put_artifact name t = (\<lambda>s. case artifact_path (rp_run s) name of
       Inl e \<Rightarrow> (s, Inl e) | Inr _ \<Rightarrow> (s\<lparr>rp_artifacts := rp_artifacts s @ [(name, t)]\<rparr>, Inr ()))"

definition model_result :: "json \<Rightarrow> json" where
  \<comment> \<open>the object that is printed for the model\<close>
  "model_result response =
     (if \<not> truthy (field ''ok'' response)
      then JObj [(u ''ok'', JBool False),
        (u ''error'', JStr (redact_text (str_or (field ''error'' response) ''sandbox operation failed'')))]
      else without_field ''full_output'' response)"

definition repo_tool :: "'w sandbox \<Rightarrow> string \<Rightarrow> json \<Rightarrow> int option \<Rightarrow> (('w, 'z) repo_scheme, json) act" where
  "repo_tool sb action params timeout =
     bindA (call_sandbox sb action params timeout) (\<lambda>r. ret (model_result r))"

definition obj :: "(string \<times> json) list \<Rightarrow> json" where
  "obj kvs = JObj (map (\<lambda>(k, v). (u k, v)) kvs)"

definition list_files :: "'w sandbox \<Rightarrow> pytext \<Rightarrow> int \<Rightarrow> (('w, 'z) repo_scheme, json) act" where
  "list_files sb path limit =
     repo_tool sb ''list_files'' (obj [(''path'', JStr path), (''limit'', JInt limit)]) None"

definition read_file :: "'w sandbox \<Rightarrow> pytext \<Rightarrow> int \<Rightarrow> int \<Rightarrow> (('w, 'z) repo_scheme, json) act" where
  "read_file sb path start_line end_line = repo_tool sb ''read_file''
     (obj [(''path'', JStr path), (''start_line'', JInt start_line), (''end_line'', JInt end_line)]) None"

definition search_text :: "'w sandbox \<Rightarrow> pytext \<Rightarrow> pytext \<Rightarrow> bool \<Rightarrow> bool \<Rightarrow> (('w, 'z) repo_scheme, json) act" where
  "search_text sb pattern path fixed case_sensitive = repo_tool sb ''search_text''
     (obj [(''pattern'', JStr pattern), (''path'', JStr path), (''fixed_strings'', JBool fixed),
       (''case_sensitive'', JBool case_sensitive)]) None"

definition git_status :: "'w sandbox \<Rightarrow> (('w, 'z) repo_scheme, json) act" where
  "git_status sb = repo_tool sb ''git_status'' (obj []) None"

definition git_diff :: "'w sandbox \<Rightarrow> (('w, 'z) repo_scheme, json) act" where
  "git_diff sb = repo_tool sb ''git_diff'' (obj [(''full'', JBool False)]) None"

definition apply_patch :: "'w sandbox \<Rightarrow> pytext \<Rightarrow> (('w, 'z) repo_scheme, json) act" where
  "apply_patch sb patch = repo_tool sb ''apply_patch'' (obj [(''patch'', JStr patch)]) (Some 120)"

definition apply_patch_risky :: "'w sandbox \<Rightarrow> pytext \<Rightarrow> (('w, 'z) repo_scheme, json) act" where
  "apply_patch_risky sb patch = repo_tool sb ''apply_patch''
     (obj [(''patch'', JStr patch), (''allow_delete'', JBool True)]) (Some 120)"

definition strings_or :: "json \<Rightarrow> pytext list \<Rightarrow> pytext list" where
  \<comment> \<open>\<open>[str(item) for item in v or d]\<close>\<close>
  "strings_or v d = (if truthy v then map py_str (items v) else d)"

definition pip_install :: "'w sandbox \<Rightarrow> pytext list \<Rightarrow> (('w, 'z) repo_scheme, json) act" where
  \<comment> \<open>with \<open>update_install_record\<close> as \<open>on_install\<close>\<close>
  "pip_install sb requirements =
     bindA (on_world (sb_install sb requirements)) (\<lambda>r.
       (\<lambda>s. let name = u ''logs/pip-'' @ nat_repr (length (rp_installed s) + 1) @ u ''.log'';
                r' = without_field ''full_output'' r
            in (seqA (put_artifact name (redact_text (py_str (get_or ''full_output'' (JStr []) r))))
                 (\<lambda>s. (s\<lparr>rp_installed := rp_installed s @ [\<lparr>in_requested = strings_or (field ''requirements'' r) requirements,
                          in_frozen = strings_or (field ''frozen'' r) []\<rparr>]\<rparr>,
                   Inr (model_result (with_field ''log_path'' (JStr name) r'))))) s))"

subsection \<open>Verification and the diff\<close>

definition verified :: "vcommand \<Rightarrow> pytext \<Rightarrow> json \<Rightarrow> vresult result" where
  "verified c path r =
     bindE (py_int (get_or ''exit_code'' (JInt 1) r)) (\<lambda>e.
       Inr \<lparr>vr_name = vc_name c, vr_kind = vc_kind c, vr_argv = vc_argv c, vr_exit = e,
         vr_passed = (e = 0 \<and> \<not> truthy (field ''timed_out'' r)), vr_timed_out = truthy (field ''timed_out'' r),
         vr_excerpt = redact_text (str_or (field ''output'' r) ''''), vr_log = path, vr_required = vc_required c\<rparr>)"

definition run_command :: "'w sandbox \<Rightarrow> nat \<Rightarrow> vcommand \<Rightarrow> (('w, 'z) repo_scheme, vresult) act" where
  "run_command sb n c =
     bindA (call_sandbox sb ''run_command''
         (obj [(''argv'', JList (map JStr (vc_argv c))), (''timeout'', JInt (vc_timeout c))]) (Some (vc_timeout c))) (\<lambda>r.
       let path = u ''logs/verify-'' @ nat_repr n @ u ''-'' @ vc_name c @ u ''.log''
       in seqA (put_artifact path (redact_text (py_str (get_or ''full_output'' (JStr []) r))))
            (liftA (verified c path r)))"

fun run_commands :: "'w sandbox \<Rightarrow> nat \<Rightarrow> vcommand list \<Rightarrow> (('w, 'z) repo_scheme, vresult list) act" where
  "run_commands sb n [] = ret []"
| "run_commands sb n (c # cs) =
     bindA (run_command sb n c) (\<lambda>v. bindA (run_commands sb n cs) (\<lambda>vs. ret (v # vs)))"

definition vresult_json :: "vresult \<Rightarrow> json" where
  "vresult_json v = obj [(''name'', JStr (vr_name v)), (''kind'', JStr (u (vr_kind v))),
     (''argv'', JList (map JStr (vr_argv v))), (''exit_code'', JInt (vr_exit v)), (''passed'', JBool (vr_passed v)),
     (''timed_out'', JBool (vr_timed_out v)), (''output_excerpt'', JStr (vr_excerpt v)), (''log_path'', JStr (vr_log v)),
     (''required'', JBool (vr_required v))]"

definition run_verification :: "'w sandbox \<Rightarrow> vcommand list \<Rightarrow> (('w, 'z) repo_scheme, vresult list) act" where
  "run_verification sb cs =
     (\<lambda>s. let n = rp_round s + 1
          in bindA (run_commands sb n cs) (\<lambda>vs.
               seqA (put_artifact (u ''verification-'' @ nat_repr n @ u ''.json'') (dumps_default (JList (map vresult_json vs))))
                 (ret vs)) (s\<lparr>rp_round := n\<rparr>))"

definition full_diff :: "'w sandbox \<Rightarrow> (('w, 'z) repo_scheme, pytext) act" where
  "full_diff sb =
     bindA (call_sandbox sb ''git_diff'' (obj [(''full'', JBool True)]) (Some 120)) (\<lambda>r.
       guardA (\<not> truthy (field ''ok'' r)) (SandboxError ''failed to read diff'')
         (ret (str_or (field ''diff'' r) '''')))"

subsection \<open>The tools by capability\<close>

definition READ_TOOLS :: "string list" where
  "READ_TOOLS = [''list_files'', ''read_file'', ''search_text'', ''git_status'', ''git_diff'']"

definition WRITE_TOOLS :: "string list" where
  "WRITE_TOOLS = READ_TOOLS @ [''apply_patch'', ''apply_patch_risky'', ''pip_install'']"

definition REVIEW_TOOLS :: "string list" where
  "REVIEW_TOOLS = [''read_file'', ''git_status'', ''git_diff'']"

subsection \<open>What a passed verification says\<close>

definition satisfied :: "vresult list \<Rightarrow> bool" where
  \<comment> \<open>\<open>all(item.passed or not item.required for item in verification)\<close>\<close>
  "satisfied vs \<longleftrightarrow> list_all (\<lambda>v. vr_passed v \<or> \<not> vr_required v) vs"

lemma verified_fields:
  "verified c path r = Inr v \<Longrightarrow> vr_name v = vc_name c \<and> vr_argv v = vc_argv c \<and> vr_required v = vc_required c
     \<and> (vr_passed v \<longleftrightarrow> vr_exit v = 0 \<and> \<not> vr_timed_out v)"
  by (auto simp: verified_def bind_simps)

lemma run_command_result:
  assumes "run_command sb n c s = (s', Inr v)"
  shows "vr_name v = vc_name c \<and> vr_argv v = vc_argv c \<and> vr_required v = vc_required c
     \<and> (vr_passed v \<longleftrightarrow> vr_exit v = 0 \<and> \<not> vr_timed_out v)"
  using assms by (auto simp: run_command_def act_simps seqA_def Let_def dest!: verified_fields [OF sym])

lemma run_commands_results:
  "run_commands sb n cs s = (s', Inr vs) \<Longrightarrow>
     map vr_argv vs = map vc_argv cs \<and> map vr_required vs = map vc_required cs
     \<and> list_all (\<lambda>v. vr_passed v \<longleftrightarrow> vr_exit v = 0 \<and> \<not> vr_timed_out v) vs"
proof (induction cs arbitrary: s s' vs)
  case (Cons c cs)
  obtain s1 v ws where v: "run_command sb n c s = (s1, Inr v)" "run_commands sb n cs s1 = (s', Inr ws)" "vs = v # ws"
    using Cons.prems by (auto simp: act_simps)
  show ?case using run_command_result [OF v(1)] Cons.IH [OF v(2)] by (simp add: v(3))
qed (simp add: act_simps)

lemma run_verification_results:
  assumes "run_verification sb cs s = (s', Inr vs)"
  shows "map vr_argv vs = map vc_argv cs \<and> map vr_required vs = map vc_required cs
     \<and> list_all (\<lambda>v. vr_passed v \<longleftrightarrow> vr_exit v = 0 \<and> \<not> vr_timed_out v) vs"
proof -
  obtain t where "run_commands sb (rp_round s + 1) cs (s\<lparr>rp_round := rp_round s + 1\<rparr>) = (t, Inr vs)"
    using assms by (auto simp: run_verification_def act_simps seqA_def Let_def)
  then show ?thesis by (rule run_commands_results)
qed

end
