(* ===== verification/Py_Net.thy ===== *)
theory Py_Net
  imports Py_Value Policy
begin

text \<open>
  What the code uses of Python's \<open>urllib.parse\<close> and \<open>ipaddress\<close>: splitting a URL and reading its
  authority, percent encoding of query strings and its inverse, and IP addresses with the question
  whether one of them is globally reachable (the tables of Python 3.13). Two checks are parameters: the
  one of \<open>urlsplit\<close> on the Unicode normalisation of an authority that is not ASCII, and the regular
  expression for the future address format in brackets.
\<close>

subsection \<open>Cutting at a character\<close>

definition cut_at :: "int \<Rightarrow> pytext \<Rightarrow> pytext \<times> pytext option" where
  \<comment> \<open>\<open>t.partition(c)\<close>; nothing follows when \<open>c\<close> does not occur\<close>
  "cut_at c t = (takeWhile (\<lambda>x. x \<noteq> c) t,
     case dropWhile (\<lambda>x. x \<noteq> c) t of [] \<Rightarrow> None | _ # r \<Rightarrow> Some r)"

definition cut_last :: "int \<Rightarrow> pytext \<Rightarrow> pytext option \<times> pytext" where
  \<comment> \<open>\<open>t.rpartition(c)\<close>\<close>
  "cut_last c t = (case cut_at c (rev t) of (a, b) \<Rightarrow> (map_option rev b, rev a))"

lemma cut_at_absent [simp]: "c \<notin> set t \<Longrightarrow> cut_at c t = (t, None)"
  by (induction t) (auto simp: cut_at_def)

lemma cut_at_first [simp]: "c \<notin> set a \<Longrightarrow> cut_at c (a @ c # b) = (a, Some b)"
  by (induction a) (auto simp: cut_at_def)

lemma cut_at_cases:
  obtains (absent) "cut_at c t = (t, None)" "c \<notin> set t"
    | (present) a b where "cut_at c t = (a, Some b)" "t = a @ c # b" "c \<notin> set a"
  by (metis cut_at_absent cut_at_first split_list_first)

subsection \<open>IP addresses\<close>

definition hex_val :: "int \<Rightarrow> int option" where
  "hex_val c = (if 48 \<le> c \<and> c \<le> 57 then Some (c - 48) else if 65 \<le> c \<and> c \<le> 70 then Some (c - 55)
     else if 97 \<le> c \<and> c \<le> 102 then Some (c - 87) else None)"

datatype ip = IPv4 int | IPv6 int

definition octet :: "pytext \<Rightarrow> int option" where
  \<comment> \<open>at most three digits, no leading zero\<close>
  "octet t = (if t \<noteq> [] \<and> list_all is_digit t \<and> length t \<le> 3 \<and> (t = [48] \<or> hd t \<noteq> 48) \<and> digits_val t \<le> 255
     then Some (int (digits_val t)) else None)"

definition parse_ipv4 :: "pytext \<Rightarrow> int option" where
  "parse_ipv4 t = (case map octet (split_on 46 t) of
       [Some a, Some b, Some c, Some d] \<Rightarrow> Some (((a * 256 + b) * 256 + c) * 256 + d)
     | _ \<Rightarrow> None)"

definition hextet :: "pytext \<Rightarrow> int option" where
  "hextet t = (if t \<noteq> [] \<and> length t \<le> 4
     then map_option (foldl (\<lambda>n d. n * 16 + d) 0) (those (map hex_val t)) else None)"

definition groups_val :: "int list \<Rightarrow> int" where
  "groups_val gs = foldl (\<lambda>n g. n * 65536 + g) 0 gs"

definition hex_groups :: "int \<Rightarrow> pytext list" where
  \<comment> \<open>the last two groups of an address that ends in IPv4 notation, as the numbers they are\<close>
  "hex_groups n = (let hex = (\<lambda>k. [hex_digit (k div 4096), hex_digit (k div 256 mod 16),
       hex_digit (k div 16 mod 16), hex_digit (k mod 16)])
     in [hex (n div 65536 mod 65536), hex (n mod 65536)])"

definition ipv6_parts :: "pytext \<Rightarrow> pytext list option" where
  "ipv6_parts t = (let ps = split_on 58 t
     in if length ps < 3 then None
        else if 46 \<in> set (last ps)
        then map_option (\<lambda>n. butlast ps @ hex_groups n) (parse_ipv4 (last ps)) else Some ps)"

definition parse_ipv6 :: "pytext \<Rightarrow> int option" where
  "parse_ipv6 t = (case ipv6_parts t of
       None \<Rightarrow> None
     | Some ps \<Rightarrow>
         (let inner = filter (\<lambda>i. ps ! i = []) [1..<length ps - 1]
          in if 9 < length ps \<or> 1 < length inner then None
             else (case inner of
                 [] \<Rightarrow> (if length ps \<noteq> 8 then None else map_option groups_val (those (map hextet ps)))
               | i # _ \<Rightarrow>
                   (let hi = (if ps ! 0 = [] then i - 1 else i);
                        lo = length ps - i - 1; lo = (if last ps = [] then lo - 1 else lo)
                    in if (ps ! 0 = [] \<and> hi \<noteq> 0) \<or> (last ps = [] \<and> lo \<noteq> 0) \<or> 8 \<le> hi + lo then None
                       else (case (those (map hextet (take hi ps)),
                                  those (map hextet (drop (length ps - lo) ps))) of
                           (Some a, Some b) \<Rightarrow> Some (groups_val (a @ replicate (8 - (hi + lo)) 0 @ b))
                         | _ \<Rightarrow> None)))))"

definition ip_address :: "pytext \<Rightarrow> ip result" where
  \<comment> \<open>a zone after a percent sign is not part of the number\<close>
  "ip_address t = (case parse_ipv4 t of
       Some n \<Rightarrow> Inr (IPv4 n)
     | None \<Rightarrow> (case cut_at 37 t of (a, z) \<Rightarrow>
         (case (parse_ipv6 a, z) of
             (Some n, None) \<Rightarrow> Inr (IPv6 n)
           | (Some n, Some s) \<Rightarrow> (if s = [] \<or> 37 \<in> set s \<or> 47 \<in> set t
               then Inl (ValueError ''does not appear to be an IPv4 or IPv6 address'') else Inr (IPv6 n))
           | _ \<Rightarrow> Inl (ValueError ''does not appear to be an IPv4 or IPv6 address''))))"

definition in_net :: "int \<Rightarrow> int \<times> int \<Rightarrow> bool" where
  \<comment> \<open>a network is its first address and the number of its addresses\<close>
  "in_net n w \<longleftrightarrow> fst w \<le> n \<and> n < fst w + snd w"

definition net4 :: "int \<Rightarrow> int \<Rightarrow> int \<Rightarrow> int \<Rightarrow> nat \<Rightarrow> int \<times> int" where
  "net4 a b c d k = (((a * 256 + b) * 256 + c) * 256 + d, 2 ^ (32 - k))"

definition net6 :: "int list \<Rightarrow> nat \<Rightarrow> int \<times> int" where
  "net6 gs k = (groups_val (gs @ replicate (8 - length gs) 0), 2 ^ (128 - k))"

definition PRIVATE4 :: "(int \<times> int) list" where
  "PRIVATE4 = [net4 0 0 0 0 8, net4 10 0 0 0 8, net4 127 0 0 0 8, net4 169 254 0 0 16, net4 172 16 0 0 12,
     net4 192 0 0 0 24, net4 192 0 0 170 31, net4 192 0 2 0 24, net4 192 168 0 0 16, net4 198 18 0 0 15,
     net4 198 51 100 0 24, net4 203 0 113 0 24, net4 240 0 0 0 4, net4 255 255 255 255 32]"

definition EXCEPTIONS4 :: "(int \<times> int) list" where
  "EXCEPTIONS4 = [net4 192 0 0 9 32, net4 192 0 0 10 32]"

definition PRIVATE6 :: "(int \<times> int) list" where
  "PRIVATE6 = [net6 [0, 0, 0, 0, 0, 0, 0, 1] 128, net6 [] 128, net6 [0, 0, 0, 0, 0, 65535] 96, net6 [100, 65435, 1] 48,
     net6 [256] 64, net6 [8193] 23, net6 [8193, 3512] 32, net6 [8194] 16, net6 [16383] 20, net6 [64512] 7, net6 [65152] 10]"

definition EXCEPTIONS6 :: "(int \<times> int) list" where
  "EXCEPTIONS6 = [net6 [8193, 1, 0, 0, 0, 0, 0, 1] 128, net6 [8193, 1, 0, 0, 0, 0, 0, 2] 128, net6 [8193, 3] 32,
     net6 [8193, 4, 274] 48, net6 [8193, 32] 28, net6 [8193, 48] 28]"

definition global4 :: "int \<Rightarrow> bool" where
  "global4 n \<longleftrightarrow> \<not> in_net n (net4 100 64 0 0 10) \<and> \<not> (list_ex (in_net n) PRIVATE4 \<and> \<not> list_ex (in_net n) EXCEPTIONS4)"

fun is_global :: "ip \<Rightarrow> bool" where
  "is_global (IPv4 n) = global4 n"
| "is_global (IPv6 n) =
     (if n div 2 ^ 32 = 65535 then global4 (n mod 2 ^ 32)
      else \<not> (list_ex (in_net n) PRIVATE6 \<and> \<not> list_ex (in_net n) EXCEPTIONS6))"

definition LOCAL4 :: "(int \<times> int) list" where
  \<comment> \<open>this host, loopback, link-local, the private ranges of RFC 1918 and the shared one of carriers\<close>
  "LOCAL4 = [net4 0 0 0 0 8, net4 10 0 0 0 8, net4 127 0 0 0 8, net4 169 254 0 0 16, net4 172 16 0 0 12,
     net4 192 168 0 0 16, net4 100 64 0 0 10]"

lemma in_exceptions4: "list_ex (in_net n) EXCEPTIONS4 \<longleftrightarrow> n = 3221225481 \<or> n = 3221225482"
  by (auto simp: EXCEPTIONS4_def net4_def in_net_def)

lemma exceptions_not_local: "w \<in> set LOCAL4 \<Longrightarrow> in_net n w \<Longrightarrow> \<not> list_ex (in_net n) EXCEPTIONS4"
  unfolding in_exceptions4 by (auto simp: LOCAL4_def net4_def in_net_def)

lemma global4_excludes:
  assumes "global4 n" "w \<in> set LOCAL4"
  shows "\<not> in_net n w"
proof
  assume "in_net n w"
  then have "list_ex (in_net n) PRIVATE4 \<or> w = net4 100 64 0 0 10"
    using assms(2) by (auto simp: LOCAL4_def PRIVATE4_def)
  moreover have "\<not> list_ex (in_net n) EXCEPTIONS4" using exceptions_not_local assms(2) \<open>in_net n w\<close> by blast
  ultimately show False using assms(1) \<open>in_net n w\<close> by (auto simp: global4_def)
qed

lemma example_addresses:
  "ip_address (u ''8.8.8.8'') = Inr (IPv4 134744072)"
  "ip_address (u ''::ffff:127.0.0.1'') = Inr (IPv6 281472812449793)" "ip_address (u ''::1'') = Inr (IPv6 1)"
  by code_simp+

lemma example_global: "is_global (IPv4 134744072)" "\<not> is_global (IPv6 281472812449793)" "\<not> is_global (IPv6 1)"
  by (simp_all add: global4_def PRIVATE4_def EXCEPTIONS4_def net4_def net6_def in_net_def
      PRIVATE6_def EXCEPTIONS6_def groups_val_def eval_nat_numeral)

subsection \<open>URLs\<close>

record url =
  ul_scheme :: pytext
  ul_netloc :: pytext
  ul_path :: pytext
  ul_query :: pytext
  ul_fragment :: pytext

definition scheme_char :: "int \<Rightarrow> bool" where
  "scheme_char c \<longleftrightarrow> is_alnum c \<or> c = 43 \<or> c = 45 \<or> c = 46"

definition clean_url :: "pytext \<Rightarrow> pytext" where
  \<comment> \<open>leading control characters and spaces go, tabs and line ends go everywhere\<close>
  "clean_url t = filter (\<lambda>c. c \<noteq> 9 \<and> c \<noteq> 10 \<and> c \<noteq> 13) (dropWhile (\<lambda>c. 0 \<le> c \<and> c \<le> 32) t)"

definition split_scheme :: "pytext \<Rightarrow> pytext \<times> pytext" where
  "split_scheme t = (case cut_at 58 t of
       (s, Some r) \<Rightarrow> (if s \<noteq> [] \<and> (is_upper (hd s) \<or> is_lower (hd s)) \<and> list_all scheme_char s
                     then (lower s, r) else ([], t))
     | (_, None) \<Rightarrow> ([], t))"

definition split_netloc :: "pytext \<Rightarrow> pytext option \<times> pytext" where
  \<comment> \<open>what follows the scheme: the authority after two slashes, and the rest\<close>
  "split_netloc t = (if starts_with [47, 47] t
     then (Some (takeWhile (\<lambda>c. c \<notin> {47, 63, 35}) (drop 2 t)), dropWhile (\<lambda>c. c \<notin> {47, 63, 35}) (drop 2 t))
     else (None, t))"

definition bracketed_host :: "pytext \<Rightarrow> bool" where
  "bracketed_host h = (if starts_with (u ''v'') h
     then (case cut_at 46 (tl h) of (a, Some b) \<Rightarrow> a \<noteq> [] \<and> b \<noteq> [] \<and> list_all (\<lambda>c. hex_val c \<noteq> None) a | _ \<Rightarrow> False)
     else (case ip_address h of Inr (IPv6 _) \<Rightarrow> True | _ \<Rightarrow> False))"

definition bracketed_netloc :: "pytext \<Rightarrow> bool" where
  "bracketed_netloc n = (case cut_at 91 (snd (cut_last 64 n)) of
       (a, Some b) \<Rightarrow> (case cut_at 93 b of (h, p) \<Rightarrow>
          a = [] \<and> (case p of None \<Rightarrow> True | Some q \<Rightarrow> q = [] \<or> hd q = 58) \<and> bracketed_host h)
     | (a, None) \<Rightarrow> bracketed_host (fst (cut_at 58 a)))"

definition check_netloc :: "(pytext \<Rightarrow> pytext) \<Rightarrow> pytext \<Rightarrow> bool" where
  \<comment> \<open>with the compatibility normalisation of Unicode; an ASCII authority passes\<close>
  "check_netloc nfkc n = (list_all (\<lambda>c. c < 128) n
     \<or> (let m = filter (\<lambda>c. c \<notin> {64, 58, 35, 63}) n
        in nfkc m = m \<or> set (nfkc m) \<inter> {47, 63, 35, 64, 58} = {}))"

definition valid_netloc :: "(pytext \<Rightarrow> pytext) \<Rightarrow> pytext \<Rightarrow> bool" where
  "valid_netloc nfkc n \<longleftrightarrow> (91 \<in> set n \<longleftrightarrow> 93 \<in> set n) \<and> (91 \<in> set n \<longrightarrow> bracketed_netloc n) \<and> check_netloc nfkc n"

definition or_empty :: "pytext option \<Rightarrow> pytext" where
  "or_empty x = (case x of None \<Rightarrow> [] | Some t \<Rightarrow> t)"

definition urlsplit :: "(pytext \<Rightarrow> pytext) \<Rightarrow> pytext \<Rightarrow> url result" where
  "urlsplit nfkc t =
     (case split_scheme (clean_url t) of (scheme, r) \<Rightarrow>
      (case split_netloc r of (n, r) \<Rightarrow>
       (case cut_at 35 r of (r, fragment) \<Rightarrow>
        (case cut_at 63 r of (path, query) \<Rightarrow>
          if valid_netloc nfkc (or_empty n)
          then Inr \<lparr>ul_scheme = scheme, ul_netloc = or_empty n, ul_path = path, ul_query = or_empty query,
                    ul_fragment = or_empty fragment\<rparr>
          else Inl (ValueError ''Invalid URL'')))))"

definition userinfo :: "url \<Rightarrow> pytext \<times> pytext option" where
  \<comment> \<open>user name and password, either empty where there is none\<close>
  "userinfo x = (case cut_last 64 (ul_netloc x) of
       (None, _) \<Rightarrow> ([], None) | (Some i, _) \<Rightarrow> cut_at 58 i)"

definition hostinfo :: "url \<Rightarrow> pytext \<times> pytext option" where
  "hostinfo x = (let h = snd (cut_last 64 (ul_netloc x))
     in case cut_at 91 h of
          (_, Some b) \<Rightarrow> (case cut_at 93 b of (host, r) \<Rightarrow> (host, snd (cut_at 58 (or_empty r))))
        | (_, None) \<Rightarrow> cut_at 58 h)"

definition hostname :: "url \<Rightarrow> pytext" where
  \<comment> \<open>empty where Python has \<open>None\<close>; a zone keeps its case\<close>
  "hostname x = (case cut_at 37 (fst (hostinfo x)) of
       (h, None) \<Rightarrow> lower h | (h, Some z) \<Rightarrow> lower h @ 37 # z)"

definition port :: "url \<Rightarrow> nat option result" where
  "port x = (case snd (hostinfo x) of
       None \<Rightarrow> Inr None
     | Some p \<Rightarrow> if p = [] then Inr None
         else if list_all is_digit p \<and> digits_val p \<le> 65535 then Inr (Some (digits_val p))
         else Inl (ValueError ''Port could not be cast to integer value or out of range''))"

definition urlunsplit :: "pytext \<Rightarrow> pytext \<Rightarrow> pytext \<Rightarrow> pytext \<Rightarrow> pytext" where
  \<comment> \<open>without fragment, for an authority that is not empty\<close>
  "urlunsplit scheme netloc path query =
     (if scheme = [] then [] else scheme @ [58]) @ [47, 47] @ netloc
     @ (if path \<noteq> [] \<and> hd path \<noteq> 47 then 47 # path else path) @ (if query = [] then [] else 63 # query)"

subsection \<open>Query strings\<close>

definition always_safe :: "int \<Rightarrow> bool" where
  "always_safe c \<longleftrightarrow> is_alnum c \<or> c \<in> {95, 46, 45, 126}"

definition upper_hex :: "int \<Rightarrow> int" where
  "upper_hex d = (if d < 10 then 48 + d else 55 + d)"

definition quote_byte :: "int \<Rightarrow> pytext" where
  "quote_byte b = (if always_safe b then [b] else if b = 32 then [43]
     else [37, upper_hex (b div 16), upper_hex (b mod 16)])"

definition encode_text :: "pytext \<Rightarrow> int list result" where
  \<comment> \<open>\<open>t.encode()\<close>: a \<open>UnicodeEncodeError\<close> is a \<open>ValueError\<close>\<close>
  "encode_text t = (if list_all valid_cp t then Inr (utf8 t) else Inl (ValueError ''surrogates not allowed''))"

definition quote_plus :: "pytext \<Rightarrow> pytext result" where
  "quote_plus t = bindE (encode_text t) (\<lambda>bs. Inr (concat (map quote_byte bs)))"

fun urlencode_pairs :: "(pytext \<times> pytext) list \<Rightarrow> pytext list result" where
  "urlencode_pairs [] = Inr []"
| "urlencode_pairs ((k, v) # qs) =
     bindE (quote_plus k) (\<lambda>a. bindE (quote_plus v) (\<lambda>b. bindE (urlencode_pairs qs) (\<lambda>r. Inr ((a @ 61 # b) # r))))"

definition urlencode :: "(pytext \<times> pytext) list \<Rightarrow> pytext result" where
  "urlencode qs = bindE (urlencode_pairs qs) (\<lambda>ps. Inr (join [38] ps))"

fun unquote_bytes :: "pytext \<Rightarrow> int list" where
  "unquote_bytes (c # a # b # t) = (if c = 37 \<and> hex_val a \<noteq> None \<and> hex_val b \<noteq> None
     then (the (hex_val a) * 16 + the (hex_val b)) # unquote_bytes t else c # unquote_bytes (a # b # t))"
| "unquote_bytes t = t"

function unquote :: "pytext \<Rightarrow> pytext" where
  \<comment> \<open>runs of ASCII characters are decoded, other characters stay\<close>
  "unquote [] = []"
| "unquote (c # t) = (if c < 128
     then decode_replace (unquote_bytes (c # takeWhile (\<lambda>x. x < 128) t)) @ unquote (dropWhile (\<lambda>x. x < 128) t)
     else c # unquote t)"
  by pat_completeness auto
termination by (relation "measure length") (auto simp: length_dropWhile_le le_imp_less_Suc)

definition plus_space :: "pytext \<Rightarrow> pytext" where
  "plus_space t = map (\<lambda>c. if c = 43 then 32 else c) t"

definition parse_qsl :: "pytext \<Rightarrow> (pytext \<times> pytext) list" where
  \<comment> \<open>\<open>parse_qsl(q, keep_blank_values=True)\<close>\<close>
  "parse_qsl q = map (\<lambda>p. case cut_at 61 p of (k, v) \<Rightarrow> (unquote (plus_space k), unquote (plus_space (or_empty v))))
     (filter (\<lambda>p. p \<noteq> []) (split_on 38 q))"

subsection \<open>Decoding what was encoded\<close>

lemma decode_replace_step1: "b < 128 \<Longrightarrow> decode_replace (b # bs) = b # decode_replace bs"
  by (subst decode_replace.simps) (simp del: decode_replace.simps(2))

lemma decode_replace_step2:
  "194 \<le> b \<Longrightarrow> b < 224 \<Longrightarrow> cont c1 \<Longrightarrow>
     decode_replace (b # c1 # bs) = ((b - 192) * 64 + (c1 - 128)) # decode_replace bs"
  by (subst decode_replace.simps) (simp del: decode_replace.simps(2))

lemma decode_replace_step3:
  "224 \<le> b \<Longrightarrow> b < 240 \<Longrightarrow> second_ok b c1 \<Longrightarrow> cont c2 \<Longrightarrow>
     decode_replace (b # c1 # c2 # bs) = ((b - 224) * 4096 + (c1 - 128) * 64 + (c2 - 128)) # decode_replace bs"
  by (subst decode_replace.simps) (simp del: decode_replace.simps(2))

lemma decode_replace_step4:
  "240 \<le> b \<Longrightarrow> b < 245 \<Longrightarrow> second_ok b c1 \<Longrightarrow> cont c2 \<Longrightarrow> cont c3 \<Longrightarrow> decode_replace (b # c1 # c2 # c3 # bs)
     = ((b - 240) * 262144 + (c1 - 128) * 4096 + (c2 - 128) * 64 + (c3 - 128)) # decode_replace bs"
  by (subst decode_replace.simps) (simp del: decode_replace.simps(2))

lemma replace_enc:
  assumes "valid_cp c"
  shows "decode_replace (enc c @ bs) = c # decode_replace bs"
proof -
  have v: "0 \<le> c" "c < 1114112" "c < 55296 \<or> 57344 \<le> c" using assms by (auto simp: valid_cp_def)
  consider "c < 128" | "128 \<le> c" "c < 2048" | "2048 \<le> c" "c < 65536" | "65536 \<le> c" by linarith
  then show ?thesis
  proof cases
    case 1
    then show ?thesis by (simp add: enc_def)
  next
    case 2
    have "decode_replace ((192 + c div 64) # (128 + c mod 64) # bs) = c # decode_replace bs"
      using 2 by (subst decode_replace_step2) auto
    with 2 show ?thesis by (simp add: enc_def del: decode_replace.simps(2))
  next
    case 3
    have lo: "224 + c div 4096 = 224 \<Longrightarrow> 160 \<le> 128 + c div 64 mod 64"
      using 3 digits64(2) [of c] pos_mod_bound [of 64 c] by linarith
    have hi: "224 + c div 4096 = 237 \<Longrightarrow> 128 + c div 64 mod 64 < 160"
      using v digits64(2) [of c] pos_mod_sign [of 64 c] pos_mod_bound [of 64 c]
        pos_mod_sign [of 64 "c div 64"] pos_mod_bound [of 64 "c div 64"] by linarith
    have "224 + c div 4096 < 240" using 3 by simp
    then have "second_ok (224 + c div 4096) (128 + c div 64 mod 64)" using lo hi by (simp add: second_ok_def)
    then have "decode_replace ((224 + c div 4096) # (128 + c div 64 mod 64) # (128 + c mod 64) # bs)
        = c # decode_replace bs"
      using 3 digits64(2) [of c] by (subst decode_replace_step3) auto
    with 3 show ?thesis by (simp add: enc_def del: decode_replace.simps(2))
  next
    case 4
    have r: "240 + c div 262144 < 245" "240 \<le> 240 + c div 262144" using 4 v by linarith+
    have lo: "240 + c div 262144 = 240 \<Longrightarrow> 144 \<le> 128 + c div 4096 mod 64"
      using 4 digits64(3) [of c] pos_mod_bound [of 64 c] pos_mod_bound [of 64 "c div 64"] by linarith
    have hi: "240 + c div 262144 = 244 \<Longrightarrow> 128 + c div 4096 mod 64 < 144"
      using v digits64(3) [of c] pos_mod_sign [of 64 c] pos_mod_sign [of 64 "c div 64"] by linarith
    have "second_ok (240 + c div 262144) (128 + c div 4096 mod 64)"
      using lo hi r(2) by (simp add: second_ok_def)
    then have "decode_replace ((240 + c div 262144) # (128 + c div 4096 mod 64) # (128 + c div 64 mod 64)
          # (128 + c mod 64) # bs)
        = ((240 + c div 262144 - 240) * 262144 + (128 + c div 4096 mod 64 - 128) * 4096
           + (128 + c div 64 mod 64 - 128) * 64 + (128 + c mod 64 - 128)) # decode_replace bs"
      using r by (intro decode_replace_step4 cont_mod)
    also have "\<dots> = c # decode_replace bs" using digits64(3) [of c] by (simp only: add_diff_cancel_left')
    finally have "decode_replace ((240 + c div 262144) # (128 + c div 4096 mod 64) # (128 + c div 64 mod 64)
          # (128 + c mod 64) # bs) = c # decode_replace bs" .
    with 4 show ?thesis by (simp add: enc_def del: decode_replace.simps(2))
  qed
qed

lemma replace_utf8: "list_all valid_cp t \<Longrightarrow> decode_replace (utf8 t) = t"
  by (induction t) (auto simp: replace_enc simp del: decode_replace.simps(2))

lemma utf8_bytes: "list_all valid_cp t \<Longrightarrow> b \<in> set (utf8 t) \<Longrightarrow> 0 \<le> b \<and> b < 256"
  by (induction t) (auto simp: enc_def valid_cp_def split: if_splits)

lemma hex_val_upper: "0 \<le> d \<Longrightarrow> d < 16 \<Longrightarrow> hex_val (upper_hex d) = Some d"
  by (auto simp: hex_val_def upper_hex_def)

lemma unquote_bytes_plain: "c \<noteq> 37 \<Longrightarrow> unquote_bytes (c # t) = c # unquote_bytes t"
  by (cases t rule: unquote_bytes.cases) auto

lemma unquote_quote_byte:
  assumes "0 \<le> b" "b < 256"
  shows "unquote_bytes (plus_space (quote_byte b) @ t) = b # unquote_bytes t"
proof -
  have h: "0 \<le> b div 16" "b div 16 < 16" "0 \<le> b mod 16" "b mod 16 < 16" using assms by auto
  have n: "upper_hex (b div 16) \<noteq> 43" "upper_hex (b mod 16) \<noteq> 43" using h by (auto simp: upper_hex_def)
  consider "always_safe b" | "b = 32" | "\<not> always_safe b" "b \<noteq> 32" by blast
  then show ?thesis
  proof cases
    case 1
    then have "b \<noteq> 37 \<and> b \<noteq> 43" by (auto simp: always_safe_def is_alnum_def is_upper_def is_lower_def is_digit_def)
    with 1 show ?thesis by (simp add: quote_byte_def plus_space_def unquote_bytes_plain)
  next
    case 2
    then show ?thesis
      by (simp add: quote_byte_def plus_space_def unquote_bytes_plain always_safe_def is_alnum_def is_upper_def
          is_lower_def is_digit_def)
  next
    case 3
    then show ?thesis using h n by (simp add: quote_byte_def plus_space_def hex_val_upper)
  qed
qed

lemma unquote_quote_bytes:
  "(\<And>b. b \<in> set bs \<Longrightarrow> 0 \<le> b \<and> b < 256) \<Longrightarrow> unquote_bytes (plus_space (concat (map quote_byte bs))) = bs"
proof (induction bs)
  case (Cons b bs)
  have "plus_space (concat (map quote_byte (b # bs))) = plus_space (quote_byte b) @ plus_space (concat (map quote_byte bs))"
    by (simp add: plus_space_def)
  then show ?case using Cons unquote_quote_byte [of b] by simp
qed (simp add: plus_space_def)

definition query_char :: "int \<Rightarrow> bool" where
  "query_char c \<longleftrightarrow> always_safe c \<or> c = 43 \<or> c = 37"

lemma upper_hex_safe: "0 \<le> d \<Longrightarrow> d < 16 \<Longrightarrow> always_safe (upper_hex d)"
  by (auto simp: upper_hex_def always_safe_def is_alnum_def is_upper_def is_digit_def)

lemma quote_byte_chars:
  assumes "0 \<le> b" "b < 256" "c \<in> set (quote_byte b)"
  shows "query_char c"
proof -
  have "0 \<le> b div 16" "b div 16 < 16" "0 \<le> b mod 16" "b mod 16 < 16" using assms by auto
  then show ?thesis using assms(3) upper_hex_safe by (auto simp: quote_byte_def query_char_def split: if_splits)
qed

lemma quote_plus_chars: "quote_plus t = Inr q \<Longrightarrow> c \<in> set q \<Longrightarrow> query_char c"
  using quote_byte_chars utf8_bytes by (fastforce simp: quote_plus_def encode_text_def bind_simps split: if_splits)

lemma unquote_ascii: "(\<And>c. c \<in> set t \<Longrightarrow> c < 128) \<Longrightarrow> unquote t = decode_replace (unquote_bytes t)"
proof (cases t)
  case (Cons c r)
  assume a: "\<And>c. c \<in> set t \<Longrightarrow> c < 128"
  then have "takeWhile (\<lambda>x. x < 128) r = r" "dropWhile (\<lambda>x. x < 128) r = []"
    using Cons by (auto simp: takeWhile_eq_all_conv dropWhile_eq_Nil_conv)
  moreover have "c < 128" using a Cons by simp
  ultimately show ?thesis unfolding Cons unquote.simps by (simp only: if_True unquote.simps append_Nil2)
qed simp

lemma query_char_ascii: "query_char c \<Longrightarrow> c < 128"
  by (auto simp: query_char_def always_safe_def is_alnum_def is_upper_def is_lower_def is_digit_def)

lemma unquote_quote_plus:
  assumes "quote_plus t = Inr q"
  shows "unquote (plus_space q) = t"
proof -
  have t: "list_all valid_cp t" "q = concat (map quote_byte (utf8 t))"
    using assms by (auto simp: quote_plus_def encode_text_def bind_simps split: if_splits)
  have "c < 128" if "c \<in> set (plus_space q)" for c
    using that quote_plus_chars [OF assms] query_char_ascii by (fastforce simp: plus_space_def)
  then have "unquote (plus_space q) = decode_replace (unquote_bytes (plus_space q))" by (rule unquote_ascii)
  also have "\<dots> = t" using t unquote_quote_bytes utf8_bytes replace_utf8 by metis
  finally show ?thesis .
qed

lemma query_char_not: "query_char c \<Longrightarrow> c \<noteq> 38 \<and> c \<noteq> 61 \<and> c \<noteq> 35 \<and> c \<noteq> 63 \<and> c \<noteq> 9 \<and> c \<noteq> 10 \<and> c \<noteq> 13"
  by (auto simp: query_char_def always_safe_def is_alnum_def is_upper_def is_lower_def is_digit_def)

lemma split_on_append: "c \<notin> set w \<Longrightarrow> split_on c (w @ c # t) = w # split_on c t"
  by (induction w) auto

lemma split_on_absent: "c \<notin> set w \<Longrightarrow> split_on c w = [w]"
  by (induction w) auto

lemma split_on_join: "ws \<noteq> [] \<Longrightarrow> (\<And>w. w \<in> set ws \<Longrightarrow> c \<notin> set w) \<Longrightarrow> split_on c (join [c] ws) = ws"
proof (induction ws rule: induct_list012)
  case (3 a b ws)
  then show ?case using split_on_append [of c a] by simp
qed (auto simp: split_on_absent)

definition query_text :: "int \<Rightarrow> bool" where
  "query_text c \<longleftrightarrow> query_char c \<or> c = 61"

lemma urlencode_pairs_chars:
  "urlencode_pairs qs = Inr ps \<Longrightarrow> p \<in> set ps \<Longrightarrow> c \<in> set p \<Longrightarrow> query_text c"
proof (induction qs arbitrary: ps rule: urlencode_pairs.induct)
  case (2 k v qs)
  obtain a b r where r: "quote_plus k = Inr a" "quote_plus v = Inr b" "urlencode_pairs qs = Inr r"
    "ps = (a @ 61 # b) # r" using 2(2) by (auto simp: bind_simps)
  show ?case
  proof (cases "p \<in> set r")
    case True
    then show ?thesis using 2(1) [OF r(3)] 2(4) by blast
  next
    case False
    then show ?thesis using 2(3,4) r(4) quote_plus_chars [OF r(1), of c] quote_plus_chars [OF r(2), of c]
      by (auto simp: query_text_def)
  qed
qed simp

lemma urlencode_pairs_parse:
  "urlencode_pairs qs = Inr ps \<Longrightarrow> [] \<notin> set ps \<and>
     map (\<lambda>p. case cut_at 61 p of (k, v) \<Rightarrow> (unquote (plus_space k), unquote (plus_space (or_empty v)))) ps = qs"
proof (induction qs arbitrary: ps rule: urlencode_pairs.induct)
  case (2 k v qs)
  obtain a b r where r: "quote_plus k = Inr a" "quote_plus v = Inr b" "urlencode_pairs qs = Inr r"
    "ps = (a @ 61 # b) # r" using 2(2) by (auto simp: bind_simps)
  have "61 \<notin> set a" using quote_plus_chars [OF r(1)] query_char_not by blast
  then show ?case using r 2(1) [OF r(3)] unquote_quote_plus by (simp add: or_empty_def)
qed simp

lemma parse_urlencode:
  assumes "urlencode qs = Inr q"
  shows "parse_qsl q = qs"
proof -
  obtain ps where ps: "urlencode_pairs qs = Inr ps" "q = join [38] ps"
    using assms by (auto simp: urlencode_def bind_simps)
  have n: "[] \<notin> set ps" using urlencode_pairs_parse [OF ps(1)] by blast
  have "filter (\<lambda>p. p \<noteq> []) (split_on 38 q) = ps"
  proof (cases ps)
    case Nil
    then show ?thesis using ps(2) by simp
  next
    case (Cons p r)
    have "38 \<notin> set w" if "w \<in> set ps" for w
      using urlencode_pairs_chars [OF ps(1) that, of 38] query_char_not [of 38] by (auto simp: query_text_def)
    then have "split_on 38 q = ps" using ps(2) Cons split_on_join [of ps 38] by blast
    then show ?thesis using n by (auto simp: filter_id_conv)
  qed
  then show ?thesis using urlencode_pairs_parse [OF ps(1)] by (simp add: parse_qsl_def)
qed

lemma urlencode_chars: "urlencode qs = Inr q \<Longrightarrow> c \<in> set q \<Longrightarrow> query_text c \<or> c = 38"
proof -
  assume q: "urlencode qs = Inr q" "c \<in> set q"
  then obtain ps where ps: "urlencode_pairs qs = Inr ps" "q = join [38] ps" by (auto simp: urlencode_def bind_simps)
  have "c \<in> set (join [38] ps) \<Longrightarrow> c = 38 \<or> (\<exists>p\<in>set ps. c \<in> set p)" by (induction "[38::int]" ps rule: join.induct) auto
  then show ?thesis using q(2) ps urlencode_pairs_chars by blast
qed

subsection \<open>Splitting again what was put together\<close>

lemma clean_url_chars: "c \<in> set (clean_url t) \<Longrightarrow> c \<notin> {9, 10, 13}"
  by (auto simp: clean_url_def)

lemma split_scheme_rest: "split_scheme t = (s, r) \<Longrightarrow> set r \<subseteq> set t"
  by (cases t rule: cut_at_cases [of 58]) (auto simp: split_scheme_def split: if_splits)

lemma takeWhile_authority: "c \<in> set (takeWhile (\<lambda>c. c \<notin> {47, 63, 35}) t) \<Longrightarrow> c \<notin> {47, 63, 35}"
  using set_takeWhileD by fastforce

lemma urlsplit_parts:
  assumes "urlsplit nfkc t = Inr x" "ul_netloc x \<noteq> []"
  shows "valid_netloc nfkc (ul_netloc x)" and "set (ul_netloc x) \<inter> {47, 63, 35, 9, 10, 13} = {}"
    and "ul_path x = [] \<or> hd (ul_path x) = 47" and "set (ul_path x) \<inter> {63, 35, 9, 10, 13} = {}"
proof -
  obtain scheme r where sr: "split_scheme (clean_url t) = (scheme, r)" by force
  have r: "set r \<inter> {9, 10, 13} = {}" using split_scheme_rest [OF sr] clean_url_chars by fastforce
  obtain n a where na: "split_netloc r = (n, a)" by force
  obtain b fr where bf: "cut_at 35 a = (b, fr)" by force
  obtain path qu where pq: "cut_at 63 b = (path, qu)" by force
  have x: "valid_netloc nfkc (or_empty n)" "ul_netloc x = or_empty n" "ul_path x = path"
    using assms(1) by (auto simp: urlsplit_def sr na bf pq split: if_splits)
  then obtain m where m: "n = Some m" using assms(2) by (cases n) (auto simp: or_empty_def)
  have s: "m = takeWhile (\<lambda>c. c \<notin> {47, 63, 35}) (drop 2 r)" "a = dropWhile (\<lambda>c. c \<notin> {47, 63, 35}) (drop 2 r)"
    using na m by (auto simp: split_netloc_def split: if_splits)
  have "set m \<subseteq> set r" unfolding s(1) by (rule subsetI, drule set_takeWhileD) (blast dest: in_set_dropD)
  have "set a \<subseteq> set r" unfolding s(2) by (rule subsetI, drule set_dropWhileD) (rule in_set_dropD)
  have b: "35 \<notin> set b" "set b \<subseteq> set a" "b = [] \<or> (a \<noteq> [] \<and> hd b = hd a)"
    using bf by (cases a rule: cut_at_cases [of 35]; cases b; auto)+
  have path: "63 \<notin> set path" "set path \<subseteq> set b" "path = [] \<or> (b \<noteq> [] \<and> hd path = hd b)"
    using pq by (cases b rule: cut_at_cases [of 63]; cases path; auto)+
  show "valid_netloc nfkc (ul_netloc x)" using x by simp
  show "set (ul_netloc x) \<inter> {47, 63, 35, 9, 10, 13} = {}"
  proof -
    have "set m \<inter> {47, 63, 35} = {}" unfolding s(1) using takeWhile_authority by blast
    then show ?thesis using r \<open>set m \<subseteq> set r\<close> x(2) m unfolding or_empty_def by auto
  qed
  show "set (ul_path x) \<inter> {63, 35, 9, 10, 13} = {}"
  proof -
    have "set path \<inter> {9, 10, 13} = {}" using path(2) b(2) \<open>set a \<subseteq> set r\<close> r by auto
    moreover have "35 \<notin> set path" using path(2) b(1) by auto
    ultimately show ?thesis using path(1) x(3) by simp
  qed
  show "ul_path x = [] \<or> hd (ul_path x) = 47"
  proof (rule disjCI)
    assume "hd (ul_path x) \<noteq> 47"
    show "ul_path x = []"
    proof (rule ccontr)
      assume n: "ul_path x \<noteq> []"
      then have h: "a \<noteq> []" "hd (ul_path x) = hd a" using path(3) b(3) x(3) by auto
      then have "hd a \<in> {47, 63, 35}" using hd_dropWhile [of "\<lambda>c. c \<notin> {47, 63, 35}" "drop 2 r"] s(2) by auto
      moreover have "hd (ul_path x) \<notin> {63, 35}" using n path b x(3) by (metis hd_in_set insertE singletonD subsetD)
      ultimately show False using h(2) \<open>hd (ul_path x) \<noteq> 47\<close> by auto
    qed
  qed
qed

lemma split_scheme_https: "split_scheme (u ''https'' @ 58 # t) = (u ''https'', t)"
  by (simp add: split_scheme_def cut_at_def scheme_char_def is_alnum_def is_lower_def is_upper_def is_digit_def
      lower_def lower_char_def)

lemma clean_url_plain: "t \<noteq> [] \<Longrightarrow> 32 < hd t \<Longrightarrow> set t \<inter> {9, 10, 13} = {} \<Longrightarrow> clean_url t = t"
  by (cases t) (auto simp: clean_url_def filter_id_conv)

lemma urlsplit_again:
  assumes x: "urlsplit nfkc t = Inr x" "ul_netloc x \<noteq> []" and q: "\<And>c. c \<in> set q \<Longrightarrow> query_text c \<or> c = 38"
    and p: "p = (if ul_path x = [] then [47] else ul_path x)"
  shows "urlsplit nfkc (urlunsplit (u ''https'') (ul_netloc x) p q)
     = Inr \<lparr>ul_scheme = u ''https'', ul_netloc = ul_netloc x, ul_path = p, ul_query = q, ul_fragment = []\<rparr>"
proof -
  note parts = urlsplit_parts [OF x]
  have q': "set q \<inter> {35, 9, 10, 13} = {}" using q query_char_not by (fastforce simp: query_text_def)
  have p': "p \<noteq> []" "hd p = 47" "set p \<inter> {63, 35, 9, 10, 13} = {}" using parts p by auto
  define e where "e = p @ (if q = [] then [] else 63 # q)"
  have e: "e \<noteq> []" "hd e = 47" "set e \<inter> {35, 9, 10, 13} = {}" using p' q' by (auto simp: e_def)
  have w: "urlunsplit (u ''https'') (ul_netloc x) p q = u ''https'' @ 58 # [47, 47] @ ul_netloc x @ e"
    using p' by (simp add: urlunsplit_def e_def)
  have c: "clean_url (u ''https'' @ 58 # [47, 47] @ ul_netloc x @ e) = u ''https'' @ 58 # [47, 47] @ ul_netloc x @ e"
    by (rule clean_url_plain) (use parts(2) e(3) in auto)
  have n: "\<And>c. c \<in> set (ul_netloc x) \<Longrightarrow> c \<notin> {47, 63, 35}" using parts(2) by blast
  obtain r where r: "e = 47 # r" using e(1,2) by (cases e) auto
  have "takeWhile (\<lambda>c. c \<notin> {47, 63, 35}) (ul_netloc x @ e) = ul_netloc x"
    using n by (simp add: takeWhile_append2 r)
  moreover have "dropWhile (\<lambda>c. c \<notin> {47, 63, 35}) (ul_netloc x @ e) = e"
    using n by (simp add: dropWhile_append2 r)
  ultimately have "split_netloc ([47, 47] @ ul_netloc x @ e) = (Some (ul_netloc x), e)"
    by (simp add: split_netloc_def starts_with_def)
  moreover have "cut_at 35 e = (e, None)" using e(3) by simp
  moreover have "cut_at 63 e = (p, if q = [] then None else Some q)" using p'(3) by (simp add: e_def)
  ultimately show ?thesis
    unfolding urlsplit_def w c split_scheme_https using parts(1) by (simp add: or_empty_def)
qed

subsection \<open>HTML tags\<close>

definition tag :: re where
  "tag = seqs [RChar (\<lambda>c. c = 60), at_least 1 (\<lambda>c. c \<noteq> 62), RChar (\<lambda>c. c = 62)]"

definition without_tags :: "pytext \<Rightarrow> pytext" where
  "without_tags t = sub tag (\<lambda>_. [32]) t"

end
