(* ===== verification/Evidence.thy ===== *)
theory Evidence
  imports Py_Net Storage
begin

text \<open>
  \<open>evidence.py\<close>: the sources that a tool's output names are kept as numbered evidence, each once, and
  the files of a run as artifacts with the hash of their content and of the version before. The digest,
  the JSON parser and \<open>html.unescape\<close> are parameters. The copies that go to the session's log are left
  out; a \<open>capture\<close> that raises leaves the sources as they were.
\<close>

subsection \<open>Candidates in an output\<close>

record candidate =
  sc_url :: pytext
  sc_citation :: pytext
  sc_title :: pytext
  sc_content :: pytext
  sc_type :: string
  sc_kind :: string

record source = candidate +
  sc_id :: nat
  sc_hash :: string
  sc_identity :: pytext
  sc_tool :: pytext
  sc_time :: time
  sc_excerpt :: pytext
  sc_site :: pytext

definition evidence_id :: "source \<Rightarrow> pytext" where
  "evidence_id s = 69 # nat_repr (sc_id s)"

fun collect :: "'a list result list \<Rightarrow> 'a list result" where
  "collect [] = Inr []"
| "collect (r # rs) = bindE r (\<lambda>xs. bindE (collect rs) (\<lambda>ys. Inr (xs @ ys)))"

definition first_of :: "string list \<Rightarrow> json \<Rightarrow> json" where
  \<comment> \<open>\<open>v.get(a) or v.get(b) or ...\<close>\<close>
  "first_of names v = foldl (\<lambda>x n. or_else x (field n v)) JNull names"

definition content_of :: "json \<Rightarrow> pytext" where
  "content_of v = (case first_such (\<lambda>n. truthy (field n v))
       [''content'', ''body'', ''text'', ''excerpt'', ''snippet'', ''description''] of
       None \<Rightarrow> [] | Some n \<Rightarrow> py_str (field n v))"

definition children :: "(pytext \<times> json) list \<Rightarrow> json list" where
  "children kvs = concat (map (\<lambda>n. case dget kvs (u n) of None \<Rightarrow> [] | Some v \<Rightarrow> [v])
     [''results'', ''sources'', ''items'', ''documents'', ''citations''])"

definition allowed_url :: "(pytext \<Rightarrow> pytext) \<Rightarrow> pytext \<Rightarrow> bool result" where
  "allowed_url nfkc t = bindE (urlsplit nfkc t) (\<lambda>x.
     Inr (ul_scheme x \<in> {u ''https'', u ''http''} \<and> fst (userinfo x) = [] \<and> or_empty (snd (userinfo x)) = []))"

definition candidate_of :: "pytext \<Rightarrow> json \<Rightarrow> candidate" where
  "candidate_of tool v =
     (let url = first_of [''url'', ''source_url'', ''link''] v; citation = first_of [''citation'', ''citation_id''] v
      in \<lparr>sc_url = py_str (or_else url (JStr [])), sc_citation = py_str (or_else citation (JStr [])),
          sc_title = py_str (or_else (or_else (first_of [''title'', ''path''] v) url) citation), sc_content = content_of v,
          sc_type = (if contains (u ''rag'') tool then ''rag'' else ''web''),
          sc_kind = (if contains (u ''search'') tool then ''search_lead'' else ''retrieved'')\<rparr>)"

definition has_source :: "json \<Rightarrow> bool" where
  "has_source v \<longleftrightarrow> truthy (first_of [''url'', ''source_url'', ''link''] v) \<or> truthy (first_of [''citation'', ''citation_id''] v)"

definition named_url :: "json \<Rightarrow> pytext option" where
  "named_url v = (let url = first_of [''url'', ''source_url'', ''link''] v in if truthy url then Some (py_str url) else None)"

lemma children_size:
  assumes "v \<in> set (children kvs)"
  shows "size v < size (JObj kvs)"
proof -
  obtain n where "v \<in> set (case dget kvs (u n) of None \<Rightarrow> [] | Some v \<Rightarrow> [v])"
    using assms unfolding children_def set_concat set_map by blast
  then have "dget kvs (u n) = Some v" by (auto split: option.splits)
  then have "(u n, v) \<in> set kvs" by (rule map_of_SomeD)
  then show ?thesis by (induction kvs) (auto simp: trans_le_add1)
qed

function visit :: "(pytext \<Rightarrow> pytext) \<Rightarrow> pytext \<Rightarrow> json \<Rightarrow> candidate list result" where
  \<comment> \<open>a value with a URL that is not plain HTTP is skipped with everything in it\<close>
  "visit nfkc tool (JList vs) = collect (map (visit nfkc tool) vs)"
| "visit nfkc tool (JObj kvs) =
     bindE (case named_url (JObj kvs) of None \<Rightarrow> Inr True | Some t \<Rightarrow> allowed_url nfkc t) (\<lambda>ok.
       if \<not> ok then Inr []
       else bindE (collect (map (visit nfkc tool) (children kvs))) (\<lambda>cs.
         Inr ((if has_source (JObj kvs) then [candidate_of tool (JObj kvs)] else []) @ cs)))"
| "visit nfkc tool JNull = Inr []"
| "visit nfkc tool (JBool b) = Inr []"
| "visit nfkc tool (JInt i) = Inr []"
| "visit nfkc tool (JFloat t) = Inr []"
| "visit nfkc tool (JStr t) = Inr []"
  by pat_completeness auto
termination
  by (relation "measure (\<lambda>(_, _, v). size v)") (auto simp: less_Suc_eq_le size_list_estimation' dest: children_size)

definition markers :: "pytext list" where
  "markers = map u [''web'', ''http'', ''browser'', ''rag'']"

definition candidates ::
  "(pytext \<Rightarrow> pytext) \<Rightarrow> (pytext \<Rightarrow> json option) \<Rightarrow> pytext \<Rightarrow> json \<Rightarrow> candidate list result" where
  "candidates nfkc loads tool output =
     (if \<not> list_ex (\<lambda>m. contains m tool) markers then Inr []
      else case (case output of JStr t \<Rightarrow> loads t | _ \<Rightarrow> Some output) of
          None \<Rightarrow> Inr []
        | Some v \<Rightarrow> if is_obj v \<and> field ''ok'' v = JBool False then Inr [] else visit nfkc tool v)"

subsection \<open>Numbered sources\<close>

definition redact_candidate :: "candidate \<Rightarrow> candidate" where
  \<comment> \<open>\<open>redact_value\<close> on its texts; the two constants contain no secret\<close>
  "redact_candidate c = \<lparr>sc_url = redact_text (sc_url c), sc_citation = redact_text (sc_citation c),
     sc_title = redact_text (sc_title c), sc_content = redact_text (sc_content c), sc_type = sc_type c, sc_kind = sc_kind c\<rparr>"

definition identity_of :: "(int list \<Rightarrow> string) \<Rightarrow> candidate \<Rightarrow> pytext" where
  "identity_of sha c = sc_url c @ 58 # sc_citation c @ 58 # u (sha (utf8 (sc_content c)))"

definition add_source :: "(int list \<Rightarrow> string) \<Rightarrow> (pytext \<Rightarrow> pytext) \<Rightarrow> (pytext \<Rightarrow> pytext) \<Rightarrow> pytext \<Rightarrow> time
    \<Rightarrow> candidate \<Rightarrow> source list \<Rightarrow> source list result" where
  "add_source sha nfkc unescape tool now c ss =
     (let c = redact_candidate c
      in bindE (encode_text (sc_content c)) (\<lambda>bs.
           if list_ex (\<lambda>s. sc_identity s = identity_of sha c) ss then Inr ss
           else bindE (urlsplit nfkc (sc_url c)) (\<lambda>x.
             Inr (ss @ [candidate.extend c \<lparr>sc_id = length ss + 1, sc_hash = sha bs, sc_identity = identity_of sha c,
               sc_tool = tool, sc_time = now, sc_excerpt = take 2000 (unescape (without_tags (sc_content c))),
               sc_site = ul_netloc x\<rparr>]))))"

fun add_sources :: "(int list \<Rightarrow> string) \<Rightarrow> (pytext \<Rightarrow> pytext) \<Rightarrow> (pytext \<Rightarrow> pytext) \<Rightarrow> pytext \<Rightarrow> time
    \<Rightarrow> candidate list \<Rightarrow> source list \<Rightarrow> source list result" where
  "add_sources sha nfkc unescape tool now [] ss = Inr ss"
| "add_sources sha nfkc unescape tool now (c # cs) ss =
     bindE (add_source sha nfkc unescape tool now c ss) (add_sources sha nfkc unescape tool now cs)"

definition capture :: "(int list \<Rightarrow> string) \<Rightarrow> (pytext \<Rightarrow> pytext) \<Rightarrow> (pytext \<Rightarrow> pytext) \<Rightarrow> (pytext \<Rightarrow> json option)
    \<Rightarrow> pytext \<Rightarrow> json \<Rightarrow> time \<Rightarrow> source list \<Rightarrow> (source list \<times> source list) result" where
  \<comment> \<open>the sources afterwards, and those that are new\<close>
  "capture sha nfkc unescape loads tool output now ss =
     bindE (candidates nfkc loads tool output) (\<lambda>cs.
     bindE (add_sources sha nfkc unescape tool now cs ss) (\<lambda>ss'. Inr (ss', drop (length ss) ss')))"

subsection \<open>Artifacts\<close>

record artifact =
  at_id :: string
  at_path :: pytext
  at_kind :: string
  at_hash :: string
  at_previous :: "string option"
  at_size :: nat
  at_evidence :: "pytext list"
  at_created :: time

definition register :: "(int list \<Rightarrow> string) \<Rightarrow> string \<Rightarrow> (pytext \<Rightarrow> int list option) \<Rightarrow> pytext \<Rightarrow> string \<Rightarrow> pytext list
    \<Rightarrow> time \<Rightarrow> artifact list \<Rightarrow> (artifact list \<times> artifact) result" where
  \<comment> \<open>\<open>bytes\<close> holds the files that are inside the run's directory after links are followed\<close>
  "register sha run bytes name kind evidence now arts =
     bindE (artifact_path run name) (\<lambda>_.
       case bytes name of
         None \<Rightarrow> Inl (ValueError ''artifact must be a file inside the task directory'')
       | Some bs \<Rightarrow>
           (let item = first_such (\<lambda>a. at_path a = name) arts
            in case item of
                 Some a \<Rightarrow>
                   if at_hash a = sha bs then Inr (arts, a)
                   else (let v = \<lparr>at_id = take 16 (sha (utf8 name)), at_path = name, at_kind = kind, at_hash = sha bs,
                            at_previous = Some (at_hash a), at_size = length bs, at_evidence = evidence, at_created = now\<rparr>
                         in Inr (filter (\<lambda>a. at_path a \<noteq> name) arts @ [v], v))
               | None \<Rightarrow>
                   (let v = \<lparr>at_id = take 16 (sha (utf8 name)), at_path = name, at_kind = kind, at_hash = sha bs,
                      at_previous = None, at_size = length bs, at_evidence = evidence, at_created = now\<rparr>
                    in Inr (filter (\<lambda>a. at_path a \<noteq> name) arts @ [v], v))))"

subsection \<open>What the lists of sources and artifacts are\<close>

lemma constants_hold_no_secret:
  "list_all (\<lambda>t. redact_text (u t) = u t) [''rag'', ''web'', ''search_lead'', ''retrieved'']"
  by code_simp

definition well_numbered :: "source list \<Rightarrow> bool" where
  "well_numbered ss \<longleftrightarrow> map sc_id ss = [1..<Suc (length ss)] \<and> distinct (map sc_identity ss)"

definition genuine :: "(int list \<Rightarrow> string) \<Rightarrow> pytext \<Rightarrow> source \<Rightarrow> bool" where
  \<comment> \<open>the hash and the identity are those of the redacted content\<close>
  "genuine sha tool s \<longleftrightarrow> sc_tool s = tool \<and> sc_hash s = sha (utf8 (sc_content s))
     \<and> sc_identity s = identity_of sha (candidate.truncate s) \<and> (\<exists>t. sc_content s = redact_text t)"

lemma add_source_step:
  assumes "add_source sha nfkc unescape tool now c ss = Inr ss'"
  shows "(well_numbered ss \<longrightarrow> well_numbered ss')
    \<and> (\<exists>xs. ss' = ss @ xs \<and> list_all (genuine sha tool) xs)
    \<and> list_all valid_cp (sc_content (redact_candidate c)) \<and> identity_of sha (redact_candidate c) \<in> sc_identity ` set ss'"
proof (cases "list_ex (\<lambda>s. sc_identity s = identity_of sha (redact_candidate c)) ss")
  case True
  then show ?thesis using assms
    by (auto simp: add_source_def Let_def bind_simps list_ex_iff encode_text_def intro: rev_image_eqI split: if_splits)
next
  case False
  then obtain x where x: "ss' = ss @ [x]" "sc_id x = length ss + 1" "sc_identity x = identity_of sha (redact_candidate c)"
      "candidate.truncate x = redact_candidate c" "sc_tool x = tool" "sc_hash x = sha (utf8 (sc_content (redact_candidate c)))"
      "list_all valid_cp (sc_content (redact_candidate c))" "sc_content x = sc_content (redact_candidate c)"
    using assms
    by (auto simp: add_source_def Let_def bind_simps encode_text_def candidate.defs redact_candidate_def split: if_splits)
  moreover have "sc_identity x \<notin> sc_identity ` set ss" using False x(3) by (auto simp: list_ex_iff)
  moreover have "genuine sha tool x" using x by (auto simp: genuine_def redact_candidate_def)
  ultimately show ?thesis by (auto simp: well_numbered_def)
qed

lemma add_sources_steps:
  assumes "add_sources sha nfkc unescape tool now cs ss = Inr ss'"
  shows "(well_numbered ss \<longrightarrow> well_numbered ss')
    \<and> (\<exists>xs. ss' = ss @ xs \<and> list_all (genuine sha tool) xs)
    \<and> list_all (\<lambda>c. list_all valid_cp (sc_content (redact_candidate c))
        \<and> identity_of sha (redact_candidate c) \<in> sc_identity ` set ss') cs"
  using assms
proof (induction cs arbitrary: ss)
  case (Cons c cs)
  then obtain s1 where s1: "add_source sha nfkc unescape tool now c ss = Inr s1"
    "add_sources sha nfkc unescape tool now cs s1 = Inr ss'" by (auto simp: bind_simps)
  show ?case using add_source_step [OF s1(1)] Cons.IH [OF s1(2)] by auto
qed simp

lemma add_source_known:
  "list_all valid_cp (sc_content (redact_candidate c)) \<Longrightarrow> identity_of sha (redact_candidate c) \<in> sc_identity ` set ss \<Longrightarrow>
     add_source sha nfkc unescape tool now c ss = Inr ss"
  by (auto simp: add_source_def Let_def encode_text_def list_ex_iff)

lemma add_sources_known:
  "list_all (\<lambda>c. list_all valid_cp (sc_content (redact_candidate c))
      \<and> identity_of sha (redact_candidate c) \<in> sc_identity ` set ss) cs \<Longrightarrow>
     add_sources sha nfkc unescape tool now cs ss = Inr ss"
  by (induction cs) (auto simp: add_source_known)


definition example_output :: json where
  "example_output = JObj [(u ''results'', JList [JObj [(u ''url'', JStr (u ''https://a.org/x'')), (u ''text'', JStr (u ''hi''))]])]"

lemma example_capture:
  "(case capture (\<lambda>_. ''h'') id id (\<lambda>_. None) (u ''web_search'') example_output 0 [] of
      Inr (ss, new) \<Rightarrow> new = ss \<and> map sc_site ss = [u ''a.org''] \<and> map evidence_id ss = [u ''E1''] | Inl _ \<Rightarrow> False)"
  by code_simp


lemma register_cases:
  assumes "register sha run bytes name kind evidence now arts = Inr (arts', a)"
  obtains (same) bs where "bytes name = Some bs" "first_such (\<lambda>a. at_path a = name) arts = Some a" "at_hash a = sha bs"
      "arts' = arts"
    | (new) bs where "bytes name = Some bs" "arts' = filter (\<lambda>a. at_path a \<noteq> name) arts @ [a]" "at_path a = name"
      "at_hash a = sha bs" "at_previous a = map_option at_hash (first_such (\<lambda>a. at_path a = name) arts)"
  using assms unfolding register_def Let_def bind_simps by (auto split: option.splits if_splits)

lemma register_path: "register sha run bytes name kind evidence now arts = Inr r \<Longrightarrow> \<exists>p. artifact_path run name = Inr p"
  by (auto simp: register_def bind_simps)

lemma register_again:
  assumes "register sha run bytes name kind evidence now arts = Inr (arts', a)"
  shows "register sha run bytes name kind' evidence' later arts' = Inr (arts', a)"
proof -
  obtain p where p: "artifact_path run name = Inr p" using register_path [OF assms] by blast
  from assms show ?thesis
  proof (cases rule: register_cases)
    case (same bs)
    then show ?thesis using p by (simp add: register_def)
  next
    case (new bs)
    have "first_such (\<lambda>a. at_path a = name) (filter (\<lambda>a. at_path a \<noteq> name) arts) = None"
      by (simp add: first_such_None_iff)
    then show ?thesis using p new by (simp add: register_def first_such_append)
  qed
qed

text \<open>
  Registering a file: the paths of the registry stay distinct, the file's entry has the hash of its
  content, and a changed file's entry names the hash of the version before.
\<close>

lemma register_replaces:
  assumes "distinct (map at_path arts)" "register sha run bytes name kind evidence now arts = Inr (arts', a)"
  shows "distinct (map at_path arts') \<and> a \<in> set arts' \<and> at_path a = name \<and> bytes name \<noteq> None
    \<and> at_hash a = sha (the (bytes name))
    \<and> (\<forall>b\<in>set arts. at_path b = name \<and> b \<noteq> a \<longrightarrow> at_previous a = Some (at_hash b))
    \<and> filter (\<lambda>b. at_path b \<noteq> name) arts' = filter (\<lambda>b. at_path b \<noteq> name) arts"
  using assms(2)
proof (cases rule: register_cases)
  case (same bs)
  then show ?thesis using assms(1) first_such_Some [OF same(2)] by (auto simp: distinct_map inj_on_def)
next
  case (new bs)
  have "at_previous a = Some (at_hash b)" if "b \<in> set arts" "at_path b = name" for b
  proof (cases "first_such (\<lambda>a. at_path a = name) arts")
    case None
    then show ?thesis using that by (auto simp: first_such_None_iff)
  next
    case (Some c)
    then have "c = b" using that assms(1) first_such_Some [OF Some] by (auto simp: distinct_map inj_on_def)
    then show ?thesis using Some new(5) by simp
  qed
  moreover have "distinct (map at_path arts')" using assms(1) new(2,3) by (auto simp: distinct_map_filter)
  ultimately show ?thesis using new by simp
qed

end
