(* ===== verification/Agentic.thy ===== *)
theory Agentic
  imports Repo_Tools Evidence Store_Acts Goals Control Jobs Tool_Protocol Subagents
begin

text \<open>
  \<open>agentic.py\<close>: one run of the tool-using agent from its goal to its final status: the main pass, the
  wait for background jobs, the acceptance rounds, the synthesis pass without tools, verification with
  repairs, and the status that all of it adds up to. What a model does in a pass is a parameter that may
  change the whole task. A prompt is represented by the data it is made from. The native session of
  LightAgent, the browser and the presentation of tools are left out.
\<close>

subsection \<open>The task\<close>

datatype rstatus = RCreated | RPreparing | RRunningStatus | RSucceeded | RNeedsAttention | RFailed | RInterrupted
  | RPausedStatus | RWaitingInput | RWaitingApproval | RBudgetLimited | RCancelledStatus

record 'w task = "'w repo" +
  tk_status :: rstatus
  tk_error :: "pytext option"
  tk_step :: "pytext option"
  tk_verification :: "vresult list"
  tk_changes :: "bool option"  \<comment> \<open>\<open>metadata["has_changes"]\<close>\<close>
  tk_control :: "control option"
  tk_goal :: "goal option"
  tk_broker :: broker
  tk_jobs :: registry
  tk_calls :: nat  \<comment> \<open>\<open>catalog.call_count\<close>, counted from the start of the process\<close>
  tk_log :: "(string \<times> json) list"
  tk_trace :: "json list"
  tk_sources :: "source list"
  tk_artifacts :: "artifact list"
  tk_now :: time

record answer = agent_result +
  an_usage :: json
  an_seconds :: real

datatype pass =
    MainPass
  | RepairPass nat "vresult list"
  | AcceptancePass "vresult list"
  | JobsPass "job list" "source list"
  | SynthesisPass pytext pytext

type_synonym 'w model = "pass \<Rightarrow> ('w task, answer) act"

datatype mode = ModeAgentic | ModeCode | ModeMinimal | ModeRalph

record 'w setting =
  st_sandbox :: "'w sandbox"
  st_commands :: "vcommand list"
  st_objective :: pytext
  st_budget :: budget
  st_mode :: mode
  st_max_repairs :: nat
  st_ralph_rounds :: nat
  st_wait :: time
  st_poll :: "('w task, unit) act"  \<comment> \<open>a sleep of 0.2 seconds, while others go on\<close>
  st_alive :: "nat list"
  st_owner :: string
  st_pid :: nat
  st_lease :: time
  st_depth :: nat  \<comment> \<open>Python's recursion limit\<close>
  st_loads :: "pytext \<Rightarrow> json option"
  st_pretty :: "json \<Rightarrow> pytext"
  st_sha :: "int list \<Rightarrow> string"

subsection \<open>Small steps\<close>

definition emit :: "string \<Rightarrow> json \<Rightarrow> ('w task, unit) act" where
  "emit kind data s = (s\<lparr>tk_log := tk_log s @ [(kind, redact_value data)]\<rparr>, Inr ())"

definition set_goal_status :: "gstatus \<Rightarrow> pytext option \<Rightarrow> ('w task, unit) act" where
  "set_goal_status g reason = modify (\<lambda>s. bindE (update_goal_status (tk_goal s) g reason) (\<lambda>(d, _). Inr (s\<lparr>tk_goal := d\<rparr>)))"

definition use_goal :: "('w task \<Rightarrow> usage) \<Rightarrow> ('w task, unit) act" where
  "use_goal x = modify (\<lambda>s. bindE (add_usage (tk_goal s) (x s)) (\<lambda>(d, _). Inr (s\<lparr>tk_goal := d\<rparr>)))"

definition current_goal :: "('w task, goal) act" where
  "current_goal s = (s, load_goal (tk_goal s))"

definition failed_answer :: "answer \<Rightarrow> bool" where
  "failed_answer a = result_failed (agent_result.truncate a)"

definition model_requests :: "answer \<Rightarrow> int" where
  "model_requests a = int (length (filter (\<lambda>e. is_obj e \<and> field ''type'' e = JStr (u ''model_request'')) (ar_trace a)))"

definition used_tokens :: "answer \<Rightarrow> int result" where
  "used_tokens a = (if is_obj (an_usage a) then int_or (field ''total_tokens'' (an_usage a)) 0 else Inr 0)"

definition record_usage :: "answer \<Rightarrow> bool \<Rightarrow> ('w task, unit) act" where
  \<comment> \<open>the first pass also reports the calls that the catalog has counted\<close>
  "record_usage a first = bindA (liftA (used_tokens a)) (\<lambda>t.
     use_goal (\<lambda>s. \<lparr>us_turns = 1, us_tool_calls = (if first then int (tk_calls s) else 0),
       us_model_calls = model_requests a, us_tokens = t, us_seconds = an_seconds a\<rparr>))"

definition save_trace :: "answer \<Rightarrow> ('w task, unit) act" where
  "save_trace a s = (s\<lparr>tk_trace := map redact_value (ar_trace a)\<rparr>, Inr ())"

definition append_trace :: "answer \<Rightarrow> ('w task, unit) act" where
  "append_trace a s = (s\<lparr>tk_trace := tk_trace s @ map redact_value (ar_trace a)\<rparr>, Inr ())"

definition waiting_for_user :: "'w task \<Rightarrow> bool" where
  \<comment> \<open>\<open>approvals.pending()\<close>\<close>
  "waiting_for_user s \<longleftrightarrow> pending_requests (tk_broker s) \<noteq> []"

definition vresults_json :: "vresult list \<Rightarrow> json" where
  "vresults_json vs = JList (map vresult_json vs)"

subsection \<open>Background jobs\<close>

definition busy :: "job \<Rightarrow> bool" where
  "busy j \<longleftrightarrow> j_kind j \<noteq> ''task'' \<and> j_status j \<in> {Running, Pending}"

definition own_jobs :: "'w task \<Rightarrow> job list" where
  "own_jobs s = filter (\<lambda>j. j_kind j \<noteq> ''task'') (dvals (r_jobs (tk_jobs s)))"

definition pause_for :: "string \<Rightarrow> ('w task, unit) act" where
  "pause_for why s = (s\<lparr>tk_control := fst (set_control (tk_control s) RPaused (u why) [])\<rparr>, Inr ())"

fun await_jobs :: "nat \<Rightarrow> 'w setting \<Rightarrow> time \<Rightarrow> ('w task, bool) act" where
  \<comment> \<open>whether all jobs have settled; the number bounds the rounds that fit before the deadline\<close>
  "await_jobs n st deadline =
     (\<lambda>s. let s = s\<lparr>tk_jobs := Jobs.recover (tk_jobs s) (st_alive st) (tk_now s)\<rparr>
          in if \<not> list_ex busy (dvals (r_jobs (tk_jobs s))) then (s, Inr True)
             else if blocking_reason (tk_control s) \<noteq> None \<or> waiting_for_user s then (s, Inr False)
             else if tk_now s > deadline \<or> n = 0
             then seqA (pause_for ''background work exceeded the configured wait budget'') (ret False) s
             else (case n of Suc m \<Rightarrow> seqA (st_poll st) (await_jobs m st deadline) s))"

declare await_jobs.simps [simp del]

definition rounds_until :: "time \<Rightarrow> nat" where
  "rounds_until wait = nat \<lceil>5 * wait\<rceil> + 2"

definition collect_jobs :: "'w setting \<Rightarrow> 'w model \<Rightarrow> answer \<Rightarrow> ('w task, answer) act" where
  "collect_jobs st run a =
     (\<lambda>s. bindA (await_jobs (rounds_until (st_wait st)) st (tk_now s + st_wait st)) (\<lambda>settled.
       if \<not> settled then ret a
       else (\<lambda>s. if own_jobs s = [] then (s, Inr a)
         else seqA (emit ''background_jobs_collected'' JNull)
           (if list_ex (\<lambda>j. j_status j \<in> {Paused, Interrupted}) (own_jobs s)
            then seqA (pause_for ''background work needs resume'') (ret a)
            else bindA (run (JobsPass (own_jobs s) (tk_sources s))) (\<lambda>b.
              seqA (append_trace b) (seqA (record_usage b False) (ret b)))) s)) s)"

subsection \<open>Acceptance rounds and the synthesis pass\<close>

definition goal_budget :: "('w task, string option) act" where
  "goal_budget = bindA current_goal (\<lambda>g. ret (exceeded_budget g))"

fun ralph :: "nat \<Rightarrow> 'w setting \<Rightarrow> 'w model \<Rightarrow> answer \<Rightarrow> ('w task, answer) act" where
  "ralph 0 st run a = ret a"
| "ralph (Suc n) st run a =
     (\<lambda>s. if blocking_reason (tk_control s) \<noteq> None \<or> waiting_for_user s then (s, Inr a)
       else bindA goal_budget (\<lambda>b. if b \<noteq> None then ret a
         else bindA (full_diff (st_sandbox st)) (\<lambda>d.
           bindA (if strip d \<noteq> [] then run_verification (st_sandbox st) (st_commands st) else ret []) (\<lambda>checks.
             if checks = [] \<or> list_all vr_passed checks then ret a
             else seqA (emit ''ralph_round'' (vresults_json checks))
               (bindA (run (AcceptancePass checks)) (\<lambda>a.
                 seqA (append_trace a) (seqA (record_usage (a\<lparr>an_seconds := 0\<rparr>) False) (ralph n st run a))))))) s)"

definition SELECTED_TOOLS :: "pytext list" where
  "SELECTED_TOOLS = map u [''web_search'', ''http_get'', ''http_request'', ''rag_search'', ''rag_read'',
     ''read_file'', ''search_text'']"

definition COMPACT_FIELDS :: "pytext list" where
  "COMPACT_FIELDS = map u [''query'', ''provider'', ''results'', ''status'', ''url'', ''content_type'', ''body'', ''path'',
     ''matches'', ''content'', ''citation'']"

definition spread :: "pytext \<Rightarrow> pytext" where
  \<comment> \<open>\<open>text.replace("<", " <")\<close>\<close>
  "spread t = concat (map (\<lambda>c. if c = 60 then [32, 60] else [c]) t)"

definition compact_evidence :: "json \<Rightarrow> json" where
  "compact_evidence v =
     (if \<not> is_obj v then JStr (take 3500 (py_str v))
      else JObj (map (\<lambda>(k, x).
          (k, if k = u ''results'' then (case x of JList xs \<Rightarrow> JList (take 8 xs) | _ \<Rightarrow> x)
              else if k \<in> {u ''body'', u ''content'', u ''matches''}
              then JStr (take 5000 (join [32] (split_ws (spread (py_str x))))) else x))
        (filter (\<lambda>(k, _). k \<in> set COMPACT_FIELDS) (entries v))))"

fun recovery_values :: "(pytext \<Rightarrow> json option) \<Rightarrow> pytext list \<Rightarrow> json list \<Rightarrow> (string \<times> json) list \<Rightarrow> json list" where
  \<comment> \<open>the failures seen, the values so far, the events\<close>
  "recovery_values loads seen vs [] = vs"
| "recovery_values loads seen vs ((kind, d) # es) =
     (let tool = str_or (field ''tool'' d) []; output = str_or (field ''output'' d) []
      in if kind \<noteq> ''tool_completed'' \<or> tool \<notin> set SELECTED_TOOLS then recovery_values loads seen vs es
         else (let p = (case loads output of None \<Rightarrow> JStr output | Some w \<Rightarrow> w)
               in if is_obj p \<and> field ''ok'' p = JBool False
                  then (let err = py_str (or_else (field ''error'' p) (JStr (u ''HTTP status '' @ py_str (field ''status'' p))));
                            fp = tool @ 58 # err
                        in if fp \<in> set seen then recovery_values loads seen vs es
                           else (let vs = vs @ [obj [(''tool'', JStr tool), (''ok'', JBool False), (''error'', JStr err),
                                        (''url'', field ''url'' p)]]
                                 in if length vs \<ge> 16 then vs else recovery_values loads (fp # seen) vs es))
                  else (let vs = vs @ [obj [(''tool'', JStr tool), (''ok'', JBool True), (''evidence'', compact_evidence p)]]
                        in if length vs \<ge> 16 then vs else recovery_values loads seen vs es)))"

definition recovery_evidence :: "'w setting \<Rightarrow> 'w task \<Rightarrow> pytext" where
  \<comment> \<open>\<open>read(limit=500)\<close> returns the first events\<close>
  "recovery_evidence st s =
     (let t = st_pretty st (JList (recovery_values (st_loads st) [] [] (take 500 (tk_log s))))
      in if 48000 < int (length t) then take 48000 t else t)"

definition recover_final_answer :: "'w setting \<Rightarrow> 'w model \<Rightarrow> answer \<Rightarrow> ('w task, answer) act" where
  "recover_final_answer st run a =
     seqA (emit ''final_answer_recovery_started''
         (obj [(''reason'', JStr (if truthy_text (ar_error a) then the (ar_error a) else u ''tool loop exhausted''))]))
       (\<lambda>s. bindA (full_diff (st_sandbox st)) (\<lambda>d.
         bindA (run (SynthesisPass (recovery_evidence st s) (if 12000 < int (length d) then take 12000 d else d))) (\<lambda>b.
           seqA (append_trace b) (seqA (record_usage b False)
             (seqA (emit ''final_answer_recovery_completed'' (obj [(''valid'', JBool (\<not> failed_answer b))])) (ret b))))) s)"

subsection \<open>Verification and repair\<close>

definition verify :: "'w setting \<Rightarrow> nat \<Rightarrow> ('w task, vresult list) act" where
  "verify st n = bindA (run_verification (st_sandbox st) (st_commands st)) (\<lambda>vs.
     seqA (emit ''verification_completed'' (obj [(''round'', JInt (int n)), (''results'', vresults_json vs)])) (ret vs))"

fun repairs :: "nat \<Rightarrow> nat \<Rightarrow> 'w setting \<Rightarrow> 'w model \<Rightarrow> vresult list \<Rightarrow> ('w task, vresult list) act" where
  \<comment> \<open>the attempts left and the number of the next one\<close>
  "repairs 0 k st run vs = ret vs"
| "repairs (Suc n) k st run vs =
     (if vs = [] \<or> satisfied vs then ret vs
      else bindA (run (RepairPass k vs)) (\<lambda>a.
        seqA (append_trace a) (seqA (record_usage a False)
          (\<lambda>s. if waiting_for_user s then (s, Inr vs)
            else bindA (verify st (k + 1)) (repairs n (k + 1) st run) s))))"

definition count_calls :: "('w task, unit) act" where
  "count_calls = bindA current_goal (\<lambda>g. use_goal (\<lambda>s. no_usage\<lparr>us_tool_calls :=
     max 0 (int (tk_calls s) - us_tool_calls (g_usage g))\<rparr>))"

definition verify_and_repair :: "'w setting \<Rightarrow> 'w model \<Rightarrow> ('w task, vresult list) act" where
  "verify_and_repair st run =
     bindA (verify st 1) (\<lambda>vs. bindA (repairs (st_max_repairs st) 1 st run vs) (\<lambda>vs. seqA count_calls (ret vs)))"

subsection \<open>The end of a run\<close>

definition CODE_SUFFIXES :: "pytext list" where
  "CODE_SUFFIXES = map u [''.c'', ''.cc'', ''.cpp'', ''.cs'', ''.go'', ''.h'', ''.hpp'', ''.java'', ''.js'', ''.jsx'',
     ''.kt'', ''.php'', ''.py'', ''.rb'', ''.rs'', ''.sh'', ''.sql'', ''.swift'', ''.ts'', ''.tsx'', ''.vue'']"

definition requires_verification :: "pytext \<Rightarrow> bool" where
  "requires_verification d \<longleftrightarrow> list_ex (\<lambda>l. starts_with (u ''+++ b/'') l
     \<and> lower (path_suffix (drop 6 l)) \<in> set CODE_SUFFIXES) (splitlines d)"

definition final_status ::
  "rstate \<Rightarrow> string option \<Rightarrow> answer \<Rightarrow> pytext \<Rightarrow> vresult list \<Rightarrow> rstatus \<times> pytext option \<times> gstatus \<times> pytext option" where
  \<comment> \<open>the status and error of the record, the status and reason of the goal\<close>
  "final_status c budget a d vs =
     (let err = (if truthy_text (ar_error a) then the (ar_error a)
                 else if failed_answer a then u ''agent did not produce a valid final response'' else [])
      in if c = RCancelled
         then (RCancelledStatus, Some (u ''task cancelled by user''), GCancelled, Some (u ''task cancelled by user''))
         else if c = RPaused
         then (RPausedStatus, Some (u ''task paused by user''), GPaused, Some (u ''task paused by user''))
         else if budget \<noteq> None \<and> failed_answer a
         then (RBudgetLimited, Some (u (the budget)), GBudgetLimited, Some (u (the budget)))
         else if err \<noteq> [] then (RFailed, Some err, GFailed, Some err)
         else if strip d = [] then (RSucceeded, None, GCompleted, None)
         else if vs \<noteq> [] \<and> satisfied vs then (RSucceeded, None, GCompleted, None)
         else if vs = [] \<and> \<not> requires_verification d then (RSucceeded, None, GCompleted, None)
         else (RNeedsAttention, Some (u ''verification failed or was not configured for code changes''), GWaitingInput,
           Some (u ''verification failed or was not configured for code changes'')))"

definition verification_line :: "vresult \<Rightarrow> pytext" where
  "verification_line v = u ''- '' @ vr_name v @ u '': '' @ (if vr_passed v then u ''passed'' else u ''failed'')
     @ u '' (exit '' @ int_repr (vr_exit v) @ u '', log `'' @ vr_log v @ u ''`)''"

definition summary_text :: "answer \<Rightarrow> pytext \<Rightarrow> vresult list \<Rightarrow> pytext" where
  "summary_text a d vs =
     strip (ar_content a @ (if strip d = [] then [] else
       [10, 10] @ u ''## Verification / '' @ [39564, 35777, 10] @
         (if vs = [] then u ''- No deterministic verification was configured. / ''
              @ [26410, 37197, 32622, 30830, 23450, 24615, 39564, 35777, 12290]
          else join [10] (map verification_line vs)))) @ [10]"

definition ok_value :: "string \<Rightarrow> json \<Rightarrow> pytext" where
  "ok_value key v = (if is_obj v then str_or (field key v) [] else [])"

definition save_status :: "'w setting \<Rightarrow> ('w task, unit) act" where
  "save_status st = bindA (git_status (st_sandbox st)) (\<lambda>v. put_artifact (u ''git-status.txt'') (ok_value ''status'' v))"

definition file_bytes :: "'w task \<Rightarrow> pytext \<Rightarrow> int list option" where
  \<comment> \<open>what was written last under this name\<close>
  "file_bytes s name = map_option (\<lambda>f. utf8 (snd f)) (first_such (\<lambda>f. fst f = name) (rev (rp_artifacts s)))"

definition register_file :: "'w setting \<Rightarrow> pytext \<Rightarrow> string \<Rightarrow> pytext list \<Rightarrow> ('w task, unit) act" where
  "register_file st name kind evidence = modify (\<lambda>s.
     bindE (register (st_sha st) (rp_run s) (file_bytes s) name kind evidence (tk_now s) (tk_artifacts s)) (\<lambda>(arts, _).
       Inr (s\<lparr>tk_artifacts := arts\<rparr>)))"

definition register_results :: "'w setting \<Rightarrow> pytext \<Rightarrow> ('w task, unit) act" where
  "register_results st d = (\<lambda>s. seqA (register_file st (u ''summary.md'') ''answer'' (map evidence_id (tk_sources s)))
     (if strip d \<noteq> [] then register_file st (u ''changes.patch'') ''diff'' [] else ret ()) s)"

definition conclude :: "answer \<Rightarrow> pytext \<Rightarrow> vresult list \<Rightarrow> string option \<Rightarrow> ('w task, unit) act" where
  "conclude a d vs b =
     (\<lambda>s. case final_status (c_state (control_state (tk_control s))) b a d vs of (status, err, g, reason) \<Rightarrow>
        seqA (set_goal_status g reason)
          (\<lambda>s. (s\<lparr>tk_status := status, tk_error := err, tk_step := None, tk_verification := vs,
                   tk_changes := Some (strip d \<noteq> []),
                   tk_log := tk_log s @ [(''agentic_run_completed'', JNull)]\<rparr>, Inr ())) s)"

definition finalize :: "'w setting \<Rightarrow> answer \<Rightarrow> pytext \<Rightarrow> vresult list \<Rightarrow> ('w task, unit) act" where
  "finalize st a d vs =
     seqA (put_artifact (u ''changes.patch'') d)
     (seqA (save_status st)
     (seqA (put_artifact (u ''summary.md'') (summary_text a d vs))
     (seqA (register_results st d)
     (bindA goal_budget (conclude a d vs)))))"

definition request_line :: "request \<Rightarrow> pytext" where
  "request_line r = u ''- '' @ rq_tool r @ u '': '' @ rq_reason r"

definition waiting_summary :: "answer \<Rightarrow> request list \<Rightarrow> pytext" where
  "waiting_summary a rs = strip (rstrip (ar_content a) @ [10, 10]
     @ [20219, 21153, 27491, 22312, 31561, 24453, 24037, 20855, 23457, 25209] @ u '' / Waiting for tool approval:'' @ [10]
     @ join [10] (map request_line rs)) @ [10]"

definition wait_for_approval :: "'w setting \<Rightarrow> answer \<Rightarrow> ('w task, unit) act" where
  "wait_for_approval st a =
     (\<lambda>s. let rs = pending_requests (tk_broker s)
          in seqA (put_artifact (u ''summary.md'') (waiting_summary a rs))
             (bindA (full_diff (st_sandbox st)) (\<lambda>d.
               seqA (if strip d \<noteq> [] then seqA (put_artifact (u ''changes.patch'') d) (save_status st) else ret ())
               (seqA (set_goal_status GWaitingApproval (Some (u ''exact tool approval required'')))
                 (\<lambda>s. (s\<lparr>tk_status := RWaitingApproval, tk_step := Some (u ''approval:'' @ u (rq_id (hd rs))),
                          tk_error := Some ([31561, 24453, 29992, 25143, 23457, 25209] @ u '' / waiting for user approval''),
                          tk_changes := Some (strip d \<noteq> []),
                          tk_log := tk_log s @ [(''agentic_run_waiting_approval'', JNull)]\<rparr>, Inr ()))))) s)"

subsection \<open>A run\<close>

definition settle :: "'w setting \<Rightarrow> 'w model \<Rightarrow> answer \<Rightarrow> ('w task, unit) act" where
  \<comment> \<open>from the workspace's diff to the final status\<close>
  "settle st run a =
     bindA (full_diff (st_sandbox st)) (\<lambda>d.
       if strip d = [] then finalize st a d []
       else bindA (verify_and_repair st run) (\<lambda>vs. \<lambda>s.
         if waiting_for_user s then wait_for_approval st a s
         else bindA (full_diff (st_sandbox st)) (\<lambda>d. finalize st a d vs) s))"

definition may_recover :: "answer \<Rightarrow> string option \<Rightarrow> 'w task \<Rightarrow> bool" where
  "may_recover a b s \<longleftrightarrow> failed_answer a \<and> c_state (control_state (tk_control s)) = RRunning
     \<and> b \<in> {None, Some ''tool_calls''}"

definition body :: "'w setting \<Rightarrow> 'w model \<Rightarrow> ('w task, unit) act" where
  "body st run =
     bindA (run MainPass) (\<lambda>a. seqA (save_trace a) (seqA (record_usage a True)
     (bindA (collect_jobs st run a) (\<lambda>a.
     bindA (if st_mode st = ModeRalph then ralph (st_ralph_rounds st - 1) st run a else ret a) (\<lambda>a. \<lambda>s.
       if waiting_for_user s then wait_for_approval st a s
       else bindA goal_budget (\<lambda>b. \<lambda>s.
         bindA (if may_recover a b s then recover_final_answer st run a else ret a) (settle st run) s) s)))))"

fun pause_each :: "'w setting \<Rightarrow> job list \<Rightarrow> ('w task, unit) act" where
  "pause_each st [] = ret ()"
| "pause_each st (j # js) =
     seqA (if busy j then modify (\<lambda>s. bindE (control (st_depth st) (tk_jobs s) (st_owner st) (j_id j) ''pause''
             (st_pid st) (st_lease st) (tk_now s)) (\<lambda>r. Inr (s\<lparr>tk_jobs := r\<rparr>))) else ret ())
       (pause_each st js)"

definition cleanup :: "'w setting \<Rightarrow> ('w task, unit) act" where
  \<comment> \<open>the \<open>finally\<close> block: running jobs are paused, the handlers of the process go\<close>
  "cleanup st = (\<lambda>s. seqA (pause_each st (dvals (r_jobs (tk_jobs s))))
     (\<lambda>s. (s\<lparr>tk_jobs := (tk_jobs s)\<lparr>r_handlers := []\<rparr>\<rparr>, Inr ())) s)"

definition CRITERIA :: "pytext list" where
  "CRITERIA = [u ''Complete the user's requested outcome with tool-grounded evidence.'']"

definition begin_run :: "'w setting \<Rightarrow> ('w task, bool) act" where
  \<comment> \<open>whether the run may go on; a paused or cancelled one ends here\<close>
  "begin_run st =
     (\<lambda>s. let s = s\<lparr>tk_goal := fst (create_goal (tk_goal s) (rp_run s) (st_objective st) CRITERIA (Some (st_budget st)))\<rparr>
          in case blocking_reason (tk_control s) of
               None \<Rightarrow> seqA (emit ''agentic_run_started'' JNull) (ret True) s
             | Some why \<Rightarrow>
                 (let gone = (c_state (control_state (tk_control s)) = RCancelled);
                      s = s\<lparr>tk_status := if gone then RCancelledStatus else RPausedStatus, tk_error := Some why\<rparr>
                  in seqA (set_goal_status (if gone then GCancelled else GPaused) (Some why)) (ret False) s))"

definition run_task :: "'w setting \<Rightarrow> 'w model \<Rightarrow> ('w task, unit) act" where
  "run_task st run = bindA (begin_run st) (\<lambda>go. if go then finallyA (body st run) (cleanup st) else ret ())"

subsection \<open>What a verification was run on\<close>

definition verified_at :: "'w setting \<Rightarrow> 'w \<Rightarrow> vresult list \<Rightarrow> bool" where
  \<comment> \<open>the results come from a round of the configured commands that ended in this world\<close>
  "verified_at st w vs \<longleftrightarrow> (\<exists>s s' :: 'w task. run_verification (st_sandbox st) (st_commands st) s = (s', Inr vs) \<and> rp_world s' = w)"

definition reads_diff :: "'w setting \<Rightarrow> 'w \<Rightarrow> pytext \<Rightarrow> bool" where
  \<comment> \<open>the diff is what the sandbox answers in this world\<close>
  "reads_diff st w d \<longleftrightarrow> (\<exists>s s' :: 'w task. rp_world s = w \<and> full_diff (st_sandbox st) s = (s', Inr d))"

lemma emit_eq [act_simps]: "emit kind d s = (s', r) \<longleftrightarrow> r = Inr () \<and> s' = s\<lparr>tk_log := tk_log s @ [(kind, redact_value d)]\<rparr>"
  by (auto simp: emit_def)

lemma current_goal_eq [act_simps]: "current_goal s = (s', r) \<longleftrightarrow> s' = s \<and> r = load_goal (tk_goal s)"
  by (auto simp: current_goal_def)

lemma use_goal_fields:
  "use_goal x s = (s', r) \<Longrightarrow> rp_world s' = rp_world s \<and> tk_broker s' = tk_broker s"
  by (auto simp: use_goal_def act_simps bind_simps)

lemma record_usage_fields:
  "record_usage a b s = (s', r) \<Longrightarrow> rp_world s' = rp_world s \<and> tk_broker s' = tk_broker s"
  by (auto simp: record_usage_def act_simps dest!: use_goal_fields)

lemma count_calls_fields:
  "count_calls s = (s', r) \<Longrightarrow> rp_world s' = rp_world s \<and> tk_broker s' = tk_broker s"
  by (auto simp: count_calls_def act_simps dest!: use_goal_fields)

lemma goal_budget_fields: "goal_budget s = (s', r) \<Longrightarrow> s' = s"
  by (auto simp: goal_budget_def act_simps)

lemma goal_budget_then:
  "bindA goal_budget k s = (s', Inr x) \<Longrightarrow> \<exists>b. k b s = (s', Inr x)"
  by (auto simp: bindA_eq dest!: goal_budget_fields)

lemma verify_verified:
  assumes "verify st n s = (s', Inr vs)"
  shows "verified_at st (rp_world s') vs"
  using assms unfolding verified_at_def by (fastforce simp: verify_def act_simps)

lemma repairs_verified:
  "repairs n k st run vs s = (s', Inr vs') \<Longrightarrow> verified_at st (rp_world s) vs \<Longrightarrow>
     waiting_for_user s' \<or> verified_at st (rp_world s') vs'"
proof (induction n arbitrary: k vs s)
  case (Suc n)
  show ?case
  proof (cases "vs = [] \<or> satisfied vs")
    case True
    then show ?thesis using Suc.prems by (simp add: ret_def)
  next
    case False
    obtain s1 where s1: "(if waiting_for_user s1 then (s1, Inr vs) else bindA (verify st (k + 1)) (repairs n (k + 1) st run) s1) = (s', Inr vs')"
      using Suc.prems(1) False by (auto simp: act_simps)
    show ?thesis
    proof (cases "waiting_for_user s1")
      case True
      then show ?thesis using s1 by simp
    next
      case False
      then obtain s2 ws where "verify st (k + 1) s1 = (s2, Inr ws)" "repairs n (k + 1) st run ws s2 = (s', Inr vs')"
        using s1 by (auto simp: act_simps)
      then show ?thesis using Suc.IH verify_verified by blast
    qed
  qed
qed (simp add: ret_def)

lemma verify_and_repair_verified:
  assumes "verify_and_repair st run s = (s', Inr vs)"
  shows "waiting_for_user s' \<or> verified_at st (rp_world s') vs"
proof -
  obtain s1 ws s2 where s1: "verify st 1 s = (s1, Inr ws)" "repairs (st_max_repairs st) 1 st run ws s1 = (s2, Inr vs)"
    "count_calls s2 = (s', Inr ())"
    using assms by (auto simp: verify_and_repair_def act_simps)
  show ?thesis
    using repairs_verified [OF s1(2) verify_verified [OF s1(1)]] count_calls_fields [OF s1(3)]
    by (auto simp: waiting_for_user_def)
qed

subsection \<open>What the final status says\<close>

lemma final_status_succeeded:
  assumes "final_status c b a d vs = (RSucceeded, err, g, reason)"
  shows "c = RRunning \<and> \<not> failed_answer a \<and> (strip d = [] \<or> (if vs = [] then \<not> requires_verification d else satisfied vs))"
  using assms by (cases c) (auto simp: final_status_def Let_def u_def truthy_text_def split: if_splits)

lemma put_artifact_eq:
  "put_artifact name t s = (s', Inr ()) \<Longrightarrow> s' = s\<lparr>rp_artifacts := rp_artifacts s @ [(name, t)]\<rparr>"
  by (auto simp: put_artifact_def split: sum.splits)

lemma git_status_artifacts: "git_status sb s = (s', r) \<Longrightarrow> rp_artifacts s' = rp_artifacts s"
  by (auto simp: git_status_def repo_tool_def call_sandbox_def on_world_def act_simps split: prod.splits)

lemma save_status_artifacts: "save_status st s = (s', Inr ()) \<Longrightarrow> set (rp_artifacts s) \<subseteq> set (rp_artifacts s')"
  by (auto simp: save_status_def act_simps dest!: put_artifact_eq git_status_artifacts)

lemma register_results_artifacts: "register_results st d s = (s', r) \<Longrightarrow> rp_artifacts s' = rp_artifacts s"
  by (auto simp: register_results_def register_file_def act_simps bind_simps split: if_splits)

definition concluded :: "'w setting \<Rightarrow> answer \<Rightarrow> pytext \<Rightarrow> vresult list \<Rightarrow> 'w task \<Rightarrow> bool" where
  "concluded st a d vs s \<longleftrightarrow> (\<exists>c b err g reason. final_status c b a d vs = (tk_status s, err, g, reason))
     \<and> tk_verification s = vs \<and> (u ''changes.patch'', d) \<in> set (rp_artifacts s)"

lemma finalize_concludes:
  assumes "finalize st a d vs s = (s', Inr ())"
  shows "concluded st a d vs s'"
proof -
  define c where "c = u ''changes.patch''"
  obtain s1 s2 s3 s4 b where s: "put_artifact c d s = (s1, Inr ())" "save_status st s1 = (s2, Inr ())"
    "put_artifact (u ''summary.md'') (summary_text a d vs) s2 = (s3, Inr ())" "register_results st d s3 = (s4, Inr ())"
    "conclude a d vs b s4 = (s', Inr ())"
    using assms unfolding finalize_def c_def [symmetric]
    by (auto simp: seqA_eq simp del: u_Nil dest!: goal_budget_then)
  obtain status err g reason where f: "final_status (c_state (control_state (tk_control s4))) b a d vs = (status, err, g, reason)"
    using prod_cases4 by blast
  obtain s5 where s5: "set_goal_status g reason s4 = (s5, Inr ())"
    "s' = s5\<lparr>tk_status := status, tk_error := err, tk_step := None, tk_verification := vs,
       tk_changes := Some (strip d \<noteq> []), tk_log := tk_log s5 @ [(''agentic_run_completed'', JNull)]\<rparr>"
    using s(5) f by (auto simp: conclude_def act_simps)
  have "rp_artifacts s5 = rp_artifacts s4" using s5(1) by (auto simp: set_goal_status_def act_simps bind_simps)
  moreover have "rp_artifacts s4 = rp_artifacts s3" using s(4) by (rule register_results_artifacts)
  moreover have "(c, d) \<in> set (rp_artifacts s3)"
    using put_artifact_eq [OF s(1)] save_status_artifacts [OF s(2)] put_artifact_eq [OF s(3)] by auto
  ultimately show ?thesis using f s5(2) unfolding concluded_def c_def [symmetric] by simp blast
qed

lemma wait_for_approval_status: "wait_for_approval st a s = (s', Inr ()) \<Longrightarrow> tk_status s' = RWaitingApproval"
  by (auto simp: wait_for_approval_def act_simps Let_def)

definition well_founded :: "'w setting \<Rightarrow> 'w task \<Rightarrow> bool" where
  \<comment> \<open>a valid answer, and a diff that is empty, or was verified as it is, or needs no verification\<close>
  "well_founded st s \<longleftrightarrow> (\<exists>a d w. \<not> failed_answer a \<and> reads_diff st w d \<and> (u ''changes.patch'', d) \<in> set (rp_artifacts s)
     \<and> (strip d = [] \<or> (verified_at st w (tk_verification s)
          \<and> (if tk_verification s = [] then \<not> requires_verification d else satisfied (tk_verification s)))))"

lemma concluded_well_founded:
  assumes "concluded st a d vs s" "tk_status s = RSucceeded" "reads_diff st w d" "strip d = [] \<or> verified_at st w vs"
  shows "well_founded st s"
  using assms final_status_succeeded unfolding concluded_def well_founded_def by metis

lemma settle_well_founded:
  assumes "settle st run a s = (s', Inr ())" "tk_status s' = RSucceeded"
  shows "well_founded st s'"
proof -
  obtain s1 d where d: "full_diff (st_sandbox st) s = (s1, Inr d)"
    "(if strip d = [] then finalize st a d [] s1
       else bindA (verify_and_repair st run) (\<lambda>vs. \<lambda>s.
         if waiting_for_user s then wait_for_approval st a s
         else bindA (full_diff (st_sandbox st)) (\<lambda>d. finalize st a d vs) s) s1) = (s', Inr ())"
    using assms(1) by (auto simp: settle_def act_simps split: if_splits)
  show ?thesis
  proof (cases "strip d = []")
    case True
    then have "concluded st a d [] s'" using d(2) finalize_concludes by auto
    moreover have "reads_diff st (rp_world s) d" using d(1) unfolding reads_diff_def by blast
    ultimately show ?thesis using concluded_well_founded [of st a d "[]" s' "rp_world s"] assms(2) True by simp
  next
    case False
    obtain s2 vs where 2: "verify_and_repair st run s1 = (s2, Inr vs)"
      "(if waiting_for_user s2 then wait_for_approval st a s2
         else bindA (full_diff (st_sandbox st)) (\<lambda>d. finalize st a d vs) s2) = (s', Inr ())"
      using d(2) False by (auto simp: act_simps)
    then have nw: "\<not> waiting_for_user s2" using wait_for_approval_status [of st a s2 s'] assms(2) by auto
    then obtain s3 e where 3: "full_diff (st_sandbox st) s2 = (s3, Inr e)" "finalize st a e vs s3 = (s', Inr ())"
      using 2(2) by (auto simp: act_simps)
    have "reads_diff st (rp_world s2) e" using 3(1) unfolding reads_diff_def by blast
    moreover have "verified_at st (rp_world s2) vs" using verify_and_repair_verified [OF 2(1)] nw by simp
    ultimately show ?thesis using concluded_well_founded [OF finalize_concludes [OF 3(2)] assms(2)] by blast
  qed
qed

lemma body_well_founded:
  assumes "body st run s = (s', Inr ())" "tk_status s' = RSucceeded"
  shows "well_founded st s'"
proof -
  obtain s1 a where 1: "(if waiting_for_user s1 then wait_for_approval st a s1
       else bindA goal_budget (\<lambda>b. \<lambda>s.
         bindA (if may_recover a b s then recover_final_answer st run a else ret a) (settle st run) s) s1) = (s', Inr ())"
    using assms(1) unfolding body_def by (simp only: bindA_eq seqA_eq sum.inject) blast
  then have nw: "\<not> waiting_for_user s1" using wait_for_approval_status [of st a s1 s'] assms(2) by auto
  then obtain s2 b where "settle st run b s2 = (s', Inr ())" using 1 by (auto simp: act_simps)
  then show ?thesis using settle_well_founded assms(2) by blast
qed

lemma pause_each_fields:
  "pause_each st js s = (s', r) \<Longrightarrow> tk_status s' = tk_status s \<and> rp_artifacts s' = rp_artifacts s
     \<and> tk_verification s' = tk_verification s"
proof (induction js arbitrary: s)
  case (Cons j js)
  show ?case using Cons.prems by (auto simp: act_simps bind_simps dest!: Cons.IH split: if_splits)
qed (simp add: act_simps)

lemma cleanup_fields:
  "cleanup st s = (s', r) \<Longrightarrow> tk_status s' = tk_status s \<and> rp_artifacts s' = rp_artifacts s
     \<and> tk_verification s' = tk_verification s"
  by (auto simp: cleanup_def act_simps dest!: pause_each_fields)

lemma begin_run_status: "begin_run st s = (s', Inr False) \<Longrightarrow> tk_status s' \<in> {RCancelledStatus, RPausedStatus}"
  by (auto simp: begin_run_def set_goal_status_def act_simps bind_simps Let_def split: option.splits if_splits)

subsection \<open>The wait for background jobs\<close>

definition sleeps :: "'w setting \<Rightarrow> bool" where
  "sleeps st \<longleftrightarrow> (\<forall>s. tk_now s + 1 / 5 \<le> tk_now (fst (st_poll st s)))"

lemma await_jobs_enough:
  assumes "sleeps st"
  shows "deadline < tk_now s + real n / 5 \<Longrightarrow> n \<le> m \<Longrightarrow> await_jobs m st deadline s = await_jobs n st deadline s"
proof (induction n arbitrary: m s)
  case 0
  then show ?case by (simp add: await_jobs.simps [of m] await_jobs.simps [of 0] Let_def)
next
  case (Suc n)
  obtain k where m: "m = Suc k" "n \<le> k" using Suc.prems(2) by (cases m) auto
  define r where "r = s\<lparr>tk_jobs := Jobs.recover (tk_jobs s) (st_alive st) (tk_now s)\<rparr>"
  have "tk_now r + 1 / 5 \<le> tk_now (fst (st_poll st r))" using assms unfolding sleeps_def by blast
  then have "tk_now s + 1 / 5 \<le> tk_now (fst (st_poll st r))" by (simp add: r_def)
  then have "deadline < tk_now (fst (st_poll st r)) + real n / 5" using Suc.prems(1) by (simp add: add_divide_distrib)
  then have "await_jobs k st deadline (fst (st_poll st r)) = await_jobs n st deadline (fst (st_poll st r))"
    using Suc.IH m(2) by blast
  then have "seqA (st_poll st) (await_jobs k st deadline) r = seqA (st_poll st) (await_jobs n st deadline) r"
    by (cases "st_poll st r"; cases "snd (st_poll st r)") (auto simp: seqA_def bindA_def)
  then show ?case unfolding m(1) by (simp add: await_jobs.simps [of "Suc _"] r_def [symmetric] Let_def)
qed

subsection \<open>Properties\<close>


text \<open>
  Waiting for background jobs ends: the rounds that the model allows are as many as fit before the
  deadline, so allowing more of them makes no difference.
\<close>

theorem background_wait_ends:
  assumes "sleeps st" and "rounds_until (st_wait st) \<le> n"
  shows "await_jobs n st (tk_now s + st_wait st) s = await_jobs (rounds_until (st_wait st)) st (tk_now s + st_wait st) s"
proof -
  have "5 * st_wait st \<le> real (nat \<lceil>5 * st_wait st\<rceil>)" by (rule real_nat_ceiling_ge)
  then have "tk_now s + st_wait st < tk_now s + real (rounds_until (st_wait st)) / 5"
    by (simp add: rounds_until_def)
  then show ?thesis using await_jobs_enough [OF assms(1)] assms(2) by blast
qed

text \<open>
  On a resumed run the catalog counts from zero while the goal keeps its usage, so the calls of the repair
  passes are not counted until the process has made more of them than all earlier ones together.
\<close>

lemma repair_calls_go_uncounted:
  assumes "tk_goal s = Some g" and "int (tk_calls s) \<le> us_tool_calls (g_usage g)"
  shows "\<exists>g'. tk_goal (fst (count_calls s)) = Some g' \<and> us_tool_calls (g_usage g') = us_tool_calls (g_usage g)"
  using assms by (auto simp: count_calls_def current_goal_def load_goal_def bindA_def use_goal_def modify_def add_usage_def
    Let_def no_usage_def stored_goal_def)

text \<open>
  A diff that only deletes a code file names it in no line that is looked at, so that without configured
  commands a run with such a diff succeeds unverified.
\<close>

lemma deletion_needs_no_verification:
  "\<not> requires_verification (join [10] [u ''diff --git a/x.py b/x.py'', u ''deleted file mode 100644'', u ''--- a/x.py'', u ''+++ /dev/null'',
     u ''@@ -1 +0,0 @@'', u ''-import os''])"
  by code_simp

subsection \<open>Examples\<close>

definition example_sandbox :: "'w sandbox" where
  "example_sandbox = \<lparr>sb_call = \<lambda>action params t. ret (if action = ''git_diff''
       then obj [(''ok'', JBool True), (''diff'', JStr (u ''+++ b/a.py''))]
       else obj [(''ok'', JBool True), (''exit_code'', JInt 0), (''status'', JStr (u ''M a.py''))]),
     sb_install = \<lambda>_. ret (obj []), sb_supports_write = True, sb_supports_shell = True\<rparr>"

definition example_setting :: "'w setting" where
  "example_setting = \<lparr>st_sandbox = example_sandbox,
     st_commands = [\<lparr>vc_name = u ''tests'', vc_kind = ''test'', vc_argv = [u ''pytest''], vc_timeout = 60, vc_required = True\<rparr>],
     st_objective = u ''fix it'', st_budget = default_budget, st_mode = ModeAgentic, st_max_repairs = 2,
     st_ralph_rounds = 3, st_wait = 0, st_poll = \<lambda>s. (s\<lparr>tk_now := tk_now s + 1\<rparr>, Inr ()), st_alive = [], st_owner = ''o'',
     st_pid = 7, st_lease = 60, st_depth = 5, st_loads = \<lambda>_. None, st_pretty = dumps_default, st_sha = (\<lambda>_. ''h'')\<rparr>"

definition example_task :: "unit task" where
  "example_task = \<lparr>rp_run = ''r'', rp_world = (), rp_round = 0, rp_artifacts = [], rp_installed = [],
     tk_status = RCreated, tk_error = None, tk_step = None, tk_verification = [], tk_changes = None, tk_control = None,
     tk_goal = None, tk_broker = empty_broker, tk_jobs = \<lparr>r_jobs = [], r_events = [], r_logs = [], r_handlers = []\<rparr>,
     tk_calls = 3, tk_log = [], tk_trace = [], tk_sources = [], tk_artifacts = [], tk_now = 0\<rparr>"

definition example_model :: "'w model" where
  "example_model p = ret \<lparr>ar_content = u ''done'', ar_error = None, ar_trace = [], an_usage = JNull, an_seconds = 1\<rparr>"

lemma example_run:
  "(case run_task example_setting example_model example_task of (s', r) \<Rightarrow> r = Inr () \<and> tk_status s' = RSucceeded
     \<and> list_all (\<lambda>v. vr_exit v = 0) (tk_verification s') \<and> length (tk_verification s') = 1)"
  by code_simp


theorem background_wait_ends_witness:
  "await_jobs 40 example_setting (tk_now example_task) example_task = await_jobs (rounds_until 0) example_setting (tk_now example_task) example_task"
proof -
  have "sleeps example_setting" by (simp add: sleeps_def example_setting_def)
  then show ?thesis using background_wait_ends [of example_setting 40 example_task]
    by (simp add: example_setting_def rounds_until_def)
qed

end
