(* ===== verification/Http_Tools.thy ===== *)
theory Http_Tools
  imports Py_Net Credentials
begin

text \<open>
  The HTTP tools of \<open>analysis_tools.py\<close>: requests are counted, URLs are checked before they are fetched,
  and a captured credential goes along with requests to its own host. The name resolution and the network
  are operations on a world; the presentation of HTML pages, the RSS parser and \<open>html.unescape\<close> are
  parameters. The requests that reach the network are recorded, with the addresses that their host had
  when the URL was checked; the record is not part of the program.
\<close>

subsection \<open>State\<close>

record web_request =
  wr_url :: pytext
  wr_method :: pytext
  wr_headers :: "(string \<times> pytext) list"
  wr_data :: "int list option"

record web_response =
  ws_status :: int
  ws_type :: pytext
  ws_body :: "int list"

record sent =
  sn_request :: web_request
  sn_addresses :: "pytext list"
  sn_vault :: vault

record 'w http =
  ht_world :: 'w
  ht_count :: nat
  ht_vault :: vault
  ht_files :: "(pytext \<times> pytext) list"
  ht_sent :: "sent list"

record rss_item =
  rs_title :: pytext
  rs_link :: pytext
  rs_description :: pytext
  rs_date :: pytext
  rs_source :: "(pytext \<times> pytext) option"  \<comment> \<open>the element's text and its \<open>url\<close>\<close>

record 'w web =
  wb_resolve :: "pytext \<Rightarrow> nat \<Rightarrow> ('w, pytext list) act"  \<comment> \<open>\<open>socket.getaddrinfo\<close>: the addresses\<close>
  wb_open :: "web_request \<Rightarrow> ('w, web_response) act"
    \<comment> \<open>\<open>opener.open\<close> without redirects, an \<open>HTTPError\<close> being a response too\<close>
  wb_nfkc :: "pytext \<Rightarrow> pytext"
  wb_simplify :: "nat \<Rightarrow> json \<Rightarrow> json"  \<comment> \<open>\<open>_simplify_html_result\<close> with the number of the request\<close>
  wb_unescape :: "pytext \<Rightarrow> pytext"
  wb_rss :: "pytext \<Rightarrow> rss_item list option"  \<comment> \<open>the items of a feed, \<open>None\<close> if it does not parse\<close>
  wb_pretty :: "json \<Rightarrow> pytext"

record http_config =
  hc_root :: pytext
  hc_allowed :: "pytext list"
  hc_max_requests :: nat
  hc_max_bytes :: nat
  hc_search_enabled :: bool
  hc_search_results :: nat

definition on_web :: "('w, 'a) act \<Rightarrow> ('w http, 'a) act" where
  "on_web f s = (case f (ht_world s) of (w, r) \<Rightarrow> (s\<lparr>ht_world := w\<rparr>, r))"

subsection \<open>Checking a URL\<close>

definition check_address :: "pytext \<Rightarrow> unit result" where
  "check_address a = bindE (ip_address a) (\<lambda>i.
     guardE (\<not> is_global i) (ValueError ''private or non-global network targets are forbidden'') (Inr ()))"

fun check_addresses :: "pytext list \<Rightarrow> unit result" where
  "check_addresses [] = Inr ()"
| "check_addresses (a # as) = bindE (check_address a) (\<lambda>_. check_addresses as)"

definition check_url :: "http_config \<Rightarrow> (pytext \<Rightarrow> pytext) \<Rightarrow> pytext \<Rightarrow> (url \<times> nat) result" where
  \<comment> \<open>up to the name resolution: the URL and its port\<close>
  "check_url cf nfkc t =
     guardE (4096 < length t) (ValueError ''URL is too long'')
     (bindE (urlsplit nfkc t) (\<lambda>x.
        guardE (ul_scheme x \<noteq> u ''https'' \<or> hostname x = []) (ValueError ''only public HTTPS URLs are allowed'')
       (guardE (fst (userinfo x) \<noteq> [] \<or> or_empty (snd (userinfo x)) \<noteq> []) (ValueError ''URL credentials are forbidden'')
       (guardE (hc_allowed cf \<noteq> [] \<and> lower (hostname x) \<notin> set (map lower (hc_allowed cf))) (ValueError ''host is not allowed'')
       (bindE (port x) (\<lambda>p. Inr (x, case p of None \<Rightarrow> 443 | Some n \<Rightarrow> if n = 0 then 443 else n)))))))"

definition target_url :: "url \<Rightarrow> json \<Rightarrow> pytext result" where
  "target_url x params =
     bindE (urlencode (parse_qsl (ul_query x) @ map (\<lambda>(k, v). (k, py_str v)) (entries params))) (\<lambda>q.
       Inr (urlunsplit (ul_scheme x) (ul_netloc x) (if ul_path x = [] then [47] else ul_path x) q))"

definition validated_url :: "http_config \<Rightarrow> 'w web \<Rightarrow> pytext \<Rightarrow> json \<Rightarrow> ('w http, pytext \<times> pytext list) act" where
  \<comment> \<open>with the addresses that were checked\<close>
  "validated_url cf wb t params =
     bindA (liftA (check_url cf (wb_nfkc wb) t)) (\<lambda>(x, p).
     bindA (on_web (wb_resolve wb (lower (hostname x)) p)) (\<lambda>as.
     bindA (liftA (check_addresses as)) (\<lambda>_.
     bindA (liftA (target_url x params)) (\<lambda>target. ret (target, as)))))"

subsection \<open>One request\<close>

definition upper_char :: "int \<Rightarrow> int" where
  "upper_char c = (if 97 \<le> c \<and> c \<le> 122 then c - 32 else c)"

definition upper :: "pytext \<Rightarrow> pytext" where
  "upper t = map upper_char t"

definition caught :: "exn \<Rightarrow> bool" where
  \<comment> \<open>\<open>except (ValueError, OSError, URLError)\<close>\<close>
  "caught e = (case e of ValueError _ \<Rightarrow> True | OSError _ \<Rightarrow> True | FileNotFoundError \<Rightarrow> True | FileExistsError _ \<Rightarrow> True
     | PermissionError _ \<Rightarrow> True | _ \<Rightarrow> False)"

definition error_text :: "exn \<Rightarrow> pytext" where
  "error_text e = (case e of ValueError m \<Rightarrow> u m | OSError m \<Rightarrow> u m | FileExistsError m \<Rightarrow> u m
     | PermissionError m \<Rightarrow> u m | _ \<Rightarrow> [])"

definition jobj :: "(string \<times> json) list \<Rightarrow> json" where
  "jobj kvs = JObj (map (\<lambda>(k, v). (u k, v)) kvs)"

definition build_request :: "pytext \<Rightarrow> pytext \<Rightarrow> json option \<Rightarrow> pytext option \<Rightarrow> web_request result" where
  \<comment> \<open>the verb, the target, the JSON body, the credential\<close>
  "build_request verb target body credential =
     bindE (case body of None \<Rightarrow> Inr None | Some v \<Rightarrow> bindE (encode_text (dumps_default v)) (\<lambda>bs. Inr (Some bs))) (\<lambda>payload.
       Inr \<lparr>wr_url = target, wr_method = verb,
         wr_headers = [(''Accept'', u ''application/json, text/plain;q=0.9, text/html;q=0.7''),
             (''User-Agent'', u ''LightWorker/0.1 analysis'')]
           @ (if body = None then [] else [(''Content-Type'', u ''application/json'')])
           @ (case credential of None \<Rightarrow> [] | Some k \<Rightarrow> [(''Authorization'', u ''Bearer '' @ k)]),
         wr_data = payload\<rparr>)"

definition send :: "'w web \<Rightarrow> pytext list \<Rightarrow> web_request \<Rightarrow> ('w http, web_response) act" where
  "send wb as r s = on_web (wb_open wb r) (s\<lparr>ht_sent := ht_sent s @ [\<lparr>sn_request = r, sn_addresses = as, sn_vault = ht_vault s\<rparr>]\<rparr>)"

definition response_json :: "http_config \<Rightarrow> pytext \<Rightarrow> pytext option \<Rightarrow> web_response \<Rightarrow> json" where
  \<comment> \<open>one byte more than the limit was read\<close>
  "response_json cf target credential r =
     (let raw = take (hc_max_bytes cf + 1) (ws_body r)
      in jobj [(''ok'', JBool (200 \<le> ws_status r \<and> ws_status r < 300)), (''status'', JInt (ws_status r)),
           (''url'', JStr target), (''content_type'', JStr (ws_type r)), (''credential_attached'', JBool (credential \<noteq> None)),
           (''truncated'', JBool (hc_max_bytes cf < length raw)),
           (''body'', JStr (redact_text (decode_replace (take (hc_max_bytes cf) raw))))])"

definition fetch :: "http_config \<Rightarrow> 'w web \<Rightarrow> pytext \<Rightarrow> pytext \<Rightarrow> json \<Rightarrow> json option \<Rightarrow> ('w http, json) act" where
  \<comment> \<open>the body of the \<open>try\<close>\<close>
  "fetch cf wb t m params body =
     bindA (validated_url cf wb t params) (\<lambda>(target, as).
     bindA (liftA (urlsplit (wb_nfkc wb) target)) (\<lambda>x.
     guardA (upper (strip m) \<noteq> u ''GET'' \<and> upper (strip m) \<noteq> u ''POST'') (ValueError ''only GET and POST are allowed'')
     (\<lambda>s. bindA (liftA (vault_get (ht_vault s) (hc_root cf) (hostname x))) (\<lambda>credential.
        bindA (liftA (build_request (upper (strip m)) target body credential)) (\<lambda>r.
        bindA (send wb as r) (\<lambda>rs. ret (response_json cf target credential rs)))) s)))"

definition audit :: "'w web \<Rightarrow> pytext \<Rightarrow> pytext \<Rightarrow> json \<Rightarrow> ('w http, unit) act" where
  "audit wb m t r s = (s\<lparr>ht_files := ht_files s @ [(u ''logs/http-'' @ nat_repr (ht_count s) @ u ''.log'',
     redact_text (wb_pretty wb (jobj [(''method'', JStr (upper m)), (''url'', JStr t), (''result'', r)])))]\<rparr>, Inr ())"

definition http_request ::
  "http_config \<Rightarrow> 'w web \<Rightarrow> pytext \<Rightarrow> pytext \<Rightarrow> json \<Rightarrow> json option \<Rightarrow> bool \<Rightarrow> ('w http, json) act" where
  "http_request cf wb t m params body raw_html s0 =
     (let s = s0\<lparr>ht_count := ht_count s0 + 1\<rparr>
      in if hc_max_requests cf < ht_count s
         then (s, Inr (jobj [(''ok'', JBool False), (''error'', JStr (u ''analysis HTTP request limit exceeded''))]))
         else (case fetch cf wb t m params body s of
             (s, Inl e) \<Rightarrow>
               if caught e
               then (let r = jobj [(''ok'', JBool False), (''error'', JStr (redact_text (error_text e))), (''url'', JStr (redact_text t))]
                     in seqA (audit wb m t r) (ret r) s)
               else (s, Inl e)
           | (s, Inr r) \<Rightarrow>
               seqA (audit wb m t r) (\<lambda>s. ret (if \<not> raw_html \<and> contains (u ''html'') (lower (str_or (field ''content_type'' r) []))
                 then wb_simplify wb (ht_count s) r else r) s) s))"

definition http_get :: "http_config \<Rightarrow> 'w web \<Rightarrow> pytext \<Rightarrow> json \<Rightarrow> ('w http, json) act" where
  "http_get cf wb t params = http_request cf wb t (u ''GET'') params None False"

definition http_action :: "http_config \<Rightarrow> 'w web \<Rightarrow> pytext \<Rightarrow> json \<Rightarrow> json option \<Rightarrow> ('w http, json) act" where
  "http_action cf wb t params body = http_request cf wb t (u ''POST'') params body False"

definition needs_approval :: "json \<Rightarrow> bool" where
  \<comment> \<open>the \<open>approval_check\<close> of \<open>http_request\<close>, on the call's arguments\<close>
  "needs_approval args \<longleftrightarrow> upper (str_or (field ''method'' args) ''GET'') \<noteq> u ''GET''"

subsection \<open>Web search\<close>

definition plain_html :: "(pytext \<Rightarrow> pytext) \<Rightarrow> pytext \<Rightarrow> pytext" where
  "plain_html unescape t = join [32] (split_ws (unescape (without_tags t)))"

definition not_quote :: "int \<Rightarrow> bool" where
  "not_quote c \<longleftrightarrow> c \<noteq> 34"

definition anchor_of :: "string \<Rightarrow> re list" where
  \<comment> \<open>an opening anchor up to the end of its \<open>class\<close> attribute\<close>
  "anchor_of name = [lit_ci (u ''<a''), at_least 1 (\<lambda>c. c \<noteq> 62), lit_ci (u ''class=''), lit [34], star not_quote,
     lit_ci (u name), star not_quote, lit [34]]"

definition inner :: "nat \<Rightarrow> re" where
  "inner n = seqs [star (\<lambda>c. c \<noteq> 62), lit [62], RGroup n (RStar False (RChar (\<lambda>_. True))), lit_ci (u ''</a>'')]"

definition result_pattern :: re where
  "result_pattern = seqs (anchor_of ''result__a'' @ [at_least 1 (\<lambda>c. c \<noteq> 62), lit_ci (u ''href=''), lit [34],
     RGroup 1 (at_least 1 not_quote), lit [34], inner 2])"

definition snippet_pattern :: re where
  "snippet_pattern = seqs (anchor_of ''result__snippet'' @ [inner 1])"

definition found :: "re \<Rightarrow> pytext \<Rightarrow> mstate list" where
  "found r t = concat (map (\<lambda>p. case p of Kept c \<Rightarrow> [] | Cut w s \<Rightarrow> [s]) (pieces r [] t))"

definition py_take :: "int \<Rightarrow> 'a list \<Rightarrow> 'a list" where
  \<comment> \<open>\<open>xs[:n]\<close>; a negative number counts from the end\<close>
  "py_take n xs = (if 0 \<le> n then take (nat n) xs else take (length xs - nat (- n)) xs)"

definition result_url :: "'w web \<Rightarrow> pytext \<Rightarrow> pytext result" where
  \<comment> \<open>a link to the search engine itself carries the target in \<open>uddg\<close>\<close>
  "result_url wb raw =
     (let t = wb_unescape wb raw
      in bindE (urlsplit (wb_nfkc wb) t) (\<lambda>x. Inr
           (if ends_with (u ''duckduckgo.com'') (ul_netloc x)
            then (case first_such (\<lambda>(k, v). k = u ''uddg'' \<and> v \<noteq> []) (parse_qsl (ul_query x)) of None \<Rightarrow> t | Some (_, v) \<Rightarrow> v)
            else t)))"

fun search_results :: "'w web \<Rightarrow> pytext list \<Rightarrow> nat \<Rightarrow> mstate list \<Rightarrow> json list result" where
  "search_results wb snippets i [] = Inr []"
| "search_results wb snippets i (m # ms) =
     bindE (result_url wb (group 1 m)) (\<lambda>t. bindE (search_results wb snippets (i + 1) ms) (\<lambda>rs.
       Inr (jobj [(''title'', JStr (plain_html (wb_unescape wb) (group 2 m))), (''url'', JStr t),
         (''snippet'', JStr (if i < length snippets then snippets ! i else []))] # rs)))"

definition rss_json :: "'w web \<Rightarrow> rss_item \<Rightarrow> json" where
  "rss_json wb i = jobj [(''title'', JStr (strip (rs_title i))), (''url'', JStr (strip (rs_link i))),
     (''snippet'', JStr (plain_html (wb_unescape wb) (rs_description i))), (''published'', JStr (strip (rs_date i))),
     (''source'', JStr (case rs_source i of None \<Rightarrow> [] | Some (t, _) \<Rightarrow> strip t)),
     (''source_url'', JStr (case rs_source i of None \<Rightarrow> [] | Some (_, l) \<Rightarrow> strip l))]"

definition news_search_fallback :: "http_config \<Rightarrow> 'w web \<Rightarrow> pytext \<Rightarrow> int \<Rightarrow> json \<Rightarrow> ('w http, json) act" where
  "news_search_fallback cf wb query limit first =
     bindA (http_request cf wb (u ''https://news.google.com/rss/search'') (u ''GET'')
         (jobj [(''q'', JStr query), (''hl'', JStr (u ''en-US'')), (''gl'', JStr (u ''US'')), (''ceid'', JStr (u ''US:en''))])
         None True) (\<lambda>fallback.
       let items = (if truthy (field ''ok'' fallback)
                    then (case wb_rss wb (str_or (field ''body'' fallback) []) of None \<Rightarrow> [] | Some is \<Rightarrow> py_take limit is) else [])
       in ret (if items \<noteq> []
          then jobj [(''ok'', JBool True), (''query'', JStr query), (''provider'', JStr (u ''google_news_rss_fallback'')),
                 (''results'', JList (map (rss_json wb) items)),
                 (''notice'', JStr (u ''DuckDuckGo required a human challenge; results are a news RSS fallback.''))]
          else jobj [(''ok'', JBool False), (''query'', JStr query),
                 (''error'', JStr (u ''public search providers returned no usable results'')),
                 (''duckduckgo_status'', field ''status'' first), (''fallback_status'', field ''status'' fallback)]))"

definition web_search :: "http_config \<Rightarrow> 'w web \<Rightarrow> pytext \<Rightarrow> int \<Rightarrow> ('w http, json) act" where
  "web_search cf wb query max_results =
     (let q = strip query;
          limit = min (if max_results = 0 then int (hc_search_results cf) else max_results) (int (hc_search_results cf))
      in if \<not> hc_search_enabled cf
         then ret (jobj [(''ok'', JBool False), (''error'', JStr (u ''web search is disabled''))])
         else if q = [] \<or> 1000 < length q
         then ret (jobj [(''ok'', JBool False), (''error'', JStr (u ''query must contain 1 to 1000 characters''))])
         else bindA (http_request cf wb (u ''https://html.duckduckgo.com/html/'') (u ''GET'') (jobj [(''q'', JStr q)]) None True) (\<lambda>raw.
           if \<not> truthy (field ''ok'' raw) then ret raw
           else (let body = str_or (field ''body'' raw) [];
                     snippets = map (\<lambda>m. plain_html (wb_unescape wb) (group 1 m)) (found snippet_pattern body)
                 in bindA (liftA (search_results wb snippets 0 (py_take limit (found result_pattern body)))) (\<lambda>results.
                      if results \<noteq> []
                      then ret (jobj [(''ok'', JBool True), (''query'', JStr q), (''provider'', JStr (u ''duckduckgo_html'')),
                        (''results'', JList results)])
                      else news_search_fallback cf wb q limit raw))))"

subsection \<open>Calls of the tools\<close>

datatype web_call =
    WebSearch pytext int
  | HttpGet pytext json
  | HttpAction pytext json "json option"
  | HttpRequest pytext pytext json "json option"

fun run_call :: "http_config \<Rightarrow> 'w web \<Rightarrow> web_call \<Rightarrow> ('w http, json) act" where
  "run_call cf wb (WebSearch q n) = web_search cf wb q n"
| "run_call cf wb (HttpGet t params) = http_get cf wb t params"
| "run_call cf wb (HttpAction t params body) = http_action cf wb t params body"
| "run_call cf wb (HttpRequest t m params body) = http_request cf wb t m params body False"

definition run_calls :: "http_config \<Rightarrow> 'w web \<Rightarrow> web_call list \<Rightarrow> 'w http \<Rightarrow> 'w http" where
  "run_calls cf wb calls s = fold (\<lambda>c s. fst (run_call cf wb c s)) calls s"

subsection \<open>What is sent\<close>

definition public_host :: "http_config \<Rightarrow> url \<Rightarrow> bool" where
  "public_host cf x \<longleftrightarrow> ul_scheme x = u ''https'' \<and> hostname x \<noteq> [] \<and> fst (userinfo x) = [] \<and> or_empty (snd (userinfo x)) = []
     \<and> (hc_allowed cf = [] \<or> lower (hostname x) \<in> set (map lower (hc_allowed cf)))"

definition global_address :: "pytext \<Rightarrow> bool" where
  "global_address a \<longleftrightarrow> (case ip_address a of Inr i \<Rightarrow> is_global i | Inl _ \<Rightarrow> False)"

definition proper_request :: "http_config \<Rightarrow> 'w web \<Rightarrow> sent \<Rightarrow> bool" where
  \<comment> \<open>a checked host, checked addresses, and the credential of that host or none\<close>
  "proper_request cf wb e \<longleftrightarrow> (case urlsplit (wb_nfkc wb) (wr_url (sn_request e)) of
       Inl _ \<Rightarrow> False
     | Inr x \<Rightarrow> public_host cf x \<and> list_all global_address (sn_addresses e)
         \<and> wr_method (sn_request e) \<in> {u ''GET'', u ''POST''}
         \<and> vault_get (sn_vault e) (hc_root cf) (hostname x)
             = Inr (map_option (drop 7) (dget (wr_headers (sn_request e)) ''Authorization'')))"

lemma hostname_same_netloc:
  "ul_netloc x = ul_netloc y \<Longrightarrow> hostname x = hostname y \<and> userinfo x = userinfo y"
  by (simp add: hostname_def hostinfo_def userinfo_def)

lemma hostname_netloc: "hostname x \<noteq> [] \<Longrightarrow> ul_netloc x \<noteq> []"
  by (auto simp: hostname_def hostinfo_def cut_at_def cut_last_def lower_def)

lemma check_addresses_global: "check_addresses as = Inr () \<Longrightarrow> list_all global_address as"
  by (induction as) (auto simp: check_address_def global_address_def bind_simps split: sum.splits)

lemma check_url_public:
  assumes "check_url cf nfkc t = Inr (x, p)"
  shows "urlsplit nfkc t = Inr x" "public_host cf x"
  using assms by (auto simp: check_url_def bind_simps public_host_def)

lemma target_again:
  assumes "urlsplit nfkc t = Inr x" "public_host cf x" "target_url x params = Inr target" "urlsplit nfkc target = Inr y"
  shows "public_host cf y"
proof -
  obtain q where q: "urlencode (parse_qsl (ul_query x) @ map (\<lambda>(k, v). (k, py_str v)) (entries params)) = Inr q"
    "target = urlunsplit (ul_scheme x) (ul_netloc x) (if ul_path x = [] then [47] else ul_path x) q"
    using assms(3) by (auto simp: target_url_def bind_simps)
  have s: "ul_scheme x = u ''https''" "ul_netloc x \<noteq> []" using assms(2) hostname_netloc by (auto simp: public_host_def)
  have "urlsplit nfkc target = Inr \<lparr>ul_scheme = u ''https'', ul_netloc = ul_netloc x,
      ul_path = (if ul_path x = [] then [47] else ul_path x), ul_query = q, ul_fragment = []\<rparr>"
    using urlsplit_again [OF assms(1) s(2) urlencode_chars [OF q(1)] refl] q(2) s(1) by simp
  then have "y = \<lparr>ul_scheme = u ''https'', ul_netloc = ul_netloc x,
      ul_path = (if ul_path x = [] then [47] else ul_path x), ul_query = q, ul_fragment = []\<rparr>"
    using assms(4) by simp
  then show ?thesis using hostname_same_netloc [of y x] assms(2) by (simp add: public_host_def)
qed

lemma on_web_fields: "on_web f s = (s', r) \<Longrightarrow> \<exists>w. s' = s\<lparr>ht_world := w\<rparr>"
  by (auto simp: on_web_def split: prod.splits)

lemma validated_url_checked:
  assumes "validated_url cf wb t params s = (s', Inr (target, as))" "urlsplit (wb_nfkc wb) target = Inr y"
  shows "public_host cf y \<and> list_all global_address as"
proof -
  obtain x p where x: "check_url cf (wb_nfkc wb) t = Inr (x, p)" "check_addresses as = Inr ()"
    "target_url x params = Inr target"
    using assms(1) by (auto simp: validated_url_def act_simps) metis
  show ?thesis using check_url_public [OF x(1)] target_again [OF _ _ x(3) assms(2)] check_addresses_global [OF x(2)] by blast
qed

lemma validated_url_world: "validated_url cf wb t params s = (s', r) \<Longrightarrow> \<exists>w. s' = s\<lparr>ht_world := w\<rparr>"
  by (auto simp: validated_url_def act_simps dest!: on_web_fields) (metis http.surjective http.update_convs(1))+

definition sends :: "http_config \<Rightarrow> 'w web \<Rightarrow> 'w http \<Rightarrow> 'w http \<Rightarrow> bool" where
  \<comment> \<open>at most one more request, and a proper one\<close>
  "sends cf wb s s' \<longleftrightarrow> ht_count s' = ht_count s
     \<and> (ht_sent s' = ht_sent s \<or> (\<exists>e. ht_sent s' = ht_sent s @ [e] \<and> proper_request cf wb e))"

lemma sends_world [simp]: "sends cf wb s (s\<lparr>ht_world := w\<rparr>)"
  by (simp add: sends_def)

lemma build_request_fields:
  "build_request verb target body credential = Inr r \<Longrightarrow> wr_url r = target \<and> wr_method r = verb
     \<and> map_option (drop 7) (dget (wr_headers r) ''Authorization'') = credential"
  by (auto simp: build_request_def bind_simps split: option.splits)

lemma fetch_sends:
  assumes "fetch cf wb t m params body s = (s', r)"
  shows "sends cf wb s s'"
proof (cases "validated_url cf wb t params s")
  case (Pair s1 v)
  obtain w where w: "s1 = s\<lparr>ht_world := w\<rparr>" using validated_url_world [OF Pair] by blast
  show ?thesis
  proof (cases v)
    case (Inl e)
    then show ?thesis using assms Pair w by (auto simp: fetch_def bindA_def)
  next
    case (Inr ta)
    obtain target as where ta: "ta = (target, as)" by force
    consider "s' = s1" | x credential q rs where "urlsplit (wb_nfkc wb) target = Inr x"
        "upper (strip m) \<in> {u ''GET'', u ''POST''}" "vault_get (ht_vault s1) (hc_root cf) (hostname x) = Inr credential"
        "build_request (upper (strip m)) target body credential = Inr q" "send wb as q s1 = (s', rs)"
      using assms Pair unfolding Inr ta fetch_def
      by (auto simp: act_simps simp del: u_Cons u_Nil) metis+
    then show ?thesis
    proof cases
      case 1
      then show ?thesis using w by simp
    next
      case 2
      let ?e = "\<lparr>sn_request = q, sn_addresses = as, sn_vault = ht_vault s1\<rparr>"
      note v = validated_url_checked [OF Pair [unfolded Inr ta] 2(1)]
      have "proper_request cf wb ?e" using 2 v build_request_fields [OF 2(4)]
        by (simp add: proper_request_def del: u_Cons u_Nil)
      then show ?thesis using 2(5) w by (auto simp: send_def sends_def dest!: on_web_fields)
    qed
  qed
qed

definition in_limits :: "http_config \<Rightarrow> 'w web \<Rightarrow> 'w http \<Rightarrow> bool" where
  "in_limits cf wb s \<longleftrightarrow> list_all (proper_request cf wb) (ht_sent s) \<and> length (ht_sent s) \<le> min (ht_count s) (hc_max_requests cf)"

lemma http_request_within: "keeps (in_limits cf wb) (http_request cf wb t m params body raw)"
proof (unfold keeps_def, intro allI impI)
  fix s0 assume w: "in_limits cf wb s0"
  define s where "s = s0\<lparr>ht_count := ht_count s0 + 1\<rparr>"
  obtain s1 v where f: "fetch cf wb t m params body s = (s1, v)" by force
  have s: "ht_sent s = ht_sent s0" "ht_count s = ht_count s0 + 1" by (simp_all add: s_def)
  have "in_limits cf wb s" using w s by (auto simp: in_limits_def)
  moreover have "in_limits cf wb s1" if "ht_count s \<le> hc_max_requests cf"
    using fetch_sends [OF f] w s that by (auto simp: in_limits_def sends_def)
  moreover have "in_limits cf wb s1 \<Longrightarrow> in_limits cf wb (fst (audit wb m t x s1))" for x by (simp add: in_limits_def audit_def)
  ultimately show "in_limits cf wb (fst (http_request cf wb t m params body raw s0))"
    unfolding http_request_def s_def [symmetric] Let_def f
    by (auto simp: seqA_def bindA_def ret_def audit_def split: sum.splits)
qed

lemma run_call_within: "keeps (in_limits cf wb) (run_call cf wb c)"
  by (cases c) (auto simp: web_search_def http_get_def http_action_def news_search_fallback_def Let_def
      intro!: keeps_intros http_request_within)

text \<open>
  C6. Whatever calls the model makes, no more requests reach the network than the configuration allows.
  Each of them is a GET or POST of an HTTPS URL without user information to a host of the allow list, if
  there is one; every address that the host had when the URL was checked is globally reachable; and the
  request carries the credential that the vault binds to exactly that host, or none where it binds none.
\<close>

theorem requests_go_to_checked_hosts:
  assumes "ht_sent s = []"
  shows "list_all (proper_request cf wb) (ht_sent (run_calls cf wb calls s))
     \<and> length (ht_sent (run_calls cf wb calls s)) \<le> hc_max_requests cf"
proof -
  have "in_limits cf wb (fold (\<lambda>c s. fst (run_call cf wb c s)) cs x)" if "in_limits cf wb x" for cs x
    using that by (induction cs arbitrary: x) (auto intro: keepsD [OF run_call_within] simp: keepsD [OF run_call_within, OF _ prod.collapse [symmetric]])
  moreover have "in_limits cf wb s" using assms by (simp add: in_limits_def)
  ultimately show ?thesis by (simp add: in_limits_def run_calls_def)
qed

text \<open>A call of \<open>http_request\<close> that needs no approval sends no POST.\<close>

lemma no_post_without_approval:
  assumes "\<not> needs_approval args" "m = str_or (field ''method'' args) ''GET''"
  shows "upper (strip m) = u ''GET''"
proof -
  have "upper m = u ''GET''" using assms by (simp add: needs_approval_def)
  then obtain a b c where m: "m = [a, b, c]" "upper_char a = 71" "upper_char b = 69" "upper_char c = 84"
    by (auto simp: upper_def map_eq_Cons_conv)
  then have "a \<in> {71, 103}" "c \<in> {84, 116}" by (auto simp: upper_char_def split: if_splits)
  then have "\<not> is_space a" "\<not> is_space c" by (elim insertE emptyE; simp add: is_space_def)+
  then have "strip m = m" by (simp add: m(1) strip_def lstrip_def rstrip_def)
  then show ?thesis using \<open>upper m = u ''GET''\<close> by simp
qed

subsection \<open>Examples\<close>

definition example_web :: "pytext list \<Rightarrow> unit web" where
  "example_web as = \<lparr>wb_resolve = \<lambda>_ _. ret as, wb_open = \<lambda>_. ret \<lparr>ws_status = 200, ws_type = u ''text/plain'', ws_body = [104, 105]\<rparr>,
     wb_nfkc = id, wb_simplify = \<lambda>_ v. v, wb_unescape = id, wb_rss = \<lambda>_. None, wb_pretty = dumps_default\<rparr>"

definition example_config :: http_config where
  "example_config = \<lparr>hc_root = u ''r1'', hc_allowed = [], hc_max_requests = 2, hc_max_bytes = 4096, hc_search_enabled = True,
     hc_search_results = 8\<rparr>"

definition example_http :: "unit http" where
  "example_http = \<lparr>ht_world = (), ht_count = 0,
     ht_vault = [(u ''r1'', JObj [(u ''a.org'', JStr (u ''k''))])], ht_files = [], ht_sent = []\<rparr>"

lemma example_fetch:
  "map (\<lambda>e. (wr_url (sn_request e), dget (wr_headers (sn_request e)) ''Authorization''))
     (ht_sent (run_calls example_config (example_web [u ''8.8.8.8'']) [HttpGet (u ''https://A.org?q=a b'') (JObj [(u ''n'', JInt 1)])] example_http))
   = [(u ''https://A.org/?q=a+b&n=1'', Some (u ''Bearer k''))]"
  by code_simp

lemma example_private:
  "ht_sent (run_calls example_config (example_web [u ''8.8.8.8'', u ''10.0.0.1'']) [HttpGet (u ''https://a.org/'') JNull] example_http) = []"
  by code_simp

theorem requests_go_to_checked_hosts_witness:
  "let s = run_calls example_config (example_web [u ''8.8.8.8'']) [HttpGet (u ''https://A.org?q=a b'') (JObj [(u ''n'', JInt 1)])]
       example_http
   in length (ht_sent s) = 1 \<and> list_all (proper_request example_config (example_web [u ''8.8.8.8''])) (ht_sent s)"
proof -
  have "ht_sent example_http = []" by (simp add: example_http_def)
  from requests_go_to_checked_hosts [OF this] arg_cong [where f = length, OF example_fetch]
  show ?thesis unfolding Let_def by simp
qed

end
