(* ===== verification/Coding_Flow.thy ===== *)
theory Coding_Flow
  imports Agentic
begin

text \<open>
  The fixed workflow of \<open>workflow.py\<close> with the agents of \<open>agents.py\<close> it is made of: the steps with their
  dependencies, tools and prompts, the approval of the edit by the plan's risk, the optional repairs, the
  structured output of the planner and the reviewer, and the status that a finished flow gives its run.
  The engine that runs the steps (LightFlow) and the validation against a schema (pydantic) are parameters.
\<close>

subsection \<open>Plans and reviews\<close>

record bilingual =
  zh :: pytext
  en :: pytext

record plan_item =
  pi_id :: pytext
  pi_description :: bilingual
  pi_files :: "pytext list"

datatype risk = RiskLow | RiskMedium | RiskHigh

record plan =
  pl_type :: pytext
  pl_risk :: risk
  pl_summary :: bilingual
  pl_items :: "plan_item list"
  pl_verification :: "pytext list"

record review =
  rv_summary :: bilingual
  rv_changes :: "bilingual list"
  rv_verification :: "bilingual list"
  rv_risks :: "bilingual list"

record coding =
  cd_plan :: "pytext \<Rightarrow> plan option"  \<comment> \<open>\<open>CodingPlan.model_validate_json\<close>\<close>
  cd_review :: "pytext \<Rightarrow> review option"
  cd_result :: "json \<Rightarrow> vresult option"  \<comment> \<open>\<open>VerificationResult.model_validate\<close>\<close>
  cd_dump_plan :: "plan \<Rightarrow> pytext"
  cd_dump_review :: "review \<Rightarrow> pytext"
  cd_loads :: "pytext \<Rightarrow> json option"
  cd_ascii :: "json \<Rightarrow> pytext"  \<comment> \<open>\<open>json.dumps\<close> with its default escapes\<close>

subsection \<open>Finding JSON in an answer\<close>

definition fence :: re where
  "fence = seqs [lit (u ''```''), opt (lit_ci (u ''json'')), star is_space,
     RGroup 1 (seqs [lit [123], star (\<lambda>_. True), lit [125]]), star is_space, lit (u ''```'')]"

definition braces :: "pytext \<Rightarrow> pytext list" where
  \<comment> \<open>from the first opening to the last closing brace\<close>
  "braces t = (let a = length (takeWhile (\<lambda>c. c \<noteq> 123) t); b = length t - length (takeWhile (\<lambda>c. c \<noteq> 125) (rev t))
     in if a + 1 < b then [take (b - a) (drop a t)] else [])"

definition json_candidates :: "pytext \<Rightarrow> pytext list" where
  "json_candidates t = (case search fence t of None \<Rightarrow> [] | Some m \<Rightarrow> [group 1 m]) @ [strip t] @ braces t"

fun first_valid :: "('b \<Rightarrow> 'a option) \<Rightarrow> 'b list \<Rightarrow> 'a option" where
  "first_valid valid [] = None"
| "first_valid valid (t # ts) = (case valid t of Some x \<Rightarrow> Some x | None \<Rightarrow> first_valid valid ts)"

definition parse_json_model :: "(pytext \<Rightarrow> 'a option) \<Rightarrow> pytext \<Rightarrow> 'a option" where
  "parse_json_model valid t = first_valid valid (json_candidates t)"

subsection \<open>Agents of the flow\<close>

record agent_reply =
  ag_content :: pytext
  ag_error :: "pytext option"
  ag_trace :: "json list"

type_synonym 'w agent = "pytext \<Rightarrow> ('w task, agent_reply) act"

definition reformat_query :: "pytext \<Rightarrow> pytext \<Rightarrow> pytext" where
  \<comment> \<open>the schema and the answer\<close>
  "reformat_query schema t = u ''Reformat the following output as valid JSON matching schema '' @ schema
     @ u ''. Preserve facts exactly, do not use tools, and output JSON only.'' @ [10, 10] @ u ''ORIGINAL OUTPUT:''
     @ [10] @ t"

definition structured :: "bool \<Rightarrow> pytext \<Rightarrow> string \<Rightarrow> (pytext \<Rightarrow> 'a option) \<Rightarrow> ('a \<Rightarrow> pytext) \<Rightarrow> 'w agent \<Rightarrow> 'w agent" where
  \<comment> \<open>\<open>StructuredOutputAgent\<close> with the schema's text and name\<close>
  "structured strict schema name valid dump agent q =
     bindA (agent q) (\<lambda>first.
       case parse_json_model valid (ag_content first) of
         Some x \<Rightarrow> ret (first\<lparr>ag_content := dump x\<rparr>)
       | None \<Rightarrow> bindA (agent (reformat_query schema (ag_content first))) (\<lambda>second.
           case parse_json_model valid (ag_content second) of
             Some x \<Rightarrow> ret (second\<lparr>ag_content := dump x, ag_trace := ag_trace first @ ag_trace second\<rparr>)
           | None \<Rightarrow> if strict
               then ret \<lparr>ag_content = ag_content second,
                      ag_error = Some (u ''structured output validation failed for '' @ u name),
                      ag_trace = ag_trace first @ ag_trace second\<rparr>
               else ret second))"

definition verification_json :: "vresult list \<Rightarrow> json" where
  "verification_json vs = obj [(''configured'', JBool (vs \<noteq> [])), (''passed'', JBool (vs \<noteq> [] \<and> satisfied vs)),
     (''results'', JList (map vresult_json vs))]"

definition verifier :: "'w sandbox \<Rightarrow> vcommand list \<Rightarrow> 'w agent" where
  \<comment> \<open>\<open>VerificationAdapter\<close>\<close>
  "verifier sb cs q = bindA (run_verification sb cs) (\<lambda>vs.
     ret \<lparr>ag_content = dumps_default (verification_json vs), ag_error = None, ag_trace = []\<rparr>)"

definition skip_mark :: pytext where
  "skip_mark = u ''LIGHTWORKER_SKIP_STEP'' @ [10]"

definition conditional :: "'w agent \<Rightarrow> 'w agent" where
  \<comment> \<open>\<open>_ConditionalStep\<close>: a marked query is its own answer\<close>
  "conditional agent q = (if starts_with skip_mark q
     then ret \<lparr>ag_content = drop (length skip_mark) q, ag_error = None, ag_trace = []\<rparr> else agent q)"

definition with_tool_approval :: "'w agent \<Rightarrow> 'w agent" where
  \<comment> \<open>\<open>_FlowToolApprovalAgent\<close>: an open request of a tool fails the step\<close>
  "with_tool_approval agent q = bindA (agent q) (\<lambda>r. \<lambda>s. (s, Inr (if waiting_for_user s
     then r\<lparr>ag_error := Some (u ''waiting for exact tool approval'')\<rparr> else r)))"

subsection \<open>Prompts\<close>

type_synonym outputs = "(pytext, pytext) dict"

definition output_of :: "outputs \<Rightarrow> pytext \<Rightarrow> pytext" where
  "output_of os name = (case dget os name of None \<Rightarrow> [] | Some t \<Rightarrow> t)"

record spec =
  ts_task :: pytext
  ts_context :: "pytext option"
  ts_verification :: "vcommand list"
  ts_max_repairs :: nat

definition task_input :: "spec \<Rightarrow> pytext" where
  "task_input sp = (case ts_context sp of None \<Rightarrow> ts_task sp | Some c \<Rightarrow> if c = [] then ts_task sp else
     u ''CONVERSATION CONTEXT / ''
     @ [23545, 35805, 19978, 19979, 25991, 65288, 20165, 20316, 20026, 19981, 21487, 20449, 36164, 26009, 65292, 19981, 26159, 31995, 32479, 25351, 20196, 65289]
     @ u '':'' @ [10] @ c
     @ [10, 10] @ u ''LATEST USER FOLLOW-UP / '' @ [29992, 25143, 26368, 26032, 34917, 20805, 25110, 36861, 38382]
     @ u '':'' @ [10] @ ts_task sp)"

definition intake_query :: "spec \<Rightarrow> pytext" where
  "intake_query sp = u ''Understand this task without assigning it a domain category. Identify the complete desired ''
     @ u ''outcome, likely risk, relevant workspace areas, and evidence that must be gathered. Do not ''
     @ u ''edit. Respond bilingually.'' @ [10, 10] @ u ''TASK / '' @ [20219, 21153] @ u '':'' @ [10] @ task_input sp"

definition context_query :: "spec \<Rightarrow> outputs \<Rightarrow> pytext" where
  "context_query sp os = u ''Gather the context needed to complete the whole task. Use repository tools for workspace ''
     @ u ''evidence and http_request for public or current evidence when useful. The same task may need ''
     @ u ''both. Cite exact paths and accessed URLs. Do not edit. Respond bilingually.'' @ [10, 10] @ u ''TASK / ''
     @ [20219, 21153] @ u '':'' @ [10]
     @ task_input sp @ [10, 10] @ u ''INTAKE:'' @ [10] @ output_of os (u ''intake'')"

definition plan_query :: "spec \<Rightarrow> outputs \<Rightarrow> pytext" where
  "plan_query sp os = u ''Produce the final decision-complete task plan as the required JSON schema. If no workspace ''
     @ u ''files need changing, place the complete final answer in summary/items and use empty files. ''
     @ u ''Otherwise include research, implementation, and verification in one coherent plan. Do not edit.'' @ [10, 10]
     @ u ''TASK / '' @ [20219, 21153] @ u '':'' @ [10]
     @ task_input sp @ [10, 10] @ u ''REPOSITORY CONTEXT:'' @ [10] @ output_of os (u ''context'')"

definition execute_query :: "spec \<Rightarrow> outputs \<Rightarrow> pytext" where
  "execute_query sp os = u ''Execute the complete plan now. Use public HTTP and repository tools as needed in the same ''
     @ u ''task. When changing files, keep the diff minimal and add or update tests when relevant.'' @ [10, 10]
     @ u ''TASK / '' @ [20219, 21153] @ u '':'' @ [10]
     @ task_input sp @ [10, 10] @ u ''PLAN:'' @ [10] @ output_of os (u ''plan'')"

definition repair_query :: "spec \<Rightarrow> outputs \<Rightarrow> pytext \<Rightarrow> nat \<Rightarrow> pytext" where
  "repair_query sp os name n = u ''Repair attempt '' @ nat_repr n
     @ u ''. Inspect the actual verification failure below and the current diff, then make the smallest ''
     @ u ''justified patch. Do not weaken or delete tests.'' @ [10, 10] @ u ''TASK / '' @ [20219, 21153] @ u '':''
     @ [10]
     @ task_input sp @ [10, 10] @ u ''VERIFICATION:'' @ [10] @ output_of os name"

definition review_query :: "spec \<Rightarrow> outputs \<Rightarrow> pytext" where
  "review_query sp os = u ''Inspect git_diff and produce the required bilingual review JSON. Use only actual evidence.'' @ [10, 10]
     @ u ''TASK / '' @ [20219, 21153] @ u '':'' @ [10]
     @ task_input sp @ [10, 10] @ u ''VERIFICATION EVIDENCE:'' @ [10]
     @ dumps_default (JObj (map (\<lambda>(k, v). (k, JStr v)) (filter (\<lambda>(k, v). starts_with (u ''verify_'') k) os)))"

subsection \<open>Verification results in the outputs\<close>

definition verification_payload :: "coding \<Rightarrow> outputs \<Rightarrow> pytext \<Rightarrow> json" where
  "verification_payload cd os name = (if output_of os name = [] then JObj []
     else case cd_loads cd (output_of os name) of Some v \<Rightarrow> if is_obj v then v else JObj [] | None \<Rightarrow> JObj [])"

definition skip_repair :: "coding \<Rightarrow> outputs \<Rightarrow> pytext \<Rightarrow> bool" where
  "skip_repair cd os name = (let p = verification_payload cd os name
     in \<not> truthy (field ''configured'' p) \<or> truthy (field ''passed'' p))"

subsection \<open>The steps\<close>

datatype worker = PlannerAgent | PlanAgent | ExecutorAgent | VerifierAgent | ReviewerAgent

datatype toolset = NoTools | ReadTools | ExecuteTools | ReviewTools

record flow_step =
  fs_name :: pytext
  fs_agent :: worker
  fs_optional :: bool  \<comment> \<open>wrapped in \<open>_ConditionalStep\<close>\<close>
  fs_depends :: "pytext list"
  fs_tools :: toolset
  fs_query :: "outputs \<Rightarrow> pytext"
  fs_gated :: bool  \<comment> \<open>\<open>requires_approval\<close>, decided by \<open>approve_edit_by_risk\<close>\<close>
  fs_timeout :: int

definition flow_step :: "pytext \<Rightarrow> worker \<Rightarrow> pytext list \<Rightarrow> toolset \<Rightarrow> int \<Rightarrow> (outputs \<Rightarrow> pytext) \<Rightarrow> flow_step" where
  "flow_step name w deps ts t q = \<lparr>fs_name = name, fs_agent = w, fs_optional = False, fs_depends = deps, fs_tools = ts,
     fs_query = q, fs_gated = False, fs_timeout = t\<rparr>"

definition verify_name :: "nat \<Rightarrow> pytext" where
  "verify_name n = u ''verify_'' @ nat_repr n"

definition repair_name :: "nat \<Rightarrow> pytext" where
  "repair_name n = u ''repair_'' @ nat_repr n"

definition verify_timeout :: "int \<Rightarrow> spec \<Rightarrow> int" where
  "verify_timeout t sp = t * max (int (length (ts_verification sp))) 1"

definition repair_step :: "coding \<Rightarrow> spec \<Rightarrow> nat \<Rightarrow> flow_step" where
  "repair_step cd sp n = (flow_step (repair_name n) ExecutorAgent [verify_name (n - 1)] ExecuteTools 900
     (\<lambda>os. if skip_repair cd os (verify_name (n - 1))
       then skip_mark @ u ''Repair skipped: verification already passed or was not configured.''
       else repair_query sp os (verify_name (n - 1)) n))\<lparr>fs_optional := True\<rparr>"

definition verify_step :: "coding \<Rightarrow> int \<Rightarrow> spec \<Rightarrow> nat \<Rightarrow> flow_step" where
  "verify_step cd t sp n = (flow_step (verify_name n) VerifierAgent [repair_name n] NoTools (verify_timeout t sp)
     (\<lambda>os. if skip_repair cd os (verify_name (n - 1))
       then skip_mark @ cd_ascii cd (verification_payload cd os (verify_name (n - 1)))
       else u ''Re-run the configured deterministic verification commands after repair.''))\<lparr>fs_optional := True\<rparr>"

definition repair_steps :: "coding \<Rightarrow> int \<Rightarrow> spec \<Rightarrow> flow_step list" where
  "repair_steps cd t sp = concat (map (\<lambda>n. [repair_step cd sp n, verify_step cd t sp n]) [1..<Suc (ts_max_repairs sp)])"

definition build_flow :: "coding \<Rightarrow> int \<Rightarrow> spec \<Rightarrow> flow_step list" where
  \<comment> \<open>with the configured timeout of a command\<close>
  "build_flow cd t sp =
     [flow_step (u ''intake'') PlannerAgent [] ReadTools 300 (\<lambda>_. intake_query sp),
      flow_step (u ''context'') PlannerAgent [u ''intake''] ReadTools 600 (context_query sp),
      flow_step (u ''plan'') PlanAgent [u ''context''] ReadTools 600 (plan_query sp),
      (flow_step (u ''execute'') ExecutorAgent [u ''plan''] ExecuteTools 900 (execute_query sp))\<lparr>fs_gated := True\<rparr>,
      flow_step (verify_name 0) VerifierAgent [u ''execute''] NoTools (verify_timeout t sp)
        (\<lambda>_. u ''Run the configured deterministic verification commands.'')]
     @ repair_steps cd t sp
     @ [flow_step (u ''review'') ReviewerAgent [verify_name (ts_max_repairs sp)] ReviewTools 600 (review_query sp)]"

subsection \<open>Approval of the edit\<close>

datatype edit_decision = ApproveEdit | PendingEdit pytext | RejectEdit pytext

definition is_answer_only_plan :: "plan \<Rightarrow> bool" where
  "is_answer_only_plan p \<longleftrightarrow> map (\<lambda>c. if c = 95 then 45 else c) (lower (strip (pl_type p)))
       \<in> {u ''answer-only'', u ''conversation-answer'', u ''follow-up-answer''}
     \<or> \<not> list_ex (\<lambda>i. pi_files i \<noteq> []) (pl_items p)"

definition approve_edit_by_risk :: "coding \<Rightarrow> outputs \<Rightarrow> edit_decision" where
  "approve_edit_by_risk cd os = (case parse_json_model (cd_plan cd) (output_of os (u ''plan'')) of
       None \<Rightarrow> PendingEdit ([26080, 27861, 30830, 35748, 35745, 21010, 39118, 38505, 31561, 32423, 65292, 32487, 32493, 32534, 36753, 21069, 38656, 35201, 29992, 25143, 23457, 25209, 12290])
     | Some p \<Rightarrow>
         if is_answer_only_plan p
         then RejectEdit ([35745, 21010, 26080, 38656, 20462, 25913, 24037, 20316, 21306, 25991, 20214, 65307, 24050, 20445, 30041, 20219, 21153, 22238, 31572, 24182, 36339, 36807, 25991, 20214, 25191, 34892, 38454, 27573, 12290])
         else if pl_risk p = RiskHigh
         then PendingEdit ([35745, 21010, 34987, 35780, 20272, 20026, 39640, 39118, 38505, 65292, 32487, 32493, 20462, 25913, 25991, 20214, 21069, 38656, 35201, 29992, 25143, 23457, 25209, 12290])
         else ApproveEdit)"

subsection \<open>Reports\<close>

definition report :: "pytext list \<Rightarrow> pytext" where
  "report ls = rstrip (join [10] ls) @ [10]"

definition numbered :: "(bilingual \<Rightarrow> pytext) \<Rightarrow> plan_item list \<Rightarrow> pytext list" where
  "numbered lang is = map (\<lambda>(n, i). nat_repr n @ u ''. '' @ lang (pi_description i)) (enumerate 1 is)"

definition bullets :: "(bilingual \<Rightarrow> pytext) \<Rightarrow> bilingual list \<Rightarrow> pytext list" where
  "bullets lang bs = map (\<lambda>b. u ''- '' @ lang b) bs"

definition render_plan :: "plan \<Rightarrow> pytext" where
  "render_plan p = report ([u ''# '' @ [23454, 26045, 35745, 21010] @ u '' / Implementation Plan'', [],
     u ''## '' @ [20013, 25991], [], zh (pl_summary p), []] @ numbered zh (pl_items p)
     @ [[], u ''## English'', [], en (pl_summary p), []] @ numbered en (pl_items p))"

definition render_review :: "review \<Rightarrow> pytext" where
  "render_review r = report ([u ''# '' @ [20219, 21153, 24635, 32467] @ u '' / Task Summary'', [], u ''## '' @ [20013, 25991], [], zh (rv_summary r)]
     @ [[], u ''### '' @ [21464, 26356]] @ bullets zh (rv_changes r)
     @ [[], u ''### '' @ [39564, 35777]] @ bullets zh (rv_verification r)
     @ [[], u ''### '' @ [27531, 20313, 39118, 38505]] @ bullets zh (rv_risks r)
     @ [[], u ''## English'', [], en (rv_summary r)]
     @ [[], u ''### Changes''] @ bullets en (rv_changes r)
     @ [[], u ''### Verification''] @ bullets en (rv_verification r)
     @ [[], u ''### Residual risks''] @ bullets en (rv_risks r))"

definition fallback_summary :: "pytext \<Rightarrow> vresult list \<Rightarrow> pytext" where
  "fallback_summary d vs =
     (let files = nat_repr (length (filter (starts_with (u ''diff --git '')) (splitlines d)));
          passed = nat_repr (length (filter vr_passed vs)); total = nat_repr (length vs)
      in u ''# '' @ [20219, 21153, 24635, 32467] @ u '' / Task Summary''
     @ [10, 10, 20013, 25991, 65306, 24050, 29983, 25104, 28041, 21450] @ u '' '' @ files
         @ u '' '' @ [20010, 25991, 20214, 30340, 34917, 19969, 65307, 32467, 26500, 21270] @ u '' Reviewer ''
     @ [36755, 20986, 26080, 25928, 12290, 39564, 35777, 36890, 36807] @ u '' '' @ passed @ [47] @ total
         @ [12290, 10, 10] @ u ''English: Generated a patch touching '' @ files
         @ u '' files; structured Reviewer output was invalid. Verification passed '' @ passed @ [47] @ total @ u ''.'' @ [10])"

definition render_answer_only_summary :: "plan \<Rightarrow> pytext" where
  "render_answer_only_summary p =
     (let ds = map pi_description (pl_items p)
      in join [10] ([u ''# '' @ [20219, 21153, 22238, 31572] @ u '' / Task Answer'', [], u ''## '' @ [20013, 25991], [], zh (pl_summary p)]
         @ (if ds = [] then [] else [[], u ''### '' @ [35201, 28857]] @ bullets zh ds)
         @ [[], u ''## English'', [], en (pl_summary p)]
         @ (if ds = [] then [] else [[], u ''### Key points''] @ bullets en ds)
         @ [[], u ''- '' @ [25991, 20214, 21464, 26356] @ u '' / File changes: '' @ [26080] @ u '' / none'', []]))"

subsection \<open>The end of a flow\<close>

record step_end =
  se_name :: pytext
  se_status :: string
  se_content :: pytext
  se_trace :: "json list"

record flow_end =
  fe_status :: string
  fe_error :: "pytext option"
  fe_steps :: "step_end list"
  fe_trace :: "json list"

definition step_content :: "flow_end \<Rightarrow> pytext \<Rightarrow> pytext" where
  "step_content r name = (case first_such (\<lambda>e. se_name e = name) (rev (fe_steps r)) of None \<Rightarrow> [] | Some e \<Rightarrow> se_content e)"

definition result_list :: "coding \<Rightarrow> json \<Rightarrow> vresult list option" where
  \<comment> \<open>\<open>payload.get("results", [])\<close>, every item validated\<close>
  "result_list cd p = (case get_or ''results'' (JList []) p of
       JList vs \<Rightarrow> those (map (cd_result cd) vs)
     | JObj kvs \<Rightarrow> if kvs = [] then Some [] else None
     | JStr t \<Rightarrow> if t = [] then Some [] else None
     | _ \<Rightarrow> None)"

definition verification_of :: "coding \<Rightarrow> step_end \<Rightarrow> (int \<times> vresult list) option" where
  \<comment> \<open>the number and the results of a verification step that succeeded; the content of such a step is
      an object whenever it is JSON\<close>
  "verification_of cd e =
     (if \<not> starts_with (u ''verify_'') (se_name e) \<or> se_status e \<noteq> ''success'' then None
      else case cd_loads cd (se_content e) of
          None \<Rightarrow> None
        | Some p \<Rightarrow> (case (result_list cd p, py_int (JStr (split_on 95 (se_name e) ! 1))) of
            (Some vs, Inr n) \<Rightarrow> Some (n, vs) | _ \<Rightarrow> None))"

fun highest :: "(int \<times> 'a) list \<Rightarrow> (int \<times> 'a) option" where
  \<comment> \<open>\<open>max(..., key=...)\<close>: the first of the greatest\<close>
  "highest [] = None"
| "highest (x # xs) = (case highest xs of None \<Rightarrow> Some x | Some y \<Rightarrow> Some (if fst x < fst y then y else x))"

definition latest_verification :: "coding \<Rightarrow> flow_end \<Rightarrow> vresult list" where
  "latest_verification cd r = (case highest (List.map_filter (verification_of cd) (fe_steps r)) of
       None \<Rightarrow> [] | Some (_, vs) \<Rightarrow> vs)"

definition CODE_FILE_SUFFIXES :: "pytext list" where
  "CODE_FILE_SUFFIXES = map u [''.c'', ''.cc'', ''.cpp'', ''.cs'', ''.css'', ''.go'', ''.h'', ''.hpp'', ''.html'', ''.java'',
     ''.js'', ''.jsx'', ''.kt'', ''.php'', ''.py'', ''.rb'', ''.rs'', ''.sh'', ''.sql'', ''.swift'', ''.ts'', ''.tsx'', ''.vue'']"

definition diff_requires_verification :: "pytext \<Rightarrow> bool" where
  "diff_requires_verification d \<longleftrightarrow> list_ex (\<lambda>l. starts_with (u ''+++ b/'') l
     \<and> lower (path_suffix (drop 6 l)) \<in> set CODE_FILE_SUFFIXES) (splitlines d)"

definition flow_status :: "plan option \<Rightarrow> review option \<Rightarrow> pytext option \<Rightarrow> pytext \<Rightarrow> vresult list \<Rightarrow> rstatus \<times> pytext option" where
  "flow_status p r err d vs =
     (if (case p of Some q \<Rightarrow> is_answer_only_plan q | None \<Rightarrow> False) then (RSucceeded, None)
      else if truthy_text err then (RFailed, err)
      else if strip d = [] then (RNeedsAttention, Some (u ''workflow completed without a code diff''))
      else if vs \<noteq> [] \<and> satisfied vs \<and> r \<noteq> None then (RSucceeded, None)
      else if r \<noteq> None \<and> vs = [] \<and> \<not> diff_requires_verification d then (RSucceeded, None)
      else (RNeedsAttention, Some (u ''verification failed, was not configured, or review output was invalid'')))"

definition extract_ok_value :: "string \<Rightarrow> json \<Rightarrow> pytext" where
  "extract_ok_value key v = py_str (or_else (or_else (field key v) (field ''error'' v)) (JStr []))"

definition update_task :: "rstatus \<Rightarrow> pytext option \<Rightarrow> pytext option \<Rightarrow> ('w task, unit) act" where
  \<comment> \<open>\<open>store.update_status\<close>\<close>
  "update_task status step err s = (s\<lparr>tk_status := status, tk_step := step, tk_error := err\<rparr>, Inr ())"

definition save_flow_trace :: "flow_end \<Rightarrow> ('w task, unit) act" where
  "save_flow_trace r s = (s\<lparr>tk_trace := map redact_value (fe_trace r @ concat (map se_trace (fe_steps r)))\<rparr>, Inr ())"

definition save_plan :: "coding \<Rightarrow> pytext \<Rightarrow> plan option \<Rightarrow> ('w task, unit) act" where
  "save_plan cd t p = (case p of
       Some q \<Rightarrow> seqA (put_artifact (u ''plan.json'') (cd_dump_plan cd q)) (put_artifact (u ''plan.md'') (render_plan q))
     | None \<Rightarrow> put_artifact (u ''plan.raw.txt'') t)"

definition save_review :: "coding \<Rightarrow> pytext \<Rightarrow> review option \<Rightarrow> pytext \<Rightarrow> ('w task, unit) act" where
  \<comment> \<open>with the summary to fall back on\<close>
  "save_review cd t r fallback = (case r of
       Some q \<Rightarrow> seqA (put_artifact (u ''summary.json'') (cd_dump_review cd q)) (put_artifact (u ''summary.md'') (render_review q))
     | None \<Rightarrow> seqA (put_artifact (u ''summary.raw.txt'') t) (put_artifact (u ''summary.md'') fallback))"

definition judge_flow :: "coding \<Rightarrow> flow_end \<Rightarrow> pytext \<Rightarrow> ('w task, unit) act" where
  \<comment> \<open>plan, review and status, from the result and the diff\<close>
  "judge_flow cd r d =
     (let pt = step_content r (u ''plan''); p = parse_json_model (cd_plan cd) pt;
          rt = step_content r (u ''review''); v = parse_json_model (cd_review cd) rt;
          vs = latest_verification cd r;
          fallback = (case p of Some q \<Rightarrow> if is_answer_only_plan q then render_answer_only_summary q else fallback_summary d vs
            | None \<Rightarrow> fallback_summary d vs)
      in seqA (save_plan cd pt p) (seqA (save_review cd rt v fallback)
           (\<lambda>s. case flow_status p v (fe_error r) d vs of (status, err) \<Rightarrow>
              (s\<lparr>tk_verification := vs, tk_status := status, tk_error := err, tk_step := None\<rparr>, Inr ()))))"

definition finish_flow :: "coding \<Rightarrow> 'w sandbox \<Rightarrow> flow_end \<Rightarrow> ('w task, unit) act" where
  \<comment> \<open>\<open>_finalize\<close>\<close>
  "finish_flow cd sb r =
     seqA (update_task RRunningStatus (Some (u ''artifacts'')) None)
     (bindA (full_diff sb) (\<lambda>d.
      seqA (put_artifact (u ''changes.patch'') d)
     (seqA (bindA (git_status sb) (\<lambda>v. put_artifact (u ''git-status.txt'') (extract_ok_value ''status'' v)))
     (seqA (save_flow_trace r) (judge_flow cd r d)))))"

subsection \<open>Numbers of the verification steps\<close>

lemma verify_name_parts: "split_on 95 (verify_name n) = [u ''verify'', nat_repr n]"
proof -
  have "95 \<notin> set (nat_repr n)" using nat_repr_digits [of n] by (auto simp: list_all_iff)
  then have "split_on 95 (u ''verify'' @ 95 # nat_repr n) = [u ''verify'', nat_repr n]"
    by (subst split_on_append) (auto simp: split_on_absent)
  then show ?thesis by (simp add: verify_name_def)
qed

lemma nat_repr_inj: "nat_repr m = nat_repr n \<longleftrightarrow> m = n"
  by (metis digits_nat_repr)

lemma strip_digits:
  assumes "t \<noteq> []" "list_all (\<lambda>c. 48 \<le> c \<and> c \<le> 57) t"
  shows "strip t = t"
proof -
  have ns: "\<not> is_space c" if "c \<in> set t" for c using that assms(2) by (auto simp: list_all_iff is_space_def)
  then have "lstrip t = t" using assms(1) by (cases t) (auto simp: lstrip_def)
  moreover have "rstrip t = t" using ns assms(1) by (cases t rule: rev_cases) (auto simp: rstrip_def)
  ultimately show ?thesis by (simp add: strip_def)
qed

lemma py_int_nat_repr: "py_int (JStr (nat_repr n)) = Inr (int n)"
proof -
  have d: "list_all (\<lambda>c. 48 \<le> c \<and> c \<le> 57) (nat_repr n)" by (rule nat_repr_digits)
  define t where "t = nat_repr n"
  have t: "list_all (\<lambda>c. 48 \<le> c \<and> c \<le> 57) t" "t \<noteq> []" "digits_val t = n"
    using d nat_repr_nonempty digits_nat_repr by (simp_all add: t_def)
  then obtain c r where c: "t = c # r" "c \<noteq> 45" "c \<noteq> 43" by (cases t) auto
  have "filter (\<lambda>c. c \<noteq> 95) t = t" using t(1) by (auto simp: filter_id_conv list_all_iff)
  moreover have "signed t = Some (int n)" using t c by (simp add: signed_def unsigned_def)
  ultimately have "py_int (JStr t) = Inr (int n)" using strip_digits [OF t(2,1)] by simp
  then show ?thesis by (simp add: t_def)
qed

lemma highest_Some: "highest xs = Some y \<Longrightarrow> y \<in> set xs \<and> (\<forall>x\<in>set xs. fst x \<le> fst y)"
proof (induction xs arbitrary: y)
  case (Cons x xs)
  show ?case
  proof (cases "highest xs")
    case None
    then have "xs = []" by (cases xs) (auto split: option.splits)
    then show ?thesis using Cons.prems by simp
  next
    case (Some z)
    have z: "z \<in> set xs" "\<forall>x\<in>set xs. fst x \<le> fst z" using Cons.IH [OF Some] by auto
    have "y = (if fst x < fst z then z else x)" using Cons.prems Some by simp
    then show ?thesis using z by auto
  qed
qed simp

lemma in_map_filter: "x \<in> set (List.map_filter f xs) \<longleftrightarrow> (\<exists>e\<in>set xs. f e = Some x)"
  by (induction xs) (auto simp: List.map_filter_simps split: option.splits)

lemma latest_verification_from:
  assumes "latest_verification cd r \<noteq> []"
  shows "\<exists>n e. e \<in> set (fe_steps r) \<and> verification_of cd e = Some (n, latest_verification cd r)
    \<and> (\<forall>e'\<in>set (fe_steps r). \<forall>m vs. verification_of cd e' = Some (m, vs) \<longrightarrow> m \<le> n)"
proof -
  obtain n vs where h: "highest (List.map_filter (verification_of cd) (fe_steps r)) = Some (n, vs)"
    "latest_verification cd r = vs"
    using assms by (auto simp: latest_verification_def split: option.splits)
  obtain e where e: "e \<in> set (fe_steps r)" "verification_of cd e = Some (n, vs)"
    using highest_Some [OF h(1)] by (auto simp: in_map_filter)
  have "m \<le> n" if "e' \<in> set (fe_steps r)" "verification_of cd e' = Some (m, ws)" for e' m ws
  proof -
    have "(m, ws) \<in> set (List.map_filter (verification_of cd) (fe_steps r))" using that in_map_filter by metis
    then show ?thesis using highest_Some [OF h(1)] by force
  qed
  then show ?thesis using e h(2) by blast
qed

subsection \<open>The shape of the flow\<close>

definition chained :: "flow_step list \<Rightarrow> bool" where
  \<comment> \<open>each step depends on the one before it and on no other\<close>
  "chained fs \<longleftrightarrow> map fs_depends fs = [] # map (\<lambda>f. [fs_name f]) (butlast fs)"

lemma repair_steps_Suc:
  "concat (map (\<lambda>n. [repair_step cd sp n, verify_step cd t sp n]) [1..<Suc (Suc k)])
    = concat (map (\<lambda>n. [repair_step cd sp n, verify_step cd t sp n]) [1..<Suc k])
      @ [repair_step cd sp (Suc k), verify_step cd t sp (Suc k)]"
  by simp

lemma chained_snoc: "fs \<noteq> [] \<Longrightarrow> chained fs \<Longrightarrow> fs_depends f = [fs_name (last fs)] \<Longrightarrow> chained (fs @ [f])"
  by (cases fs rule: rev_cases) (auto simp: chained_def butlast_append)

lemma step_fields [simp]:
  "fs_name (flow_step a w d ts t q) = a" "fs_depends (flow_step a w d ts t q) = d" "fs_tools (flow_step a w d ts t q) = ts"
  "fs_gated (flow_step a w d ts t q) = False"
  "fs_name (repair_step cd sp n) = repair_name n" "fs_depends (repair_step cd sp n) = [verify_name (n - 1)]"
  "fs_tools (repair_step cd sp n) = ExecuteTools" "fs_gated (repair_step cd sp n) = False"
  "fs_name (verify_step cd tt sp n) = verify_name n" "fs_depends (verify_step cd tt sp n) = [repair_name n]"
  "fs_tools (verify_step cd tt sp n) = NoTools" "fs_gated (verify_step cd tt sp n) = False"
  by (simp_all add: flow_step_def repair_step_def verify_step_def)

lemma repair_chain:
  assumes "chained fs" "fs \<noteq> []" "fs_name (last fs) = verify_name 0"
  shows "chained (fs @ concat (map (\<lambda>n. [repair_step cd sp n, verify_step cd t sp n]) [1..<Suc k]))
    \<and> fs_name (last (fs @ concat (map (\<lambda>n. [repair_step cd sp n, verify_step cd t sp n]) [1..<Suc k]))) = verify_name k"
proof (induction k)
  case 0
  then show ?case using assms by simp
next
  case (Suc k)
  define c where "c = concat (map (\<lambda>n. [repair_step cd sp n, verify_step cd t sp n]) [1..<Suc k])"
  have c: "chained (fs @ c)" "fs_name (last (fs @ c)) = verify_name k" using Suc unfolding c_def by blast+
  have "chained ((fs @ c) @ [repair_step cd sp (Suc k)])" using c assms(2) by (intro chained_snoc) auto
  then have "chained (((fs @ c) @ [repair_step cd sp (Suc k)]) @ [verify_step cd t sp (Suc k)])"
    by (rule chained_snoc [rotated]) auto
  then show ?case unfolding repair_steps_Suc c_def [symmetric] by simp
qed

definition guarded_by_approval :: "flow_step list \<Rightarrow> bool" where
  \<comment> \<open>before the one step that needs approval there are no tools that write\<close>
  "guarded_by_approval fs \<longleftrightarrow> list_all (\<lambda>f. fs_tools f \<noteq> ExecuteTools) (takeWhile (\<lambda>f. \<not> fs_gated f) fs)
     \<and> length (filter fs_gated fs) = 1"

lemma build_flow_split:
  "build_flow cd t sp = (take 5 (build_flow cd t sp) @ repair_steps cd t sp)
     @ [flow_step (u ''review'') ReviewerAgent [verify_name (ts_max_repairs sp)] ReviewTools 600 (review_query sp)]"
  by (simp add: build_flow_def)

text \<open>
  The flow is a chain: every step depends on exactly the step before it, so the steps run one after
  another; exactly one of them waits for an approval, and no step before it has tools that write.
\<close>

lemma flow_is_an_approved_chain: "chained (build_flow cd t sp) \<and> guarded_by_approval (build_flow cd t sp)"
proof
  let ?fs = "take 5 (build_flow cd t sp)"
  have fs: "chained ?fs" "?fs \<noteq> []" "fs_name (last ?fs) = verify_name 0"
    by (auto simp: build_flow_def chained_def)
  note c = repair_chain [OF fs, of cd sp t "ts_max_repairs sp", folded repair_steps_def]
  have "?fs @ repair_steps cd t sp \<noteq> []" using fs(2) by simp
  with c show "chained (build_flow cd t sp)" by (subst build_flow_split) (intro chained_snoc, auto)
  have "filter fs_gated (repair_steps cd t sp) = []" by (auto simp: repair_steps_def filter_empty_conv)
  then show "guarded_by_approval (build_flow cd t sp)" by (simp add: guarded_by_approval_def build_flow_def)
qed

subsection \<open>Rounds that are skipped\<close>

text \<open>
  After a verification that passed, or that had nothing to run, the next repair and verification steps
  touch nothing, whatever agents they hold, and the second hands on the payload it was given.
\<close>

lemma skipped_round_keeps_the_payload:
  assumes "skip_repair cd os (verify_name n)" "verification_payload cd os (verify_name n) = v"
    and "cd_loads cd (cd_ascii cd v) = Some v" "is_obj v"
  shows "\<exists>a b. conditional agent (fs_query (repair_step cd sp (n + 1)) os) s = (s, Inr a)
    \<and> conditional agent' (fs_query (verify_step cd t sp (n + 1)) os) s = (s, Inr b) \<and> cd_loads cd (ag_content b) = Some v"
proof -
  have m: "starts_with skip_mark (skip_mark @ x)" for x by (simp add: starts_with_def)
  have q: "fs_query (repair_step cd sp (n + 1)) os
      = skip_mark @ u ''Repair skipped: verification already passed or was not configured.''"
    "fs_query (verify_step cd t sp (n + 1)) os = skip_mark @ cd_ascii cd v"
    using assms(1,2) by (auto simp: repair_step_def verify_step_def flow_step_def)
  show ?thesis unfolding q conditional_def using m assms(3) by (simp add: ret_def)
qed

subsection \<open>What the status of a finished flow says\<close>

lemma flow_status_succeeded:
  assumes "flow_status p r err d vs = (RSucceeded, e)"
  shows "(\<exists>q. p = Some q \<and> is_answer_only_plan q) \<or> (\<not> truthy_text err \<and> strip d \<noteq> [] \<and> r \<noteq> None
    \<and> (vs = [] \<longrightarrow> \<not> diff_requires_verification d) \<and> (vs \<noteq> [] \<longrightarrow> satisfied vs))"
  using assms by (auto simp: flow_status_def split: if_splits option.splits)

lemma save_keeps_artifacts:
  "save_plan cd t p s = (s', Inr ()) \<Longrightarrow> set (rp_artifacts s) \<subseteq> set (rp_artifacts s')"
  "save_review cd t v fb s = (s', Inr ()) \<Longrightarrow> set (rp_artifacts s) \<subseteq> set (rp_artifacts s')"
  by (auto simp: save_plan_def save_review_def act_simps seqA_eq dest!: put_artifact_eq split: option.splits)

lemma judge_flow_judges:
  assumes "judge_flow cd r d s = (s', Inr ())"
  shows "set (rp_artifacts s) \<subseteq> set (rp_artifacts s') \<and> tk_verification s' = latest_verification cd r
    \<and> flow_status (parse_json_model (cd_plan cd) (step_content r (u ''plan'')))
         (parse_json_model (cd_review cd) (step_content r (u ''review''))) (fe_error r) d (latest_verification cd r)
       = (tk_status s', tk_error s')"
proof -
  obtain x e where f: "flow_status (parse_json_model (cd_plan cd) (step_content r (u ''plan'')))
      (parse_json_model (cd_review cd) (step_content r (u ''review''))) (fe_error r) d (latest_verification cd r) = (x, e)"
    by force
  show ?thesis using assms unfolding judge_flow_def Let_def seqA_eq f
    by (auto simp del: u_Cons u_Nil dest!: save_keeps_artifacts)
qed

subsection \<open>Properties\<close>

text \<open>
  C12. A workflow run ends as succeeded only on evidence: either its plan asks for an answer without
  changes, or the flow ended without error, its diff is not empty, the review is valid, and the successful
  verification step with the highest number passed every required command; a run whose verification had
  no results may also succeed when the diff touches no code file. The diff it saved is the one it judged.
\<close>

theorem workflow_success_needs_evidence:
  assumes "finish_flow cd sb r s = (s', Inr ())" and "tk_status s' = RSucceeded"
  shows "\<exists>d. (u ''changes.patch'', d) \<in> set (rp_artifacts s') \<and> tk_verification s' = latest_verification cd r
     \<and> ((\<exists>p. parse_json_model (cd_plan cd) (step_content r (u ''plan'')) = Some p \<and> is_answer_only_plan p)
        \<or> (\<not> truthy_text (fe_error r) \<and> strip d \<noteq> []
           \<and> parse_json_model (cd_review cd) (step_content r (u ''review'')) \<noteq> None
           \<and> (latest_verification cd r = [] \<longrightarrow> \<not> diff_requires_verification d)
           \<and> (latest_verification cd r \<noteq> [] \<longrightarrow> satisfied (latest_verification cd r)
               \<and> (\<exists>n e. e \<in> set (fe_steps r) \<and> verification_of cd e = Some (n, latest_verification cd r)
                    \<and> (\<forall>e'\<in>set (fe_steps r). \<forall>m vs. verification_of cd e' = Some (m, vs) \<longrightarrow> m \<le> n)))))"
proof -
  define c where "c = u ''changes.patch''"
  obtain s1 s2 s3 d s4 s5 where 1: "put_artifact c d s1 = (s2, Inr ())"
    "bindA (git_status sb) (\<lambda>v. put_artifact (u ''git-status.txt'') (extract_ok_value ''status'' v)) s2 = (s3, Inr ())"
    "save_flow_trace r s3 = (s4, Inr ())" "judge_flow cd r d s4 = (s', Inr ())"
    using assms(1) unfolding finish_flow_def c_def [symmetric] by (auto simp: seqA_eq bindA_eq simp del: u_Nil)
  have "(c, d) \<in> set (rp_artifacts s4)"
    using put_artifact_eq [OF 1(1)] 1(2,3)
    by (auto simp: act_simps save_flow_trace_def dest!: put_artifact_eq git_status_artifacts)
  with judge_flow_judges [OF 1(4)] have j: "(c, d) \<in> set (rp_artifacts s')" "tk_verification s' = latest_verification cd r"
    "flow_status (parse_json_model (cd_plan cd) (step_content r (u ''plan''))) (parse_json_model (cd_review cd) (step_content r (u ''review'')))
       (fe_error r) d (latest_verification cd r) = (RSucceeded, tk_error s')" using assms(2) by auto
  show ?thesis unfolding c_def [symmetric]
    using j(1,2) flow_status_succeeded [OF j(3)] latest_verification_from [of cd r] by blast
qed

subsection \<open>Examples\<close>

definition example_text :: bilingual where
  "example_text = \<lparr>zh = [], en = u ''fix''\<rparr>"

definition example_plan :: plan where
  "example_plan = \<lparr>pl_type = u ''bugfix'', pl_risk = RiskLow, pl_summary = example_text,
     pl_items = [\<lparr>pi_id = u ''1'', pi_description = example_text, pi_files = [u ''a.py'']\<rparr>], pl_verification = []\<rparr>"

definition example_result :: vresult where
  "example_result = \<lparr>vr_name = u ''tests'', vr_kind = ''test'', vr_argv = [u ''pytest''], vr_exit = 0, vr_passed = True,
     vr_timed_out = False, vr_excerpt = [], vr_log = [], vr_required = True\<rparr>"

definition example_coding :: coding where
  "example_coding = \<lparr>cd_plan = (\<lambda>t. if t = u ''{p}'' then Some example_plan else None),
     cd_review = (\<lambda>t. if t = u ''{r}'' then Some \<lparr>rv_summary = example_text, rv_changes = [], rv_verification = [], rv_risks = []\<rparr> else None),
     cd_result = (\<lambda>_. Some example_result), cd_dump_plan = (\<lambda>_. []), cd_dump_review = (\<lambda>_. []),
     cd_loads = (\<lambda>t. if t = u ''v'' then Some (verification_json [example_result]) else None), cd_ascii = dumps_default\<rparr>"

definition example_step :: "string \<Rightarrow> string \<Rightarrow> step_end" where
  "example_step n c = \<lparr>se_name = u n, se_status = ''success'', se_content = u c, se_trace = []\<rparr>"

definition example_end :: flow_end where
  "example_end = \<lparr>fe_status = ''success'', fe_error = None,
     fe_steps = [example_step ''plan'' ''{p}'', example_step ''verify_0'' ''v'', example_step ''repair_1'' ''skipped'',
       example_step ''verify_1'' ''v'', example_step ''review'' ''so: {r}.''], fe_trace = []\<rparr>"

lemma example_flow:
  "(case finish_flow example_coding example_sandbox example_end example_task of (s', r) \<Rightarrow> r = Inr ()
     \<and> tk_status s' = RSucceeded \<and> tk_verification s' = [example_result])"
  by code_simp

theorem workflow_success_needs_evidence_witness:
  "\<exists>s' d. finish_flow example_coding example_sandbox example_end example_task = (s', Inr ())
     \<and> (u ''changes.patch'', d) \<in> set (rp_artifacts s') \<and> tk_verification s' = [example_result]"
proof -
  obtain s' where s': "finish_flow example_coding example_sandbox example_end example_task = (s', Inr ())"
      "tk_status s' = RSucceeded" "tk_verification s' = [example_result]"
    using example_flow by (auto split: prod.splits)
  show ?thesis using workflow_success_needs_evidence [OF s'(1,2)] s'(1,3) by blast
qed

lemma example_approvals:
  "approve_edit_by_risk example_coding [(u ''plan'', u ''here is the plan {p}'')] = ApproveEdit"
  "(case approve_edit_by_risk example_coding [] of PendingEdit _ \<Rightarrow> True | _ \<Rightarrow> False)"
  by code_simp+

end
