(* ===== verification/Task_Runner.thy ===== *)
theory Task_Runner
  imports Coding_Flow Credentials
begin

text \<open>
  \<open>CodingTaskRunner\<close> of \<open>workflow.py\<close>: submitting a task, resuming it, deciding an approval and running
  its verification again, each around \<open>_execute\<close>, which takes a container slot, starts the sandbox,
  hands the run to the agentic runtime or to the fixed workflow, and gives back what it took. The sandbox's
  start and stop, the snapshot, the flow engine and the model are parameters. An interrupt from the
  keyboard is left out.
\<close>

subsection \<open>State and environment\<close>

record 'w host =
  ho_task :: "'w task"
  ho_stored :: bool  \<comment> \<open>whether the run has a record\<close>
  ho_bootstrap :: bool  \<comment> \<open>which is only the placeholder that a submission left\<close>
  ho_vault :: vault
  ho_slots :: nat  \<comment> \<open>free container slots\<close>
  ho_resume_step :: "pytext option"  \<comment> \<open>\<open>workflow-tool-resume.json\<close>\<close>

datatype flow_call =
    FlowRun pytext
  | FlowResume
  | FlowRerun pytext
  | FlowDecide pytext bool pytext  \<comment> \<open>the step, whether it is approved, the reason; then resume\<close>

record 'w env =
  en_setting :: "'w setting"  \<comment> \<open>of the agentic run, with the chosen sandbox\<close>
  en_read_only :: "'w setting"  \<comment> \<open>the same with \<open>ReadOnlyWorkspaceSandbox\<close>\<close>
  en_docker :: bool  \<comment> \<open>whether the sandbox factory is \<open>DockerSandbox\<close>\<close>
  en_daemon :: bool
  en_image :: bool
  en_dockerfile :: bool
  en_context :: bool
  en_build :: "('w, unit) act"
  en_start :: "('w, unit) act"
  en_stop :: "('w, unit) act"
  en_snapshot :: "('w, unit) act"
  en_workspace :: "'w \<Rightarrow> bool"
  en_workflow :: bool  \<comment> \<open>the runtime mode is the fixed workflow\<close>
  en_has_worker :: bool
  en_model :: "'w model"
  en_engine :: "flow_step list \<Rightarrow> flow_call \<Rightarrow> ('w task, flow_end) act"
  en_coding :: coding
  en_spec :: spec
  en_root :: pytext
  en_timeout :: int
  en_show :: "exn \<Rightarrow> pytext"
  en_traceback :: "exn \<Rightarrow> pytext"

type_synonym approval = "string \<times> string \<times> pytext"  \<comment> \<open>step or request, decision, note\<close>

definition on_task :: "('w task, 'a) act \<Rightarrow> ('w host, 'a) act" where
  "on_task f h = (case f (ho_task h) of (s, r) \<Rightarrow> (h\<lparr>ho_task := s\<rparr>, r))"

definition on_machine :: "('w, 'a) act \<Rightarrow> ('w host, 'a) act" where
  "on_machine f = on_task (on_world f)"

subsection \<open>The parts of an execution\<close>

definition agentic_mode :: "'w env \<Rightarrow> bool" where
  "agentic_mode ev \<longleftrightarrow> \<not> en_workflow ev \<and> en_has_worker ev"

definition degraded :: "'w env \<Rightarrow> bool" where
  "degraded ev \<longleftrightarrow> en_docker ev \<and> agentic_mode ev \<and> \<not> en_daemon ev"

definition chosen :: "'w env \<Rightarrow> 'w setting" where
  "chosen ev = (if degraded ev then en_read_only ev else en_setting ev)"

definition ensure_image :: "'w env \<Rightarrow> ('w host, unit) act" where
  "ensure_image ev =
     (if \<not> en_docker ev then ret ()
      else guardA (\<not> en_daemon ev) (SandboxError ''Docker daemon is not running; start Docker Desktop and retry'')
        (if en_image ev then ret ()
         else guardA (\<not> en_dockerfile ev) (SandboxError ''Dockerfile not found'')
              (guardA (\<not> en_context ev) (SandboxError ''Docker build context is invalid'') (on_machine (en_build ev)))))"

fun replay_installs :: "'w sandbox \<Rightarrow> installed list \<Rightarrow> ('w host, unit) act" where
  "replay_installs sb [] = ret ()"
| "replay_installs sb (i # is) =
     bindA (on_machine (sb_install sb (in_requested i))) (\<lambda>r.
     bindA (liftA (py_int (get_or ''exit_code'' (JInt 1) r))) (\<lambda>e.
       guardA (e \<noteq> 0) (SandboxError ''failed to restore dependencies'') (replay_installs sb is)))"

definition replay_dependencies :: "'w sandbox \<Rightarrow> ('w host, unit) act" where
  "replay_dependencies sb = (\<lambda>h. replay_installs sb (rp_installed (ho_task h)) h)"

definition decide_request :: "approval \<Rightarrow> ('w host, unit) act" where
  "decide_request a = on_task (modify (\<lambda>s. case a of (i, d, note) \<Rightarrow>
     bindE (decide (tk_broker s) i d note) (\<lambda>(b, _). Inr (s\<lparr>tk_broker := b\<rparr>))))"

definition is_request :: "approval \<Rightarrow> 'w host \<Rightarrow> bool" where
  "is_request a h \<longleftrightarrow> list_ex (\<lambda>r. rq_id r = fst a) (br_requests (tk_broker (ho_task h)))"

definition approve_flow_step :: "approval \<Rightarrow> flow_call" where
  "approve_flow_step a = (case a of (name, d, note) \<Rightarrow>
     if d = ''approved'' then FlowDecide (u name) True note
     else FlowDecide (u name) False (if note = [] then [29992, 25143, 25298, 32477, 20102, 35813, 25805, 20316] else note))"

definition call_flow :: "'w env \<Rightarrow> flow_call \<Rightarrow> ('w host, flow_end) act" where
  "call_flow ev c = on_task (en_engine ev (build_flow (en_coding ev) (en_timeout ev) (en_spec ev)) c)"

definition drive_flow :: "'w env \<Rightarrow> bool \<Rightarrow> pytext option \<Rightarrow> approval option \<Rightarrow> ('w host, flow_end) act" where
  "drive_flow ev resuming rerun approval =
     (case approval of
        Some a \<Rightarrow> (\<lambda>h. if is_request a h
          then seqA (decide_request a) (\<lambda>h. case ho_resume_step h of
                 None \<Rightarrow> (h, Inl FileNotFoundError) | Some st \<Rightarrow> call_flow ev (FlowRerun st) h) h
          else call_flow ev (approve_flow_step a) h)
      | None \<Rightarrow> (case rerun of
          Some st \<Rightarrow> call_flow ev (FlowRerun st)
        | None \<Rightarrow> call_flow ev (if resuming then FlowResume else FlowRun (task_input (en_spec ev)))))"

definition failed_step :: "flow_end \<Rightarrow> pytext" where
  "failed_step r = (case first_such (\<lambda>e. se_status e = ''failed'') (rev (fe_steps r)) of
     None \<Rightarrow> u ''execute'' | Some e \<Rightarrow> se_name e)"

definition waiting_step :: "flow_end \<Rightarrow> pytext" where
  "waiting_step r = (case first_such (\<lambda>e. se_status e = ''waiting_approval'') (fe_steps r) of
     None \<Rightarrow> u ''approval'' | Some e \<Rightarrow> se_name e)"

definition conclude_flow :: "'w env \<Rightarrow> flow_end \<Rightarrow> ('w host, unit) act" where
  "conclude_flow ev r =
     (\<lambda>h. case pending_requests (tk_broker (ho_task h)) of
        q # _ \<Rightarrow>
          seqA (on_task (save_flow_trace r))
            (on_task (update_task RWaitingApproval (Some (u ''approval:'' @ u (rq_id q)))
              (Some [31561, 24453, 31934, 30830, 24037, 20855, 23457, 25209]))) (h\<lparr>ho_resume_step := Some (failed_step r)\<rparr>)
      | [] \<Rightarrow>
          if fe_status r = ''waiting_approval''
          then seqA (on_task (save_flow_trace r))
                 (on_task (update_task RNeedsAttention (Some (u ''approval:'' @ waiting_step r))
                   (Some (if truthy_text (fe_error r) then the (fe_error r) else [31561, 24453, 29992, 25143, 23457, 25209])))) h
          else on_task (finish_flow (en_coding ev) (st_sandbox (chosen ev)) r) h)"

definition run_inside :: "'w env \<Rightarrow> bool \<Rightarrow> pytext option \<Rightarrow> approval option \<Rightarrow> ('w host, unit) act" where
  \<comment> \<open>what runs in the started sandbox\<close>
  "run_inside ev resuming rerun approval =
     (if agentic_mode ev
      then seqA (case approval of None \<Rightarrow> ret () | Some a \<Rightarrow> decide_request a) (on_task (run_task (chosen ev) (en_model ev)))
      else bindA (drive_flow ev resuming rerun approval) (conclude_flow ev))"

definition release_slot :: "('w host, unit) act" where
  "release_slot h = (h\<lparr>ho_slots := ho_slots h + 1\<rparr>, Inr ())"

definition in_sandbox :: "'w env \<Rightarrow> bool \<Rightarrow> pytext option \<Rightarrow> approval option \<Rightarrow> ('w host, unit) act" where
  \<comment> \<open>the \<open>try\<close> with its \<open>finally\<close>\<close>
  "in_sandbox ev resuming rerun approval =
     finallyA
       (seqA (on_machine (en_start ev))
       (seqA (if (resuming \<or> rerun \<noteq> None) \<and> sb_supports_shell (st_sandbox (chosen ev))
              then replay_dependencies (st_sandbox (chosen ev)) else ret ())
         (run_inside ev resuming rerun approval)))
       (seqA (on_machine (en_stop ev)) release_slot)"

definition execute :: "'w env \<Rightarrow> bool \<Rightarrow> pytext option \<Rightarrow> approval option \<Rightarrow> ('w host, unit) act" where
  \<comment> \<open>\<open>_execute\<close>; the wait for a slot has ended without one when none is free\<close>
  "execute ev resuming rerun approval =
     seqA (if degraded ev then ret () else ensure_image ev)
       (\<lambda>h. if ho_slots h = 0 then (h, Inl (SandboxError ''timed out waiting for an available task container slot''))
         else seqA (on_task (update_task RRunningStatus (Some (u ''sandbox'')) None)) (in_sandbox ev resuming rerun approval)
                (h\<lparr>ho_slots := ho_slots h - 1\<rparr>))"

subsection \<open>The operations\<close>

definition record_failure :: "rstatus \<Rightarrow> pytext \<Rightarrow> ('w host, unit) act" where
  "record_failure status err = (\<lambda>h. if ho_stored h then on_task (update_task status None (Some err)) h
     else (h, Inl (RuntimeError ''run record missing'')))"

definition write_error :: "'w env \<Rightarrow> exn \<Rightarrow> ('w host, unit) act" where
  "write_error ev e = on_task (put_artifact (u ''logs/error.log'') (en_traceback ev e))"

definition recording_failures :: "'w env \<Rightarrow> ('w host, unit) act \<Rightarrow> ('w host, unit) act" where
  \<comment> \<open>\<open>except Exception\<close>: the error is logged and becomes the status of the run\<close>
  "recording_failures ev m h = (case m h of
       (h', Inr ()) \<Rightarrow> (h', Inr ())
     | (h', Inl e) \<Rightarrow> seqA (write_error ev e) (record_failure RFailed (en_show ev e)) h')"

definition prepare_spec :: "'w env \<Rightarrow> ('w host, 'w env) act" where
  \<comment> \<open>the captured credentials go to the vault, the redacted texts on\<close>
  "prepare_spec ev =
     (\<lambda>h. case sanitize_and_capture_credentials [ts_task (en_spec ev), or_empty (ts_context (en_spec ev))] of
        (texts, creds) \<Rightarrow> (case vault_merge (ho_vault h) (en_root ev) creds of
            Inl e \<Rightarrow> (h, Inl e)
          | Inr v \<Rightarrow> (h\<lparr>ho_vault := v\<rparr>, Inr (ev\<lparr>en_spec := (en_spec ev)\<lparr>ts_task := texts ! 0,
              ts_context := (if texts ! 1 = [] then None else Some (texts ! 1))\<rparr>\<rparr>))))"

definition new_record :: "'w task \<Rightarrow> 'w task" where
  \<comment> \<open>a fresh \<open>RunRecord\<close>; the other documents of the run are what they were\<close>
  "new_record s = s\<lparr>tk_status := RCreated, tk_error := None, tk_step := None, tk_verification := [], tk_changes := None,
     rp_installed := []\<rparr>"

definition run :: "'w env \<Rightarrow> ('w host, unit) act" where
  "run ev = bindA (prepare_spec ev) (\<lambda>ev h.
     if ho_stored h \<and> \<not> ho_bootstrap h then (h, Inl (FileExistsError ''run already exists''))
     else recording_failures ev
            (seqA (on_task (update_task RPreparing (Some (u ''workspace'')) None))
            (seqA (on_machine (en_snapshot ev)) (execute ev False None None)))
            (h\<lparr>ho_task := new_record (ho_task h), ho_stored := True, ho_bootstrap := False\<rparr>))"

definition resume :: "'w env \<Rightarrow> ('w host, unit) act" where
  "resume ev = (\<lambda>h.
     if \<not> ho_stored h then (h, Inl FileNotFoundError)
     else if tk_status (ho_task h) = RCancelledStatus
     then (h, Inl (ValueError ''cancelled tasks cannot resume; submit a follow-up instead''))
     else (let h = h\<lparr>ho_task := (ho_task h)\<lparr>tk_control := fst (set_control (tk_control (ho_task h)) RRunning [] [])\<rparr>\<rparr>
           in if \<not> en_workspace ev (rp_world (ho_task h)) then record_failure RFailed (u ''saved workspace is missing'') h
              else recording_failures ev (execute ev True None None) h))"

definition rerun_from_verify :: "'w env \<Rightarrow> ('w host, unit) act" where
  "rerun_from_verify ev = (\<lambda>h. if \<not> ho_stored h then (h, Inl FileNotFoundError)
     else execute ev False (Some (verify_name 0)) None h)"

definition decide_approval :: "'w env \<Rightarrow> approval \<Rightarrow> ('w host, unit) act" where
  "decide_approval ev a = (\<lambda>h.
     if \<not> ho_stored h then (h, Inl FileNotFoundError)
     else if \<not> en_workspace ev (rp_world (ho_task h)) then record_failure RFailed (u ''saved workspace is missing'') h
     else recording_failures ev (execute ev True None (Some a)) h)"

datatype operation = Run | Resume | RerunFromVerify | Decide approval

fun operate :: "'w env \<Rightarrow> operation \<Rightarrow> ('w host, unit) act" where
  "operate ev Run = run ev"
| "operate ev Resume = resume ev"
| "operate ev RerunFromVerify = rerun_from_verify ev"
| "operate ev (Decide a) = decide_approval ev a"

subsection \<open>What an execution gives back\<close>

definition idle :: "('w \<Rightarrow> bool) \<Rightarrow> nat \<Rightarrow> 'w host \<Rightarrow> bool" where
  "idle down n h \<longleftrightarrow> ho_slots h = n \<and> down (rp_world (ho_task h))"

definition stops_cleanly :: "('w \<Rightarrow> bool) \<Rightarrow> 'w env \<Rightarrow> bool" where
  \<comment> \<open>\<open>stop\<close> does not raise and leaves the sandbox down; building an image and the snapshot start none\<close>
  "stops_cleanly down ev \<longleftrightarrow> (\<forall>w. snd (en_stop ev w) = Inr () \<and> down (fst (en_stop ev w)))
     \<and> keeps down (en_build ev) \<and> keeps down (en_snapshot ev)"

definition fixed :: "nat \<Rightarrow> bool \<Rightarrow> 'w host \<Rightarrow> bool" where
  \<comment> \<open>what nothing inside an execution touches\<close>
  "fixed n b h \<longleftrightarrow> ho_slots h = n \<and> ho_stored h = b"

lemma keeps_slots_on_task [keeps_intros]: "keeps (fixed n b) (on_task f)"
  by (auto simp: keeps_def on_task_def fixed_def split: prod.splits)

lemma fixed_on_task [simp]: "fixed n b (fst (on_task f h)) = fixed n b h"
  by (auto simp: on_task_def fixed_def split: prod.splits)

lemma fixed_resume_step [simp]: "fixed n b (h\<lparr>ho_resume_step := x\<rparr>) = fixed n b h"
  by (simp add: fixed_def)

lemma keeps_slots_replay: "keeps (fixed n b) (replay_installs sb is)"
  by (induction "is") (auto simp: on_machine_def intro!: keeps_intros)

lemma keeps_slots_flow: "keeps (fixed n b) (drive_flow ev x y z)"
proof -
  have k: "keeps (fixed n b) (call_flow ev f)" "keeps (fixed n b) (decide_request a)" for f a
    by (auto simp: call_flow_def decide_request_def intro!: keeps_intros)
  have "keeps (fixed n b) (seqA (decide_request a) (\<lambda>h. case ho_resume_step h of
      None \<Rightarrow> (h, Inl FileNotFoundError) | Some st \<Rightarrow> call_flow ev (FlowRerun st) h))" for a
    using k(1) by (intro keeps_seqA k(2)) (auto simp: keeps_def split: option.splits)
  then show ?thesis using k(1) by (auto simp: drive_flow_def keeps_def split: option.splits)
qed

lemma keeps_slots_conclude: "keeps (fixed n b) (conclude_flow ev r)"
proof -
  have k: "keeps (fixed n b) (seqA (on_task f) (on_task g))" for f :: "('a task, unit) act" and g :: "('a task, unit) act"
    by (intro keeps_intros)
  then show ?thesis unfolding conclude_flow_def by (auto simp: keeps_def split: list.splits)
qed

lemma keeps_slots_inside: "keeps (fixed n b) (run_inside ev x y z)"
  by (auto simp: run_inside_def decide_request_def split: option.splits
      intro!: keeps_intros keeps_slots_flow keeps_slots_conclude)

lemma finally_settles: "(\<And>w. P w \<Longrightarrow> Q (fst (k w))) \<Longrightarrow> keeps P m \<Longrightarrow> P w \<Longrightarrow> Q (fst (finallyA m k w))"
  by (simp add: finallyA_def keeps_def split: prod.split sum.split) (metis fst_conv)

lemma keeps_fixed_session:
  "keeps (fixed n b) (seqA (on_machine (en_start ev))
       (seqA (if (x \<or> y \<noteq> None) \<and> sb_supports_shell (st_sandbox (chosen ev))
              then replay_dependencies (st_sandbox (chosen ev)) else ret ()) (run_inside ev x y z)))"
proof -
  have "keeps (fixed n b) (replay_dependencies sb)" for sb :: "'a sandbox"
    unfolding replay_dependencies_def using keeps_slots_replay [of n b sb] by (auto simp: keeps_def)
  then show ?thesis by (auto simp: on_machine_def intro!: keeps_intros keeps_slots_inside)
qed

lemma in_sandbox_stored: "ho_stored h \<Longrightarrow> ho_stored (fst (in_sandbox ev x y z h))"
proof -
  assume h: "ho_stored h"
  have "ho_stored (fst (seqA (on_machine (en_stop ev)) release_slot w))" if "ho_stored w" for w
    using that by (auto simp: seqA_def bindA_def on_machine_def on_task_def release_slot_def split: prod.splits sum.splits)
  then show ?thesis unfolding in_sandbox_def
    by (rule finally_settles [where P = "fixed (ho_slots h) True" and Q = ho_stored, OF _ keeps_fixed_session])
      (auto simp: fixed_def h)
qed

lemma in_sandbox_idle:
  assumes "stops_cleanly down ev" "ho_slots h = n"
  shows "idle down (n + 1) (fst (in_sandbox ev a b c h))"
proof -
  have "idle down (n + 1) (fst (seqA (on_machine (en_stop ev)) release_slot w))" if "ho_slots w = n" for w
  proof -
    obtain x r where x: "en_stop ev (rp_world (ho_task w)) = (x, r)" by force
    then have "r = Inr ()" "down x" using assms(1) unfolding stops_cleanly_def by (metis fst_conv snd_conv)+
    then show ?thesis using x that
      by (simp add: seqA_def bindA_def on_machine_def on_task_def on_world_def release_slot_def idle_def)
  qed
  then show ?thesis unfolding in_sandbox_def
    by (rule finally_settles [where P = "fixed n (ho_stored h)" and Q = "idle down (n + 1)", OF _ keeps_fixed_session])
      (use assms(2) in \<open>auto simp: fixed_def\<close>)
qed

lemma keeps_idle_machine: "keeps down f \<Longrightarrow> keeps (idle down n) (on_machine f)"
  by (auto simp: keeps_def idle_def on_machine_def on_task_def on_world_def split: prod.splits)

lemma keeps_idle_status [keeps_intros]: "keeps (idle down n) (on_task (update_task a b c))"
  by (simp add: keeps_def idle_def on_task_def update_task_def)

lemma keeps_idle_execute:
  assumes "stops_cleanly down ev"
  shows "keeps (idle down n) (execute ev a b c)"
proof -
  have "keeps (idle down n) (if degraded ev then ret () else ensure_image ev)"
    using assms keeps_idle_machine [of down "en_build ev" n]
    by (auto simp: ensure_image_def stops_cleanly_def intro!: keeps_intros)
  moreover have "keeps (idle down n) (\<lambda>h. if ho_slots h = 0 then (h, Inl e)
      else seqA (on_task (update_task x y z)) (in_sandbox ev a b c) (h\<lparr>ho_slots := ho_slots h - 1\<rparr>))" for e x y z
    using in_sandbox_idle [OF assms, of _ "n - 1" a b c]
    by (auto simp: keeps_def seqA_def bindA_def idle_def on_task_def update_task_def)
  ultimately show ?thesis unfolding execute_def by (rule keeps_seqA)
qed

lemma keeps_idle_failures:
  assumes "keeps (idle down n) m"
  shows "keeps (idle down n) (recording_failures ev m)"
proof -
  have w: "keeps (idle down n) (write_error ev e)" for e
    by (auto simp: write_error_def on_task_def put_artifact_def keeps_def idle_def split: sum.splits)
  have r: "keeps (idle down n) (record_failure x y)" for x y
    using keeps_idle_status [of down n x None "Some y"] by (auto simp: record_failure_def keeps_def)
  have "keeps (idle down n) (seqA (write_error ev e) (record_failure RFailed (en_show ev e)))" for e
    by (intro keeps_seqA w r)
  then show ?thesis using assms unfolding keeps_def recording_failures_def
    by (simp split: prod.split sum.split unit.split) (metis fst_conv)
qed

lemma prepare_spec_then:
  assumes "prepare_spec ev h = (h', Inr ev')"
  shows "(\<exists>v. h' = h\<lparr>ho_vault := v\<rparr>) \<and> stops_cleanly down ev' = stops_cleanly down ev"
  using assms by (auto simp: prepare_spec_def stops_cleanly_def split: prod.splits sum.splits)

lemma prepare_spec_fails: "prepare_spec ev h = (h', Inl e) \<Longrightarrow> h' = h"
  by (auto simp: prepare_spec_def split: prod.splits sum.splits)

lemma keeps_idle_run:
  assumes "stops_cleanly down ev"
  shows "keeps (idle down n) (run ev)"
proof (unfold keeps_def, intro allI impI)
  fix h :: "'a host" assume h: "idle down n h"
  obtain h1 r where p: "prepare_spec ev h = (h1, r)" by force
  show "idle down n (fst (run ev h))"
  proof (cases r)
    case (Inl e)
    then show ?thesis using p h prepare_spec_fails [of ev h h1 e] by (simp add: run_def bindA_def)
  next
    case (Inr ev')
    note q = prepare_spec_then [OF p [unfolded Inr], of down]
    then have c: "stops_cleanly down ev'" using assms by blast
    then have "keeps down (en_snapshot ev')" by (simp add: stops_cleanly_def)
    then have k: "keeps (idle down n) (seqA (on_task (update_task RPreparing (Some (u ''workspace'')) None))
        (seqA (on_machine (en_snapshot ev')) (execute ev' False None None)))"
      by (intro keeps_seqA keeps_idle_status keeps_idle_machine keeps_idle_execute [OF c])
    obtain v where v: "h1 = h\<lparr>ho_vault := v\<rparr>" using q by blast
    have "idle down n (h1\<lparr>ho_task := new_record (ho_task h1), ho_stored := True, ho_bootstrap := False\<rparr>)" "idle down n h1"
      using h v by (simp_all add: idle_def new_record_def)
    then show ?thesis using keeps_idle_failures [OF k, of ev'] p Inr
      by (simp add: run_def bindA_def keeps_def)
  qed
qed

lemma keeps_idle_operate:
  assumes "stops_cleanly down ev"
  shows "keeps (idle down n) (operate ev op)"
proof (cases op)
  case Run
  then show ?thesis using keeps_idle_run [OF assms] by simp
next
  case Resume
  have "keeps (idle down n) (recording_failures ev (execute ev True None None))"
    by (intro keeps_idle_failures keeps_idle_execute assms)
  then show ?thesis using keeps_idle_status [of down n]
    by (auto simp: Resume resume_def keeps_def idle_def record_failure_def Let_def)
next
  case RerunFromVerify
  then show ?thesis using keeps_idle_execute [OF assms, of n] by (auto simp: rerun_from_verify_def keeps_def)
next
  case (Decide a)
  have "keeps (idle down n) (recording_failures ev (execute ev True None (Some a)))"
    by (intro keeps_idle_failures keeps_idle_execute assms)
  then show ?thesis using keeps_idle_status [of down n]
    by (auto simp: Decide decide_approval_def keeps_def record_failure_def)
qed

subsection \<open>Properties\<close>


text \<open>
  When the sandbox's \<open>stop\<close> raises, the slot that the run took is not given back.
\<close>

lemma failing_stop_keeps_the_slot:
  assumes "snd (en_stop ev w) = Inl e" "rp_world (ho_task h) = w"
  shows "ho_slots (fst (seqA (on_machine (en_stop ev)) release_slot h)) = ho_slots h"
  using assms by (cases "en_stop ev w")
    (simp add: seqA_def bindA_def on_machine_def on_task_def on_world_def)

lemma keeps_stored_execute: "keeps ho_stored (execute ev x y z)"
proof -
  have o: "keeps ho_stored (on_task f)" for f :: "('a task, 'b) act"
    by (auto simp: keeps_def on_task_def split: prod.splits)
  have "keeps ho_stored (if degraded ev then ret () else ensure_image ev)"
    by (auto simp: ensure_image_def on_machine_def intro!: keeps_intros) (auto simp: keeps_def on_task_def split: prod.splits)
  moreover have "keeps ho_stored (\<lambda>h. if ho_slots h = 0 then (h, Inl e)
      else seqA (on_task (update_task i j k)) (in_sandbox ev x y z) (h\<lparr>ho_slots := ho_slots h - 1\<rparr>))" for e i j k
    using in_sandbox_stored [of _ ev x y z]
    by (auto simp: keeps_def seqA_def bindA_def on_task_def update_task_def)
  ultimately show ?thesis unfolding execute_def by (rule keeps_seqA)
qed

definition no_error_log :: "'w host \<Rightarrow> bool" where
  \<comment> \<open>the run's name does not allow to write the log\<close>
  "no_error_log h \<longleftrightarrow> (\<exists>e. artifact_path (rp_run (ho_task h)) (u ''logs/error.log'') = Inl e)"

lemma recording_raises:
  assumes "keeps ho_stored m" "ho_stored h" "recording_failures ev m h = (h', Inl e)"
  shows "no_error_log h'"
proof -
  obtain h1 d where m: "m h = (h1, Inl d)" "seqA (write_error ev d) (record_failure RFailed (en_show ev d)) h1 = (h', Inl e)"
    using assms(3) by (auto simp: recording_failures_def split: prod.splits sum.splits unit.splits)
  have "ho_stored h1" using assms(1,2) m(1) keepsD by metis
  show ?thesis
  proof (cases "artifact_path (rp_run (ho_task h1)) (u ''logs/error.log'')")
    case (Inl x)
    then have "h' = h1" using m(2)
      by (auto simp: seqA_def bindA_def write_error_def on_task_def put_artifact_def simp del: u_Cons u_Nil)
    then show ?thesis using Inl by (simp add: no_error_log_def)
  next
    case (Inr p)
    then show ?thesis using m(2) \<open>ho_stored h1\<close>
      by (auto simp: seqA_def bindA_def write_error_def on_task_def put_artifact_def record_failure_def update_task_def
          simp del: u_Cons u_Nil)
  qed
qed

lemma execution_raises:
  "recording_failures ev (execute ev x y z) h = (h', Inl e) \<Longrightarrow> ho_stored h \<Longrightarrow> no_error_log h'"
  using recording_raises [OF keeps_stored_execute] by blast


subsection \<open>Examples\<close>

definition example_env :: "bool env" where
  \<comment> \<open>the world is whether the sandbox is up\<close>
  "example_env = \<lparr>en_setting = example_setting, en_read_only = example_setting, en_docker = False, en_daemon = False,
     en_image = False, en_dockerfile = False, en_context = False, en_build = ret (),
     en_start = (\<lambda>_. (True, Inr ())), en_stop = (\<lambda>_. (False, Inr ())), en_snapshot = ret (), en_workspace = (\<lambda>_. True),
     en_workflow = False, en_has_worker = True, en_model = example_model,
     en_engine = (\<lambda>_ _. raise (RuntimeError ''no engine'')), en_coding = example_coding,
     en_spec = \<lparr>ts_task = u ''fix it'', ts_context = None, ts_verification = [], ts_max_repairs = 2\<rparr>, en_root = u ''r'',
     en_timeout = 60, en_show = (\<lambda>_. []), en_traceback = (\<lambda>_. [])\<rparr>"

definition example_host :: "rstatus \<Rightarrow> bool host" where
  "example_host st = \<lparr>ho_task = \<lparr>rp_run = ''r'', rp_world = False, rp_round = 0, rp_artifacts = [], rp_installed = [],
       tk_status = st, tk_error = None, tk_step = None, tk_verification = [], tk_changes = None, tk_control = None,
       tk_goal = None, tk_broker = empty_broker, tk_jobs = \<lparr>r_jobs = [], r_events = [], r_logs = [], r_handlers = []\<rparr>,
       tk_calls = 3, tk_log = [], tk_trace = [], tk_sources = [], tk_artifacts = [], tk_now = 0\<rparr>,
     ho_stored = True, ho_bootstrap = True, ho_vault = [], ho_slots = 2, ho_resume_step = None\<rparr>"

lemma example_submission:
  "(case operate example_env Run (example_host RCreated) of (h, r) \<Rightarrow> r = Inr () \<and> tk_status (ho_task h) = RSucceeded)"
  by code_simp



end
