(* ===== verification/Snapshots.thy ===== *)
theory Snapshots
  imports Path_Guard Py_Value
begin

text \<open>
  \<open>workspace.py\<close>: reproducible snapshots of a Git repository. The file system and git are functions of
  an abstract world; what the code does to them is kept as a log of commands, directories and copies,
  latest last.
\<close>

subsection \<open>State\<close>

record 'w machine =
  mc_subprocess :: "(pytext, pytext) dict \<Rightarrow> path option \<Rightarrow> pytext list \<Rightarrow> pytext \<Rightarrow> 'w \<Rightarrow> 'w \<times> int \<times> pytext \<times> pytext"
  mc_resolve :: "'w \<Rightarrow> path \<Rightarrow> path"  \<comment> \<open>\<open>expanduser().resolve()\<close>\<close>
  mc_is_dir :: "'w \<Rightarrow> path \<Rightarrow> bool"
  mc_exists :: "'w \<Rightarrow> path \<Rightarrow> bool"
  mc_is_link :: "'w \<Rightarrow> path \<Rightarrow> bool"
  mc_is_file :: "'w \<Rightarrow> path \<Rightarrow> bool"
  mc_size :: "'w \<Rightarrow> path \<Rightarrow> nat"
  mc_mkdir :: "path \<Rightarrow> ('w, unit) act"      \<comment> \<open>\<open>mkdir(parents=True, exist_ok=True)\<close>\<close>
  mc_mkdir_new :: "path \<Rightarrow> ('w, unit) act"  \<comment> \<open>\<open>mkdir(parents=True)\<close>\<close>
  mc_copy :: "path \<Rightarrow> path \<Rightarrow> ('w, unit) act"
  mc_environ :: "(pytext, pytext) dict"

datatype deed =
    Ran "path option" "pytext list" pytext  \<comment> \<open>working directory, arguments, standard input\<close>
  | Copied path path nat                    \<comment> \<open>source, target, size\<close>
  | Made path

record 'w disk =
  dk_world :: 'w
  dk_log :: "deed list"

definition logged :: "deed \<Rightarrow> ('w, 'a) act \<Rightarrow> ('w disk, 'a) act" where
  "logged d f s = (case f (dk_world s) of (w, r) \<Rightarrow> (s\<lparr>dk_world := w, dk_log := dk_log s @ [d]\<rparr>, r))"

definition seen :: "('w \<Rightarrow> 'a) \<Rightarrow> ('w disk, 'a) act" where
  "seen f s = (s, Inr (f (dk_world s)))"

subsection \<open>Processes\<close>

fun universal_newlines :: "pytext \<Rightarrow> pytext" where
  \<comment> \<open>\<open>text=True\<close>: what \<open>subprocess\<close> makes of the output it captures\<close>
  "universal_newlines [] = []"
| "universal_newlines (c # t) =
     (if c = 13 \<and> t \<noteq> [] \<and> hd t = 10 then 10 # universal_newlines (tl t)
      else (if c = 13 then 10 else c) # universal_newlines t)"

definition safe_git_env :: "(pytext, pytext) dict \<Rightarrow> (pytext, pytext) dict" where
  "safe_git_env environ =
     dput (u ''GIT_TERMINAL_PROMPT'') (u ''0'') (dput (u ''GIT_CONFIG_NOSYSTEM'') (u ''1'')
       (filter (\<lambda>kv. fst kv \<notin> {u ''GIT_DIR'', u ''GIT_WORK_TREE'', u ''GIT_INDEX_FILE''}) environ))"

definition run_process :: "'w machine \<Rightarrow> path option \<Rightarrow> pytext list \<Rightarrow> pytext \<Rightarrow> ('w disk, int \<times> pytext \<times> pytext) act" where
  "run_process m cwd argv stdin = logged (Ran cwd argv stdin) (\<lambda>w.
     case mc_subprocess m (safe_git_env (mc_environ m)) cwd argv stdin w of
       (w', code, out, err) \<Rightarrow> (w', Inr (code, universal_newlines out, universal_newlines err)))"

definition or_text :: "pytext \<Rightarrow> pytext \<Rightarrow> pytext" where
  "or_text a b = (if a = [] then b else a)"

definition git :: "'w machine \<Rightarrow> path \<Rightarrow> pytext list \<Rightarrow> ('w disk, pytext) act" where
  "git m repo args =
     bindA (run_process m (Some repo)
         ([u ''git'', u ''-c'', u ''core.hooksPath=/dev/null'', u ''-c'', u ''diff.external=''] @ args) [])
       (\<lambda>(code, out, err).
          guardA (code \<noteq> 0) (WorkspaceError (or_text (strip err) (u ''git '' @ join (u '' '') args @ u '' failed'')))
            (ret out))"

subsection \<open>Operations\<close>

definition validate_repository :: "'w machine \<Rightarrow> path \<Rightarrow> ('w disk, path) act" where
  "validate_repository m repo =
     bindA (seen (\<lambda>w. mc_resolve m w repo)) (\<lambda>resolved.
     bindA (seen (\<lambda>w. mc_is_dir m w resolved)) (\<lambda>there.
     guardA (\<not> there) (WorkspaceError (u ''repository does not exist: '' @ path_text resolved))
    (bindA (git m resolved [u ''rev-parse'', u ''--show-toplevel'']) (\<lambda>out.
     bindA (seen (\<lambda>w. mc_resolve m w (path_parts (strip out)))) (\<lambda>base.
     guardA (base \<noteq> resolved) (WorkspaceError (u ''--repo must point to the Git base: '' @ path_text base))
       (ret resolved))))))"

definition scratch_commands :: "pytext list list" where
  "scratch_commands =
     [[u ''git'', u ''init'', u ''--quiet''],
      [u ''git'', u ''-c'', u ''user.name=LightWorker'', u ''-c'', u ''user.email=worker@lightworker.invalid'',
       u ''-c'', u ''core.hooksPath=/dev/null'', u ''commit'', u ''--quiet'', u ''--allow-empty'', u ''--message'',
       u ''Initialize empty LightWorker workspace'']]"

fun run_commands :: "'w machine \<Rightarrow> path \<Rightarrow> pytext list list \<Rightarrow> ('w disk, unit) act" where
  "run_commands m cwd [] = ret ()"
| "run_commands m cwd (c # cs) =
     bindA (run_process m (Some cwd) c []) (\<lambda>(code, _, err).
       guardA (code \<noteq> 0) (WorkspaceError (or_text (strip err) (u ''failed to create empty repository'')))
         (run_commands m cwd cs))"

definition create_empty_repository :: "'w machine \<Rightarrow> path \<Rightarrow> ('w disk, path) act" where
  "create_empty_repository m destination =
     bindA (seen (\<lambda>w. mc_resolve m w destination)) (\<lambda>resolved.
     bindA (seen (\<lambda>w. mc_exists m w resolved)) (\<lambda>there.
     guardA there (WorkspaceError (u ''scratch repository already exists: '' @ path_text resolved))
    (seqA (logged (Made resolved) (mc_mkdir_new m resolved))
    (seqA (run_commands m resolved scratch_commands)
       (ret resolved)))))"

definition untracked_path :: "path \<times> pytext \<Rightarrow> path result" where
  \<comment> \<open>\<open>base / relative\<close> for a listed path that is accepted\<close>
  "untracked_path = (\<lambda>(base, item).
     guardE (is_absolute item \<or> dotdot \<in> set (path_parts item)) (WorkspaceError (u ''unsafe untracked path: '' @ item))
       (Inr (base @ path_parts item)))"

fun copy_untracked :: "'w machine \<Rightarrow> nat \<Rightarrow> path \<Rightarrow> path \<Rightarrow> nat \<Rightarrow> pytext list \<Rightarrow> ('w disk, unit) act" where
  "copy_untracked m limit source destination sofar [] = ret ()"
| "copy_untracked m limit source destination sofar (name # names) =
     (if name = [] then copy_untracked m limit source destination sofar names
      else bindA (liftA (untracked_path (source, name))) (\<lambda>source_path.
           bindA (liftA (untracked_path (destination, name))) (\<lambda>target.
           bindA (seen (\<lambda>w. (mc_is_link m w source_path, mc_is_file m w source_path, mc_size m w source_path)))
             (\<lambda>(link, file, size).
             guardA link (WorkspaceError (u ''untracked symlinks are not supported: '' @ name))
              (if \<not> file then copy_untracked m limit source destination sofar names
               else guardA (limit < sofar + size) (WorkspaceError (u ''untracked files exceed snapshot size limit''))
                 (seqA (logged (Made (butlast target)) (mc_mkdir m (butlast target)))
                 (seqA (logged (Copied source_path target size) (mc_copy m source_path target))
                    (copy_untracked m limit source destination (sofar + size) names))))))))"

definition apply_arguments :: "pytext list" where
  "apply_arguments = [u ''git'', u ''apply'', u ''--binary'', u ''--whitespace=nowarn'', u ''-'']"

definition apply_diff :: "'w machine \<Rightarrow> path \<Rightarrow> pytext \<Rightarrow> ('w disk, unit) act" where
  "apply_diff m destination d =
     (if d = [] then ret ()
      else bindA (run_process m (Some destination) apply_arguments d) (\<lambda>(code, _, err).
             guardA (code \<noteq> 0) (WorkspaceError (u ''failed to apply dirty tracked files: '' @ strip err)) (ret ())))"

definition copy_dirty_state :: "'w machine \<Rightarrow> nat \<Rightarrow> path \<Rightarrow> path \<Rightarrow> ('w disk, unit) act" where
  "copy_dirty_state m limit source destination =
     bindA (git m source [u ''diff'', u ''--binary'', u ''--no-ext-diff'', u ''HEAD'']) (\<lambda>d.
     seqA (apply_diff m destination d)
    (bindA (git m source [u ''ls-files'', u ''--others'', u ''--exclude-standard'', u ''-z'']) (\<lambda>raw.
       copy_untracked m limit source destination 0 (split_on 0 raw))))"

definition clone_arguments :: "path \<Rightarrow> path \<Rightarrow> pytext list" where
  "clone_arguments base destination =
     [u ''git'', u ''clone'', u ''--no-hardlinks'', u ''--no-local'', u ''--no-checkout'', path_text base,
      path_text destination]"

definition create_snapshot :: "'w machine \<Rightarrow> nat \<Rightarrow> path \<Rightarrow> path \<Rightarrow> bool \<Rightarrow> ('w disk, pytext) act" where
  "create_snapshot m limit repo destination include_dirty =
     bindA (validate_repository m repo) (\<lambda>base.
     bindA (seen (\<lambda>w. mc_exists m w destination)) (\<lambda>there.
     guardA there (WorkspaceError (u ''workspace already exists: '' @ path_text destination))
    (seqA (logged (Made (butlast destination)) (mc_mkdir m (butlast destination)))
    (bindA (git m base [u ''rev-parse'', u ''HEAD'']) (\<lambda>out.
     let commit = strip out in
     bindA (run_process m None (clone_arguments base destination) []) (\<lambda>(code, _, err).
     guardA (code \<noteq> 0) (WorkspaceError (or_text (strip err) (u ''git clone failed'')))
    (bindA (git m destination [u ''checkout'', u ''--detach'', commit]) (\<lambda>_.
     seqA (if include_dirty then copy_dirty_state m limit base destination else ret ())
       (ret commit)))))))))"

subsection \<open>What a snapshot does to the disk\<close>

text \<open>
  A snapshot reads the source and writes the destination. The commands that run in the source are
  \<open>rev-parse\<close>, \<open>diff\<close> and \<open>ls-files\<close>; the clone names both; everything else, copies and directories
  included, happens in the destination.
\<close>

definition reading_arguments :: "pytext list list" where
  "reading_arguments =
     [[u ''rev-parse'', u ''--show-toplevel''], [u ''rev-parse'', u ''HEAD''],
      [u ''diff'', u ''--binary'', u ''--no-ext-diff'', u ''HEAD''],
      [u ''ls-files'', u ''--others'', u ''--exclude-standard'', u ''-z'']]"

definition git_arguments :: "pytext list \<Rightarrow> pytext list" where
  "git_arguments args = [u ''git'', u ''-c'', u ''core.hooksPath=/dev/null'', u ''-c'', u ''diff.external=''] @ args"

fun spares_source :: "path \<Rightarrow> path \<Rightarrow> deed \<Rightarrow> bool" where
  "spares_source base destination (Ran cwd argv stdin) \<longleftrightarrow>
     cwd = Some destination
     \<or> cwd = Some base \<and> stdin = [] \<and> argv \<in> set (map git_arguments reading_arguments)
     \<or> cwd = None \<and> stdin = [] \<and> argv = clone_arguments base destination"
| "spares_source base destination (Copied s t n) \<longleftrightarrow>
     (\<exists>ws. list_all safe_component ws \<and> s = base @ ws \<and> t = destination @ ws)"
| "spares_source base destination (Made p) \<longleftrightarrow> p = butlast destination \<or> take (length destination) p = destination"

definition copied_bytes :: "deed list \<Rightarrow> nat" where
  "copied_bytes ds = sum_list (map (\<lambda>d. case d of Copied _ _ n \<Rightarrow> n | _ \<Rightarrow> 0) ds)"

definition after :: "deed list \<Rightarrow> path \<Rightarrow> path \<Rightarrow> nat \<Rightarrow> 'w disk \<Rightarrow> bool" where
  "after past base destination n s \<longleftrightarrow>
     (\<exists>ds. dk_log s = past @ ds \<and> list_all (spares_source base destination) ds \<and> copied_bytes ds \<le> n)"

lemma after_mono: "after past r d n s \<Longrightarrow> n \<le> n' \<Longrightarrow> after past r d n' s"
  unfolding after_def by fastforce

lemma keeps_seen [keeps_intros]: "keeps P (seen f)"
  by (simp add: keeps_def seen_def)

lemma logged_after:
  assumes "spares_source r d x"
  shows "after past r d n s \<Longrightarrow> after past r d (n + copied_bytes [x]) (fst (logged x f s))"
  using assms by (force simp: after_def logged_def copied_bytes_def split: prod.splits)

lemma keeps_logged [keeps_intros]:
  assumes "spares_source r d x" "copied_bytes [x] = 0"
  shows "keeps (after past r d n) (logged x f)"
  unfolding keeps_def using logged_after [OF assms(1), where f = f] assms(2) by simp

lemma keeps_run_process [keeps_intros]:
  "spares_source r d (Ran cwd argv stdin) \<Longrightarrow> keeps (after past r d n) (run_process m cwd argv stdin)"
  unfolding run_process_def by (intro keeps_intros) (simp_all add: copied_bytes_def)

lemma keeps_git [keeps_intros]:
  assumes "repo = d \<or> repo = r \<and> args \<in> set reading_arguments"
  shows "keeps (after past r d n) (git m repo args)"
proof -
  have "spares_source r d (Ran (Some repo) (git_arguments args) [])" using assms by auto
  then show ?thesis
    unfolding git_def git_arguments_def [symmetric] by (auto intro!: keeps_intros split: prod.splits)
qed

lemma validate_after:
  assumes "after past (mc_resolve m (dk_world s) repo) d n s"
  shows "after past (mc_resolve m (dk_world s) repo) d n (fst (validate_repository m repo s))"
proof -
  have "keeps (after past base d n)
      (bindA (seen (\<lambda>w. mc_is_dir m w base)) (\<lambda>there. guardA (\<not> there) e
        (bindA (git m base [u ''rev-parse'', u ''--show-toplevel'']) (\<lambda>out.
         bindA (seen (\<lambda>w. mc_resolve m w (path_parts (strip out)))) (\<lambda>r. guardA (r \<noteq> base) (f r) (ret base))))))"
    for base e f by (intro keeps_intros) (simp add: reading_arguments_def)
  from this [unfolded keeps_def, rule_format, OF assms] show ?thesis
    by (simp add: validate_repository_def bindA_def [of "seen (\<lambda>w. mc_resolve m w repo)"] seen_def [of "\<lambda>w. mc_resolve m w repo"])
qed

lemma validate_result: "validate_repository m repo s = (s', Inr base) \<Longrightarrow> base = mc_resolve m (dk_world s) repo"
  by (auto simp: validate_repository_def act_simps seen_def)

lemma untracked_paths:
  assumes "untracked_path (source, item) = Inr p" "untracked_path (destination, item) = Inr t"
  shows "spares_source source destination (Copied p t n) \<and> spares_source source destination (Made (butlast t))"
proof -
  have ws: "list_all safe_component (path_parts item)" "p = source @ path_parts item" "t = destination @ path_parts item"
    using assms path_parts_safe [of item] by (auto simp: untracked_path_def bind_simps)
  then show ?thesis by (cases "path_parts item" rule: rev_cases) (auto simp: butlast_append)
qed

lemma logged_result:
  assumes "logged x f s = (s', r)" "after past base d n s" "spares_source base d x"
  shows "after past base d (n + copied_bytes [x]) s'"
  using logged_after [OF assms(3,2), of f] assms(1) by simp

lemma copy_untracked_after:
  "copy_untracked m limit source destination sofar names s = (s', r) \<Longrightarrow> after past source destination sofar s \<Longrightarrow>
     sofar \<le> limit \<Longrightarrow> after past source destination limit s'"
proof (induction names arbitrary: sofar s)
  case Nil
  then show ?case by (auto simp: act_simps intro: after_mono)
next
  case (Cons name names)
  have made: "logged (Made (butlast t)) f x = (y, q) \<Longrightarrow> after past source destination sofar x \<Longrightarrow>
      untracked_path (source, name) = Inr p \<Longrightarrow> untracked_path (destination, name) = Inr t \<Longrightarrow>
      after past source destination sofar y" for f x y q p t
    using logged_result [of "Made (butlast t)" f x y q past source destination sofar] untracked_paths [of source name p destination t]
    by (simp add: copied_bytes_def)
  have copied: "logged (Copied p t n) f x = (y, q) \<Longrightarrow> after past source destination sofar x \<Longrightarrow>
      untracked_path (source, name) = Inr p \<Longrightarrow> untracked_path (destination, name) = Inr t \<Longrightarrow>
      after past source destination (sofar + n) y" for f x y q p t n
    using logged_result [of "Copied p t n" f x y q past source destination sofar] untracked_paths [of source name p destination t n]
    by (simp add: copied_bytes_def)
  consider "s' = s" | "copy_untracked m limit source destination sofar names s = (s', r)"
    | p t n where "untracked_path (source, name) = Inr p" "untracked_path (destination, name) = Inr t" "sofar + n \<le> limit"
        "seqA (logged (Made (butlast t)) (mc_mkdir m (butlast t))) (seqA (logged (Copied p t n) (mc_copy m p t))
           (copy_untracked m limit source destination (sofar + n) names)) s = (s', r)"
    using Cons.prems(1)
    by (cases "name = []"; cases "untracked_path (source, name)"; cases "untracked_path (destination, name)")
      (auto simp: act_simps seen_def not_less split: if_splits)
  then show ?case
  proof cases
    case 1
    then show ?thesis using Cons.prems(2,3) after_mono by blast
  next
    case 2
    then show ?thesis by (rule Cons.IH) (use Cons.prems in auto)
  next
    case 3
    then consider q where "logged (Made (butlast t)) (mc_mkdir m (butlast t)) s = (s', q)"
      | x q y where "logged (Made (butlast t)) (mc_mkdir m (butlast t)) s = (x, q)" "logged (Copied p t n) (mc_copy m p t) x = (s', y)"
      | x q y z where "logged (Made (butlast t)) (mc_mkdir m (butlast t)) s = (x, q)" "logged (Copied p t n) (mc_copy m p t) x = (y, z)"
          "copy_untracked m limit source destination (sofar + n) names y = (s', r)"
      by (auto simp: seqA_def bindA_eq)
    then show ?thesis
      by cases (use made [OF _ Cons.prems(2) 3(1,2)] copied [OF _ _ 3(1,2)] Cons.IH 3(3) after_mono Cons.prems(3) in blast)+
  qed
qed

lemma keeps_apply_diff [keeps_intros]: "keeps (after past r d n) (apply_diff m d t)"
  unfolding apply_diff_def by (auto intro!: keeps_intros split: prod.splits)

definition ends :: "deed list \<Rightarrow> path \<Rightarrow> path \<Rightarrow> nat \<Rightarrow> ('w disk, 'a) act \<Rightarrow> bool" where
  \<comment> \<open>from a log without copies to one within the limit\<close>
  "ends past r d limit m \<longleftrightarrow> (\<forall>s. after past r d 0 s \<longrightarrow> after past r d limit (fst (m s)))"

lemma ends_keeps: "keeps (after past r d 0) m \<Longrightarrow> ends past r d limit m"
  unfolding ends_def keeps_def using after_mono by blast

lemma ends_bindA:
  assumes "keeps (after past r d 0) m" "\<And>x. ends past r d limit (f x)"
  shows "ends past r d limit (bindA m f)"
  unfolding ends_def
proof (intro allI impI)
  fix s :: "'a disk" assume s: "after past r d 0 s"
  obtain s1 v where v: "m s = (s1, v)" by force
  have s1: "after past r d 0 s1" by (rule keepsD [OF assms(1) s v])
  then show "after past r d limit (fst (bindA m f s))"
    using assms(2) v after_mono [OF s1] by (cases v) (simp_all add: bindA_def ends_def)
qed

lemma ends_guardA: "ends past r d limit k \<Longrightarrow> ends past r d limit (guardA b e k)"
  using after_mono by (fastforce simp: ends_def guardA_def)

lemma ends_seqA: "keeps (after past r d 0) m \<Longrightarrow> ends past r d limit k \<Longrightarrow> ends past r d limit (seqA m k)"
  unfolding seqA_def by (rule ends_bindA)

lemma ends_then: "ends past r d limit m \<Longrightarrow> ends past r d limit (seqA m (ret x))"
  by (fastforce simp: ends_def seqA_def bindA_def ret_def split: prod.splits sum.splits)

lemma ends_copy: "ends past r d limit (copy_untracked m limit r d 0 names)"
  unfolding ends_def using copy_untracked_after by (metis prod.collapse zero_le)

lemmas ends_intros = ends_bindA ends_guardA ends_seqA ends_copy ends_then

lemma git_reads: "args \<in> set reading_arguments \<Longrightarrow> keeps (after past r d n) (git m r args)"
  by (rule keeps_git) simp

lemma git_works: "keeps (after past r d n) (git m d args)"
  by (rule keeps_git) simp

lemma ends_dirty: "ends past r d limit (copy_dirty_state m limit r d)"
  unfolding copy_dirty_state_def
  by (intro ends_intros keeps_apply_diff git_reads) (simp_all add: reading_arguments_def)

lemma ends_snapshot:
  "ends past r d limit (bindA (seen f) (\<lambda>there. guardA there e
     (seqA (logged (Made (butlast d)) (mc_mkdir m (butlast d)))
     (bindA (git m r [u ''rev-parse'', u ''HEAD'']) (\<lambda>out.
     let commit = strip out in
     bindA (run_process m None (clone_arguments r d) []) (\<lambda>(code, _, err). guardA (code \<noteq> 0) (g err)
    (bindA (git m d [u ''checkout'', u ''--detach'', commit]) (\<lambda>_.
     seqA (if dirty then copy_dirty_state m limit r d else ret ()) (ret commit)))))))))"
proof -
  have "ends past r d limit (if dirty then copy_dirty_state m limit r d else ret ())"
    by (simp add: ends_dirty ends_keeps [OF keeps_ret])
  then have rest: "ends past r d limit (bindA (git m d args) (\<lambda>_. seqA (if dirty then copy_dirty_state m limit r d else ret ())
      (ret commit)))" for args commit
    by (intro ends_intros git_works)
  have branch: "ends past r d limit (case v of (code, _, err) \<Rightarrow> guardA (code \<noteq> 0) (g err) (bindA (git m d args)
      (\<lambda>_. seqA (if dirty then copy_dirty_state m limit r d else ret ()) (ret commit))))" for v args commit
    by (cases v) (simp only: prod.case ends_guardA [OF rest])
  show ?thesis
    unfolding Let_def
    by (intro ends_intros keeps_seen keeps_logged keeps_run_process git_reads branch)
      (simp_all add: reading_arguments_def copied_bytes_def)
qed

text \<open>
  C20. Making a snapshot spares the source and is bounded: whatever git answers and whatever fails on the
  way, the only commands run in the source repository read it, the clone apart every other command runs in
  the destination, every copied file goes from a path below the source to the same path below the
  destination, and the copied files together stay within the limit of untracked bytes.
\<close>

theorem snapshot_spares_the_source:
  assumes "dk_log s = []"
  shows "let made = dk_log (fst (create_snapshot m limit repo destination include_dirty s))
     in list_all (spares_source (mc_resolve m (dk_world s) repo) destination) made \<and> copied_bytes made \<le> limit"
proof -
  define r d where "r = mc_resolve m (dk_world s) repo" and "d = destination"
  obtain s1 v where v: "validate_repository m repo s = (s1, v)" by force
  have s1: "after [] r d 0 s1"
    using validate_after [of "[]" m s repo d 0] v assms unfolding r_def after_def copied_bytes_def by simp
  obtain s2 x where x: "create_snapshot m limit repo destination include_dirty s = (s2, x)" by force
  have "after [] r d limit s2"
  proof (cases v)
    case (Inl e)
    then show ?thesis using x v after_mono [OF s1] by (simp add: create_snapshot_def bindA_def)
  next
    case (Inr y)
    then have "y = r" using validate_result v unfolding r_def by blast
    then show ?thesis
      using ends_snapshot [unfolded ends_def, rule_format, OF s1, where m = m and limit = limit and f = "\<lambda>w. mc_exists m w d"
          and e = "WorkspaceError (u ''workspace already exists: '' @ path_text d)"
          and g = "\<lambda>err. WorkspaceError (or_text (strip err) (u ''git clone failed''))" and dirty = include_dirty] x v Inr
      unfolding create_snapshot_def d_def [symmetric]
      by (simp add: bindA_def [of "validate_repository m repo"] del: u_Cons)
  qed
  then show ?thesis using x unfolding Let_def r_def d_def after_def by force
qed

text \<open>
  Captured as text, the difference of tracked files loses its carriage returns: what is applied is not what
  git printed whenever a changed file has them.
\<close>

lemma newlines_translated: "13 \<notin> set (universal_newlines t)"
  by (induction t rule: universal_newlines.induct) auto

definition logged_so_far :: "deed list \<Rightarrow> 'w disk \<Rightarrow> bool" where
  "logged_so_far ds s \<longleftrightarrow> prefix ds (dk_log s)"

lemma keeps_log [keeps_intros]: "keeps (logged_so_far ds) (logged x f)"
  by (auto simp: keeps_def logged_so_far_def logged_def split: prod.splits)

lemma keeps_log_git [keeps_intros]: "keeps (logged_so_far ds) (git m repo args)"
  unfolding git_def run_process_def by (auto intro!: keeps_intros split: prod.splits)

lemma keeps_log_copy [keeps_intros]: "keeps (logged_so_far ds) (copy_untracked m limit source destination sofar names)"
  by (induction names arbitrary: sofar) (auto intro!: keeps_intros split: prod.splits)

lemma diff_with_returns_is_altered:
  assumes "13 \<in> set out" and "copy_dirty_state m limit source destination s = (s', r)"
    and "mc_subprocess m (safe_git_env (mc_environ m)) (Some source)
       (git_arguments [u ''diff'', u ''--binary'', u ''--no-ext-diff'', u ''HEAD'']) [] (dk_world s) = (w, 0, out, err)"
  shows "Ran (Some destination) apply_arguments (universal_newlines out) \<in> set (dk_log s') \<and> universal_newlines out \<noteq> out"
proof -
  define d where "d = universal_newlines out"
  have d: "d \<noteq> []" "d \<noteq> out" using assms(1) newlines_translated [of out] by (cases out; auto simp: d_def)+
  define s1 where "s1 = s\<lparr>dk_world := w, dk_log := dk_log s @ [Ran (Some source)
     (git_arguments [u ''diff'', u ''--binary'', u ''--no-ext-diff'', u ''HEAD'']) []]\<rparr>"
  have 1: "git m source [u ''diff'', u ''--binary'', u ''--no-ext-diff'', u ''HEAD''] s = (s1, Inr d)"
    using assms(3) by (simp add: git_def run_process_def bindA_def guardA_def ret_def logged_def s1_def git_arguments_def d_def del: u_Cons)
  obtain s2 y where 2: "apply_diff m destination d s1 = (s2, y)" by force
  let ?a = "Ran (Some destination) apply_arguments d"
  have a: "logged_so_far (dk_log s1 @ [?a]) s2"
    using 2 d(1) by (auto simp: apply_diff_def run_process_def logged_def act_simps logged_so_far_def split: prod.splits)
  have rest: "keeps (logged_so_far (dk_log s1 @ [?a])) (bindA (git m source args) (\<lambda>raw. copy_untracked m limit source destination 0 (f raw)))" for args f
    by (intro keeps_intros)
  have "logged_so_far (dk_log s1 @ [?a]) s'"
    using assms(2) 1 2 a keepsD [OF rest]
    by (cases y) (auto simp: copy_dirty_state_def bindA_def [of "git m source [u ''diff'', u ''--binary'', u ''--no-ext-diff'', u ''HEAD'']"]
        seqA_def bindA_def [of "apply_diff m destination d"] simp del: u_Cons)
  then show ?thesis using d by (auto simp: logged_so_far_def d_def prefix_def)
qed

definition example_machine :: "unit machine" where
  "example_machine = \<lparr>
     mc_subprocess = (\<lambda>env cwd argv stdin w.
       if argv = git_arguments [u ''rev-parse'', u ''--show-toplevel''] then (w, 0, u ''/r'' @ [10], [])
       else if argv = git_arguments [u ''rev-parse'', u ''HEAD''] then (w, 0, u ''c0'' @ [10], [])
       else if argv = git_arguments [u ''diff'', u ''--binary'', u ''--no-ext-diff'', u ''HEAD''] then (w, 0, u ''x'' @ [13, 10], [])
       else if argv = git_arguments [u ''ls-files'', u ''--others'', u ''--exclude-standard'', u ''-z'']
       then (w, 0, u ''a/b'' @ [0], [])
       else (w, 0, [], [])),
     mc_resolve = (\<lambda>w p. p), mc_is_dir = (\<lambda>w p. p = [u ''r'']), mc_exists = (\<lambda>w p. p = [u ''r'']),
     mc_is_link = (\<lambda>w p. False), mc_is_file = (\<lambda>w p. p = [u ''r'', u ''a'', u ''b'']), mc_size = (\<lambda>w p. 3),
     mc_mkdir = (\<lambda>p. ret ()), mc_mkdir_new = (\<lambda>p. ret ()), mc_copy = (\<lambda>p q. ret ()), mc_environ = []\<rparr>"

definition example_disk :: "unit disk" where
  "example_disk = \<lparr>dk_world = (), dk_log = []\<rparr>"

lemma example_snapshot:
  "(case create_snapshot example_machine 10 [u ''r''] [u ''runs'', u ''w''] True example_disk of
      (s, r) \<Rightarrow> r = Inr (u ''c0'') \<and> length (dk_log s) = 10
        \<and> last (dk_log s) = Copied [u ''r'', u ''a'', u ''b''] [u ''runs'', u ''w'', u ''a'', u ''b''] 3)"
  by code_simp

lemma snapshot_spares_the_source_witness:
  "let made = dk_log (fst (create_snapshot example_machine 10 [u ''r''] [u ''runs'', u ''w''] True example_disk))
   in length made = 10 \<and> list_all (spares_source [u ''r''] [u ''runs'', u ''w'']) made \<and> copied_bytes made \<le> 10"
proof -
  have "dk_log example_disk = []" "mc_resolve example_machine (dk_world example_disk) [u ''r''] = [u ''r'']"
    by (simp_all add: example_disk_def example_machine_def)
  then show ?thesis
    using snapshot_spares_the_source [of example_disk example_machine 10 "[u ''r'']" "[u ''runs'', u ''w'']" True] example_snapshot
    by (auto simp: Let_def split: prod.splits)
qed

end
