(* ===== verification/Plugins.thy ===== *)
theory Plugins
  imports Store_Acts Repo_Tools
begin

text \<open>
  \<open>plugins.py\<close>: declarative plugins. A plugin is a directory whose files are hashed into one digest; the
  user's trust is an entry of \<open>plugin-lock.json\<close> with that digest, and only plugins that still have it
  extend the configuration. The file system is what an inspection sees of it; the hash, the JSON reader,
  the signature check and the validation of a server's settings are parameters.
\<close>

subsection \<open>State\<close>

datatype node = Link | Regular "int list" | Other

type_synonym tree = "(path \<times> node) list"  \<comment> \<open>\<open>rglob("*")\<close>: the paths below a directory\<close>

record plugin_fs =
  pf_resolve :: "path \<Rightarrow> path"
  pf_is_file :: "path \<Rightarrow> bool"
  pf_read :: "path \<Rightarrow> int list result"
  pf_tree :: "path \<Rightarrow> tree"
  pf_manifests :: "path \<Rightarrow> path list"  \<comment> \<open>\<open>glob("*/plugin.json")\<close>\<close>

record 's library =
  lb_sha256 :: "int list \<Rightarrow> int list"
  lb_loads :: "int list \<Rightarrow> json result"
  lb_verify :: "pytext \<Rightarrow> json \<Rightarrow> pytext \<Rightarrow> bool"  \<comment> \<open>key, signature, what was signed\<close>
  lb_server :: "json \<Rightarrow> 's result"                  \<comment> \<open>\<open>MCPServerConfig.model_validate\<close>\<close>

record manager =
  pm_directories :: "path list"
  pm_public_keys :: "pytext list"

record inspection =
  pi_name :: json
  pi_version :: json
  pi_path :: path
  pi_digest :: pytext
  pi_files :: "pytext list"
  pi_manifest :: json

subsection \<open>Inspection\<close>

definition plugin_json :: pytext where
  "plugin_json = u ''plugin.json''"

definition signature_json :: pytext where
  "signature_json = u ''signature.json''"

definition MANIFEST_KEYS :: "pytext list" where
  "MANIFEST_KEYS = map u [''name'', ''version'', ''description'', ''skills'', ''mcp'', ''workflows'']"

fun skipped :: "path \<times> node \<Rightarrow> bool" where
  "skipped (p, Regular b) = (last p = signature_json)"
| "skipped (p, n) = (n = Other)"

definition frame :: "(int list \<Rightarrow> int list) \<Rightarrow> pytext \<Rightarrow> int list \<Rightarrow> int list" where
  \<comment> \<open>what one file adds to the digest\<close>
  "frame sha relative payload = utf8 relative @ [0] @ sha payload"

fun hash_files :: "(int list \<Rightarrow> int list) \<Rightarrow> tree \<Rightarrow> (int list \<times> pytext list) result" where
  \<comment> \<open>the bytes fed to the digest and the names of the files\<close>
  "hash_files sha [] = Inr ([], [])"
| "hash_files sha ((p, n) # es) =
     (case n of
        Link \<Rightarrow> Inl (ValueError ''plugin symlinks are not allowed'')
      | Other \<Rightarrow> hash_files sha es
      | Regular payload \<Rightarrow>
          if skipped (p, n) then hash_files sha es
          else guardE (2097152 < int (length payload)) (ValueError ''plugin file exceeds size limit'')
              (guardE (\<not> list_all valid_cp (join [slash] p)) (ValueError ''surrogates not allowed'')
              (bindE (hash_files sha es) (\<lambda>(bs, fs).
                 Inr (frame sha (join [slash] p) payload @ bs, join [slash] p # fs)))))"

definition hexdigest :: "int list \<Rightarrow> pytext" where
  "hexdigest bs = concat (map (\<lambda>b. [hex_digit (b div 16), hex_digit (b mod 16)]) bs)"

definition inspect :: "'s library \<Rightarrow> plugin_fs \<Rightarrow> path \<Rightarrow> inspection result" where
  "inspect lb fs dir =
     (let dir = pf_resolve fs dir in
      bindE (pf_read fs (dir @ [plugin_json])) (\<lambda>bytes.
      bindE (lb_loads lb bytes) (\<lambda>m.
      guardE (\<not> is_obj m \<or> \<not> truthy (field ''name'' m) \<or> \<not> truthy (field ''version'' m))
        (ValueError ''plugin.json requires name and version'')
     (bindE (hash_files (lb_sha256 lb) (sort_key fst (pf_tree fs dir))) (\<lambda>(bs, files).
      guardE (list_ex (\<lambda>kv. fst kv \<notin> set MANIFEST_KEYS) (entries m)) (ValueError ''unsupported plugin manifest key'')
       (Inr \<lparr>pi_name = field ''name'' m, pi_version = field ''version'' m, pi_path = dir,
             pi_digest = hexdigest (lb_sha256 lb bs), pi_files = files, pi_manifest = m\<rparr>))))))"

definition verify_signature :: "'s library \<Rightarrow> plugin_fs \<Rightarrow> manager \<Rightarrow> inspection \<Rightarrow> bool" where
  "verify_signature lb fs mg v =
     (let p = pi_path v @ [signature_json] in
      pf_is_file fs p \<and>
      (case bindE (pf_read fs p) (lb_loads lb) of
         Inl _ \<Rightarrow> False
       | Inr sg \<Rightarrow>
           (case (dget (entries sg) (u ''public_key''), dget (entries sg) (u ''signature'')) of
              (Some (JStr key), Some x) \<Rightarrow> key \<in> set (pm_public_keys mg) \<and> lb_verify lb key x (pi_digest v)
            | _ \<Rightarrow> False)))"

subsection \<open>The lock\<close>

definition PLUGINS_RUN :: string where
  "PLUGINS_RUN = ''lightworker-plugins''"

definition lock_name :: pytext where
  "lock_name = u ''plugin-lock.json''"

definition open_lock :: "(rstore, json) act" where
  "open_lock = open_json_or PLUGINS_RUN lock_name (obj [(''plugins'', JObj [])])"

definition lock_plugins :: "json \<Rightarrow> json result" where
  \<comment> \<open>\<open>lock["plugins"]\<close>\<close>
  "lock_plugins lock = (case dget (entries lock) (u ''plugins'') of
      None \<Rightarrow> Inl (KeyError ''plugins'') | Some ps \<Rightarrow> Inr ps)"

definition locked_digest :: "json \<Rightarrow> path \<Rightarrow> json" where
  \<comment> \<open>\<open>locks.get(path, {}).get("digest")\<close>\<close>
  "locked_digest plugins p = (case dget (entries plugins) (path_text p) of
      None \<Rightarrow> JNull | Some e \<Rightarrow> field ''digest'' e)"

definition lock_plugin :: "inspection \<Rightarrow> json \<Rightarrow> json result" where
  \<comment> \<open>\<open>lock["plugins"][path] = {name, version, digest}\<close>\<close>
  "lock_plugin v lock =
     bindE (lock_plugins lock) (\<lambda>ps.
       guardE (\<not> is_obj ps) (TypeError ''object does not support item assignment'')
         (Inr (with_field ''plugins'' (JObj (dput (path_text (pi_path v))
            (obj [(''name'', pi_name v), (''version'', pi_version v), (''digest'', JStr (pi_digest v))])
            (entries ps))) lock)))"

definition inspection_json :: "inspection \<Rightarrow> json" where
  "inspection_json v = obj [(''name'', pi_name v), (''version'', pi_version v), (''path'', JStr (path_text (pi_path v))),
     (''digest'', JStr (pi_digest v)), (''files'', JList (map JStr (pi_files v))), (''manifest'', pi_manifest v)]"

definition trust :: "'s library \<Rightarrow> plugin_fs \<Rightarrow> manager \<Rightarrow> path \<Rightarrow> pytext \<Rightarrow> (rstore, inspection) act" where
  "trust lb fs mg dir expected =
     bindA (liftA (inspect lb fs dir)) (\<lambda>v.
     guardA (\<not> list_ex (\<lambda>base. relative_to base (pi_path v)) (pm_directories mg))
       (ValueError ''plugin is outside the configured directories'')
    (guardA (pi_digest v \<noteq> expected) (ValueError ''plugin changed since inspection'')
    (guardA (pm_public_keys mg \<noteq> [] \<and> \<not> verify_signature lb fs mg v) (ValueError ''plugin signature is not trusted'')
    (seqA (transaction
        (bindA open_lock (\<lambda>lock.
         bindA (liftA (lock_plugin v lock)) (\<lambda>lock.
         seqA (save_json PLUGINS_RUN lock_name lock)
              (log_event PLUGINS_RUN ''plugin.trusted'' (obj [(''plugin'', inspection_json v)]))))))
       (ret v)))))"

subsection \<open>Discovery\<close>

datatype discovered =
    Found inspection bool bool  \<comment> \<open>trusted, with a valid signature\<close>
  | Broken path exn

fun skippable :: "exn \<Rightarrow> bool" where
  \<comment> \<open>\<open>except (ValueError, OSError)\<close>\<close>
  "skippable (ValueError _) = True"
| "skippable (ValueText _) = True"
| "skippable (OSError _) = True"
| "skippable FileNotFoundError = True"
| "skippable (FileExistsError _) = True"
| "skippable (PermissionError _) = True"
| "skippable _ = False"

definition plugin_dirs :: "plugin_fs \<Rightarrow> path \<Rightarrow> path list" where
  "plugin_dirs fs base =
     map (\<lambda>c. if c \<noteq> [] \<and> last c = plugin_json then butlast c else c)
       (if pf_is_file fs (base @ [plugin_json]) then [base] else sort (pf_manifests fs base))"

definition discover_dir :: "'s library \<Rightarrow> plugin_fs \<Rightarrow> manager \<Rightarrow> json \<Rightarrow> path \<Rightarrow> discovered result" where
  "discover_dir lb fs mg plugins dir =
     (case inspect lb fs dir of
        Inl e \<Rightarrow> if skippable e then Inr (Broken dir e) else Inl e
      | Inr v \<Rightarrow>
          let signed = verify_signature lb fs mg v
          in Inr (Found v (locked_digest plugins (pi_path v) = JStr (pi_digest v)
                           \<and> (pm_public_keys mg = [] \<or> signed)) signed))"

fun discover_dirs :: "'s library \<Rightarrow> plugin_fs \<Rightarrow> manager \<Rightarrow> json \<Rightarrow> path list \<Rightarrow> discovered list result" where
  "discover_dirs lb fs mg plugins [] = Inr []"
| "discover_dirs lb fs mg plugins (d # ds) =
     bindE (discover_dir lb fs mg plugins d) (\<lambda>x. bindE (discover_dirs lb fs mg plugins ds) (\<lambda>xs. Inr (x # xs)))"

definition discover :: "'s library \<Rightarrow> plugin_fs \<Rightarrow> manager \<Rightarrow> json \<Rightarrow> discovered list result" where
  "discover lb fs mg lock =
     bindE (lock_plugins lock) (\<lambda>plugins.
       discover_dirs lb fs mg plugins (concat (map (plugin_dirs fs) (pm_directories mg))))"

subsection \<open>Applying plugins\<close>

record 's settings =
  cg_managed :: "path list"           \<comment> \<open>\<open>skills.managed_directories\<close>\<close>
  cg_servers :: "(pytext, 's) dict"   \<comment> \<open>\<open>mcp.servers\<close>\<close>
  cg_presets :: "(pytext, json) dict" \<comment> \<open>\<open>runtime.workflow_presets\<close>\<close>

fun add_skills :: "plugin_fs \<Rightarrow> path \<Rightarrow> json list \<Rightarrow> 's settings \<Rightarrow> 's settings result" where
  "add_skills fs base [] c = Inr c"
| "add_skills fs base (x # xs) c =
     (case x of
        JStr relative \<Rightarrow>
          let dir = pf_resolve fs (join_path base relative)
          in guardE (\<not> relative_to base dir) (ValueError ''plugin skill path escapes its directory'')
               (add_skills fs base xs (c\<lparr>cg_managed := cg_managed c @ [dir]\<rparr>))
      | _ \<Rightarrow> Inl (TypeError ''unsupported operand type(s) for /''))"

definition namespace :: "inspection \<Rightarrow> pytext \<Rightarrow> pytext" where
  "namespace v name = py_str (pi_name v) @ u ''_'' @ name"

fun add_servers :: "'s library \<Rightarrow> inspection \<Rightarrow> (pytext \<times> json) list \<Rightarrow> 's settings \<Rightarrow> 's settings result" where
  "add_servers lb v [] c = Inr c"
| "add_servers lb v ((name, server) # kvs) c =
     guardE (namespace v name \<in> set (dkeys (cg_servers c))) (ValueError ''plugin MCP namespace conflict'')
      (bindE (lb_server lb server) (\<lambda>s.
         add_servers lb v kvs (c\<lparr>cg_servers := dput (namespace v name) s (cg_servers c)\<rparr>)))"

fun add_presets :: "inspection \<Rightarrow> (pytext \<times> json) list \<Rightarrow> 's settings \<Rightarrow> 's settings result" where
  "add_presets v [] c = Inr c"
| "add_presets v ((name, steps) # kvs) c =
     guardE (namespace v name \<in> set (dkeys (cg_presets c))) (ValueError ''plugin workflow namespace conflict'')
       (add_presets v kvs (c\<lparr>cg_presets := dput (namespace v name) steps (cg_presets c)\<rparr>))"

definition apply_plugin :: "'s library \<Rightarrow> plugin_fs \<Rightarrow> inspection \<Rightarrow> 's settings \<Rightarrow> 's settings result" where
  "apply_plugin lb fs v c =
     bindE (py_iter (get_or ''skills'' (JList []) (pi_manifest v))) (\<lambda>skills.
     bindE (add_skills fs (pi_path v) skills c) (\<lambda>c.
     bindE (py_items (get_or ''mcp'' (JObj []) (pi_manifest v))) (\<lambda>servers.
     bindE (add_servers lb v servers c) (\<lambda>c.
     bindE (py_items (get_or ''workflows'' (JObj []) (pi_manifest v))) (\<lambda>flows.
       add_presets v flows c)))))"

fun apply_all :: "'s library \<Rightarrow> plugin_fs \<Rightarrow> discovered list \<Rightarrow> 's settings \<Rightarrow> 's settings result" where
  "apply_all lb fs [] c = Inr c"
| "apply_all lb fs (x # xs) c =
     (case x of
        Found v True _ \<Rightarrow> bindE (apply_plugin lb fs v c) (apply_all lb fs xs)
      | _ \<Rightarrow> apply_all lb fs xs c)"

definition apply_plugins :: "'s library \<Rightarrow> plugin_fs \<Rightarrow> manager \<Rightarrow> 's settings \<Rightarrow> (rstore, 's settings) act" where
  "apply_plugins lb fs mg c =
     bindA open_lock (\<lambda>lock. bindA (liftA (discover lb fs mg lock)) (\<lambda>xs. liftA (apply_all lb fs xs c)))"

subsection \<open>What the digest binds\<close>

definition bound_files :: "tree \<Rightarrow> (pytext \<times> int list) list" where
  \<comment> \<open>the files the digest covers, with their contents\<close>
  "bound_files es = concat (map (\<lambda>(p, n). case n of Regular b \<Rightarrow> if skipped (p, n) then [] else [(join [slash] p, b)] | _ \<Rightarrow> []) es)"

definition file_names_ok :: "tree \<Rightarrow> bool" where
  \<comment> \<open>no file name has a null character\<close>
  "file_names_ok es \<longleftrightarrow> list_all (\<lambda>(p, n). list_all (\<lambda>w. 0 \<notin> set w) p) es"

definition collision :: "(int list \<Rightarrow> int list) \<Rightarrow> bool" where
  "collision sha \<longleftrightarrow> (\<exists>x y. x \<noteq> y \<and> sha x = sha y)"

definition digest_like :: "(int list \<Rightarrow> int list) \<Rightarrow> bool" where
  "digest_like sha \<longleftrightarrow> (\<forall>x. length (sha x) = 32 \<and> set (sha x) \<subseteq> {0..<256})"

definition nameable :: "pytext \<Rightarrow> bool" where
  "nameable r \<longleftrightarrow> 0 \<notin> set r \<and> list_all valid_cp r"

lemma hash_files_frames:
  assumes "hash_files sha es = Inr (bs, fs)" "file_names_ok es"
  shows "bs = concat (map (\<lambda>(r, b). frame sha r b) (bound_files es)) \<and> list_all nameable (map fst (bound_files es))"
  using assms
proof (induction sha es arbitrary: bs fs rule: hash_files.induct)
  case (2 sha p n es)
  have zero: "0 \<notin> set (join [slash] p)"
  proof -
    have "0 \<notin> set (join [slash] q)" if "list_all (\<lambda>w. 0 \<notin> set w) q" for q
      using that by (induction "[slash]" q rule: join.induct) (auto simp: slash_def)
    then show ?thesis using 2(5) by (simp add: file_names_ok_def)
  qed
  show ?case
    using 2 zero by (cases n) (auto simp: bound_files_def file_names_ok_def nameable_def bind_simps split: if_splits)
qed (simp add: bound_files_def)

lemma utf8_no_zero: "nameable r \<Longrightarrow> 0 \<notin> set (utf8 r)"
proof (induction r)
  case (Cons c r)
  then have "0 < c" by (auto simp: nameable_def valid_cp_def)
  then have "0 \<notin> set (enc c)" by (auto simp: enc_def)
  then show ?case using Cons by (auto simp: nameable_def utf8_def)
qed (simp add: utf8_def)

lemma takeWhile_frame: "nameable r \<Longrightarrow> takeWhile (\<lambda>b. b \<noteq> 0) (frame sha r b @ rest) = utf8 r"
  using utf8_no_zero [of r] by (simp add: frame_def) (subst takeWhile_append2; auto)

lemma frame_split:
  assumes "nameable r" "nameable q" "digest_like sha" "frame sha r b @ s = frame sha q c @ t"
  shows "r = q \<and> sha b = sha c \<and> s = t"
proof -
  have e: "utf8 r = utf8 q" using takeWhile_frame [OF assms(1)] takeWhile_frame [OF assms(2)] assms(4) by metis
  then have "r = q" using decode_utf8 assms(1,2) unfolding nameable_def by metis
  moreover have "sha b @ s = sha c @ t" using assms(4) e by (simp add: frame_def)
  ultimately show ?thesis using assms(3) by (simp add: digest_like_def append_eq_append_conv)
qed

lemma frames_split:
  assumes "digest_like sha" "concat (map (\<lambda>(r, b). frame sha r b) xs) = concat (map (\<lambda>(r, b). frame sha r b) ys)"
    "list_all nameable (map fst xs)" "list_all nameable (map fst ys)"
  shows "map (\<lambda>(r, b). (r, sha b)) xs = map (\<lambda>(r, b). (r, sha b)) ys"
  using assms(2-4)
proof (induction xs arbitrary: ys)
  case Nil
  then show ?case by (cases ys) (auto simp: frame_def)
next
  case (Cons x xs)
  obtain r b where x: "x = (r, b)" by force
  show ?case
  proof (cases ys)
    case Nil
    then show ?thesis using Cons.prems(1) x by (simp add: frame_def)
  next
    case (Cons y zs)
    obtain q c where y: "y = (q, c)" by force
    have "r = q \<and> sha b = sha c \<and> concat (map (\<lambda>(r, b). frame sha r b) xs) = concat (map (\<lambda>(r, b). frame sha r b) zs)"
      by (rule frame_split) (use Cons.prems x y \<open>ys = y # zs\<close> assms(1) in auto)
    then show ?thesis using Cons.IH [of zs] Cons.prems x y \<open>ys = y # zs\<close> by simp
  qed
qed

lemma same_hashes:
  "map (\<lambda>(r, b). (r, sha b)) xs = map (\<lambda>(r, b). (r, sha b)) ys \<Longrightarrow> xs = ys \<or> collision sha"
proof (induction xs arbitrary: ys)
  case (Cons x xs)
  then show ?case by (cases ys; cases x; cases "hd ys") (auto simp: collision_def)
qed simp

lemma hexdigest_inj:
  "set bs \<subseteq> {0..<256} \<Longrightarrow> set cs \<subseteq> {0..<256} \<Longrightarrow> hexdigest bs = hexdigest cs \<Longrightarrow> bs = cs"
proof (induction bs arbitrary: cs)
  case Nil
  then show ?case by (cases cs) (auto simp: hexdigest_def)
next
  case (Cons b bs)
  then obtain c ds where cs: "cs = c # ds" by (cases cs) (auto simp: hexdigest_def)
  have "hex_digit (b div 16) = hex_digit (c div 16)" "hex_digit (b mod 16) = hex_digit (c mod 16)"
    using Cons.prems(3) cs by (simp_all add: hexdigest_def)
  moreover have "0 \<le> b" "b < 256" "0 \<le> c" "c < 256" using Cons.prems cs by auto
  ultimately have "b div 16 = c div 16" "b mod 16 = c mod 16" by (auto intro!: hex_inj)
  then have "b = c" by (metis div_mult_mod_eq)
  moreover have "hexdigest bs = hexdigest ds" using Cons.prems(3) cs by (simp add: hexdigest_def)
  ultimately show ?case using Cons cs by simp
qed

lemma inspect_Inr:
  "inspect lb fs dir = Inr v \<Longrightarrow> pi_path v = pf_resolve fs dir
     \<and> (\<exists>bs. hash_files (lb_sha256 lb) (sort_key fst (pf_tree fs (pi_path v))) = Inr (bs, pi_files v)
          \<and> pi_digest v = hexdigest (lb_sha256 lb bs))"
  by (auto simp: inspect_def Let_def bind_simps split: prod.splits)

lemma digest_binds_files:
  assumes "digest_like (lb_sha256 lb)" "inspect lb fs d = Inr v" "inspect lb fs' d' = Inr v'" "pi_digest v = pi_digest v'"
    and "file_names_ok (pf_tree fs (pi_path v))" "file_names_ok (pf_tree fs' (pi_path v'))"
  shows "bound_files (sort_key fst (pf_tree fs (pi_path v))) = bound_files (sort_key fst (pf_tree fs' (pi_path v')))
     \<or> collision (lb_sha256 lb)"
proof -
  define sha where "sha = lb_sha256 lb"
  have names: "file_names_ok (sort_key fst es)" if "file_names_ok es" for es
    using that by (simp add: file_names_ok_def list_all_iff)
  obtain bs bs' where h: "hash_files sha (sort_key fst (pf_tree fs (pi_path v))) = Inr (bs, pi_files v)"
      "hash_files sha (sort_key fst (pf_tree fs' (pi_path v'))) = Inr (bs', pi_files v')"
      "hexdigest (sha bs) = hexdigest (sha bs')"
    using inspect_Inr [OF assms(2)] inspect_Inr [OF assms(3)] assms(4) unfolding sha_def by auto
  have "sha bs = sha bs'" by (rule hexdigest_inj [OF _ _ h(3)]) (use assms(1) in \<open>auto simp: digest_like_def sha_def\<close>)
  then consider "collision sha" | "bs = bs'" by (auto simp: collision_def)
  then show ?thesis
  proof cases
    case 2
    then show ?thesis
      using hash_files_frames [OF h(1) names [OF assms(5)]] hash_files_frames [OF h(2) names [OF assms(6)]]
        frames_split [OF assms(1) [folded sha_def]] same_hashes [of sha] unfolding sha_def by metis
  qed (simp add: sha_def)
qed

text \<open>A file called \<open>signature.json\<close> is left out wherever it is, not only at the top.\<close>

lemma nested_signature_is_not_bound:
  "hash_files sha (xs @ (p @ [signature_json], Regular b) # ys) = hash_files sha (xs @ ys)"
  by (induction xs) (auto split: node.splits)

lemma discover_dirs_found:
  "discover_dirs lb fs mg plugins ds = Inr xs \<Longrightarrow> x \<in> set xs \<Longrightarrow> \<exists>d. discover_dir lb fs mg plugins d = Inr x"
  by (induction ds arbitrary: xs) (auto simp: bind_simps)

lemma discovered_trusted:
  assumes "discover lb fs mg lock = Inr xs" "Found v True ok \<in> set xs"
  shows "\<exists>d plugins. inspect lb fs d = Inr v \<and> lock_plugins lock = Inr plugins
     \<and> locked_digest plugins (pi_path v) = JStr (pi_digest v)
     \<and> ok = verify_signature lb fs mg v \<and> (pm_public_keys mg = [] \<or> ok)"
proof -
  obtain plugins d where d: "lock_plugins lock = Inr plugins" "discover_dir lb fs mg plugins d = Inr (Found v True ok)"
    using assms discover_dirs_found unfolding discover_def bind_simps by metis
  then show ?thesis by (fastforce simp: discover_dir_def Let_def split: sum.splits if_splits)
qed

lemma locked_digest_after:
  "lock_plugin v lock = Inr lock' \<Longrightarrow> \<exists>ps. lock_plugins lock' = Inr ps \<and> locked_digest ps (pi_path v) = JStr (pi_digest v)"
  by (auto simp: lock_plugin_def lock_plugins_def bind_simps locked_digest_def with_field_def dict_simps field_def obj_def)

subsection \<open>Properties\<close>


definition supplied :: "discovered list \<Rightarrow> inspection \<Rightarrow> bool" where
  "supplied xs v \<longleftrightarrow> (\<exists>ok. Found v True ok \<in> set xs)"

definition grown :: "(pytext \<Rightarrow> bool) \<Rightarrow> (pytext, 'v) dict \<Rightarrow> (pytext, 'v) dict \<Rightarrow> bool" where
  \<comment> \<open>no entry is changed, and new keys have the property\<close>
  "grown P d d' \<longleftrightarrow> (\<forall>k v. dget d k = Some v \<longrightarrow> dget d' k = Some v) \<and> (\<forall>k\<in>set (dkeys d') - set (dkeys d). P k)"

lemma grown_refl: "grown P d d"
  by (simp add: grown_def)

lemma grown_trans: "grown P d d' \<Longrightarrow> grown P d' d'' \<Longrightarrow> grown P d d''"
  unfolding grown_def by blast

lemma grown_put: "P k \<Longrightarrow> k \<notin> set (dkeys d) \<Longrightarrow> grown P d (dput k v d)"
  unfolding grown_def by (auto simp: dict_simps dest: dget_Some_in)

definition added :: "discovered list \<Rightarrow> 's settings \<Rightarrow> 's settings \<Rightarrow> bool" where
  \<comment> \<open>nothing configured is changed, and all that is new is some trusted plugin's\<close>
  "added xs c c' \<longleftrightarrow>
     (\<exists>ds. cg_managed c' = cg_managed c @ ds \<and> (\<forall>d\<in>set ds. \<exists>v. supplied xs v \<and> relative_to (pi_path v) d))
     \<and> grown (\<lambda>k. \<exists>v n. supplied xs v \<and> k = namespace v n) (cg_servers c) (cg_servers c')
     \<and> grown (\<lambda>k. \<exists>v n. supplied xs v \<and> k = namespace v n) (cg_presets c) (cg_presets c')"

lemma added_refl: "added xs c c"
  by (simp add: added_def grown_refl)

lemma added_trans: "added xs c1 c2 \<Longrightarrow> added xs c2 c3 \<Longrightarrow> added xs c1 c3"
  unfolding added_def by (auto intro: grown_trans)

lemma add_skills_added:
  "add_skills fs (pi_path v) ks c = Inr c' \<Longrightarrow> supplied xs v \<Longrightarrow> added xs c c'"
proof (induction ks arbitrary: c)
  case Nil
  then show ?case by (simp add: added_refl)
next
  case (Cons k ks)
  then obtain r where r: "k = JStr r" "relative_to (pi_path v) (pf_resolve fs (join_path (pi_path v) r))"
    "add_skills fs (pi_path v) ks (c\<lparr>cg_managed := cg_managed c @ [pf_resolve fs (join_path (pi_path v) r)]\<rparr>) = Inr c'"
    by (auto simp: Let_def bind_simps split: json.splits)
  then have "added xs c (c\<lparr>cg_managed := cg_managed c @ [pf_resolve fs (join_path (pi_path v) r)]\<rparr>)"
    using Cons.prems(2) by (auto simp: added_def grown_refl)
  then show ?case using Cons.IH [OF r(3) Cons.prems(2)] added_trans by blast
qed

lemma add_servers_added:
  "add_servers lb v kvs c = Inr c' \<Longrightarrow> supplied xs v \<Longrightarrow> added xs c c'"
proof (induction lb v kvs c rule: add_servers.induct)
  case (2 lb v name server kvs c)
  then obtain s where s: "namespace v name \<notin> set (dkeys (cg_servers c))" "lb_server lb server = Inr s"
    "add_servers lb v kvs (c\<lparr>cg_servers := dput (namespace v name) s (cg_servers c)\<rparr>) = Inr c'"
    by (auto simp: bind_simps)
  have "added xs c (c\<lparr>cg_servers := dput (namespace v name) s (cg_servers c)\<rparr>)"
    using s(1) 2(3) by (auto simp: added_def grown_refl intro!: grown_put)
  moreover have "added xs (c\<lparr>cg_servers := dput (namespace v name) s (cg_servers c)\<rparr>) c'" using 2(1) s(3) 2(3) by blast
  ultimately show ?case by (rule added_trans)
qed (simp add: added_refl)

lemma add_presets_added:
  "add_presets v kvs c = Inr c' \<Longrightarrow> supplied xs v \<Longrightarrow> added xs c c'"
proof (induction v kvs c rule: add_presets.induct)
  case (2 v name steps kvs c)
  then have s: "namespace v name \<notin> set (dkeys (cg_presets c))"
    "add_presets v kvs (c\<lparr>cg_presets := dput (namespace v name) steps (cg_presets c)\<rparr>) = Inr c'"
    by (auto simp: bind_simps)
  have "added xs c (c\<lparr>cg_presets := dput (namespace v name) steps (cg_presets c)\<rparr>)"
    using s(1) 2(3) by (auto simp: added_def grown_refl intro!: grown_put)
  moreover have "added xs (c\<lparr>cg_presets := dput (namespace v name) steps (cg_presets c)\<rparr>) c'" using 2(1) s(2) 2(3) by blast
  ultimately show ?case by (rule added_trans)
qed (simp add: added_refl)

lemma apply_plugin_added:
  assumes "apply_plugin lb fs v c = Inr c'" "supplied xs v"
  shows "added xs c c'"
  using assms add_skills_added add_servers_added add_presets_added added_trans
  unfolding apply_plugin_def bind_simps by metis

lemma apply_all_added: "apply_all lb fs ys c = Inr c' \<Longrightarrow> set ys \<subseteq> set xs \<Longrightarrow> added xs c c'"
proof (induction ys arbitrary: c)
  case (Cons y ys)
  show ?case
  proof (cases "\<exists>v ok. y = Found v True ok")
    case True
    then obtain v ok where y: "y = Found v True ok" by blast
    then obtain c1 where "apply_plugin lb fs v c = Inr c1" "apply_all lb fs ys c1 = Inr c'"
      using Cons.prems(1) by (auto simp: bind_simps)
    moreover have "supplied xs v" using Cons.prems(2) y by (auto simp: supplied_def)
    ultimately show ?thesis using apply_plugin_added Cons.IH Cons.prems(2) added_trans by (metis insert_subset list.simps(15))
  next
    case False
    then have "apply_all lb fs ys c = Inr c'" using Cons.prems(1) by (auto split: discovered.splits bool.splits)
    then show ?thesis using Cons by simp
  qed
qed (simp add: added_refl)

text \<open>What plugins add: configured servers and presets stay, and what is new belongs to a plugin whose digest is locked.\<close>

lemma plugins_only_add:
  assumes "apply_plugins lb fs mg c s = (s', Inr c')"
  shows "\<exists>lock xs. snd (open_lock s) = Inr lock \<and> discover lb fs mg lock = Inr xs \<and> added xs c c'
     \<and> (\<forall>v. supplied xs v \<longrightarrow> (\<exists>d ps. inspect lb fs d = Inr v \<and> lock_plugins lock = Inr ps
          \<and> locked_digest ps (pi_path v) = JStr (pi_digest v)))"
proof -
  obtain lock xs where l: "open_lock s = (s', Inr lock)" "discover lb fs mg lock = Inr xs" "apply_all lb fs xs c = Inr c'"
    using assms by (auto simp: apply_plugins_def bindA_def liftA_def split: prod.splits sum.splits)
  have "\<exists>d ps. inspect lb fs d = Inr v \<and> lock_plugins lock = Inr ps \<and> locked_digest ps (pi_path v) = JStr (pi_digest v)"
    if "supplied xs v" for v
    using discovered_trusted [OF l(2)] that unfolding supplied_def by blast
  then show ?thesis using l apply_all_added [OF l(3) subset_refl] by auto
qed

subsection \<open>Witness\<close>

definition example_sha :: "int list \<Rightarrow> int list" where
  "example_sha x = take 32 (map (\<lambda>b. b mod 256) x @ replicate 32 0)"

definition example_library :: "unit library" where
  "example_library = \<lparr>lb_sha256 = example_sha,
     lb_loads = (\<lambda>b. Inr (obj [(''name'', JStr (u ''demo'')), (''version'', JInt 1)])),
     lb_verify = (\<lambda>k x d. False), lb_server = (\<lambda>v. Inr ())\<rparr>"

definition example_plugin :: "node \<Rightarrow> plugin_fs" where
  \<comment> \<open>a plugin with one skill, listed before its manifest, and a nested file\<close>
  "example_plugin nested = \<lparr>pf_resolve = (\<lambda>p. p), pf_is_file = (\<lambda>p. p = [u ''p'', plugin_json]), pf_read = (\<lambda>p. Inr [123]),
     pf_tree = (\<lambda>p. [([u ''s'', signature_json], nested), ([u ''s'', u ''SKILL.md''], Regular [35, 10]),
                     ([u ''s''], Other), ([plugin_json], Regular [123])]),
     pf_manifests = (\<lambda>p. [])\<rparr>"

definition example_manager :: manager where
  "example_manager = \<lparr>pm_directories = [[u ''p'']], pm_public_keys = []\<rparr>"

definition example_inspection :: inspection where
  "example_inspection = (case inspect example_library (example_plugin (Regular [1])) [u ''p''] of Inr v \<Rightarrow> v)"

definition example_lock :: json where
  "example_lock = (case lock_plugin example_inspection (obj [(''plugins'', JObj [])]) of Inr l \<Rightarrow> l)"

lemma example_sha_digest: "digest_like example_sha"
  by (force simp: digest_like_def example_sha_def dest!: in_set_takeD)

lemma example_discovery:
  "inspect example_library (example_plugin (Regular [1])) [u ''p''] = Inr example_inspection"
  "lock_plugin example_inspection (obj [(''plugins'', JObj [])]) = Inr example_lock"
  "discover example_library (example_plugin (Regular [2])) example_manager example_lock = Inr [Found example_inspection True False]"
  "pi_path example_inspection = [u ''p'']"
  "list_all (\<lambda>n. file_names_ok (pf_tree (example_plugin n) [u ''p''])) [Regular [1], Regular [2]]"
  by code_simp+


end
