(* ===== verification/Skills.thy ===== *)
theory Skills
  imports Repo_Tools Py_Regex
begin

text \<open>
  \<open>skills.py\<close>: Markdown skills, found below directories of decreasing precedence. A skill is a directory
  with a \<open>SKILL.md\<close> whose front matter names it; references are read and scripts are run only from below
  that directory, scripts only in the sandbox. What the file system shows and the YAML reader are
  parameters.
\<close>

subsection \<open>State\<close>

record skill_fs =
  sk_is_dir :: "path \<Rightarrow> bool"
  sk_dirs :: "path \<Rightarrow> pytext list"  \<comment> \<open>the names of the directories in a directory\<close>
  sk_is_file :: "path \<Rightarrow> bool"
  sk_read :: "path \<Rightarrow> int list result"
  sk_resolve :: "path \<Rightarrow> path"
  sk_yaml :: "pytext \<Rightarrow> json result"  \<comment> \<open>\<open>yaml.safe_load\<close>; a \<open>YAMLError\<close> is a \<open>ValueError\<close> here\<close>

record skills_config =
  sc_workspace :: path
  sc_user :: "path list"
  sc_managed :: "path list"
  sc_builtin :: path
  sc_max_bytes :: int
  sc_allow_scripts :: bool

record skill =
  sk_name :: pytext
  sk_description :: pytext
  sk_path :: path
  sk_source :: string
  sk_version :: pytext
  sk_allowed_tools :: "pytext list"
  sk_permissions :: "pytext list"
  sk_network :: bool
  sk_trusted :: bool
  sk_compatibility :: pytext

record skill_registry =
  rg_skills :: "(pytext, skill) dict"
  rg_conflicts :: "(pytext, pytext list) dict"

subsection \<open>Reading a skill\<close>

definition any_char :: "int \<Rightarrow> bool" where
  "any_char c = True"

definition FRONTMATTER :: re where
  "FRONTMATTER = RSeq (lit (u ''---'')) (RSeq (star is_space) (RSeq (lit [10])
     (RSeq (RGroup 1 (RStar False (RChar any_char))) (RSeq (lit [10]) (RSeq (lit (u ''---'')) (RSeq (star is_space) (lit [10])))))))"

definition safe_name :: "pytext \<Rightarrow> bool" where
  \<comment> \<open>\<open>SAFE_NAME.fullmatch\<close>\<close>
  "safe_name t \<longleftrightarrow> t \<noteq> [] \<and> is_alnum (hd t) \<and> length t \<le> 128 \<and> list_all (\<lambda>c. is_alnum c \<or> c \<in> {46, 95, 45}) t"

definition read_bounded :: "skill_fs \<Rightarrow> skills_config \<Rightarrow> path \<Rightarrow> pytext result" where
  "read_bounded fs cf p =
     bindE (sk_read fs p) (\<lambda>raw.
       guardE (sc_max_bytes cf < int (length raw)) (ValueError ''skill file exceeds configured size limit'')
         (Inr (decode_replace raw)))"

definition texts_of :: "json \<Rightarrow> pytext list result" where
  \<comment> \<open>\<open>tuple(str(item) for item in v or [])\<close>\<close>
  "texts_of v = (if truthy v then bindE (py_iter v) (\<lambda>xs. Inr (map py_str xs)) else Inr [])"

definition load_metadata :: "skill_fs \<Rightarrow> skills_config \<Rightarrow> path \<Rightarrow> string \<Rightarrow> skill result" where
  "load_metadata fs cf p origin =
     bindE (read_bounded fs cf p) (\<lambda>raw.
       case match_at FRONTMATTER [] raw of
         None \<Rightarrow> Inl (ValueError ''SKILL.md is missing YAML frontmatter'')
       | Some m \<Rightarrow>
           bindE (sk_yaml fs (group 1 m)) (\<lambda>y.
           let payload = or_else y (JObj []) in
           guardE (\<not> is_obj payload) (ValueError ''skill frontmatter must be a mapping'')
          (let name = str_or (field ''name'' payload) []; description = str_or (field ''description'' payload) [] in
           guardE (\<not> safe_name name \<or> description = []) (ValueError ''skill name or description is invalid'')
          (bindE (texts_of (field ''allowed_tools'' payload)) (\<lambda>tools.
           bindE (texts_of (field ''required_permissions'' payload)) (\<lambda>permissions.
             Inr \<lparr>sk_name = name, sk_description = description, sk_path = sk_resolve fs (butlast p), sk_source = origin,
               sk_version = str_or (field ''version'' payload) [], sk_allowed_tools = tools,
               sk_permissions = permissions, sk_network = truthy (get_or ''network'' (JBool False) payload),
               sk_trusted = truthy (get_or ''trusted'' (JBool (origin = ''managed'')) payload),
               sk_compatibility = str_or (field ''compatibility'' payload) []\<rparr>))))))"

subsection \<open>Discovery\<close>

definition sources :: "skills_config \<Rightarrow> (string \<times> path) list" where
  "sources cf =
     [(''project'', sc_workspace cf @ [u ''.lightworker'', u ''skills''])]
     @ map (Pair ''user'') (sc_user cf) @ map (Pair ''managed'') (sc_managed cf) @ [(''builtin'', sc_builtin cf)]"

definition skill_files :: "skill_fs \<Rightarrow> path \<Rightarrow> path list" where
  \<comment> \<open>the \<open>SKILL.md\<close> files below a directory, in the order of the names\<close>
  "skill_files fs dir =
     (if sk_is_dir fs dir
      then filter (sk_is_file fs) (map (\<lambda>n. dir @ [n, u ''SKILL.md'']) (sort (sk_dirs fs dir))) else [])"

fun unreadable :: "exn \<Rightarrow> bool" where
  \<comment> \<open>\<open>except (OSError, ValueError, yaml.YAMLError)\<close>\<close>
  "unreadable (ValueError _) = True"
| "unreadable (ValueText _) = True"
| "unreadable (OSError _) = True"
| "unreadable FileNotFoundError = True"
| "unreadable (FileExistsError _) = True"
| "unreadable (PermissionError _) = True"
| "unreadable _ = False"

definition add_skill :: "skill \<Rightarrow> skill_registry \<Rightarrow> skill_registry" where
  "add_skill d r =
     (case dget (rg_skills r) (sk_name d) of
        None \<Rightarrow> r\<lparr>rg_skills := dput (sk_name d) d (rg_skills r)\<rparr>
      | Some winner \<Rightarrow>
          let known = (case dget (rg_conflicts r) (sk_name d) of None \<Rightarrow> [path_text (sk_path winner)] | Some ps \<Rightarrow> ps)
          in r\<lparr>rg_conflicts := dput (sk_name d) (known @ [path_text (sk_path d)]) (rg_conflicts r)\<rparr>)"

fun discover_files :: "skill_fs \<Rightarrow> skills_config \<Rightarrow> (string \<times> path) list \<Rightarrow> (skill_registry, unit) act" where
  \<comment> \<open>an error that is not skipped leaves the skills found so far\<close>
  "discover_files fs cf [] r = (r, Inr ())"
| "discover_files fs cf ((origin, p) # ps) r =
     (case load_metadata fs cf p origin of
        Inl e \<Rightarrow> if unreadable e then discover_files fs cf ps r else (r, Inl e)
      | Inr d \<Rightarrow> discover_files fs cf ps (add_skill d r))"

definition empty_registry :: skill_registry where
  "empty_registry = \<lparr>rg_skills = [], rg_conflicts = []\<rparr>"

definition candidates_of :: "skill_fs \<Rightarrow> skills_config \<Rightarrow> (string \<times> path) list" where
  "candidates_of fs cf = concat (map (\<lambda>(origin, dir). map (Pair origin) (skill_files fs dir)) (sources cf))"

definition discover_skills :: "skill_fs \<Rightarrow> skills_config \<Rightarrow> (skill_registry, unit) act" where
  "discover_skills fs cf r = discover_files fs cf (candidates_of fs cf) empty_registry"

subsection \<open>Using a skill\<close>

definition ensure_discovered :: "skill_fs \<Rightarrow> skills_config \<Rightarrow> (skill_registry, unit) act" where
  \<comment> \<open>\<open>if not self.skills: self.discover()\<close>\<close>
  "ensure_discovered fs cf r = (if rg_skills r = [] then discover_skills fs cf r else (r, Inr ()))"

definition get_skill :: "skill_fs \<Rightarrow> skills_config \<Rightarrow> pytext \<Rightarrow> (skill_registry, skill) act" where
  "get_skill fs cf name =
     seqA (ensure_discovered fs cf) (\<lambda>r.
       (r, case dget (rg_skills r) name of
             None \<Rightarrow> Inl (ValueText (u ''skill not found: '' @ name)) | Some s \<Rightarrow> Inr s))"

definition child_path :: "path \<times> pytext \<Rightarrow> path result" where
  \<comment> \<open>the lexical check of \<open>_safe_child\<close>\<close>
  "child_path = (\<lambda>(base, relative).
     guardE (relative = [] \<or> is_absolute relative \<or> dotdot \<in> set (path_parts relative)) (ValueError ''unsafe skill path'')
       (Inr (base @ path_parts relative)))"

definition safe_child :: "skill_fs \<Rightarrow> path \<Rightarrow> pytext \<Rightarrow> path result" where
  "safe_child fs base relative =
     bindE (child_path (base, relative)) (\<lambda>p.
       guardE (\<not> relative_to (sk_resolve fs base) (sk_resolve fs p)) (ValueError ''skill path escapes its directory'')
         (Inr (sk_resolve fs p)))"

definition activate :: "skill_fs \<Rightarrow> skills_config \<Rightarrow> pytext \<Rightarrow> (skill_registry, pytext) act" where
  "activate fs cf name =
     bindA (get_skill fs cf name) (\<lambda>s.
     bindA (liftA (read_bounded fs cf (sk_path s @ [u ''SKILL.md'']))) (\<lambda>raw.
       ret (strip (case match_at FRONTMATTER [] raw of None \<Rightarrow> raw | Some m \<Rightarrow> aft m))))"

definition read_reference :: "skill_fs \<Rightarrow> skills_config \<Rightarrow> pytext \<Rightarrow> pytext \<Rightarrow> (skill_registry, pytext) act" where
  "read_reference fs cf name relative =
     bindA (get_skill fs cf name) (\<lambda>s.
     bindA (liftA (safe_child fs (sk_path s @ [u ''references'']) relative)) (\<lambda>p.
       guardA (\<not> sk_is_file fs p) (ValueError ''skill reference not found'') (liftA (read_bounded fs cf p))))"

definition script :: "skill_fs \<Rightarrow> skills_config \<Rightarrow> pytext \<Rightarrow> pytext \<Rightarrow> (skill_registry, skill \<times> path \<times> pytext) act" where
  "script fs cf name relative =
     bindA (get_skill fs cf name) (\<lambda>s.
     bindA (liftA (safe_child fs (sk_path s @ [u ''scripts'']) relative)) (\<lambda>p.
       guardA (\<not> sk_is_file fs p \<or> lower (path_suffix (path_text p)) \<notin> {u ''.py'', u ''.sh''})
         (ValueError ''skill script must be an existing .py or .sh file'')
        (bindA (liftA (read_bounded fs cf p)) (\<lambda>t. ret (s, p, t)))))"

definition skill_json :: "skill \<Rightarrow> json" where
  "skill_json s = obj [(''name'', JStr (sk_name s)), (''description'', JStr (sk_description s)),
     (''source'', JStr (u (sk_source s))), (''version'', JStr (sk_version s)),
     (''allowed_tools'', JList (map JStr (sk_allowed_tools s))),
     (''required_permissions'', JList (map JStr (sk_permissions s))), (''network'', JBool (sk_network s)),
     (''trusted'', JBool (sk_trusted s)), (''compatibility'', JStr (sk_compatibility s))]"

definition manifest :: "skill_fs \<Rightarrow> skills_config \<Rightarrow> (skill_registry, json) act" where
  "manifest fs cf =
     seqA (ensure_discovered fs cf) (\<lambda>r.
       (r, Inr (obj [(''skills'', JList (map skill_json (dvals (rg_skills r)))),
         (''conflicts'', JObj (map (\<lambda>(n, ps). (n, JList (map JStr ps))) (rg_conflicts r)))])))"

subsection \<open>The tools\<close>

record 'w skills_host =
  sh_registry :: skill_registry
  sh_world :: 'w

definition on_registry :: "(skill_registry, 'a) act \<Rightarrow> ('w skills_host, 'a) act" where
  "on_registry f h = (case f (sh_registry h) of (r, x) \<Rightarrow> (h\<lparr>sh_registry := r\<rparr>, x))"

definition error_json :: "pytext \<Rightarrow> json" where
  "error_json t = obj [(''ok'', JBool False), (''error'', JStr t)]"

definition report_value_errors :: "('w, json) act \<Rightarrow> ('w, json) act" where
  \<comment> \<open>\<open>except ValueError as exc\<close>: the printed object; the text or object of a success otherwise\<close>
  "report_value_errors f w = (case f w of
      (w', Inl (ValueError m)) \<Rightarrow> (w', Inr (error_json (u m)))
    | (w', Inl (ValueText t)) \<Rightarrow> (w', Inr (error_json t))
    | x \<Rightarrow> x)"

definition list_skills :: "skill_fs \<Rightarrow> skills_config \<Rightarrow> ('w skills_host, json) act" where
  "list_skills fs cf = on_registry (manifest fs cf)"

definition activate_skill :: "skill_fs \<Rightarrow> skills_config \<Rightarrow> pytext \<Rightarrow> ('w skills_host, json) act" where
  "activate_skill fs cf name = report_value_errors (bindA (on_registry (activate fs cf name)) (\<lambda>t. ret (JStr t)))"

definition skill_read_reference :: "skill_fs \<Rightarrow> skills_config \<Rightarrow> pytext \<Rightarrow> pytext \<Rightarrow> ('w skills_host, json) act" where
  "skill_read_reference fs cf name p =
     report_value_errors (bindA (on_registry (read_reference fs cf name p)) (\<lambda>t. ret (JStr t)))"

definition skill_run_script ::
  "'w sandbox \<Rightarrow> skill_fs \<Rightarrow> skills_config \<Rightarrow> pytext \<Rightarrow> pytext \<Rightarrow> json \<Rightarrow> ('w skills_host, json) act" where
  "skill_run_script sb fs cf name relative args =
     report_value_errors
      (bindA (on_registry (script fs cf name relative)) (\<lambda>(s, p, content).
         if sk_network s then ret (error_json (u ''networked Skill scripts are disabled in the task sandbox''))
         else bindA (liftA (if truthy args then py_iter args else Inr [])) (\<lambda>xs.
              (\<lambda>h. case sb_call sb ''run_skill_script'' (obj [(''name'', JStr (last p)), (''content'', JStr content),
                       (''args'', JList xs)]) (Some 300) (sh_world h) of
                 (w, r) \<Rightarrow> (h\<lparr>sh_world := w\<rparr>, r)))))"

datatype skill_tool = ListSkills | ActivateSkill | ReadReference | RunScript

definition skill_tools :: "skills_config \<Rightarrow> skill_tool list" where
  "skill_tools cf = [ListSkills, ActivateSkill, ReadReference] @ (if sc_allow_scripts cf then [RunScript] else [])"

subsection \<open>Precedence\<close>

fun loaded :: "skill_fs \<Rightarrow> skills_config \<Rightarrow> (string \<times> path) list \<Rightarrow> skill list" where
  \<comment> \<open>the skills that can be read, in the order of their sources\<close>
  "loaded fs cf [] = []"
| "loaded fs cf ((origin, p) # ps) =
     (case load_metadata fs cf p origin of Inl e \<Rightarrow> loaded fs cf ps | Inr d \<Rightarrow> d # loaded fs cf ps)"

definition named :: "pytext \<Rightarrow> skill list \<Rightarrow> skill list" where
  "named n ds = filter (\<lambda>d. sk_name d = n) ds"

definition agrees :: "skill list \<Rightarrow> skill_registry \<Rightarrow> bool" where
  \<comment> \<open>the registry of a list of skills: the first of a name, and all of a name that is there twice\<close>
  "agrees ds r \<longleftrightarrow> (\<forall>n. dget (rg_skills r) n = (case named n ds of [] \<Rightarrow> None | d # _ \<Rightarrow> Some d)
     \<and> dget (rg_conflicts r) n = (if length (named n ds) \<le> 1 then None else Some (map (path_text \<circ> sk_path) (named n ds))))"

lemma agrees_add: "agrees ds r \<Longrightarrow> agrees (ds @ [d]) (add_skill d r)"
  unfolding agrees_def
proof (intro allI)
  fix n assume a: "\<forall>n. dget (rg_skills r) n = (case named n ds of [] \<Rightarrow> None | d # _ \<Rightarrow> Some d)
     \<and> dget (rg_conflicts r) n = (if length (named n ds) \<le> 1 then None else Some (map (path_text \<circ> sk_path) (named n ds)))"
  have m: "named n (ds @ [d]) = named n ds @ (if sk_name d = n then [d] else [])" by (simp add: named_def)
  show "dget (rg_skills (add_skill d r)) n = (case named n (ds @ [d]) of [] \<Rightarrow> None | d # _ \<Rightarrow> Some d)
     \<and> dget (rg_conflicts (add_skill d r)) n
        = (if length (named n (ds @ [d])) \<le> 1 then None else Some (map (path_text \<circ> sk_path) (named n (ds @ [d]))))"
    using a [rule_format, of n] a [rule_format, of "sk_name d"]
    by (cases "named n ds"; cases "tl (named n ds)")
      (auto simp: m add_skill_def dict_simps Let_def split: option.splits list.splits)
qed

lemma discover_files_agrees:
  "discover_files fs cf ps r = (r', Inr ()) \<Longrightarrow> agrees ds r \<Longrightarrow> agrees (ds @ loaded fs cf ps) r'"
proof (induction ps arbitrary: r ds)
  case (Cons x ps)
  obtain origin p where x: "x = (origin, p)" by force
  show ?case
  proof (cases "load_metadata fs cf p origin")
    case (Inl e)
    then show ?thesis using Cons x by (auto split: if_splits)
  next
    case (Inr d)
    then show ?thesis using Cons.prems(1) x Cons.IH [OF _ agrees_add [OF Cons.prems(2), of d]] by simp
  qed
qed simp

definition precedence :: "string \<Rightarrow> nat" where
  "precedence origin = (if origin = ''project'' then 0 else if origin = ''user'' then 1
     else if origin = ''managed'' then 2 else 3)"

lemma loaded_origins: "map sk_source (loaded fs cf ps) = map fst (filter (\<lambda>(origin, p). \<exists>d. load_metadata fs cf p origin = Inr d) ps)"
proof (induction ps)
  case (Cons x ps)
  obtain origin p where x: "x = (origin, p)" by force
  have "sk_source d = origin" if "load_metadata fs cf p origin = Inr d" for d
    using that by (auto simp: load_metadata_def bind_simps Let_def split: option.splits)
  then show ?case using Cons x by (auto split: sum.splits)
qed simp

lemma sorted_filtered: "sorted (map f xs) \<Longrightarrow> sorted (map f (filter p xs))"
  by (induction xs) auto

lemma candidates_sorted: "sorted (map (precedence \<circ> fst) (candidates_of fs cf))"
proof -
  have same: "sorted (map (\<lambda>x. c) xs)" for c :: nat and xs :: "'a list" by (induction xs) auto
  have "sorted (map (precedence \<circ> fst) (concat (map (\<lambda>(origin, dir). map (Pair origin) (f dir)) ss)))"
    if "sorted (map (precedence \<circ> fst) ss)" for ss :: "(string \<times> path) list" and f :: "path \<Rightarrow> path list"
    using that by (induction ss) (auto simp: sorted_append o_def same)
  moreover have "sorted (map (precedence \<circ> fst) (sources cf))"
    by (auto simp: sources_def precedence_def sorted_append o_def same)
  ultimately show ?thesis unfolding candidates_of_def by blast
qed

lemma loaded_sorted: "sorted (map (precedence \<circ> sk_source) (named n (loaded fs cf (candidates_of fs cf))))"
proof -
  have "map (precedence \<circ> sk_source) (loaded fs cf ps)
      = map (precedence \<circ> fst) (filter (\<lambda>(origin, p). \<exists>d. load_metadata fs cf p origin = Inr d) ps)" for ps
    using arg_cong [OF loaded_origins [of fs cf ps], of "map precedence"] by simp
  then have "sorted (map (precedence \<circ> sk_source) (loaded fs cf (candidates_of fs cf)))"
    using sorted_filtered [OF candidates_sorted] by simp
  then show ?thesis unfolding named_def by (rule sorted_filtered)
qed

subsection \<open>Properties\<close>

text \<open>
  C24. Discovery gives a name to the skill of the first source that has one: after a discovery the registry
  holds, for every name, the first of the readable skills of that name in the order project, user, managed,
  built in; the other ones are reported as conflicts, with the one that won in front, and a name that is
  there once has no conflict.
\<close>

theorem discovery_prefers_earlier_sources:
  assumes "discover_skills fs cf r = (r', Inr ())"
  shows "let found = named n (loaded fs cf (candidates_of fs cf)) in
     dget (rg_skills r') n = (case found of [] \<Rightarrow> None | d # _ \<Rightarrow> Some d)
     \<and> dget (rg_conflicts r') n = (if length found \<le> 1 then None else Some (map (path_text \<circ> sk_path) found))
     \<and> sorted (map (precedence \<circ> sk_source) found)"
proof -
  have "agrees [] empty_registry" by (simp add: agrees_def empty_registry_def named_def)
  from discover_files_agrees [OF assms [unfolded discover_skills_def] this] show ?thesis
    using loaded_sorted [of n fs cf] by (simp add: agrees_def Let_def)
qed

text \<open>What is read for a reference or a script lies below the resolved directory of references or scripts.\<close>

lemma safe_child_below:
  "safe_child fs base relative = Inr p \<Longrightarrow> relative_to (sk_resolve fs base) p \<and> dotdot \<notin> set (path_parts relative)"
  by (auto simp: safe_child_def child_path_def bind_simps)

lemma read_reference_below:
  assumes "read_reference fs cf name relative r = (r', Inr t)"
  shows "\<exists>s p. dget (rg_skills r') name = Some s \<and> relative_to (sk_resolve fs (sk_path s @ [u ''references''])) p
     \<and> sk_is_file fs p \<and> read_bounded fs cf p = Inr t"
  using assms
  by (auto simp: read_reference_def get_skill_def seqA_def bindA_def liftA_def guardA_def
      dest!: safe_child_below split: prod.splits sum.splits option.splits if_splits)

lemma only_scripts_reach_the_sandbox:
  assumes "script fs cf name relative r = (r', Inr (s, p, t))"
  shows "dget (rg_skills r') name = Some s \<and> relative_to (sk_resolve fs (sk_path s @ [u ''scripts''])) p
     \<and> sk_is_file fs p \<and> lower (path_suffix (path_text p)) \<in> {u ''.py'', u ''.sh''}"
  using assms
  by (auto simp: script_def get_skill_def seqA_def bindA_def liftA_def guardA_def ret_def
      dest!: safe_child_below split: prod.splits sum.splits option.splits if_splits)

subsection \<open>Witness\<close>

definition example_files :: skill_fs where
  \<comment> \<open>two skills called \<open>a\<close>, the one of the project with a linked directory of references\<close>
  "example_files = \<lparr>
     sk_is_dir = (\<lambda>p. p \<in> {[u ''w'', u ''.lightworker'', u ''skills''], [u ''b'']}),
     sk_dirs = (\<lambda>p. [u ''x'']), sk_is_file = (\<lambda>p. True),
     sk_read = (\<lambda>p. Inr (utf8 (u ''---'' @ [10] @ u ''n'' @ [10] @ u ''---'' @ [10] @ u ''body''))),
     sk_resolve = (\<lambda>p. if take 5 p = [u ''w'', u ''.lightworker'', u ''skills'', u ''x'', u ''references'']
                        then [u ''home''] @ drop 5 p else p),
     sk_yaml = (\<lambda>t. Inr (obj [(''name'', JStr (u ''a'')), (''description'', JStr t)]))\<rparr>"

definition example_skills :: skills_config where
  "example_skills = \<lparr>sc_workspace = [u ''w''], sc_user = [], sc_managed = [], sc_builtin = [u ''b''],
     sc_max_bytes = 262144, sc_allow_scripts = True\<rparr>"

lemma example_discovered:
  "(case discover_skills example_files example_skills empty_registry of (r, x) \<Rightarrow> x = Inr ()
     \<and> map_option sk_source (dget (rg_skills r) (u ''a'')) = Some ''project''
     \<and> dget (rg_conflicts r) (u ''a'') = Some [u ''/w/.lightworker/skills/x'', u ''/b/x''])"
  by code_simp

lemma discovery_prefers_earlier_sources_witness:
  "\<exists>r. discover_skills example_files example_skills empty_registry = (r, Inr ())
     \<and> length (named (u ''a'') (loaded example_files example_skills (candidates_of example_files example_skills))) = 2
     \<and> map_option sk_source (dget (rg_skills r) (u ''a'')) = Some ''project''"
proof -
  obtain r where r: "discover_skills example_files example_skills empty_registry = (r, Inr ())"
      "map_option sk_source (dget (rg_skills r) (u ''a'')) = Some ''project''"
      "dget (rg_conflicts r) (u ''a'') = Some [u ''/w/.lightworker/skills/x'', u ''/b/x'']"
    using example_discovered by (auto split: prod.splits)
  from discovery_prefers_earlier_sources [OF r(1), of "u ''a''"] r show ?thesis
    by (auto simp: Let_def split: if_splits dest: arg_cong [of _ _ length])
qed

text \<open>
  The directory of references is resolved before paths are compared with it, so a link in its place leads
  out of the skill: here the text of a file below \<open>/home\<close> is returned.
\<close>

lemma linked_references_escape:
  "(case read_reference example_files example_skills (u ''a'') (u ''key'') empty_registry of (r, x) \<Rightarrow> (case x of Inr _ \<Rightarrow> True | _ \<Rightarrow> False))"
  "safe_child example_files [u ''w'', u ''.lightworker'', u ''skills'', u ''x'', u ''references''] (u ''key'') = Inr [u ''home'', u ''key'']"
  by code_simp+

text \<open>A skill whose list of tools cannot be gone through ends the discovery of all skills.\<close>

lemma malformed_tools_end_discovery:
  assumes "read_bounded fs cf p = Inr raw" "match_at FRONTMATTER [] raw = Some m"
    and "sk_yaml fs (group 1 m) = Inr (obj [(''name'', JStr (u ''a'')), (''description'', JStr (u ''b'')), (''allowed_tools'', JInt 5)])"
  shows "\<exists>e. discover_files fs cf ((origin, p) # ps) r = (r, Inl (TypeError e))"
proof -
  have "str_or (JStr (u ''a'')) [] = u ''a''" "str_or (JStr (u ''b'')) [] = u ''b''" "safe_name (u ''a'')" "u ''b'' \<noteq> []"
    by code_simp+
  then show ?thesis using assms
    by (simp add: load_metadata_def Let_def or_else_def obj_def field_def texts_of_def del: u_Cons)
qed

end
