(* ===== verification/Browser.thy ===== *)
theory Browser
  imports Py_Net Repo_Tools Http_Tools
begin

text \<open>
  \<open>browser_tools.py\<close>: one browser session of a run. URLs are checked before a page is opened, and the
  Playwright backend checks every request a page makes; the DrissionPage backend makes them unchecked. The
  browser itself is a parameter: what it does for a command is a tree of the requests it makes on the way
  and its answer, which may depend on whether a request was let through. The requests that were let
  through are recorded with the addresses that were checked for them; the record is not part of the code.
\<close>

subsection \<open>State\<close>

datatype 'w browsing =
    Asks pytext "bool \<Rightarrow> 'w browsing"   \<comment> \<open>a request; the answer says whether it went through\<close>
  | Looks "'w \<Rightarrow> 'w browsing"
  | Acts "'w \<Rightarrow> 'w" "'w browsing"
  | Answers "json result"

datatype command =
    Launch | Goto pytext | PageUrl | Title | ClickFirst pytext | Clear pytext | Fill pytext pytext | TypeKeys pytext pytext
  | SelectOption pytext pytext | Count pytext | Item pytext int | Items pytext int | Shot path bool | ListTabs | Quit

record 'w driver =
  dr_run :: "command \<Rightarrow> 'w browsing"
  dr_resolve :: "pytext \<Rightarrow> nat \<Rightarrow> ('w, pytext list) act"
  dr_nfkc :: "pytext \<Rightarrow> pytext"
  dr_show :: "exn \<Rightarrow> pytext"   \<comment> \<open>\<open>str(exc)\<close>\<close>
  dr_class :: "exn \<Rightarrow> pytext"  \<comment> \<open>\<open>type(exc).__name__\<close>\<close>

record browser_config =
  bc_drission :: bool
  bc_persistent :: bool
  bc_allowed :: "pytext list"
  bc_run :: string
  bc_semaphore :: bool  \<comment> \<open>whether the sessions of the process share a semaphore\<close>

record traffic =
  tr_url :: pytext
  tr_checked :: "pytext list option"  \<comment> \<open>the addresses of the host, where they were checked\<close>

record 'w session =
  se_world :: 'w
  se_traffic :: "traffic list"
  se_open :: bool      \<comment> \<open>\<open>self.backend is not None\<close>\<close>
  se_slot :: bool      \<comment> \<open>\<open>self._slot_acquired\<close>\<close>
  se_closed :: bool
  se_shots :: nat
  se_free :: int       \<comment> \<open>the semaphore's count; below zero, that many sessions wait\<close>

definition on_world :: "('w, 'a) act \<Rightarrow> ('w session, 'a) act" where
  "on_world f s = (case f (se_world s) of (w, r) \<Rightarrow> (s\<lparr>se_world := w\<rparr>, r))"

subsection \<open>Which selectors need an approval\<close>

definition SENSITIVE_ACTION :: re where
  "SENSITIVE_ACTION = alts (lit_ci (u ''submit''))
     (map (\<lambda>w. lit_ci (u w)) [''send'', ''buy'', ''purchase'', ''pay'', ''delete'', ''remove'', ''confirm'', ''publish'',
        ''post'', ''login'']
      @ [RSeq (lit_ci (u ''sign'')) (RSeq (opt (RChar (\<lambda>c. c \<noteq> 10))) (lit_ci (u ''in'')))]
      @ map lit [[25480, 26435], [25552, 20132], [21457, 36865], [36141, 20080], [25903, 20184], [21024, 38500],
          [30830, 35748], [21457, 24067], [30331, 24405]])"

definition sensitive_selector :: "json \<Rightarrow> bool" where
  "sensitive_selector arguments \<longleftrightarrow> search SENSITIVE_ACTION (str_or (field ''selector'' arguments) []) \<noteq> None"

subsection \<open>Checking a URL\<close>

definition check_public :: "pytext \<Rightarrow> unit result" where
  "check_public a = bindE (ip_address a) (\<lambda>i.
     guardE (\<not> is_global i) (ValueError ''private or non-global browser targets are forbidden'') (Inr ()))"

fun check_each :: "pytext list \<Rightarrow> unit result" where
  "check_each [] = Inr ()"
| "check_each (a # as) = bindE (check_public a) (\<lambda>_. check_each as)"

definition public_url :: "(pytext \<Rightarrow> pytext) \<Rightarrow> pytext list \<Rightarrow> pytext \<Rightarrow> (url \<times> nat) result" where
  \<comment> \<open>up to the name resolution: the URL and its port\<close>
  "public_url nfkc allowed t =
     guardE (4096 < int (length t)) (ValueError ''URL is too long'')
     (bindE (urlsplit nfkc t) (\<lambda>x.
        guardE (ul_scheme x \<notin> {u ''http'', u ''https''} \<or> hostname x = []) (ValueError ''only public HTTP(S) URLs are allowed'')
       (guardE (fst (userinfo x) \<noteq> [] \<or> or_empty (snd (userinfo x)) \<noteq> []) (ValueError ''URL credentials are forbidden'')
       (guardE (allowed \<noteq> [] \<and> lower (hostname x) \<notin> set (map lower allowed))
          (ValueText (u ''browser host is not allowed: '' @ lower (hostname x)))
       (bindE (port x) (\<lambda>p. let usual = (if ul_scheme x = u ''https'' then 443 else 80)
          in Inr (x, case p of None \<Rightarrow> usual | Some n \<Rightarrow> if n = 0 then usual else n)))))))"

definition validate_public_url :: "'w driver \<Rightarrow> pytext list \<Rightarrow> pytext \<Rightarrow> ('w, pytext \<times> pytext list) act" where
  \<comment> \<open>the URL to open, with the addresses that were checked\<close>
  "validate_public_url d allowed t =
     bindA (liftA (public_url (dr_nfkc d) allowed t)) (\<lambda>(x, p).
     bindA (dr_resolve d (lower (hostname x)) p) (\<lambda>as.
     bindA (liftA (check_each as)) (\<lambda>_.
       ret (urlunsplit (ul_scheme x) (ul_netloc x) (if ul_path x = [] then [47] else ul_path x) (ul_query x), as))))"

subsection \<open>Requests\<close>

definition local_schemes :: "pytext list" where
  "local_schemes = map u [''data'', ''blob'', ''about'']"

definition record_traffic :: "pytext \<Rightarrow> pytext list option \<Rightarrow> ('w session, unit) act" where
  "record_traffic t checked s = (s\<lparr>se_traffic := se_traffic s @ [\<lparr>tr_url = t, tr_checked = checked\<rparr>]\<rparr>, Inr ())"

fun is_value_error :: "exn \<Rightarrow> bool" where
  "is_value_error (ValueError _) = True"
| "is_value_error (ValueText _) = True"
| "is_value_error _ = False"

definition route :: "'w driver \<Rightarrow> browser_config \<Rightarrow> pytext \<Rightarrow> ('w session, bool) act" where
  \<comment> \<open>\<open>PlaywrightBackend._route\<close>: a request goes on, is aborted, or the handler raises\<close>
  "route d cf t =
     bindA (liftA (urlsplit (dr_nfkc d) t)) (\<lambda>x.
       if ul_scheme x \<in> set local_schemes then seqA (record_traffic t None) (ret True)
       else (\<lambda>s. case on_world (validate_public_url d (bc_allowed cf) t) s of
               (s', Inl e) \<Rightarrow> if is_value_error e then (s', Inr False) else (s', Inl e)
             | (s', Inr (_, as)) \<Rightarrow> seqA (record_traffic t (Some as)) (ret True) s'))"

definition handle :: "'w driver \<Rightarrow> browser_config \<Rightarrow> pytext \<Rightarrow> ('w session, bool) act" where
  \<comment> \<open>a request of the backend: a handler that raises does not let it through, DrissionPage has none\<close>
  "handle d cf t =
     (if bc_drission cf then seqA (record_traffic t None) (ret True)
      else (\<lambda>s. case route d cf t s of (s', Inl e) \<Rightarrow> (s', Inr False) | (s', Inr go) \<Rightarrow> (s', Inr go)))"

primrec browse :: "'w driver \<Rightarrow> browser_config \<Rightarrow> 'w browsing \<Rightarrow> ('w session, json) act" where
  "browse d cf (Asks t k) = bindA (handle d cf t) (\<lambda>go. browse d cf (k go))"
| "browse d cf (Looks f) = (\<lambda>s. browse d cf (f (se_world s)) s)"
| "browse d cf (Acts f b) = (\<lambda>s. browse d cf b (s\<lparr>se_world := f (se_world s)\<rparr>))"
| "browse d cf (Answers r) = liftA r"

definition perform :: "'w driver \<Rightarrow> browser_config \<Rightarrow> command \<Rightarrow> ('w session, json) act" where
  "perform d cf c = browse d cf (dr_run d c)"

subsection \<open>The backends\<close>

datatype operation =
    Open pytext | Click pytext | Type pytext pytext bool | Select pytext pytext | Extract pytext int | Tabs | Screenshot path bool

definition text_of :: "json \<Rightarrow> pytext" where
  "text_of = py_str"

definition launch :: "'w driver \<Rightarrow> browser_config \<Rightarrow> ('w session, json) act" where
  "launch d cf = guardA (bc_persistent cf)
     (RuntimeError ''persistent browser profiles require a later explicit approval workflow'') (perform d cf Launch)"

definition open_checked :: "'w driver \<Rightarrow> browser_config \<Rightarrow> pytext \<Rightarrow> (json \<Rightarrow> pytext \<Rightarrow> json \<Rightarrow> json) \<Rightarrow> ('w session, json) act" where
  \<comment> \<open>the target is checked before, the page's address after it was opened\<close>
  "open_checked d cf t reply =
     bindA (on_world (validate_public_url d (bc_allowed cf) t)) (\<lambda>(target, _).
     bindA (perform d cf (Goto target)) (\<lambda>status.
     bindA (perform d cf PageUrl) (\<lambda>address.
     bindA (on_world (validate_public_url d (bc_allowed cf) (text_of address))) (\<lambda>(final, _).
     bindA (perform d cf Title) (\<lambda>title. ret (reply status final title))))))"

definition open_page :: "'w driver \<Rightarrow> browser_config \<Rightarrow> pytext \<Rightarrow> ('w session, json) act" where
  "open_page d cf t = open_checked d cf t (\<lambda>status final title.
     obj [(''ok'', JBool True), (''url'', JStr final), (''title'', title), (''status'', status)])"

definition drission_open :: "'w driver \<Rightarrow> browser_config \<Rightarrow> pytext \<Rightarrow> ('w session, json) act" where
  "drission_open d cf t = open_checked d cf t (\<lambda>status final title.
     obj [(''ok'', JBool True), (''url'', JStr final), (''title'', title)])"

definition click :: "'w driver \<Rightarrow> browser_config \<Rightarrow> pytext \<Rightarrow> ('w session, json) act" where
  "click d cf selector =
     seqA (perform d cf (ClickFirst selector))
    (bindA (perform d cf PageUrl) (\<lambda>address.
     bindA (perform d cf Title) (\<lambda>title.
       ret (obj [(''ok'', JBool True), (''url'', address), (''title'', title)]))))"

definition typed :: "pytext \<Rightarrow> pytext \<Rightarrow> json" where
  "typed selector t = obj [(''ok'', JBool True), (''selector'', JStr selector), (''characters'', JInt (int (length t)))]"

definition type_text :: "'w driver \<Rightarrow> browser_config \<Rightarrow> pytext \<Rightarrow> pytext \<Rightarrow> bool \<Rightarrow> ('w session, json) act" where
  "type_text d cf selector t clear =
     seqA (if clear then perform d cf (Fill selector t) else perform d cf (TypeKeys selector t)) (ret (typed selector t))"

definition drission_type :: "'w driver \<Rightarrow> browser_config \<Rightarrow> pytext \<Rightarrow> pytext \<Rightarrow> bool \<Rightarrow> ('w session, json) act" where
  "drission_type d cf selector t clear =
     seqA (if clear then perform d cf (Clear selector) else ret JNull)
    (seqA (perform d cf (TypeKeys selector t)) (ret (typed selector t)))"

definition select_value :: "'w driver \<Rightarrow> browser_config \<Rightarrow> pytext \<Rightarrow> pytext \<Rightarrow> ('w session, json) act" where
  "select_value d cf selector v =
     bindA (perform d cf (SelectOption selector v)) (\<lambda>chosen. ret (obj [(''ok'', JBool True), (''selected'', chosen)]))"

definition drission_select :: "'w driver \<Rightarrow> browser_config \<Rightarrow> pytext \<Rightarrow> pytext \<Rightarrow> ('w session, json) act" where
  "drission_select d cf selector v =
     seqA (perform d cf (SelectOption selector v)) (ret (obj [(''ok'', JBool True), (''selected'', JStr v)]))"

definition extract_item :: "json \<Rightarrow> json" where
  \<comment> \<open>of an object with the text and the tag of an element\<close>
  "extract_item v = obj [(''text'', JStr (take 8000 (text_of (field ''text'' v)))), (''tag'', field ''tag'' v)]"

fun extract_items :: "'w driver \<Rightarrow> browser_config \<Rightarrow> pytext \<Rightarrow> nat \<Rightarrow> int \<Rightarrow> ('w session, json list) act" where
  "extract_items d cf selector 0 i = ret []"
| "extract_items d cf selector (Suc n) i =
     bindA (perform d cf (Item selector i)) (\<lambda>v.
     bindA (extract_items d cf selector n (i + 1)) (\<lambda>vs. ret (extract_item v # vs)))"

definition extract_text :: "'w driver \<Rightarrow> browser_config \<Rightarrow> pytext \<Rightarrow> int \<Rightarrow> ('w session, json) act" where
  "extract_text d cf selector limit =
     bindA (perform d cf (Count selector)) (\<lambda>c.
     bindA (liftA (py_int c)) (\<lambda>c.
     bindA (extract_items d cf selector (nat (min c limit)) 0) (\<lambda>vs.
       ret (obj [(''ok'', JBool True), (''selector'', JStr selector), (''count'', JInt (min c limit)), (''items'', JList vs)]))))"

definition drission_extract :: "'w driver \<Rightarrow> browser_config \<Rightarrow> pytext \<Rightarrow> int \<Rightarrow> ('w session, json) act" where
  "drission_extract d cf selector limit =
     bindA (perform d cf (Items selector limit)) (\<lambda>v.
       let vs = map extract_item (items v)
       in ret (obj [(''ok'', JBool True), (''selector'', JStr selector), (''count'', JInt (int (length vs))), (''items'', JList vs)]))"

definition screenshot :: "'w driver \<Rightarrow> browser_config \<Rightarrow> path \<Rightarrow> bool \<Rightarrow> ('w session, json) act" where
  "screenshot d cf p full =
     seqA (perform d cf (Shot p full))
    (bindA (perform d cf PageUrl) (\<lambda>address.
       ret (obj [(''ok'', JBool True), (''path'', JStr (path_text p)), (''url'', address)])))"

definition tab_json :: "nat \<times> json \<Rightarrow> json" where
  "tab_json = (\<lambda>(i, v). obj [(''index'', JInt (int i)), (''url'', field ''url'' v), (''title'', field ''title'' v)])"

definition tabs :: "'w driver \<Rightarrow> browser_config \<Rightarrow> ('w session, json) act" where
  "tabs d cf =
     bindA (perform d cf ListTabs) (\<lambda>v.
       ret (obj [(''ok'', JBool True), (''tabs'', JList (map tab_json (List.enumerate 0 (items v))))]))"

fun operate :: "'w driver \<Rightarrow> browser_config \<Rightarrow> operation \<Rightarrow> ('w session, json) act" where
  "operate d cf (Open t) = (if bc_drission cf then drission_open d cf t else open_page d cf t)"
| "operate d cf (Click q) = click d cf q"
| "operate d cf (Type q t clear) = (if bc_drission cf then drission_type d cf q t clear else type_text d cf q t clear)"
| "operate d cf (Select q v) = (if bc_drission cf then drission_select d cf q v else select_value d cf q v)"
| "operate d cf (Extract q n) = (if bc_drission cf then drission_extract d cf q n else extract_text d cf q n)"
| "operate d cf Tabs = tabs d cf"
| "operate d cf (Screenshot p full) = screenshot d cf p full"

subsection \<open>The session\<close>

definition take_slot :: "browser_config \<Rightarrow> 'w session \<Rightarrow> 'w session" where
  "take_slot cf s = (if bc_semaphore cf then s\<lparr>se_free := se_free s - 1, se_slot := True\<rparr> else s)"

definition give_slot :: "browser_config \<Rightarrow> 'w session \<Rightarrow> 'w session" where
  "give_slot cf s = (if se_slot s \<and> bc_semaphore cf then s\<lparr>se_free := se_free s + 1, se_slot := False\<rparr> else s)"

definition ensure_backend :: "'w driver \<Rightarrow> browser_config \<Rightarrow> ('w session, unit) act" where
  \<comment> \<open>\<open>_backend\<close>\<close>
  "ensure_backend d cf s =
     (if se_open s then (s, Inr ())
      else case launch d cf (take_slot cf s) of
             (s', Inl e) \<Rightarrow> (give_slot cf s', Inl e)
           | (s', Inr _) \<Rightarrow> (s'\<lparr>se_open := True\<rparr>, Inr ()))"

definition close_backend :: "'w driver \<Rightarrow> browser_config \<Rightarrow> ('w session, unit) act" where
  "close_backend d cf s =
     (if se_open s
      then finallyA (seqA (perform d cf Quit) (ret ())) (\<lambda>s. (give_slot cf (s\<lparr>se_open := False\<rparr>), Inr ())) s
      else (s, Inr ()))"

definition close_session :: "'w driver \<Rightarrow> browser_config \<Rightarrow> ('w session, unit) act" where
  "close_session d cf s =
     (if se_closed s then (s, Inr ()) else close_backend d cf (s\<lparr>se_closed := True\<rparr>))"

definition browser_error :: "'w driver \<Rightarrow> exn \<Rightarrow> json" where
  "browser_error d e = obj [(''ok'', JBool False), (''error'', JStr (dr_show d e)), (''error_type'', JStr (dr_class d e))]"

definition browser_result :: "'w driver \<Rightarrow> browser_config \<Rightarrow> operation \<Rightarrow> ('w session, json) act" where
  \<comment> \<open>\<open>_result\<close> with \<open>_call_backend\<close>\<close>
  "browser_result d cf op s =
     (case (if se_closed s then (s, Inl (RuntimeError ''browser session is closed''))
            else seqA (ensure_backend d cf) (operate d cf op) s) of
        (s', Inl e) \<Rightarrow> (s', Inr (browser_error d e))
      | (s', Inr v) \<Rightarrow> (s', Inr v))"

definition browser_screenshot :: "'w driver \<Rightarrow> browser_config \<Rightarrow> bool \<Rightarrow> ('w session, json) act" where
  "browser_screenshot d cf full s =
     (let s = s\<lparr>se_shots := se_shots s + 1\<rparr>;
          relative = u ''browser/screenshot-'' @ nat_repr (se_shots s) @ u ''.png''
      in bindA (liftA (artifact_path (bc_run cf) relative)) (\<lambda>p.
         bindA (browser_result d cf (Screenshot p full)) (\<lambda>v.
           ret (if truthy (field ''ok'' v) then with_field ''path'' (JStr relative) (with_field ''artifact'' (JStr relative) v)
                else v))) s)"

datatype tool_call =
    BrowserOpen pytext | BrowserClick pytext | BrowserType pytext pytext bool | BrowserSelect pytext pytext
  | BrowserExtract pytext int | BrowserTabs | BrowserScreenshot bool | CloseSession

fun browser_call :: "'w driver \<Rightarrow> browser_config \<Rightarrow> tool_call \<Rightarrow> ('w session, json) act" where
  "browser_call d cf (BrowserOpen t) = browser_result d cf (Open t)"
| "browser_call d cf (BrowserClick q) = browser_result d cf (Click q)"
| "browser_call d cf (BrowserType q t clear) = browser_result d cf (Type q t clear)"
| "browser_call d cf (BrowserSelect q v) = browser_result d cf (Select q v)"
| "browser_call d cf (BrowserExtract q n) = browser_result d cf (Extract q (max 1 (min n 100)))"
| "browser_call d cf BrowserTabs = browser_result d cf Tabs"
| "browser_call d cf (BrowserScreenshot full) = browser_screenshot d cf full"
| "browser_call d cf CloseSession = seqA (close_session d cf) (ret JNull)"

definition browser_calls :: "'w driver \<Rightarrow> browser_config \<Rightarrow> tool_call list \<Rightarrow> 'w session \<Rightarrow> 'w session" where
  "browser_calls d cf cs s = fold (\<lambda>c s. fst (browser_call d cf c s)) cs s"

subsection \<open>What a page may request\<close>

definition proper_traffic :: "'w driver \<Rightarrow> browser_config \<Rightarrow> traffic \<Rightarrow> bool" where
  "proper_traffic d cf t \<longleftrightarrow> (\<exists>x. urlsplit (dr_nfkc d) (tr_url t) = Inr x
     \<and> (ul_scheme x \<in> set local_schemes
        \<or> ul_scheme x \<in> {u ''http'', u ''https''} \<and> hostname x \<noteq> []
          \<and> fst (userinfo x) = [] \<and> or_empty (snd (userinfo x)) = []
          \<and> (bc_allowed cf = [] \<or> lower (hostname x) \<in> set (map lower (bc_allowed cf)))
          \<and> (\<exists>as. tr_checked t = Some as \<and> list_all global_address as)))"

definition holds_slot :: "browser_config \<Rightarrow> int \<Rightarrow> 'w session \<Rightarrow> bool" where
  \<comment> \<open>one slot while the browser is open, none otherwise\<close>
  "holds_slot cf n s \<longleftrightarrow> se_slot s = (se_open s \<and> bc_semaphore cf) \<and> se_free s = n - (if se_slot s then 1 else 0)
     \<and> (se_closed s \<longrightarrow> \<not> se_open s)"

subsection \<open>What operations leave alone\<close>

definition steady :: "'w driver \<Rightarrow> browser_config \<Rightarrow> ('w session \<Rightarrow> bool) \<Rightarrow> bool" where
  \<comment> \<open>kept by the world's changes and by the requests of a page\<close>
  "steady d cf P \<longleftrightarrow> (\<forall>s w. P s \<longrightarrow> P (s\<lparr>se_world := w\<rparr>)) \<and> (\<forall>t. keeps P (handle d cf t))"

lemma keeps_on_world [keeps_intros]: "steady d cf P \<Longrightarrow> keeps P (on_world f)"
  by (auto simp: steady_def keeps_def on_world_def split: prod.splits)

lemma keeps_browse: "steady d cf P \<Longrightarrow> keeps P (browse d cf b)"
proof (induction b)
  case (Asks t k)
  then have "keeps P (handle d cf t)" by (simp add: steady_def)
  then show ?case using Asks by (auto intro!: keeps_intros)
next
  case (Looks f)
  then show ?case by (auto simp: keeps_def)
next
  case (Acts f b)
  then show ?case by (auto simp: keeps_def steady_def)
qed (simp add: keeps_liftA)

lemma keeps_perform [keeps_intros]: "steady d cf P \<Longrightarrow> keeps P (perform d cf c)"
  unfolding perform_def by (rule keeps_browse)

lemma keeps_extract_items [keeps_intros]: "steady d cf P \<Longrightarrow> keeps P (extract_items d cf q n i)"
  by (induction n arbitrary: i) (auto intro!: keeps_intros)

lemma keeps_launch [keeps_intros]: "steady d cf P \<Longrightarrow> keeps P (launch d cf)"
  unfolding launch_def by (intro keeps_intros)

lemma keeps_operate [keeps_intros]:
  assumes "steady d cf P"
  shows "keeps P (operate d cf op)"
  using assms
  by (cases op) (auto intro!: keeps_intros simp: open_page_def drission_open_def open_checked_def drission_type_def drission_select_def drission_extract_def click_def type_text_def select_value_def extract_text_def
      screenshot_def tabs_def Let_def split: prod.splits)

subsection \<open>Traffic\<close>

lemma check_each_global: "check_each as = Inr () \<Longrightarrow> list_all global_address as"
  by (induction as) (auto simp: check_public_def global_address_def bind_simps split: sum.splits)

lemma validate_proper:
  assumes "validate_public_url d (bc_allowed cf) t w = (w', Inr (v, as))"
  shows "proper_traffic d cf \<lparr>tr_url = t, tr_checked = Some as\<rparr>"
proof -
  obtain x p where x: "public_url (dr_nfkc d) (bc_allowed cf) t = Inr (x, p)" "check_each as = Inr ()"
    using assms by (auto simp: validate_public_url_def bindA_def liftA_def ret_def split: prod.splits sum.splits)
  then show ?thesis
    using check_each_global by (fastforce simp: proper_traffic_def public_url_def Let_def bind_simps)
qed

definition all_proper :: "'w driver \<Rightarrow> browser_config \<Rightarrow> 'w session \<Rightarrow> bool" where
  "all_proper d cf s \<longleftrightarrow> list_all (proper_traffic d cf) (se_traffic s)"

lemma keeps_record: "proper_traffic d cf \<lparr>tr_url = t, tr_checked = c\<rparr> \<Longrightarrow> keeps (all_proper d cf) (seqA (record_traffic t c) (ret x))"
  by (auto simp: keeps_def all_proper_def record_traffic_def seqA_def bindA_def ret_def)

lemma keeps_route: "keeps (all_proper d cf) (route d cf t)"
proof -
  have local: "keeps (all_proper d cf) (seqA (record_traffic t None) (ret True))"
    if "urlsplit (dr_nfkc d) t = Inr x" "ul_scheme x \<in> set local_schemes" for x
    by (rule keeps_record) (use that in \<open>auto simp: proper_traffic_def\<close>)
  have checked: "all_proper d cf (fst (case on_world (validate_public_url d (bc_allowed cf) t) s of
               (s', Inl e) \<Rightarrow> if is_value_error e then (s', Inr False) else (s', Inl e)
             | (s', Inr (_, as)) \<Rightarrow> seqA (record_traffic t (Some as)) (ret True) s'))" if "all_proper d cf s" for s
  proof -
    obtain w r where v: "validate_public_url d (bc_allowed cf) t (se_world s) = (w, r)" by force
    have s': "all_proper d cf (s\<lparr>se_world := w\<rparr>)" using that by (simp add: all_proper_def)
    show ?thesis
    proof (cases r)
      case (Inl e)
      then show ?thesis using v s' by (simp add: on_world_def)
    next
      case (Inr x)
      then obtain target as where x: "r = Inr (target, as)" by (cases x) simp
      show ?thesis
        using keeps_record [OF validate_proper [OF v [unfolded x]], of "True"] s' v x by (simp add: on_world_def keeps_def)
    qed
  qed
  show ?thesis
    unfolding route_def keeps_def bindA_def liftA_def
    using checked local by (auto simp: keeps_def split: sum.splits)
qed

lemma steady_proper: "\<not> bc_drission cf \<Longrightarrow> steady d cf (all_proper d cf)"
proof -
  assume "\<not> bc_drission cf"
  then have "keeps (all_proper d cf) (handle d cf t)" for t
    using keeps_route [of d cf t] by (auto simp: handle_def keeps_def split: prod.splits sum.splits) 
  then show ?thesis by (simp add: steady_def all_proper_def)
qed

lemma keeps_fst: "keeps P m \<Longrightarrow> P s \<Longrightarrow> P (fst (m s))"
  by (simp add: keeps_def)

lemma browser_traffic:
  assumes "\<not> bc_drission cf" "all_proper d cf s"
  shows "all_proper d cf (fst (browser_call d cf c s))"
proof -
  note st = steady_proper [OF assms(1), of d]
  have slots: "all_proper d cf (take_slot cf x) = all_proper d cf x" "all_proper d cf (give_slot cf x) = all_proper d cf x" for x
    by (simp_all add: all_proper_def take_slot_def give_slot_def)
  have others: "all_proper d cf (x\<lparr>se_open := b\<rparr>) = all_proper d cf x" "all_proper d cf (x\<lparr>se_closed := b\<rparr>) = all_proper d cf x"
    "all_proper d cf (x\<lparr>se_shots := k\<rparr>) = all_proper d cf x" for x b k
    by (simp_all add: all_proper_def)
  have ensure: "keeps (all_proper d cf) (ensure_backend d cf)"
    unfolding keeps_def ensure_backend_def
    using keeps_fst [OF keeps_launch [OF st]] by (auto simp: slots others case_prod_beta split: sum.splits)
  have result: "keeps (all_proper d cf) (browser_result d cf op)" for op
  proof -
    have "keeps (all_proper d cf) (seqA (ensure_backend d cf) (operate d cf op))"
      using ensure keeps_operate [OF st] by (rule keeps_seqA)
    from keepsD [OF this] show ?thesis by (auto simp: keeps_def browser_result_def split: prod.splits sum.splits)
  qed
  have quit: "keeps (all_proper d cf) (close_backend d cf)"
  proof -
    have "keeps (all_proper d cf) (finallyA (seqA (perform d cf Quit) (ret ())) (\<lambda>s. (give_slot cf (s\<lparr>se_open := False\<rparr>), Inr ())))"
      by (intro keeps_intros keeps_perform [OF st]) (simp add: keeps_def slots others)
    from keeps_fst [OF this] show ?thesis by (simp add: keeps_def close_backend_def)
  qed
  have shot: "all_proper d cf (fst (browser_screenshot d cf full s))" for full
  proof -
    have "keeps (all_proper d cf) (bindA (liftA (artifact_path (bc_run cf) r)) (\<lambda>p. bindA (browser_result d cf (Screenshot p full)) (\<lambda>v. ret (f v))))" for r f
      by (intro keeps_intros result)
    then show ?thesis unfolding browser_screenshot_def Let_def
      by (rule keeps_fst) (use assms(2) in \<open>simp add: others\<close>)
  qed
  have close: "keeps (all_proper d cf) (seqA (close_session d cf) (ret JNull))"
    by (intro keeps_intros) (use keeps_fst [OF quit] in \<open>simp add: keeps_def close_session_def others\<close>)
  show ?thesis using assms(2) keeps_fst [OF result] keeps_fst [OF close] shot by (cases c) simp_all
qed

subsection \<open>The slot\<close>

lemma steady_frame: "steady d cf (\<lambda>s. F (se_open s) (se_slot s) (se_closed s) (se_free s))"
proof -
  have rec: "keeps (\<lambda>s. F (se_open s) (se_slot s) (se_closed s) (se_free s)) (record_traffic t c)" for t c
    by (simp add: keeps_def record_traffic_def)
  have world: "keeps (\<lambda>s. F (se_open s) (se_slot s) (se_closed s) (se_free s)) (on_world f)" for f
    by (simp add: keeps_def on_world_def split: prod.splits)
  have "keeps (\<lambda>s. F (se_open s) (se_slot s) (se_closed s) (se_free s)) (route d cf t)" for t
    unfolding route_def
    by (intro keeps_intros rec) (use keeps_fst [OF keeps_seqA [OF rec keeps_ret]] keepsD [OF world] in
        \<open>fastforce simp: keeps_def split: prod.splits sum.splits\<close>)
  then have "keeps (\<lambda>s. F (se_open s) (se_slot s) (se_closed s) (se_free s)) (handle d cf t)" for t
    using keeps_fst [OF keeps_seqA [OF rec keeps_ret]]
    by (auto simp: handle_def keeps_def case_prod_beta split: sum.splits)
  then show ?thesis by (simp add: steady_def)
qed

lemma slot_ensure:
  assumes "holds_slot cf n s" "\<not> se_closed s"
  shows "holds_slot cf n (fst (ensure_backend d cf s)) \<and> \<not> se_closed (fst (ensure_backend d cf s))
     \<and> (snd (ensure_backend d cf s) = Inr () \<longrightarrow> se_open (fst (ensure_backend d cf s)))"
proof (cases "se_open s")
  case False
  define F where "F = (\<lambda>op slot cl free. \<not> op \<and> slot = bc_semaphore cf \<and> \<not> cl \<and> free = n - (if slot then 1 else 0))"
  have st: "steady d cf (\<lambda>s. F (se_open s) (se_slot s) (se_closed s) (se_free s))" by (rule steady_frame)
  have "F (se_open (take_slot cf s)) (se_slot (take_slot cf s)) (se_closed (take_slot cf s)) (se_free (take_slot cf s))"
    using assms False by (auto simp: F_def take_slot_def holds_slot_def)
  from keeps_fst [OF keeps_launch [OF st], OF this] False show ?thesis
    by (auto simp: ensure_backend_def F_def give_slot_def holds_slot_def case_prod_beta split: sum.splits)
qed (use assms in \<open>simp add: ensure_backend_def\<close>)

lemma slot_operate: "holds_slot cf n s \<Longrightarrow> holds_slot cf n (fst (operate d cf op s))"
proof -
  have "steady d cf (holds_slot cf n)"
    using steady_frame [of d cf "\<lambda>op slot cl free. slot = (op \<and> bc_semaphore cf) \<and> free = n - (if slot then 1 else 0) \<and> (cl \<longrightarrow> \<not> op)"]
    unfolding holds_slot_def .
  then show "holds_slot cf n s \<Longrightarrow> ?thesis" by (rule keeps_fst [OF keeps_operate])
qed

lemma slot_result: "holds_slot cf n s \<Longrightarrow> holds_slot cf n (fst (browser_result d cf op s))"
  using slot_ensure [of cf n s d] slot_operate [of cf n _ d op]
  by (auto simp: browser_result_def seqA_def bindA_def case_prod_beta split: sum.splits)

lemma slot_close_backend:
  assumes "holds_slot cf n (s\<lparr>se_closed := False\<rparr>)"
  shows "holds_slot cf n (fst (close_backend d cf s)) \<and> \<not> se_open (fst (close_backend d cf s))
     \<and> se_closed (fst (close_backend d cf s)) = se_closed s"
proof (cases "se_open s")
  case True
  define F where "F = (\<lambda>op slot cl free. op \<and> slot = bc_semaphore cf \<and> cl = se_closed s \<and> free = n - (if slot then 1 else 0))"
  have st: "steady d cf (\<lambda>s. F (se_open s) (se_slot s) (se_closed s) (se_free s))" by (rule steady_frame)
  have k: "keeps (\<lambda>s. F (se_open s) (se_slot s) (se_closed s) (se_free s)) (seqA (perform d cf Quit) (ret ()))"
    by (intro keeps_intros keeps_perform [OF st])
  have "F (se_open s) (se_slot s) (se_closed s) (se_free s)" using assms True by (auto simp: F_def holds_slot_def)
  from keeps_fst [OF k, OF this] True show ?thesis
    by (auto simp: close_backend_def finallyA_def give_slot_def holds_slot_def F_def case_prod_beta)
qed (use assms in \<open>simp add: close_backend_def holds_slot_def\<close>)

lemma slot_close:
  "holds_slot cf n s \<Longrightarrow> holds_slot cf n (fst (close_session d cf s)) \<and> se_closed (fst (close_session d cf s))"
  using slot_close_backend [of cf n "s\<lparr>se_closed := True\<rparr>" d] by (auto simp: close_session_def holds_slot_def)

lemma browser_slot: "holds_slot cf n s \<Longrightarrow> holds_slot cf n (fst (browser_call d cf c s))"
proof (induction c)
  case (BrowserScreenshot full)
  then have "holds_slot cf n (s\<lparr>se_shots := k\<rparr>)" for k by (simp add: holds_slot_def)
  then show ?case
    using slot_result [of cf n _ d]
    by (auto simp: browser_screenshot_def Let_def bindA_def liftA_def ret_def case_prod_beta split: sum.splits)
next
  case CloseSession
  then show ?case using slot_close [of cf n s d] by (auto simp: seqA_def bindA_def ret_def case_prod_beta split: sum.splits)
qed (simp_all add: slot_result)

subsection \<open>Properties\<close>


text \<open>
  C21. A browser session holds a slot of the shared semaphore exactly while its browser is open, whatever
  fails in starting, using or quitting it; once the session was closed the slot is back, and stays back.
\<close>

theorem browser_slot_is_returned:
  assumes "holds_slot cf n s"
  shows "let s' = browser_calls d cf cs s in holds_slot cf n s'
     \<and> (let t = browser_calls d cf ds (fst (browser_call d cf CloseSession s')) in \<not> se_open t \<and> se_free t = n)"
proof -
  have inv: "holds_slot cf n (browser_calls d cf xs x)" if "holds_slot cf n x" for xs x
    using that by (induction xs arbitrary: x) (auto simp: browser_calls_def intro: browser_slot)
  have closed: "se_closed (fst (browser_call d cf c x))" if "holds_slot cf n x" "se_closed x" for c x
    using that
    by (cases c) (auto simp: browser_result_def browser_screenshot_def close_session_def seqA_def bindA_def liftA_def ret_def Let_def
        case_prod_beta split: sum.splits)
  have stay: "se_closed (browser_calls d cf xs x)" if "holds_slot cf n x" "se_closed x" for xs x
    using that closed by (induction xs arbitrary: x) (auto simp: browser_calls_def intro: browser_slot)
  have "se_closed (fst (browser_call d cf CloseSession x))" if "holds_slot cf n x" for x
    using slot_close [OF that, of d] by (auto simp: seqA_def bindA_def ret_def case_prod_beta split: sum.splits)
  then have "holds_slot cf n t \<and> se_closed t" if "t = browser_calls d cf ds (fst (browser_call d cf CloseSession (browser_calls d cf cs s)))" for t
    using inv stay browser_slot assms that by blast
  then show ?thesis using inv [OF assms] by (auto simp: Let_def holds_slot_def)
qed

subsection \<open>Witnesses\<close>

definition example_driver :: "unit driver" where
  \<comment> \<open>a page that asks for an address of the private network\<close>
  "example_driver = \<lparr>
     dr_run = (\<lambda>c. case c of
         Goto t \<Rightarrow> Asks t (\<lambda>_. Asks (u ''http://10.0.0.1/x'') (\<lambda>_. Answers (Inr (JInt 200))))
       | PageUrl \<Rightarrow> Answers (Inr (JStr (u ''https://a.org/''))) | _ \<Rightarrow> Answers (Inr JNull)),
     dr_resolve = (\<lambda>h p. ret (if h = u ''a.org'' then [u ''8.8.8.8''] else [h])),
     dr_nfkc = (\<lambda>t. t), dr_show = (\<lambda>e. []), dr_class = (\<lambda>e. [])\<rparr>"

definition example_browser :: "bool \<Rightarrow> browser_config" where
  "example_browser drission = \<lparr>bc_drission = drission, bc_persistent = False, bc_allowed = [], bc_run = ''r1'', bc_semaphore = True\<rparr>"

definition example_session :: "unit session" where
  "example_session = \<lparr>se_world = (), se_traffic = [], se_open = False, se_slot = False, se_closed = False, se_shots = 0, se_free = 2\<rparr>"

lemma example_visit:
  "map tr_url (se_traffic (browser_calls example_driver (example_browser False) [BrowserOpen (u ''https://a.org'')] example_session))
     = [u ''https://a.org/'']"
  "se_free (browser_calls example_driver (example_browser False) [BrowserOpen (u ''https://a.org'')] example_session) = 1"
  by code_simp+

text \<open>The DrissionPage backend lets the page reach the private address.\<close>

lemma drission_requests_unchecked:
  "map tr_url (se_traffic (browser_calls example_driver (example_browser True) [BrowserOpen (u ''https://a.org'')] example_session))
     = [u ''https://a.org/'', u ''http://10.0.0.1/x'']"
  by code_simp


lemma browser_slot_is_returned_witness:
  "let s = browser_calls example_driver (example_browser False) [BrowserOpen (u ''https://a.org'')] example_session
   in se_free s = 1 \<and> se_free (fst (browser_call example_driver (example_browser False) CloseSession s)) = 2"
proof -
  have "holds_slot (example_browser False) 2 example_session"
    by (simp add: holds_slot_def example_session_def example_browser_def)
  from browser_slot_is_returned [OF this, of example_driver "[BrowserOpen (u ''https://a.org'')]" "[]"] example_visit(2)
  show ?thesis by (simp add: Let_def browser_calls_def)
qed

end
