(* ===== verification/Providers.thy ===== *)
theory Providers
  imports Tool_Protocol Repo_Tools "HOL-Library.Product_Lexorder" "HOL-Library.Multiset"
begin

text \<open>
  \<open>providers.py\<close>: the guarded tools of a run grouped into capability providers, the risk each capability is
  registered with, the search that activates tools, and the tools a model request may offer. LightAgent's
  registry asks the policies and hands the call to the provider of the tool's category; its errors are
  parameters.
\<close>

subsection \<open>Tools and capabilities\<close>

record tool_declaration = tool_metadata +
  dc_concurrent :: bool
  dc_sandbox :: bool
  dc_timeout :: nat

record 'w ptool =
  pt_name :: pytext
  pt_description :: pytext
  pt_params :: json
  pt_meta :: tool_declaration
  pt_guarded :: bool
  pt_run :: "json \<Rightarrow> ('w, json) act"

datatype risk = ReadOnly | IsolatedWrite | Sensitive | Destructive

record capability =
  cb_name :: pytext
  cb_description :: pytext
  cb_risk :: risk
  cb_read :: bool
  cb_write :: bool
  cb_network :: bool
  cb_execute :: bool
  cb_sandbox :: bool
  cb_approval :: bool
  cb_policy :: apolicy
  cb_timeout :: nat

record 'w provider =
  pv_functions :: "(pytext, 'w ptool) dict"
  pv_specs :: "capability list"
  pv_calls :: nat
  pv_failures :: nat
  pv_last_error :: "pytext option"

definition requires_docker :: "tool_declaration \<Rightarrow> bool" where
  "requires_docker m \<longleftrightarrow> dc_sandbox m \<and> \<not> (tm_category m = ''workspace'' \<and> tm_read_only m)"

definition risk_of :: "tool_declaration \<Rightarrow> risk" where
  "risk_of m = (if tm_destructive m then Destructive
     else if tm_external m \<or> (dc_sandbox m \<and> \<not> tm_read_only m) then Sensitive
     else if tm_write m then IsolatedWrite else ReadOnly)"

definition capability_of :: "'w ptool \<Rightarrow> capability" where
  "capability_of t = (let m = pt_meta t in
     \<lparr>cb_name = pt_name t, cb_description = pt_description t, cb_risk = risk_of m, cb_read = tm_read_only m,
      cb_write = tm_write m, cb_network = tm_network m, cb_execute = requires_docker m, cb_sandbox = requires_docker m,
      cb_approval = False, cb_policy = tm_policy m, cb_timeout = dc_timeout m\<rparr>)"

definition make_provider :: "'w ptool list \<Rightarrow> 'w provider" where
  "make_provider ts = \<lparr>pv_functions = foldl (\<lambda>d t. dput (pt_name t) t d) [] ts, pv_specs = map capability_of ts,
     pv_calls = 0, pv_failures = 0, pv_last_error = None\<rparr>"

subsection \<open>Composition\<close>

record 'w composition =
  co_world :: 'w
  co_sandbox :: bool  \<comment> \<open>whether the Docker sandbox is available\<close>
  co_providers :: "(string, 'w provider) dict"
  co_tools :: "(pytext, 'w ptool) dict"
  co_loaded :: "pytext list"
  co_events :: "pytext list list"  \<comment> \<open>the \<open>capability.activated\<close> events\<close>

record library =
  li_blocked :: "pytext \<Rightarrow> exn"  \<comment> \<open>raised for a policy's refusal with this reason\<close>
  li_unknown :: "pytext \<Rightarrow> exn"
  li_class :: "exn \<Rightarrow> pytext"

definition group_tools :: "'w ptool list \<Rightarrow> (string, 'w ptool list) dict result" where
  "group_tools ts = foldl (\<lambda>r t. bindE r (\<lambda>d.
       guardE (\<not> pt_guarded t) (ValueError ''providers accept only policy-guarded tools'')
         (let c = tm_category (pt_meta t); known = (case dget d c of None \<Rightarrow> [] | Some xs \<Rightarrow> xs)
          in Inr (dput c (known @ [t]) d)))) (Inr []) ts"

definition compose :: "'w ptool list \<Rightarrow> ('w composition, unit) act" where
  "compose ts c =
     (case group_tools ts of
        Inl e \<Rightarrow> (c, Inl e)
      | Inr grouped \<Rightarrow> (c\<lparr>co_providers := co_providers c @ map (\<lambda>(n, xs). (n, make_provider xs)) grouped,
            co_tools := foldl (\<lambda>d t. dput (pt_name t) t d) (co_tools c) ts\<rparr>, Inr ()))"

definition sandbox_policy :: "bool \<Rightarrow> capability \<Rightarrow> pytext option" where
  \<comment> \<open>the reason of a refusal\<close>
  "sandbox_policy available cb = (if cb_sandbox cb \<and> \<not> available then Some (u ''Docker sandbox is unavailable'') else None)"

definition provider_invoke :: "library \<Rightarrow> string \<Rightarrow> 'w ptool \<Rightarrow> json \<Rightarrow> ('w composition, json) act" where
  "provider_invoke li cat t args c =
     (let note = (\<lambda>f c. c\<lparr>co_providers := map (\<lambda>(n, p). (n, if n = cat then f p else p)) (co_providers c)\<rparr>);
          c = note (\<lambda>p. p\<lparr>pv_calls := pv_calls p + 1\<rparr>) c
      in case pt_run t args (co_world c) of
           (w, Inr v) \<Rightarrow> (c\<lparr>co_world := w\<rparr>, Inr v)
         | (w, Inl e) \<Rightarrow> (note (\<lambda>p. p\<lparr>pv_failures := pv_failures p + 1, pv_last_error := Some (li_class li e)\<rparr>)
                            (c\<lparr>co_world := w\<rparr>), Inl e))"

definition call_tool :: "library \<Rightarrow> pytext \<Rightarrow> json \<Rightarrow> ('w composition, json) act" where
  \<comment> \<open>a proxy: \<open>registry.invoke\<close>\<close>
  "call_tool li name args c =
     (case dget (co_tools c) name of
        None \<Rightarrow> (c, Inl (li_unknown li name))
      | Some t \<Rightarrow> (case sandbox_policy (co_sandbox c) (capability_of t) of
            Some reason \<Rightarrow> (c, Inl (li_blocked li reason))
          | None \<Rightarrow> provider_invoke li (tm_category (pt_meta t)) t args c))"

subsection \<open>Searching for tools\<close>

definition SYNONYMS :: "(pytext \<times> string) list" where
  "SYNONYMS = [([32593, 39029], ''browser web''), ([27983, 35272, 22120], ''browser''), ([25628, 32034], ''search''),
     ([25991, 20214], ''file''), ([20195, 30721], ''shell patch lsp code''), ([35760, 24518], ''memory''),
     ([37329, 34701], ''web http browser rag''), ([23376, 20195, 29702], ''agent''), ([36164, 26009], ''rag''),
     ([32456, 31471], ''terminal''), ([35745, 21010], ''goal workflow'')]"

definition search_tokens :: "pytext \<Rightarrow> pytext list" where
  "search_tokens q =
     split_ws (map (\<lambda>c. if c = slash then 32 else c) (lower q))
     @ concat (map (\<lambda>(w, expanded). if contains w q then split_ws (u expanded) else []) SYNONYMS)"

definition score :: "pytext list \<Rightarrow> pytext \<Rightarrow> nat" where
  "score tokens t = length (filter (\<lambda>token. contains token t) tokens)"

definition best_first :: "nat \<times> pytext \<times> 'w ptool \<Rightarrow> int \<times> pytext" where
  "best_first x = (- int (fst x), fst (snd x))"

definition scored_tools :: "pytext list \<Rightarrow> (pytext, 'w ptool) dict \<Rightarrow> (nat \<times> pytext \<times> 'w ptool) list" where
  "scored_tools tokens tools =
     filter (\<lambda>x. fst x \<noteq> 0) (map (\<lambda>(n, t). (score tokens (lower (n @ u '' '' @ pt_description t @ u '' '' @ u (tm_category (pt_meta t)))), n, t)) tools)"

definition select_tools :: "pytext \<Rightarrow> int \<Rightarrow> (pytext, 'w ptool) dict \<Rightarrow> (nat \<times> pytext \<times> 'w ptool) list" where
  "select_tools q limit tools =
     take (nat (max 1 (min limit 20))) (sort_key best_first (scored_tools (search_tokens q) tools))"

definition tool_search :: "pytext \<Rightarrow> int \<Rightarrow> ('w composition, json) act" where
  "tool_search q limit c =
     (let selected = select_tools q limit (co_tools c); names = map (\<lambda>x. fst (snd x)) selected
      in (c\<lparr>co_loaded := co_loaded c @ names, co_events := co_events c @ [names]\<rparr>,
          Inr (JList (map (\<lambda>x. obj [(''name'', JStr (fst (snd x))), (''description'', JStr (pt_description (snd (snd x)))),
             (''parameters'', pt_params (snd (snd x)))]) selected))))"

subsection \<open>Presentation\<close>

definition ESSENTIALS :: "pytext list" where
  "ESSENTIALS = map u [''tool_search'', ''goal_get'', ''goal_add_subgoal'', ''goal_update_subgoal'', ''web_search'',
     ''http_get'', ''list_files'', ''read_file'', ''search_text'', ''git_status'', ''git_diff'', ''apply_patch'',
     ''delegate_task'', ''delegate_tasks'']"

definition presentation_hook :: "('w composition, unit) act" where
  \<comment> \<open>making the hook loads the essential tools\<close>
  "presentation_hook c = (c\<lparr>co_loaded := co_loaded c @ ESSENTIALS\<rparr>, Inr ())"

definition offered_name :: "json \<Rightarrow> json" where
  "offered_name s = field ''name'' (or_else (field ''function'' s) (JObj []))"

definition present :: "bool \<Rightarrow> pytext list \<Rightarrow> string \<Rightarrow> json \<Rightarrow> json option" where
  \<comment> \<open>the parameters that replace those of a model request\<close>
  "present enabled loaded phase params =
     (if \<not> enabled \<or> phase \<noteq> ''before_model_request'' then None
      else let tools = filter (\<lambda>s. case offered_name s of JStr n \<Rightarrow> n \<in> set loaded | _ \<Rightarrow> False)
                  (items (field ''tools'' params))
           in Some (if tools = [] then without_field ''tool_choice'' (without_field ''tools'' params)
                    else with_field ''tools'' (JList tools) params))"

definition health :: "'w provider \<Rightarrow> bool \<Rightarrow> json" where
  "health p started = obj [(''healthy'', JBool started), (''status'', JStr (if started then u ''ready'' else u ''stopped'')),
     (''metadata'', obj [(''tools'', JList (map JStr (dkeys (pv_functions p)))), (''calls'', JInt (int (pv_calls p))),
        (''failures'', JInt (int (pv_failures p))),
        (''last_error_type'', case pv_last_error p of None \<Rightarrow> JNull | Some x \<Rightarrow> JStr x)])]"

subsection \<open>What is offered\<close>

datatype 'w step = Search pytext int | Hook | Use pytext json

fun provider_step :: "library \<Rightarrow> 'w step \<Rightarrow> 'w composition \<Rightarrow> 'w composition" where
  "provider_step li (Search q n) c = fst (tool_search q n c)"
| "provider_step li Hook c = fst (presentation_hook c)"
| "provider_step li (Use n a) c = fst (call_tool li n a c)"

definition activated :: "'w composition \<Rightarrow> bool" where
  \<comment> \<open>what is loaded is essential or was activated by a search whose event is in the log\<close>
  "activated c \<longleftrightarrow> set (co_loaded c) \<subseteq> set ESSENTIALS \<union> set (concat (co_events c))"

lemma call_tool_loaded: "co_loaded (fst (call_tool li n a c)) = co_loaded c \<and> co_events (fst (call_tool li n a c)) = co_events c"
  by (auto simp: call_tool_def provider_invoke_def Let_def split: option.splits prod.splits sum.splits)

lemma step_activated: "activated c \<Longrightarrow> activated (provider_step li x c)"
  using call_tool_loaded [of li _ _ c]
  by (cases x) (auto simp: activated_def tool_search_def presentation_hook_def Let_def)

lemma docker_tools_need_the_sandbox:
  assumes "\<not> co_sandbox c" "dget (co_tools c) n = Some t" "requires_docker (pt_meta t)"
  shows "call_tool li n a c = (c, Inl (li_blocked li (u ''Docker sandbox is unavailable'')))"
  using assms by (simp add: call_tool_def sandbox_policy_def capability_of_def Let_def)

lemma unguarded_tools_are_refused:
  assumes "t \<in> set ts" "\<not> pt_guarded t"
  shows "compose ts c = (c, Inl (ValueError ''providers accept only policy-guarded tools''))"
proof -
  define f :: "(string, 'a ptool list) dict result \<Rightarrow> 'a ptool \<Rightarrow> (string, 'a ptool list) dict result"
    where "f = (\<lambda>r t. bindE r (\<lambda>d. guardE (\<not> pt_guarded t) (ValueError ''providers accept only policy-guarded tools'')
         (let c = tm_category (pt_meta t); known = (case dget d c of None \<Rightarrow> [] | Some xs \<Rightarrow> xs)
          in Inr (dput c (known @ [t]) d))))"
  have stuck: "foldl f (Inl e) xs = Inl e" for e xs by (induction xs) (simp_all add: f_def)
  have "foldl f (Inr d) ts = Inl (ValueError ''providers accept only policy-guarded tools'')" for d
    using assms(1)
  proof (induction ts arbitrary: d)
    case (Cons x xs)
    show ?case
    proof (cases "pt_guarded x")
      case True
      then have "t \<in> set xs" using Cons.prems assms(2) by auto
      moreover obtain d' where "f (Inr d) x = Inr d'" using True by (simp add: f_def Let_def)
      ultimately show ?thesis using Cons.IH by simp
    next
      case False
      then have "f (Inr d) x = Inl (ValueError ''providers accept only policy-guarded tools'')" by (simp add: f_def)
      then show ?thesis using stuck by simp
    qed
  qed simp
  then show ?thesis by (simp add: compose_def group_tools_def f_def)
qed

subsection \<open>Properties\<close>

text \<open>
  A search for tools activates the best matches and nothing else: the result has at most twenty tools
  and at least room for one, every tool of it contains a token of the query, it is ordered by decreasing
  score and then by name, no tool that is left out would come before one that is in, and a result with room
  left has every matching tool. Exactly these are loaded, besides what was.
\<close>

theorem search_activates_best_matches:
  assumes "tool_search q limit c = (c', r)"
  shows "let selected = select_tools q limit (co_tools c);
             matching = scored_tools (search_tokens q) (co_tools c)
     in int (length selected) \<le> max 1 (min limit 20) \<and> sorted (map best_first selected)
        \<and> list_all (\<lambda>x. 0 < fst x \<and> (fst (snd x), snd (snd x)) \<in> set (co_tools c)) selected
        \<and> mset selected \<subseteq># mset matching
        \<and> (\<forall>x\<in>set selected. \<forall>y\<in># mset matching - mset selected. best_first x \<le> best_first y)
        \<and> (int (length selected) < max 1 (min limit 20) \<longrightarrow> mset selected = mset matching)
        \<and> co_loaded c' = co_loaded c @ map (\<lambda>x. fst (snd x)) selected"
proof -
  define n where "n = nat (max 1 (min limit 20))"
  define found where "found = scored_tools (search_tokens q) (co_tools c)"
  define m where "m = sort_key best_first found"
  have s: "select_tools q limit (co_tools c) = take n m" by (simp add: select_tools_def n_def m_def found_def)
  have mset: "mset m = mset found" by (simp add: m_def)
  have sorted: "sorted (map best_first m)" by (simp add: m_def)
  have parts: "mset found = mset (take n m) + mset (drop n m)" unfolding mset [symmetric] by (metis append_take_drop_id mset_append)
  have member: "0 < fst x \<and> (fst (snd x), snd (snd x)) \<in> set (co_tools c)" if "x \<in> set found" for x
    using that by (auto simp: found_def scored_tools_def)
  have "sorted (map best_first (take n m @ drop n m))" using sorted by simp
  then have order: "best_first x \<le> best_first y" if "x \<in> set (take n m)" "y \<in> set (drop n m)" for x y
    using that unfolding map_append sorted_append by auto
  have size: "int n = max 1 (min limit 20)" by (simp add: n_def)
  have "list_all (\<lambda>x. 0 < fst x \<and> (fst (snd x), snd (snd x)) \<in> set (co_tools c)) (take n m)"
    using member mset unfolding list_all_iff by (metis in_set_takeD mset_eq_setD)
  moreover have "int (length (take n m)) < max 1 (min limit 20) \<longrightarrow> mset (take n m) = mset found"
    using size mset by simp
  moreover have "sorted (map best_first (take n m))" using sorted by (metis sorted_wrt_take take_map)
  moreover have "int (length (take n m)) \<le> max 1 (min limit 20)" using size by simp
  moreover have "co_loaded c' = co_loaded c @ map (\<lambda>x. fst (snd x)) (take n m)"
    using assms s by (auto simp: tool_search_def Let_def)
  ultimately show ?thesis using parts order unfolding Let_def s found_def [symmetric] by simp
qed

text \<open>A model request offers only tools that are essential or that a recorded search activated.\<close>

lemma offered_tools_were_activated:
  assumes "activated c" and "present True (co_loaded (fold (provider_step li) xs c)) ''before_model_request'' params = Some p"
  shows "list_all (\<lambda>s. \<exists>n. offered_name s = JStr n
     \<and> (n \<in> set ESSENTIALS \<or> n \<in> set (concat (co_events (fold (provider_step li) xs c))))) (items (field ''tools'' p))"
proof -
  have a: "activated (fold (provider_step li) xs c)"
    using assms(1) by (induction xs arbitrary: c) (auto intro: step_activated)
  define loaded where "loaded = co_loaded (fold (provider_step li) xs c)"
  define tools where "tools = filter (\<lambda>s. case offered_name s of JStr n \<Rightarrow> n \<in> set loaded | _ \<Rightarrow> False) (items (field ''tools'' params))"
  have "items (field ''tools'' p) = tools"
    using assms(2) unfolding present_def Let_def loaded_def [symmetric] tools_def [symmetric]
    by (auto split: if_splits simp: field_without_field field_without_same)
  then show ?thesis using a unfolding tools_def loaded_def activated_def
    by (auto simp: list_all_iff split: json.splits)
qed

definition example_tool :: "string \<Rightarrow> string \<Rightarrow> unit ptool" where
  "example_tool n d = \<lparr>pt_name = u n, pt_description = u d, pt_params = JList [],
     pt_meta = \<lparr>tm_category = ''x'', tm_read_only = True, tm_write = False, tm_destructive = False, tm_external = False,
       tm_network = True, tm_policy = Never, tm_output_limit = 32768, dc_concurrent = True, dc_sandbox = False, dc_timeout = 120\<rparr>,
     pt_guarded = True, pt_run = (\<lambda>a. ret JNull)\<rparr>"

definition example_composition :: "unit composition" where
  "example_composition = \<lparr>co_world = (), co_sandbox = True, co_providers = [],
     co_tools = [(u ''b'', example_tool ''b'' ''Get''), (u ''ab'', example_tool ''ab'' ''Go''),
                 (u ''c'', example_tool ''c'' ''Up''), (u ''a'', example_tool ''a'' ''So'')],
     co_loaded = [], co_events = []\<rparr>"

lemma example_scores:
  "search_tokens (u ''A/b'') = [u ''a'', u ''b'']"
  "score [u ''a'', u ''b''] (lower (u ''b'' @ u '' '' @ u ''Get'' @ u '' '' @ u ''x'')) = 1"
  "score [u ''a'', u ''b''] (lower (u ''ab'' @ u '' '' @ u ''Go'' @ u '' '' @ u ''x'')) = 2"
  "score [u ''a'', u ''b''] (lower (u ''c'' @ u '' '' @ u ''Up'' @ u '' '' @ u ''x'')) = 0"
  "score [u ''a'', u ''b''] (lower (u ''a'' @ u '' '' @ u ''So'' @ u '' '' @ u ''x'')) = 1"
  "sort_key (\<lambda>y. (- int (fst y), snd y)) [(1, u ''b''), (2, u ''ab''), (1, u ''a'')] = [(2, u ''ab''), (1, u ''a''), (1, u ''b'')]"
  by code_simp+

lemma example_search:
  "map (\<lambda>x. fst (snd x)) (select_tools (u ''A/b'') 2 (co_tools example_composition)) = [u ''ab'', u ''a'']"
proof -
  let ?f = "\<lambda>x :: nat \<times> pytext \<times> unit ptool. (fst x, fst (snd x))"
  let ?xs = "scored_tools (search_tokens (u ''A/b'')) (co_tools example_composition)"
  have "map ?f ?xs = [(1, u ''b''), (2, u ''ab''), (1, u ''a'')]"
    by (simp add: scored_tools_def example_composition_def example_tool_def example_scores del: u_Cons u_append)
  then have "map ?f (sort_key best_first ?xs) = [(2, u ''ab''), (1, u ''a''), (1, u ''b'')]"
    using sort_key_map [of "\<lambda>y. (- int (fst y), snd y)" ?f ?xs] example_scores(6)
    by (simp add: best_first_def [abs_def] o_def del: u_Cons)
  then have "map (snd \<circ> ?f) (sort_key best_first ?xs) = [u ''ab'', u ''a'', u ''b'']"
    unfolding map_map [symmetric] by (simp del: u_Cons)
  then show ?thesis by (simp add: select_tools_def take_map [symmetric] o_def del: u_Cons)
qed

lemma search_activates_best_matches_witness:
  "co_loaded (fst (tool_search (u ''A/b'') 2 example_composition)) = [u ''ab'', u ''a'']"
  using search_activates_best_matches [of "u ''A/b''" 2 example_composition] example_search
  by (cases "tool_search (u ''A/b'') 2 example_composition") (simp add: Let_def example_composition_def)

end
