(* ===== verification/Run_View.thy ===== *)
theory Run_View
  imports Conversations Repo_Tools
begin

text \<open>
  What \<open>web.py\<close> shows of a run: the steps and the activity of a recorded workflow or of the event log,
  the request that waits for a decision, and the sources a tool's output names. These are functions of
  the stored JSON values. The flow record and the events are the values the engine and the event log
  have written; the parser of an output is a parameter.
\<close>

subsection \<open>Text for display\<close>

fun indent_items :: "nat \<Rightarrow> pytext list \<Rightarrow> pytext" where
  "indent_items n [] = []"
| "indent_items n (t # ts) = 10 # replicate n 32 @ t @ (if ts = [] then [] else 44 # indent_items n ts)"

fun dumps_indent :: "nat \<Rightarrow> json \<Rightarrow> pytext" where
  \<comment> \<open>\<open>json.dumps(v, ensure_ascii=False, indent=2)\<close>, at an indentation\<close>
  "dumps_indent n (JList xs) = (if xs = [] then u ''[]''
     else 91 # indent_items (n + 2) (map (dumps_indent (n + 2)) xs) @ 10 # replicate n 32 @ [93])"
| "dumps_indent n (JObj kvs) = (if kvs = [] then u ''{}''
     else 123 # indent_items (n + 2) (map (\<lambda>kv. quote (fst kv) @ u '': '' @ dumps_indent (n + 2) (snd kv)) kvs)
       @ 10 # replicate n 32 @ [125])"
| "dumps_indent n v = dumps_default v"

definition TRUNCATED :: pytext where
  "TRUNCATED = [10, 8230, 65288, 36755, 20986, 24050, 25130, 26029, 65289]"

definition display_value :: "nat \<Rightarrow> json \<Rightarrow> pytext" where
  "display_value limit v =
     (if v = JNull then []
      else let t = (case redact_value v of JStr t \<Rightarrow> t | r \<Rightarrow> dumps_indent 0 r)
           in if length t \<le> limit then t else rstrip (take limit t) @ TRUNCATED)"

definition obj_or_empty :: "json \<Rightarrow> json" where
  \<comment> \<open>\<open>v if isinstance(v, dict) else {}\<close>\<close>
  "obj_or_empty v = (if is_obj v then v else JObj [])"

subsection \<open>Tool calls and their results\<close>

record tool_row =
  vr_name :: pytext
  vr_arguments :: pytext
  vr_output :: "pytext option"
  vr_latency :: json
  vr_time :: json

definition open_named :: "pytext \<Rightarrow> tool_row \<Rightarrow> bool" where
  "open_named n r \<longleftrightarrow> vr_name r = n \<and> vr_output r = None"

fun update_last :: "('a \<Rightarrow> bool) \<Rightarrow> ('a \<Rightarrow> 'a) \<Rightarrow> 'a list \<Rightarrow> 'a list option" where
  \<comment> \<open>\<open>next((x for x in reversed(xs) if p(x)), None)\<close>, updated in place\<close>
  "update_last p f [] = None"
| "update_last p f (x # xs) =
     (case update_last p f xs of Some ys \<Rightarrow> Some (x # ys) | None \<Rightarrow> if p x then Some (f x # xs) else None)"

definition call_row :: "pytext \<Rightarrow> json \<Rightarrow> json \<Rightarrow> tool_row" where
  "call_row n args ts = \<lparr>vr_name = n, vr_arguments = display_value 1600 args, vr_output = None, vr_latency = JNull, vr_time = ts\<rparr>"

definition attach :: "pytext \<Rightarrow> json \<Rightarrow> (tool_row \<Rightarrow> tool_row) \<Rightarrow> tool_row list \<Rightarrow> tool_row list" where
  "attach n ts f rs = (case update_last (open_named n) f rs of
      Some rs' \<Rightarrow> rs'
    | None \<Rightarrow> rs @ [f \<lparr>vr_name = n, vr_arguments = [], vr_output = None, vr_latency = JNull, vr_time = ts\<rparr>])"

subsection \<open>The activity of the event log\<close>

record view =
  vw_rows :: "tool_row list"
  vw_notices :: "(pytext \<times> pytext) list"
  vw_verification :: "json list"

definition empty_view :: view where
  "empty_view = \<lparr>vw_rows = [], vw_notices = [], vw_verification = []\<rparr>"

definition NOTICES :: "string list" where
  "NOTICES = [''approval_requested'', ''approval_decided'', ''subagent_started'', ''subagent_completed'', ''budget_exceeded'',
     ''steering_received'', ''steering_consumed'', ''pause_requested'', ''cancel_requested'']"

definition event_type :: "json \<Rightarrow> pytext" where
  "event_type e = str_or (field ''type'' e) []"

definition event_data :: "json \<Rightarrow> json" where
  "event_data e = obj_or_empty (field ''data'' e)"

definition tool_of :: "json \<Rightarrow> pytext" where
  "tool_of e = str_or (field ''tool'' (event_data e)) ''tool''"

definition starts_call :: "json \<Rightarrow> bool" where
  "starts_call e \<longleftrightarrow> event_type e = u ''tool_started''"

definition ends_call :: "json \<Rightarrow> bool" where
  "ends_call e \<longleftrightarrow> event_type e \<in> set (map u [''tool_completed'', ''tool_failed'', ''tool_blocked''])"

definition start_row :: "json \<Rightarrow> tool_row" where
  "start_row e = call_row (tool_of e) (field ''arguments'' (event_data e)) (field ''timestamp'' e)"

definition end_text :: "json \<Rightarrow> pytext" where
  "end_text e = display_value 4000
     (or_else (or_else (field ''output'' (event_data e)) (field ''error'' (event_data e))) (field ''reason'' (event_data e)))"

definition end_row :: "json \<Rightarrow> tool_row \<Rightarrow> tool_row" where
  "end_row e r = r\<lparr>vr_output := Some (end_text e)\<rparr>"

definition agentic_event :: "json \<Rightarrow> view \<Rightarrow> view result" where
  "agentic_event e v =
     (if starts_call e then Inr (v\<lparr>vw_rows := vw_rows v @ [start_row e]\<rparr>)
      else if ends_call e then Inr (v\<lparr>vw_rows := attach (tool_of e) (field ''timestamp'' e) (end_row e) (vw_rows v)\<rparr>)
      else if event_type e = u ''verification_completed''
        then bindE (py_iter (or_else (field ''results'' (event_data e)) (JList []))) (\<lambda>xs. Inr (v\<lparr>vw_verification := xs\<rparr>))
      else if event_type e \<in> set (map u NOTICES)
        then Inr (v\<lparr>vw_notices := vw_notices v @ [(event_type e, display_value 1200 (event_data e))]\<rparr>)
      else Inr v)"

fun agentic_events :: "json list \<Rightarrow> view \<Rightarrow> view result" where
  "agentic_events [] v = Inr v"
| "agentic_events (e # es) v = bindE (agentic_event e v) (agentic_events es)"

definition view_status :: "run_status \<Rightarrow> string" where
  "view_status s = (if s = WaitingApproval then ''waiting_approval''
     else if s \<in> ACTIVE_STATUSES then ''running'' else if s = Succeeded then ''success'' else ''failed'')"

record step_view =
  sv_step :: pytext
  sv_status :: pytext
  sv_duration :: json
  sv_error :: json
  sv_started :: json
  sv_ended :: json

record activity =
  va_name :: pytext
  va_status :: pytext
  va_started :: json
  va_ended :: json
  va_error :: json
  va_output :: pytext
  va_rows :: "tool_row list"
  va_notices :: "(pytext \<times> pytext) list"
  va_model_calls :: nat
  va_usage :: "(string \<times> int) list"
  va_verified :: "bool option"

definition text_or_null :: "pytext option \<Rightarrow> json" where
  "text_or_null t = (case t of None \<Rightarrow> JNull | Some x \<Rightarrow> JStr x)"

definition agentic_steps :: "(nat \<Rightarrow> pytext) \<Rightarrow> json list \<Rightarrow> run \<Rightarrow> step_view list" where
  "agentic_steps isoformat es r =
     (if es = [] \<and> rn_status r = Created then []
      else let started = first_such (\<lambda>e. py_eq (field ''type'' e) (JStr (u ''agentic_run_started''))) es;
               ended = first_such (\<lambda>e. py_eq (field ''type'' e) (JStr (u ''agentic_run_completed''))) (rev es)
           in [\<lparr>sv_step = u ''agentic_loop'', sv_status = u (view_status (rn_status r)), sv_duration = JNull,
                sv_error = text_or_null (rn_error r),
                sv_started = (case started of None \<Rightarrow> JStr (isoformat (rn_created r)) | Some e \<Rightarrow> field ''timestamp'' e),
                sv_ended = (case ended of None \<Rightarrow> JNull | Some e \<Rightarrow> field ''timestamp'' e)\<rparr>])"

definition verification_row :: "json list \<Rightarrow> activity result" where
  "verification_row vs =
     guardE (\<not> list_all is_obj vs) (AttributeError ''object has no attribute get'')
       (Inr \<lparr>va_name = u ''verify_0'', va_status = u ''success'', va_started = JNull, va_ended = JNull, va_error = JStr [],
          va_output = dumps_default (obj [(''configured'', JBool True), (''results'', JList vs)]),
          va_rows = [], va_notices = [], va_model_calls = 0, va_usage = [],
          va_verified = Some (list_all (\<lambda>v. truthy (field ''passed'' v) \<or> \<not> truthy (get_or ''required'' (JBool True) v)) vs)\<rparr>)"

definition agentic_activity :: "json list \<Rightarrow> run \<Rightarrow> activity list result" where
  \<comment> \<open>durations, sums of floats, are left out of the activity\<close>
  "agentic_activity es r =
     (if es = [] then Inr []
      else bindE (agentic_events es empty_view) (\<lambda>v.
        let status = view_status (rn_status r);
            loop = \<lparr>va_name = u ''agentic_loop'', va_status = u status, va_started = field ''timestamp'' (hd es),
              va_ended = (if status \<noteq> ''running'' then field ''timestamp'' (last es) else JNull),
              va_error = text_or_null (rn_error r), va_output = [], va_rows = vw_rows v, va_notices = vw_notices v,
              va_model_calls = 0, va_usage = [], va_verified = None\<rparr>
        in if vw_verification v = [] then Inr [loop]
           else bindE (verification_row (vw_verification v)) (\<lambda>x. Inr [loop, x])))"

subsection \<open>Steps and activity of a recorded workflow\<close>

definition step_view_of :: "json \<Rightarrow> step_view" where
  "step_view_of s = \<lparr>sv_step = str_or (field ''name'' s) [], sv_status = str_or (field ''status'' s) ''pending'',
     sv_duration = field ''duration_ms'' s, sv_error = field ''error'' s,
     sv_started = field ''started_at'' s, sv_ended = field ''ended_at'' s\<rparr>"

definition load_steps :: "json \<Rightarrow> step_view list result" where
  "load_steps flow = bindE (py_iter (get_or ''steps'' (JList []) flow)) (\<lambda>ss. Inr (map step_view_of (filter is_obj ss)))"

definition job_busy :: "json \<Rightarrow> bool" where
  "job_busy job \<longleftrightarrow> truthy job \<and> field ''state'' job \<in> {JStr (u ''queued''), JStr (u ''running'')}"

definition current_step :: "step_view list \<Rightarrow> pytext option \<Rightarrow> json \<Rightarrow> pytext option" where
  "current_step ss recorded job =
     (if \<not> job_busy job then recorded
      else case first_such (\<lambda>s. sv_status s = u ''waiting_approval'' \<or> sv_status s = u ''running'') ss of
             Some s \<Rightarrow> Some (if sv_status s = u ''waiting_approval'' then u ''approval:'' @ sv_step s else sv_step s)
           | None \<Rightarrow> (case first_such (\<lambda>s. sv_status s = u ''pending'') ss of Some s \<Rightarrow> Some (sv_step s) | None \<Rightarrow> recorded))"

definition USAGE :: "string list" where
  "USAGE = [''prompt_tokens'', ''completion_tokens'', ''total_tokens'']"

definition number_of :: "json \<Rightarrow> int" where
  \<comment> \<open>what \<open>int(value)\<close> adds for a number, nothing for another value\<close>
  "number_of v = (case v of JInt i \<Rightarrow> i | JBool b \<Rightarrow> (if b then 1 else 0) | JFloat t \<Rightarrow> float_trunc t | _ \<Rightarrow> 0)"

record trace_view =
  tv_rows :: "tool_row list"
  tv_notices :: "(pytext \<times> pytext) list"
  tv_calls :: nat
  tv_usage :: "(string \<times> int) list"

definition call_name :: "json \<Rightarrow> pytext" where
  "call_name e = str_or (field ''name'' (event_data e)) ''tool''"

definition flow_event :: "json \<Rightarrow> trace_view \<Rightarrow> trace_view" where
  "flow_event e v =
     (let d = event_data e; t = event_type e in
      if \<not> is_obj e then v
      else if t = u ''tool_call''
        then v\<lparr>tv_rows := tv_rows v @ [call_row (call_name e) (field ''arguments'' d) (field ''timestamp'' e)]\<rparr>
      else if t = u ''tool_result''
        then v\<lparr>tv_rows := attach (call_name e) (field ''timestamp'' e)
                 (\<lambda>r. r\<lparr>vr_output := Some (display_value 4000 (field ''output'' d)), vr_latency := field ''latency_ms'' d\<rparr>) (tv_rows v)\<rparr>
      else if t = u ''model_request''
        then v\<lparr>tv_calls := tv_calls v + 1,
               tv_usage := map (\<lambda>(k, n). (k, n + number_of (field k (obj_or_empty (field ''usage'' d))))) (tv_usage v)\<rparr>
      else if t = u ''error'' \<or> t = u ''hook_block''
        then (let message = or_else (or_else (field ''error'' d) (field ''reason'' d)) (field ''message'' d)
              in if truthy message then v\<lparr>tv_notices := tv_notices v @ [(t, display_value 1000 message)]\<rparr> else v)
      else v)"

definition verified_of :: "(pytext \<Rightarrow> json option) \<Rightarrow> pytext \<Rightarrow> json \<Rightarrow> bool option" where
  "verified_of loads name content =
     (if starts_with (u ''verify_'') name \<and> truthy content
      then (let p = (case content of JStr t \<Rightarrow> (case loads t of None \<Rightarrow> JNull | Some v \<Rightarrow> v) | v \<Rightarrow> v)
            in if is_obj p \<and> field ''configured'' p = JBool True
               then (case field ''passed'' p of JBool b \<Rightarrow> Some b | _ \<Rightarrow> None) else None)
      else None)"

definition step_activity :: "(pytext \<Rightarrow> json option) \<Rightarrow> json \<Rightarrow> activity result" where
  "step_activity loads s =
     bindE (py_iter (or_else (get_or ''trace'' (JList []) s) (JList []))) (\<lambda>es.
       let v = fold flow_event es \<lparr>tv_rows = [], tv_notices = [], tv_calls = 0, tv_usage = map (\<lambda>k. (k, 0)) USAGE\<rparr>;
           name = str_or (field ''name'' s) []; content = field ''content'' s
       in Inr \<lparr>va_name = name, va_status = str_or (field ''status'' s) ''pending'', va_started = field ''started_at'' s,
            va_ended = field ''ended_at'' s, va_error = JStr (display_value 1200 (field ''error'' s)),
            va_output = (if truthy content then display_value 8000 content else []), va_rows = tv_rows v,
            va_notices = tv_notices v, va_model_calls = tv_calls v, va_usage = tv_usage v,
            va_verified = verified_of loads name content\<rparr>)"

fun step_activities :: "(pytext \<Rightarrow> json option) \<Rightarrow> json list \<Rightarrow> activity list result" where
  "step_activities loads [] = Inr []"
| "step_activities loads (s # ss) =
     (if is_obj s then bindE (step_activity loads s) (\<lambda>a. bindE (step_activities loads ss) (\<lambda>as. Inr (a # as)))
      else step_activities loads ss)"

definition load_activity :: "(pytext \<Rightarrow> json option) \<Rightarrow> json \<Rightarrow> activity list result" where
  "load_activity loads flow = bindE (py_iter (get_or ''steps'' (JList []) flow)) (step_activities loads)"

subsection \<open>The step that waits for a decision\<close>

record approval_view =
  ap_request :: pytext
  ap_step :: pytext
  ap_title :: pytext
  ap_description :: pytext
  ap_action :: pytext

definition approval_of :: "json \<Rightarrow> approval_view" where
  "approval_of s = (let name = str_or (field ''name'' s) []; edit = (name = u ''edit'') in
     \<lparr>ap_request = str_or (field ''approval_request_id'' s) [], ap_step = name,
      ap_title = (if edit then [0x9AD8, 0x98CE, 0x9669, 0x64CD, 0x4F5C, 0x9700, 0x8981, 0x786E, 0x8BA4]
                  else [0x64CD, 0x4F5C, 0x9700, 0x8981, 0x786E, 0x8BA4]),
      ap_description = display_value 1200 (or_else (field ''error'' s)
        (JStr [0x7EE7, 0x7EED, 0x6267, 0x884C, 0x524D, 0x9700, 0x8981, 0x4F60, 0x7684, 0x786E, 0x8BA4, 0x3002])),
      ap_action = (if edit then [0x4FEE, 0x6539, 0x9694, 0x79BB, 0x5DE5, 0x4F5C, 0x533A, 0x4E2D, 0x7684, 0x6587, 0x4EF6]
                   else [0x6267, 0x884C, 0x9636, 0x6BB5] @ 32 # name)\<rparr>)"

definition awaits_decision :: "json \<Rightarrow> json \<Rightarrow> bool" where
  "awaits_decision approvals s \<longleftrightarrow> is_obj s \<and> field ''status'' s = JStr (u ''waiting_approval'')
     \<and> str_or (field ''name'' s) [] \<noteq> [] \<and> str_or (field ''approval_request_id'' s) [] \<noteq> []
     \<and> str_or (field ''name'' s) [] \<notin> fst ` set (entries approvals)"

definition pending_approval :: "json \<Rightarrow> approval_view option result" where
  "pending_approval flow =
     bindE (py_iter (get_or ''steps'' (JList []) flow)) (\<lambda>ss.
       Inr (map_option approval_of (first_such (awaits_decision (obj_or_empty (field ''approvals'' flow))) ss)))"

subsection \<open>Sources\<close>

definition first_truthy :: "string list \<Rightarrow> json \<Rightarrow> json option" where
  "first_truthy ks v = first_such truthy (map (\<lambda>k. field k v) ks)"

definition text_of :: "json option \<Rightarrow> pytext" where
  "text_of v = (case v of None \<Rightarrow> [] | Some w \<Rightarrow> py_str w)"

definition own_candidate :: "json \<Rightarrow> (pytext \<times> pytext \<times> pytext) list" where
  "own_candidate v = (case first_truthy [''url'', ''source_url'', ''page_url'', ''link''] v of
      None \<Rightarrow> []
    | Some url \<Rightarrow> [(py_str url, text_of (first_truthy [''title'', ''name'', ''heading'', ''path''] v),
        text_of (first_truthy [''snippet'', ''excerpt'', ''description'', ''content'', ''text'', ''body''] v))])"

definition NESTED :: "string list" where
  "NESTED = [''results'', ''sources'', ''documents'', ''citations'', ''items'']"

lemma dget_size: "dget kvs k = Some w \<Longrightarrow> size w < Suc (size_list (\<lambda>x. Suc (size (snd x))) kvs)"
  by (induction kvs) (auto split: if_splits)

function citation_candidates :: "json \<Rightarrow> (pytext \<times> pytext \<times> pytext) list" where
  "citation_candidates (JList vs) = concat (map citation_candidates vs)"
| "citation_candidates (JObj kvs) = own_candidate (JObj kvs) @
     concat (map (\<lambda>k. case dget kvs (u k) of None \<Rightarrow> [] | Some w \<Rightarrow> citation_candidates w) NESTED)"
| "citation_candidates JNull = []"
| "citation_candidates (JBool b) = []"
| "citation_candidates (JInt i) = []"
| "citation_candidates (JFloat t) = []"
| "citation_candidates (JStr t) = []"
  by pat_completeness auto

termination
  by (relation "measure size") (auto dest: dget_size simp: termination_simp)


text \<open>A recorded text is never much longer than its limit.\<close>

lemma length_rstrip: "length (rstrip t) \<le> length t"
  unfolding rstrip_def by (metis length_dropWhile_le length_rev)

lemma display_value_bounded: "length (display_value limit v) \<le> limit + 9"
  using length_rstrip [of "take limit t" for t] by (auto simp: display_value_def Let_def TRUNCATED_def intro: le_trans)

subsection \<open>Results belong to their calls\<close>

fun one_at_a_time :: "pytext list \<Rightarrow> json list \<Rightarrow> bool" where
  \<comment> \<open>a tool is started only while no call of it is open, and only an open call ends\<close>
  "one_at_a_time ns [] = True"
| "one_at_a_time ns (e # es) =
     (if starts_call e then tool_of e \<notin> set ns \<and> one_at_a_time (ns @ [tool_of e]) es
      else if ends_call e then tool_of e \<in> set ns \<and> one_at_a_time (filter (\<lambda>n. n \<noteq> tool_of e) ns) es
      else one_at_a_time ns es)"

fun first_end :: "pytext \<Rightarrow> json list \<Rightarrow> pytext option" where
  "first_end n [] = None"
| "first_end n (e # es) = (if ends_call e \<and> tool_of e = n then Some (end_text e) else first_end n es)"

fun shown :: "json list \<Rightarrow> tool_row list" where
  \<comment> \<open>a row for every started call, with the text of the next end of that tool\<close>
  "shown [] = []"
| "shown (e # es) = (if starts_call e then [(start_row e)\<lparr>vr_output := first_end (tool_of e) es\<rparr>] else []) @ shown es"

definition readable_results :: "json \<Rightarrow> bool" where
  "readable_results e \<longleftrightarrow> event_type e = u ''verification_completed'' \<longrightarrow>
     (case py_iter (or_else (field ''results'' (event_data e)) (JList [])) of Inr xs \<Rightarrow> list_all is_obj xs | Inl _ \<Rightarrow> False)"

definition open_names :: "tool_row list \<Rightarrow> pytext list" where
  "open_names rs = map vr_name (filter (\<lambda>r. vr_output r = None) rs)"

definition complete :: "json list \<Rightarrow> tool_row \<Rightarrow> tool_row" where
  "complete es r = (if vr_output r = None then r\<lparr>vr_output := first_end (vr_name r) es\<rparr> else r)"

lemma complete_skip: "\<not> ends_call e \<Longrightarrow> complete (e # es) r = complete es r"
  by (simp add: complete_def)

lemma start_row_fields [simp]: "vr_name (start_row e) = tool_of e" "vr_output (start_row e) = None"
  by (simp_all add: start_row_def call_row_def)

lemma update_last_None: "\<forall>x\<in>set xs. \<not> p x \<Longrightarrow> update_last p f xs = None"
  by (induction xs) auto

lemma update_last_unique:
  "distinct (open_names rs) \<Longrightarrow> n \<in> set (open_names rs) \<Longrightarrow>
     update_last (open_named n) f rs = Some (map (\<lambda>r. if open_named n r then f r else r) rs)"
proof (induction rs)
  case (Cons r rs)
  show ?case
  proof (cases "open_named n r")
    case True
    then have "n \<notin> set (open_names rs)" using Cons.prems(1) by (simp add: open_names_def open_named_def)
    then have none: "\<forall>x\<in>set rs. \<not> open_named n x" by (auto simp: open_names_def open_named_def image_iff)
    then have "map (\<lambda>r. if open_named n r then f r else r) rs = rs" by (intro map_idI) auto
    then show ?thesis using True update_last_None [OF none] by simp
  next
    case False
    then have "n \<in> set (open_names rs)" "distinct (open_names rs)"
      using Cons.prems by (auto simp: open_names_def open_named_def split: if_splits)
    then show ?thesis using Cons.IH False by simp
  qed
qed (simp add: open_names_def)

lemma end_open_names:
  "open_names (map (\<lambda>r. if open_named n r then end_row e r else r) rs) = filter (\<lambda>m. m \<noteq> n) (open_names rs)"
  by (induction rs) (auto simp: open_names_def open_named_def end_row_def)

lemma end_complete:
  assumes "ends_call e"
  shows "complete (e # es) r = complete es (if open_named (tool_of e) r then end_row e r else r)"
  using assms by (auto simp: complete_def open_named_def end_row_def)

lemma agentic_other:
  assumes "\<not> starts_call e" "\<not> ends_call e" "readable_results e" "list_all is_obj (vw_verification v)"
  shows "\<exists>w. agentic_event e v = Inr w \<and> vw_rows w = vw_rows v \<and> list_all is_obj (vw_verification w)"
proof (cases "event_type e = u ''verification_completed''")
  case True
  then obtain xs where "py_iter (or_else (field ''results'' (event_data e)) (JList [])) = Inr xs" "list_all is_obj xs"
    using assms(3) by (auto simp: readable_results_def simp del: u_Cons split: sum.splits)
  then show ?thesis using assms(1,2) True by (simp add: agentic_event_def del: u_Cons)
qed (use assms in \<open>simp add: agentic_event_def del: u_Cons\<close>)

lemma agentic_events_shown:
  assumes "distinct (open_names (vw_rows v))" "one_at_a_time (open_names (vw_rows v)) es"
    and "list_all readable_results es" "list_all is_obj (vw_verification v)"
  shows "\<exists>v'. agentic_events es v = Inr v' \<and> list_all is_obj (vw_verification v')
    \<and> vw_rows v' = map (complete es) (vw_rows v) @ shown es"
  using assms
proof (induction es arbitrary: v)
  case Nil
  have "map (complete []) rs = rs" for rs by (rule map_idI) (simp add: complete_def)
  then show ?case using Nil by simp
next
  case (Cons e es)
  show ?case
  proof (cases "starts_call e")
    case True
    define w where "w = v\<lparr>vw_rows := vw_rows v @ [start_row e]\<rparr>"
    have nend: "\<not> ends_call e" using True by (simp add: starts_call_def ends_call_def)
    have on: "open_names (vw_rows w) = open_names (vw_rows v) @ [tool_of e]" by (simp add: w_def open_names_def)
    have "\<exists>v'. agentic_events es w = Inr v' \<and> list_all is_obj (vw_verification v')
        \<and> vw_rows v' = map (complete es) (vw_rows w) @ shown es"
      by (rule Cons.IH) (use Cons.prems True on in \<open>auto simp: w_def\<close>)
    moreover have "agentic_event e v = Inr w" using True by (simp add: agentic_event_def w_def)
    moreover have "complete es (start_row e) = (start_row e)\<lparr>vr_output := first_end (tool_of e) es\<rparr>" by (simp add: complete_def)
    ultimately show ?thesis using True complete_skip [OF nend] by (auto simp: w_def)
  next
    case nstart: False
    show ?thesis
    proof (cases "ends_call e")
      case True
      define w where "w = v\<lparr>vw_rows := map (\<lambda>r. if open_named (tool_of e) r then end_row e r else r) (vw_rows v)\<rparr>"
      have mem: "tool_of e \<in> set (open_names (vw_rows v))" using Cons.prems(2) nstart True by simp
      have ev: "agentic_event e v = Inr w"
        using nstart True update_last_unique [OF Cons.prems(1) mem] by (simp add: agentic_event_def attach_def w_def)
      have "\<exists>v'. agentic_events es w = Inr v' \<and> list_all is_obj (vw_verification v')
          \<and> vw_rows v' = map (complete es) (vw_rows w) @ shown es"
        by (rule Cons.IH) (use Cons.prems nstart True end_open_names in \<open>simp_all add: w_def\<close>)
      then show ?thesis using ev nstart end_complete [OF True] by (auto simp: w_def)
    next
      case nend: False
      obtain w where ev: "agentic_event e v = Inr w" and rs: "vw_rows w = vw_rows v" and vs: "list_all is_obj (vw_verification w)"
        using agentic_other [OF nstart nend] Cons.prems(3,4) by auto
      have "\<exists>v'. agentic_events es w = Inr v' \<and> list_all is_obj (vw_verification v')
          \<and> vw_rows v' = map (complete es) (vw_rows w) @ shown es"
        by (rule Cons.IH) (use Cons.prems nstart nend rs vs in simp_all)
      then show ?thesis using ev nstart rs complete_skip [OF nend] by auto
    qed
  qed
qed

subsection \<open>Properties\<close>


definition example_event :: "string \<Rightarrow> string \<Rightarrow> string \<Rightarrow> json" where
  "example_event t k x = obj [(''type'', JStr (u t)), (''data'', obj [(''tool'', JStr (u ''http_get'')), (k, JStr (u x))])]"

definition example_log :: "json list" where
  "example_log = [example_event ''tool_started'' ''arguments'' ''a'', example_event ''tool_completed'' ''output'' ''one'',
     example_event ''tool_started'' ''arguments'' ''b'']"


text \<open>When two calls of one tool overlap, each row shows the result of the other call.\<close>

lemma overlapping_results_are_swapped:
  "map (\<lambda>r. (vr_arguments r, vr_output r))
     (vw_rows (case agentic_events [example_event ''tool_started'' ''arguments'' ''a'', example_event ''tool_started'' ''arguments'' ''b'',
        example_event ''tool_completed'' ''output'' ''of a'', example_event ''tool_completed'' ''output'' ''of b''] empty_view
      of Inr v \<Rightarrow> v | Inl _ \<Rightarrow> empty_view))
   = [(u ''a'', Some (u ''of b'')), (u ''b'', Some (u ''of a''))]"
  by code_simp

text \<open>A call that is blocked before it starts closes the row of a running call of the same tool.\<close>

lemma blocked_call_closes_another:
  "map (\<lambda>r. (vr_arguments r, vr_output r))
     (vw_rows (case agentic_events [example_event ''tool_started'' ''arguments'' ''a'', example_event ''tool_blocked'' ''reason'' ''paused''] empty_view
      of Inr v \<Rightarrow> v | Inl _ \<Rightarrow> empty_view))
   = [(u ''a'', Some (u ''paused''))]"
  by code_simp

end
