(* ===== verification/Ui_Events.thy ===== *)
theory Ui_Events
  imports Storage Repo_Tools
begin

text \<open>
  The event log of a run (\<open>EventLog\<close> in \<open>tool_protocol.py\<close>): events are appended to the run's session
  and to a text file that mirrors them, an older file is imported once, and \<open>web.py\<close> streams the log to
  the browser in rounds that continue after the last number sent. An event's time stamp and the parser of
  an old line are parameters.
\<close>

subsection \<open>Writing\<close>

definition UI_EVENT :: string where
  "UI_EVENT = ''lightworker.event''"

definition MIGRATED :: string where
  "MIGRATED = ''lightworker.events.migrated''"

definition LOG_FILE :: pytext where
  "LOG_FILE = u ''events.jsonl''"

definition logged :: "rstore \<Rightarrow> string \<Rightarrow> event list" where
  \<comment> \<open>\<open>self.session.events()\<close>\<close>
  "logged s run = events (rs_db s) run"

definition append_event :: "rstore \<Rightarrow> string \<Rightarrow> string \<Rightarrow> json \<Rightarrow> pytext option \<Rightarrow> (rstore \<times> event) result" where
  "append_event s run kind data key =
     bindE (task_append (rs_la s) (rs_db s) run kind data key) (\<lambda>(d, e). Inr (s\<lparr>rs_db := d\<rparr>, e))"

definition emit :: "(event \<Rightarrow> json) \<Rightarrow> rstore \<Rightarrow> string \<Rightarrow> pytext \<Rightarrow> json \<Rightarrow> (rstore \<times> json) result" where
  \<comment> \<open>one transaction: an error leaves the store as it was\<close>
  "emit stamp s run kind data =
     bindE (append_event s run UI_EVENT (obj [(''ui_type'', JStr kind), (''payload'', data)]) None) (\<lambda>(s, e).
       let event = obj [(''sequence'', JInt (int (ev_seq e))), (''type'', JStr kind), (''timestamp'', stamp e),
             (''data'', redact_value data)]
       in bindE (append_text s run LOG_FILE (dumps_default event @ [10])) (\<lambda>s. Inr (s, event)))"

subsection \<open>Reading\<close>

definition ui_event :: "(event \<Rightarrow> json) \<Rightarrow> event \<Rightarrow> json" where
  "ui_event stamp e = obj [(''sequence'', JInt (int (ev_seq e))), (''type'', field ''ui_type'' (ev_data e)),
     (''timestamp'', stamp e), (''data'', field ''payload'' (ev_data e))]"

definition unread :: "nat \<Rightarrow> event list \<Rightarrow> event list" where
  "unread after es = filter (\<lambda>e. ev_type e = UI_EVENT \<and> after < ev_seq e) es"

definition read_events :: "(event \<Rightarrow> json) \<Rightarrow> nat \<Rightarrow> nat \<Rightarrow> event list \<Rightarrow> json list" where
  "read_events stamp after limit es = take limit (map (ui_event stamp) (unread after es))"

subsection \<open>Importing an older file\<close>

fun import_legacy :: "(pytext \<Rightarrow> json option) \<Rightarrow> string \<Rightarrow> pytext list \<Rightarrow> rstore \<Rightarrow> rstore result" where
  "import_legacy loads run [] s = Inr s"
| "import_legacy loads run (line # ls) s =
     (case loads line of
        Some (JObj kvs) \<Rightarrow> bindE (append_event s run UI_EVENT
             (obj [(''ui_type'', field ''type'' (JObj kvs)), (''payload'', get_or ''data'' (JObj []) (JObj kvs))])
             (Some (u ''legacy-ui-'' @ py_str (field ''sequence'' (JObj kvs))))) (\<lambda>(s, _). import_legacy loads run ls s)
      | _ \<Rightarrow> import_legacy loads run ls s)"

definition file_text :: "stored_file \<Rightarrow> pytext" where
  "file_text f = (case f of FText t \<Rightarrow> t | FJson v \<Rightarrow> dumps_default v)"

definition mark_migrated :: "rstore \<Rightarrow> string \<Rightarrow> string \<Rightarrow> rstore result" where
  "mark_migrated s run origin =
     bindE (append_event s run MIGRATED (obj [(''source'', JStr (u origin))]) None) (\<lambda>(s, _). Inr s)"

definition open_log :: "(pytext \<Rightarrow> json option) \<Rightarrow> rstore \<Rightarrow> string \<Rightarrow> rstore result" where
  \<comment> \<open>\<open>EventLog(store, run_id)\<close>: \<open>_migrate\<close>\<close>
  "open_log loads s run =
     bindE (artifact_path run LOG_FILE) (\<lambda>_.
       case dget (rs_files s) (run, path_parts LOG_FILE) of
         None \<Rightarrow> Inr s
       | Some f \<Rightarrow>
           (if list_ex (\<lambda>e. ev_type e = MIGRATED) (logged s run) then Inr s
            else if list_ex (\<lambda>e. ev_type e = UI_EVENT) (logged s run) then mark_migrated s run ''compatibility-cache''
            else bindE (import_legacy loads run (splitlines (file_text f)) s) (\<lambda>s. mark_migrated s run ''events.jsonl'')))"

subsection \<open>Streaming\<close>

definition PAGE :: nat where
  "PAGE = 500"

definition sequence_of :: "json \<Rightarrow> nat" where
  "sequence_of e = (case field ''sequence'' e of JInt i \<Rightarrow> nat i | _ \<Rightarrow> 0)"

fun send_frames :: "nat \<Rightarrow> json list \<Rightarrow> nat \<times> pytext list" where
  "send_frames cursor [] = (cursor, [])"
| "send_frames cursor (e # es) =
     (let cursor = max cursor (sequence_of e); (c, fs) = send_frames cursor es
      in (c, (u ''id: '' @ nat_repr cursor @ 10 # u ''event: update'' @ 10 # u ''data: '' @ dumps_default e @ [10, 10]) # fs))"

record reader =
  rd_cursor :: nat
  rd_idle :: nat
  rd_sent :: "json list"
  rd_frames :: "pytext list"

definition stream_round :: "(event \<Rightarrow> json) \<Rightarrow> event list \<Rightarrow> reader \<Rightarrow> reader" where
  "stream_round stamp es r =
     (let evs = read_events stamp (rd_cursor r) PAGE es; (c, fs) = send_frames (rd_cursor r) evs
      in if evs = [] then r\<lparr>rd_idle := rd_idle r + 1, rd_frames := rd_frames r @ [u '': keep-alive'' @ [10, 10]]\<rparr>
         else r\<lparr>rd_cursor := c, rd_idle := 0, rd_sent := rd_sent r @ evs, rd_frames := rd_frames r @ fs\<rparr>)"

definition stream_ends :: "bool \<Rightarrow> reader \<Rightarrow> bool" where
  "stream_ends active r \<longleftrightarrow> \<not> active \<and> 2 \<le> rd_idle r"

fun emit_all :: "(event \<Rightarrow> json) \<Rightarrow> string \<Rightarrow> (pytext \<times> json) list \<Rightarrow> rstore \<Rightarrow> rstore result" where
  "emit_all stamp run [] s = Inr s"
| "emit_all stamp run ((kind, data) # es) s = bindE (emit stamp s run kind data) (\<lambda>(s, _). emit_all stamp run es s)"

fun serve :: "(event \<Rightarrow> json) \<Rightarrow> string \<Rightarrow> (pytext \<times> json) list list \<Rightarrow> rstore \<times> reader \<Rightarrow> (rstore \<times> reader) result" where
  \<comment> \<open>events that are emitted between the rounds of a stream\<close>
  "serve stamp run [] x = Inr x"
| "serve stamp run (b # bs) (s, r) =
     bindE (emit_all stamp run b s) (\<lambda>s. serve stamp run bs (s, stream_round stamp (logged s run) r))"

subsection \<open>Lemmas\<close>

lemma field_obj_Nil [simp]: "field k (obj []) = JNull"
  by (simp add: field_def obj_def)

lemma field_obj_Cons [simp]: "field k (obj ((k', v) # kvs)) = (if k = k' then v else field k (obj kvs))"
  by (simp add: field_def obj_def)

lemma redact_obj: "redact_value (obj kvs) = obj (map (\<lambda>(k, v). (k, redact_value v)) kvs)"
  by (simp add: obj_def case_prod_beta comp_def)

definition log_inv :: "rstore \<Rightarrow> string \<Rightarrow> bool" where
  "log_inv s run \<longleftrightarrow> store_inv s \<and> run \<noteq> [] \<and> list_all safe_identifier_char run"

definition twice :: "json \<Rightarrow> json" where
  "twice v = redact_value (redact_value v)"

lemma log_file_path: "log_inv s run \<Longrightarrow> \<exists>p. artifact_path run LOG_FILE = Inr p"
proof -
  have "\<not> is_absolute LOG_FILE \<and> dotdot \<notin> set (path_parts LOG_FILE)" by code_simp
  then show "log_inv s run \<Longrightarrow> ?thesis" by (auto simp: log_inv_def artifact_path_Inr)
qed

lemma emit_appends:
  assumes "log_inv s run"
  shows "\<exists>s' e ev. emit stamp s run kind data = Inr (s', ev) \<and> log_inv s' run
     \<and> logged s' run = logged s run @ [e] \<and> ev_type e = UI_EVENT \<and> ev_seq e = length (logged s run) + 1
     \<and> ev_data e = obj [(''ui_type'', twice (JStr kind)), (''payload'', twice data)]"
proof -
  let ?data = "obj [(''ui_type'', JStr kind), (''payload'', data)]"
  obtain d e where e: "append_if_sequence (rs_la s) (rs_db s) run UI_EVENT ?data None None = Inr (d, e)" "wf_db d"
    "ev_type e = UI_EVENT" "ev_data e = redact_value ?data" "ev_seq e = length (events (rs_db s) run) + 1"
    "\<forall>other. events d other = events (rs_db s) other @ (if other = run then [stored_event e] else [])"
    using append_Inr [of "rs_la s" "rs_db s" None None run UI_EVENT ?data] assms
    by (auto simp: log_inv_def store_inv_def)
  obtain p where p: "artifact_path run LOG_FILE = Inr p" using log_file_path [OF assms] by auto
  let ?ev = "obj [(''sequence'', JInt (int (ev_seq e))), (''type'', JStr kind), (''timestamp'', stamp e), (''data'', redact_value data)]"
  obtain s' where s': "append_text (s\<lparr>rs_db := d\<rparr>) run LOG_FILE (dumps_default ?ev @ [10]) = Inr s'" "rs_db s' = d" "rs_la s' = rs_la s"
    using p by (simp add: append_text_def Let_def)
  have "emit stamp s run kind data = Inr (s', ?ev)"
    using s'(1) by (simp add: emit_def append_event_def task_append_def e(1))
  moreover have "ev_data (stored_event e) = obj [(''ui_type'', twice (JStr kind)), (''payload'', twice data)]"
    using e(4) by (simp add: stored_event_def redact_obj twice_def)
  ultimately show ?thesis
    using s'(2,3) e assms by (auto simp: log_inv_def store_inv_def logged_def stored_event_def intro!: exI [of _ "stored_event e"])
qed

definition as_emitted :: "json \<Rightarrow> json \<times> json" where
  "as_emitted v = (field ''type'' v, field ''data'' v)"

definition redacted_pair :: "pytext \<times> json \<Rightarrow> json \<times> json" where
  "redacted_pair = (\<lambda>(kind, data). (twice (JStr kind), twice data))"

lemma as_emitted_ui:
  "ev_data e = obj [(''ui_type'', a), (''payload'', b)] \<Longrightarrow> as_emitted (ui_event stamp e) = (a, b)"
  by (simp add: as_emitted_def ui_event_def)

lemma emit_all_appends:
  assumes "log_inv s run"
  shows "\<exists>s' new. emit_all stamp run es s = Inr s' \<and> log_inv s' run \<and> logged s' run = logged s run @ new
     \<and> list_all (\<lambda>e. ev_type e = UI_EVENT) new
     \<and> map (\<lambda>e. as_emitted (ui_event stamp e)) new = map redacted_pair es"
  using assms
proof (induction es arbitrary: s)
  case (Cons x es)
  obtain kind data where x: "x = (kind, data)" by force
  obtain s1 e ev where e: "emit stamp s run kind data = Inr (s1, ev)" "log_inv s1 run" "logged s1 run = logged s run @ [e]"
    "ev_type e = UI_EVENT" "ev_data e = obj [(''ui_type'', twice (JStr kind)), (''payload'', twice data)]"
    using emit_appends [OF Cons.prems] by blast
  obtain s' new where n: "emit_all stamp run es s1 = Inr s'" "log_inv s' run" "logged s' run = logged s1 run @ new"
    "list_all (\<lambda>e. ev_type e = UI_EVENT) new" "map (\<lambda>e. as_emitted (ui_event stamp e)) new = map redacted_pair es"
    using Cons.IH [OF e(2)] by blast
  have "map (\<lambda>e. as_emitted (ui_event stamp e)) (e # new) = map redacted_pair (x # es)"
    using n(5) as_emitted_ui [OF e(5)] x by (simp add: redacted_pair_def)
  then show ?case using e n x by (intro exI [of _ s'] exI [of _ "e # new"]) simp
qed simp

subsection \<open>The cursor\<close>

lemma sequence_ui: "sequence_of (ui_event stamp e) = ev_seq e"
  by (simp add: sequence_of_def ui_event_def)

lemma send_cursor:
  "sorted_wrt (<) (cursor # map ev_seq xs) \<Longrightarrow>
     fst (send_frames cursor (map (ui_event stamp) xs)) = (if xs = [] then cursor else ev_seq (last xs))"
proof (induction xs arbitrary: cursor)
  case (Cons e xs)
  then have "max cursor (ev_seq e) = ev_seq e" by simp
  with Cons.IH [of "ev_seq e"] Cons.prems show ?case
    by (simp add: sequence_ui Let_def case_prod_beta)
qed simp

lemma filter_after_take:
  fixes f :: "'a \<Rightarrow> nat"
  assumes "sorted_wrt (<) (map f xs)" "0 < n" "xs \<noteq> []"
  shows "filter (\<lambda>x. f (last (take n xs)) < f x) xs = drop n xs"
proof -
  have ne: "take n xs \<noteq> []" using assms(2,3) by simp
  have split: "sorted_wrt (<) (map f (take n xs) @ map f (drop n xs))"
    using assms(1) by (simp flip: map_append)
  then have "\<forall>x\<in>set (take n xs). \<forall>y\<in>set (drop n xs). f x < f y"
    by (simp add: sorted_wrt_append)
  moreover have "\<not> f (last (take n xs)) < f x" if "x \<in> set (take n xs)" for x
  proof -
    have "take n xs = butlast (take n xs) @ [last (take n xs)]" using ne by simp
    moreover have "sorted_wrt (<) (map f (take n xs))" using split by (simp add: sorted_wrt_append)
    ultimately have "sorted_wrt (<) (map f (butlast (take n xs)) @ [f (last (take n xs))])" by (metis list.simps(8,9) map_append)
    then have "\<forall>y\<in>set (butlast (take n xs)). f y < f (last (take n xs))" by (simp add: sorted_wrt_append)
    then show ?thesis using that ne by (metis append_butlast_last_id in_set_butlastD not_less_iff_gr_or_eq rotate1.simps(2) set_ConsD set_rotate1)
  qed
  ultimately have "filter (\<lambda>x. f (last (take n xs)) < f x) (take n xs @ drop n xs) = drop n xs"
    using ne by (auto simp: filter_empty_conv filter_id_conv simp del: append_take_drop_id)
  then show ?thesis by simp
qed

definition numbered :: "event list \<Rightarrow> bool" where
  "numbered es \<longleftrightarrow> map ev_seq es = [1..<Suc (length es)]"

lemma numbered_log: "log_inv s run \<Longrightarrow> numbered (logged s run)"
  using events_seq(1) by (simp add: log_inv_def store_inv_def wf_db_def numbered_def logged_def)

lemma unread_sorted: "numbered es \<Longrightarrow> sorted_wrt (<) (map ev_seq (unread c es))"
proof -
  assume "numbered es"
  then have "sorted_wrt (<) (map ev_seq es)" by (simp add: numbered_def del: upt_Suc)
  then show ?thesis by (simp add: unread_def sorted_wrt_map sorted_wrt_filter)
qed

definition sent_and_pending :: "(event \<Rightarrow> json) \<Rightarrow> event list \<Rightarrow> reader \<Rightarrow> (json \<times> json) list" where
  "sent_and_pending stamp es r = map as_emitted (rd_sent r @ map (ui_event stamp) (unread (rd_cursor r) es))"

lemma stream_round_step:
  assumes "numbered es"
  shows "unread (rd_cursor (stream_round stamp es r)) es = drop PAGE (unread (rd_cursor r) es)"
    and "rd_sent (stream_round stamp es r) = rd_sent r @ map (ui_event stamp) (take PAGE (unread (rd_cursor r) es))"
proof -
  let ?xs = "unread (rd_cursor r) es"
  have sent: "read_events stamp (rd_cursor r) PAGE es = map (ui_event stamp) (take PAGE ?xs)"
    by (simp add: read_events_def take_map)
  then show "rd_sent (stream_round stamp es r) = rd_sent r @ map (ui_event stamp) (take PAGE ?xs)"
    by (auto simp: stream_round_def Let_def split: prod.splits)
  show "unread (rd_cursor (stream_round stamp es r)) es = drop PAGE ?xs"
  proof (cases "?xs = []")
    case True
    then show ?thesis using sent by (auto simp: stream_round_def Let_def split: prod.splits)
  next
    case False
    have page: "0 < PAGE" by (simp add: PAGE_def)
    have srt: "sorted_wrt (<) (map ev_seq ?xs)" by (rule unread_sorted [OF assms])
    then have "sorted_wrt (<) (map ev_seq (take PAGE ?xs))"
      by (metis append_take_drop_id map_append sorted_wrt_append)
    then have "sorted_wrt (<) (rd_cursor r # map ev_seq (take PAGE ?xs))"
      using in_set_takeD by (fastforce simp: unread_def)
    from send_cursor [OF this, of stamp] have "rd_cursor (stream_round stamp es r) = ev_seq (last (take PAGE ?xs))"
      using sent False page by (auto simp: stream_round_def Let_def split: prod.splits)
    moreover have "rd_cursor r < ev_seq (last (take PAGE ?xs))"
      using False page last_in_set [of "take PAGE ?xs"] in_set_takeD by (fastforce simp: unread_def)
    then have "unread (ev_seq (last (take PAGE ?xs))) es = filter (\<lambda>x. ev_seq (last (take PAGE ?xs)) < ev_seq x) ?xs"
      by (auto simp: unread_def intro!: filter_cong)
    ultimately show ?thesis using filter_after_take [OF srt page False] by simp
  qed
qed


lemma numbered_le: "numbered es \<Longrightarrow> x \<in> set es \<Longrightarrow> ev_seq x \<le> length es"
proof -
  assume "numbered es" "x \<in> set es"
  then have "ev_seq x \<in> set [1..<Suc (length es)]" unfolding numbered_def by (metis imageI set_map)
  then show ?thesis by auto
qed

lemma unread_end: "numbered es \<Longrightarrow> unread (length es) es = []"
  using numbered_le by (force simp: unread_def filter_empty_conv)

lemma stream_round_cursor:
  assumes "numbered es" "rd_cursor r \<le> length es"
  shows "rd_cursor (stream_round stamp es r) \<le> length es"
proof -
  have "fst (send_frames c xs) \<le> length es" if "c \<le> length es" "\<forall>x\<in>set xs. sequence_of x \<le> length es" for c xs
    using that by (induction c xs rule: send_frames.induct) (simp_all add: Let_def case_prod_beta)
  moreover have "\<forall>x\<in>set (read_events stamp (rd_cursor r) PAGE es). sequence_of x \<le> length es"
    using numbered_le [OF assms(1)] by (auto simp: read_events_def sequence_ui unread_def dest!: in_set_takeD)
  ultimately show ?thesis using assms(2)
    by (auto simp: stream_round_def Let_def split: prod.splits) (metis fst_conv)
qed

lemma unread_append:
  assumes "numbered (es @ new)" "c \<le> length es" "list_all (\<lambda>e. ev_type e = UI_EVENT) new"
  shows "unread c (es @ new) = unread c es @ new"
proof -
  have "c < ev_seq x" if "x \<in> set new" for x
  proof -
    have "map ev_seq new = drop (length es) (map ev_seq (es @ new))" by simp
    also have "\<dots> = [Suc (length es)..<Suc (length es + length new)]" using assms(1) by (simp add: numbered_def del: upt_Suc)
    finally have "ev_seq x \<in> set [Suc (length es)..<Suc (length es + length new)]" using that by (metis imageI set_map)
    then show ?thesis using assms(2) by auto
  qed
  then show ?thesis using assms(3) by (auto simp: unread_def list_all_iff)
qed

lemma serve_delivers:
  assumes "log_inv s run" "rd_cursor r \<le> length (logged s run)"
  shows "\<exists>s' r'. serve stamp run bs (s, r) = Inr (s', r')
     \<and> sent_and_pending stamp (logged s' run) r' = sent_and_pending stamp (logged s run) r @ map redacted_pair (concat bs)
     \<and> (unread (rd_cursor r) (logged s run) = [] \<and> list_all (\<lambda>b. length b \<le> PAGE) bs \<longrightarrow> unread (rd_cursor r') (logged s' run) = [])"
  using assms
proof (induction bs arbitrary: s r)
  case (Cons b bs)
  obtain s1 new where n: "emit_all stamp run b s = Inr s1" "log_inv s1 run" "logged s1 run = logged s run @ new"
    "list_all (\<lambda>e. ev_type e = UI_EVENT) new" "map (\<lambda>e. as_emitted (ui_event stamp e)) new = map redacted_pair b"
    using emit_all_appends [OF Cons.prems(1)] by blast
  define r1 where "r1 = stream_round stamp (logged s1 run) r"
  have num: "numbered (logged s1 run)" by (rule numbered_log [OF n(2)])
  have un: "unread (rd_cursor r) (logged s1 run) = unread (rd_cursor r) (logged s run) @ new"
    using unread_append num n(3,4) Cons.prems(2) by metis
  have c1: "rd_cursor r1 \<le> length (logged s1 run)"
    unfolding r1_def by (rule stream_round_cursor [OF num]) (use n(3) Cons.prems(2) in simp)
  obtain s' r' where s': "serve stamp run bs (s1, r1) = Inr (s', r')"
    "sent_and_pending stamp (logged s' run) r' = sent_and_pending stamp (logged s1 run) r1 @ map redacted_pair (concat bs)"
    "unread (rd_cursor r1) (logged s1 run) = [] \<and> list_all (\<lambda>b. length b \<le> PAGE) bs \<longrightarrow> unread (rd_cursor r') (logged s' run) = []"
    using Cons.IH [OF n(2) c1] by blast
  have "sent_and_pending stamp (logged s1 run) r1 = sent_and_pending stamp (logged s run) r @ map redacted_pair b"
  proof -
    let ?xs = "unread (rd_cursor r) (logged s1 run)"
    have "sent_and_pending stamp (logged s1 run) r1 = map as_emitted (rd_sent r @ map (ui_event stamp) (take PAGE ?xs @ drop PAGE ?xs))"
      by (simp add: sent_and_pending_def r1_def stream_round_step [OF num] del: append_take_drop_id)
    also have "\<dots> = map as_emitted (rd_sent r @ map (ui_event stamp) ?xs)" by (simp only: append_take_drop_id)
    also have "\<dots> = sent_and_pending stamp (logged s run) r @ map redacted_pair b"
      using n(5) unfolding un by (simp add: sent_and_pending_def comp_def)
    finally show ?thesis .
  qed
  moreover have "length b = length new" using n(5) by (metis length_map)
  then have "unread (rd_cursor r1) (logged s1 run) = []" if "unread (rd_cursor r) (logged s run) = []" "length b \<le> PAGE"
    using that un stream_round_step(1) [OF num] by (simp add: r1_def)
  ultimately show ?case using n(1) s' by (intro exI [of _ s'] exI [of _ r']) (auto simp flip: r1_def)
qed simp

subsection \<open>Properties\<close>



text \<open>The import splits the file at every line boundary, also at a line separator inside a record.\<close>

lemma line_separator_breaks_record:
  "map (\<lambda>t. last t) (splitlines (dumps_default (JStr [97, 8232, 98]) @ [10])) = [97, 34]"
  by code_simp

text \<open>The page that shows a run reads the first events only: later ones do not change it.\<close>

lemma page_ignores_later_events:
  "length (unread 0 es) \<ge> PAGE \<Longrightarrow> read_events stamp 0 PAGE (es @ es') = read_events stamp 0 PAGE es"
  by (simp add: read_events_def unread_def)

end
