(* ===== verification/Settings.thy ===== *)
theory Settings
  imports Shlex
begin

text \<open>
  \<open>config.py\<close>: how settings are put together. A file is read, the command line's values are merged over
  it, the result is validated (by pydantic, a parameter, as is the YAML reader), and what is still open is
  taken from the installation and the environment. A configured verification command is split into
  arguments as a POSIX shell does (\<open>Shlex\<close>).
\<close>

subsection \<open>Merging\<close>

fun deep_merge :: "(pytext \<times> json) list \<Rightarrow> (pytext \<times> json) list \<Rightarrow> (pytext \<times> json) list" where
  "deep_merge base [] = base"
| "deep_merge base ((k, JObj o1) # rest) =
     deep_merge (dput k (case dget base k of Some (JObj b) \<Rightarrow> JObj (deep_merge b o1) | _ \<Rightarrow> JObj o1) base) rest"
| "deep_merge base ((k, v) # rest) = deep_merge (dput k v base) rest"

definition given :: "(pytext \<times> json) list \<Rightarrow> (pytext \<times> json) list" where
  \<comment> \<open>the overrides that are not \<open>None\<close>\<close>
  "given overrides = filter (\<lambda>kv. snd kv \<noteq> JNull) overrides"

subsection \<open>Loading\<close>

record worker_config =
  wc_dockerfile :: "pytext option"
  wc_context :: "pytext option"
  wc_model :: "pytext option"
  wc_base_url :: "pytext option"
  wc_provider :: "pytext option"

record installation =
  in_environ :: "(pytext, pytext) dict"
  in_source_dockerfile :: pytext
  in_source_present :: bool  \<comment> \<open>the repository's own file exists\<close>
  in_packaged_dockerfile :: pytext
  in_package :: pytext

definition env_or :: "(pytext, pytext) dict \<Rightarrow> string \<Rightarrow> string \<Rightarrow> pytext option" where
  \<comment> \<open>\<open>os.getenv(a) or os.getenv(b)\<close>\<close>
  "env_or environ a b = (case dget environ (u a) of
      Some t \<Rightarrow> if t = [] then dget environ (u b) else Some t
    | None \<Rightarrow> dget environ (u b))"

definition or_default :: "'a option \<Rightarrow> 'a option \<Rightarrow> 'a option" where
  "or_default v d = (case v of None \<Rightarrow> d | Some x \<Rightarrow> Some x)"

definition completed_config :: "installation \<Rightarrow> worker_config \<Rightarrow> worker_config" where
  "completed_config i c =
     c\<lparr>wc_dockerfile := or_default (wc_dockerfile c)
         (Some (if in_source_present i then in_source_dockerfile i else in_packaged_dockerfile i)),
       wc_context := or_default (wc_context c) (Some (in_package i)),
       wc_model := or_default (wc_model c) (env_or (in_environ i) ''LIGHTWORKER_MODEL'' ''OPENAI_MODEL''),
       wc_base_url := or_default (wc_base_url c) (env_or (in_environ i) ''LIGHTWORKER_BASE_URL'' ''OPENAI_BASE_URL''),
       wc_provider := or_default (wc_provider c) (dget (in_environ i) (u ''LIGHTWORKER_PROVIDER''))\<rparr>"

definition load_config :: "(pytext \<Rightarrow> json result) \<Rightarrow> (json \<Rightarrow> worker_config result) \<Rightarrow> installation
    \<Rightarrow> pytext option \<Rightarrow> (pytext \<times> json) list \<Rightarrow> worker_config result" where
  "load_config yaml validate i file overrides =
     bindE (case file of None \<Rightarrow> Inr (JObj []) | Some t \<Rightarrow> bindE (yaml t) (\<lambda>v. Inr (or_else v (JObj [])))) (\<lambda>raw.
     guardE (\<not> is_obj raw) (ValueError ''configuration root must be a mapping'')
    (bindE (validate (JObj (deep_merge (entries raw) (given overrides)))) (\<lambda>c. Inr (completed_config i c))))"

definition resolved_api_key :: "(pytext, pytext) dict \<Rightarrow> pytext option \<Rightarrow> pytext \<Rightarrow> pytext option" where
  "resolved_api_key environ key env_name =
     (case key of Some t \<Rightarrow> Some t
      | None \<Rightarrow> (case dget environ env_name of
            Some t \<Rightarrow> if t = [] then dget environ (u ''OPENAI_API_KEY'') else Some t
          | None \<Rightarrow> dget environ (u ''OPENAI_API_KEY'')))"

definition LANGUAGES :: "pytext list" where
  "LANGUAGES = map u [''bilingual'', ''zh-CN'', ''en'']"

definition validate_language :: "pytext \<Rightarrow> pytext result" where
  "validate_language t = guardE (t \<notin> set LANGUAGES) (ValueError ''language must be bilingual, zh-CN, or en'') (Inr t)"

subsection \<open>Verification commands\<close>

record verification_command =
  vc_name :: pytext
  vc_argv :: "pytext list"
  vc_kind :: string

definition parse_verification_command :: "pytext \<Rightarrow> string \<Rightarrow> nat \<Rightarrow> verification_command result" where
  "parse_verification_command raw kind n =
     bindE (shlex_split raw) (\<lambda>argv. Inr \<lparr>vc_name = u kind @ 45 # nat_repr n, vc_argv = argv, vc_kind = kind\<rparr>)"

subsection \<open>Reading a setting\<close>

fun setting :: "pytext list \<Rightarrow> json \<Rightarrow> json option" where
  \<comment> \<open>the value at a path of keys\<close>
  "setting [] v = Some v"
| "setting (k # ks) (JObj kvs) = (case dget kvs k of None \<Rightarrow> None | Some w \<Rightarrow> setting ks w)"
| "setting (k # ks) v = None"

fun silent :: "pytext list \<Rightarrow> json \<Rightarrow> bool" where
  \<comment> \<open>a layer says nothing about a path: it has mappings along it and stops at a missing key\<close>
  "silent [] v = False"
| "silent (k # ks) (JObj kvs) = (case dget kvs k of None \<Rightarrow> True | Some w \<Rightarrow> silent ks w)"
| "silent (k # ks) v = False"


fun distinct_keys :: "json \<Rightarrow> bool" where
  "distinct_keys (JObj kvs) \<longleftrightarrow> distinct (map fst kvs) \<and> list_all (\<lambda>kv. distinct_keys (snd kv)) kvs"
| "distinct_keys (JList vs) \<longleftrightarrow> list_all distinct_keys vs"
| "distinct_keys v \<longleftrightarrow> True"

definition merged_value :: "json option \<Rightarrow> json \<Rightarrow> json" where
  "merged_value old v = (case v of
      JObj o1 \<Rightarrow> (case old of Some (JObj b) \<Rightarrow> JObj (deep_merge b o1) | _ \<Rightarrow> JObj o1)
    | _ \<Rightarrow> v)"

lemma dget_deep_merge:
  "distinct (map fst ov) \<Longrightarrow> dget (deep_merge b ov) k = (case dget ov k of None \<Rightarrow> dget b k | Some v \<Rightarrow> Some (merged_value (dget b k) v))"
proof (induction ov arbitrary: b)
  case (Cons kv ov)
  obtain k' v where kv: "kv = (k', v)" by force
  have step: "deep_merge b (kv # ov) = deep_merge (dput k' (merged_value (dget b k') v) b) ov"
    unfolding kv by (cases v) (simp_all add: merged_value_def)
  have "dget ov k' = None" using Cons.prems kv by (simp add: dget_None_iff)
  then show ?case unfolding step using Cons kv by (auto simp: dict_simps split: option.splits)
qed simp

lemma setting_leaf_merge:
  assumes "distinct_keys (JObj ov)" "\<not> is_obj v" "ks \<noteq> []"
  shows "setting ks (JObj (deep_merge b ov)) = Some v \<longleftrightarrow>
    setting ks (JObj ov) = Some v \<or> silent ks (JObj ov) \<and> setting ks (JObj b) = Some v"
  using assms
proof (induction ks arbitrary: b ov)
  case (Cons k ks)
  have at: "dget (deep_merge b ov) k = (case dget ov k of None \<Rightarrow> dget b k | Some v \<Rightarrow> Some (merged_value (dget b k) v))"
    using Cons.prems(1) by (intro dget_deep_merge) simp
  show ?case
  proof (cases "dget ov k")
    case None
    then show ?thesis using at by simp
  next
    case (Some w)
    have dk: "distinct_keys w" using Some Cons.prems(1) map_of_SomeD by (fastforce simp: list_all_iff)
    show ?thesis
    proof (cases w)
      case (JObj o1)
      show ?thesis
      proof (cases ks)
        case Nil
        then show ?thesis using Some at JObj Cons.prems(2)
          by (cases "dget b k") (auto simp: merged_value_def split: json.splits)
      next
        case (Cons k1 ks1)
        have ih: "setting ks (JObj (deep_merge b1 o1)) = Some v \<longleftrightarrow>
            setting ks (JObj o1) = Some v \<or> silent ks (JObj o1) \<and> setting ks (JObj b1) = Some v" for b1
          by (rule Cons.IH) (use dk JObj \<open>\<not> is_obj v\<close> Cons in auto)
        show ?thesis using Some at JObj ih Cons
          by (cases "dget b k") (auto simp: merged_value_def split: json.splits)
      qed
    qed (use Some at in \<open>cases ks; simp add: merged_value_def\<close>)+
  qed
qed simp

subsection \<open>Properties\<close>

text \<open>
  C23. A value that was given on the command line wins over the file at every depth, and what the command
  line leaves open keeps the file's value: a setting of the merged configuration is the override's where the
  override has one, and the file's exactly where the override says nothing about its path.
\<close>

theorem overrides_win_at_every_depth:
  assumes "distinct_keys (JObj overrides)" "\<not> is_obj v" "ks \<noteq> []"
  shows "setting ks (JObj (deep_merge base overrides)) = Some v \<longleftrightarrow>
    setting ks (JObj overrides) = Some v \<or> silent ks (JObj overrides) \<and> setting ks (JObj base) = Some v"
  by (rule setting_leaf_merge [OF assms])

definition example_file :: "(pytext \<times> json) list" where
  "example_file = [(u ''model'', JObj [(u ''model'', JStr (u ''m'')), (u ''provider'', JStr (u ''p''))]), (u ''image'', JStr (u ''i''))]"

definition example_overrides :: "(pytext \<times> json) list" where
  "example_overrides = [(u ''model'', JObj [(u ''model'', JStr (u ''n''))])]"

lemma overrides_win_at_every_depth_witness:
  "setting [u ''model'', u ''model''] (JObj (deep_merge example_file example_overrides)) = Some (JStr (u ''n''))
   \<and> setting [u ''model'', u ''provider''] (JObj (deep_merge example_file example_overrides)) = Some (JStr (u ''p''))"
proof -
  have ex: "distinct_keys (JObj example_overrides)"
    "setting [u ''model'', u ''model''] (JObj example_overrides) = Some (JStr (u ''n''))"
    "silent [u ''model'', u ''provider''] (JObj example_overrides)"
    "setting [u ''model'', u ''provider''] (JObj example_file) = Some (JStr (u ''p''))"
    by code_simp+
  show ?thesis
    by (intro conjI; rule overrides_win_at_every_depth [THEN iffD2, OF ex(1)])
      (use ex(2-4) in \<open>simp_all del: setting.simps silent.simps u_Cons\<close>)
qed

end
