(* ===== verification/Service.thy ===== *)
theory Service
  imports Conversations Ui_Events Run_View Tool_Protocol Jobs Goals Settings Sandbox_Helper Py_Net
begin

text \<open>
  Requests of the HTTP service in \<open>web.py\<close> that \<open>Conversations\<close> does not hold: the check of a request's
  origin, the files it serves, the fork of a task, decisions and reruns, live steering, the control of a
  task's jobs and the update of its goal. A request that is refused answers with an \<open>HTTPException\<close>. Routing,
  validation of bodies and the transport are FastAPI's; LightAgent's \<open>Session.fork\<close> is a parameter.
\<close>

subsection \<open>Requests\<close>

record http_request =
  hr_method :: string
  hr_origin :: "pytext option"
  hr_host :: "pytext option"

definition cross_origin :: "(pytext \<Rightarrow> pytext) \<Rightarrow> http_request \<Rightarrow> bool result" where
  "cross_origin nfkc rq =
     (if hr_method rq \<notin> {''GET'', ''HEAD'', ''OPTIONS''} \<and> hr_origin rq \<noteq> None \<and> hr_origin rq \<noteq> Some []
      then bindE (urlsplit nfkc (the (hr_origin rq))) (\<lambda>x. Inr (Some (ul_netloc x) \<noteq> hr_host rq))
      else Inr False)"

definition client_error :: "exn \<Rightarrow> bool" where
  \<comment> \<open>\<open>KeyError\<close> or \<open>ValueError\<close>\<close>
  "client_error e = (case e of ValueError _ \<Rightarrow> True | ValueText _ \<Rightarrow> True | KeyError _ \<Rightarrow> True | _ \<Rightarrow> False)"

definition serve_http :: "(pytext \<Rightarrow> pytext) \<Rightarrow> http_request \<Rightarrow> ('s, 'a) act \<Rightarrow> ('s, 'a) act" where
  \<comment> \<open>the middleware \<open>check_origin\<close>\<close>
  "serve_http nfkc rq handler s =
     (case cross_origin nfkc rq of
        Inl e \<Rightarrow> (s, Inl e)
      | Inr True \<Rightarrow> (s, Inl (HTTPException 403 ''cross-origin mutation is not allowed''))
      | Inr False \<Rightarrow> (case handler s of
            (s', Inl e) \<Rightarrow> (s', Inl (if client_error e then HTTPException 400 ''bad request'' else e))
          | (s', Inr x) \<Rightarrow> (s', Inr x)))"

record service =
  ws_web :: web
  ws_store :: rstore
  ws_registries :: "(string, registry) dict"
  ws_brokers :: "(string, broker) dict"
  ws_goals :: "(string, goal) dict"

definition load_or_404 :: "service \<Rightarrow> string \<Rightarrow> run result" where
  "load_or_404 s i = (case load_record (ws_web s) i of None \<Rightarrow> Inl (HTTPException 404 ''run not found'') | Some r \<Rightarrow> Inr r)"

definition submit_existing :: "web \<Rightarrow> string \<Rightarrow> web result" where
  "submit_existing w i = (case submit w i of Inl e \<Rightarrow> (if client_error e then Inl (HTTPException 409 ''run already has an active job'') else Inl e) | Inr w' \<Rightarrow> Inr w')"

subsection \<open>Files\<close>

definition file_view :: "stored_file \<Rightarrow> pytext" where
  \<comment> \<open>JSON documents are written with an indentation of two\<close>
  "file_view f = (case f of FText t \<Rightarrow> t | FJson v \<Rightarrow> dumps_indent 0 v)"

definition stored_at :: "rstore \<Rightarrow> string \<Rightarrow> pytext \<Rightarrow> stored_file option result" where
  "stored_at st run name = bindE (artifact_path run name) (\<lambda>_. Inr (dget (rs_files st) (run, path_parts name)))"

definition VIEW_LIMIT :: int where
  "VIEW_LIMIT = 2000000"

definition read_artifact :: "rstore \<Rightarrow> string \<Rightarrow> pytext \<Rightarrow> pytext result" where
  "read_artifact st run name =
     bindE (stored_at st run name) (\<lambda>f. case f of
         None \<Rightarrow> Inl (HTTPException 404 ''artifact not available'')
       | Some f \<Rightarrow> guardE (VIEW_LIMIT < int (length (utf8 (file_view f)))) (HTTPException 413 ''artifact is too large for the web viewer'')
           (Inr (file_view f)))"

definition has_text_artifact :: "rstore \<Rightarrow> string \<Rightarrow> pytext \<Rightarrow> bool result" where
  "has_text_artifact st run name =
     bindE (stored_at st run name) (\<lambda>f. Inr (case f of None \<Rightarrow> False | Some f \<Rightarrow> strip (file_view f) \<noteq> []))"

definition ARTIFACTS :: "(string \<times> string) list" where
  "ARTIFACTS = [(''plan'', ''plan.md''), (''summary'', ''summary.md''), (''diff'', ''changes.patch''), (''trace'', ''trace.jsonl''),
     (''session'', ''lightagent-session.json''), (''runtime'', ''lightagent-runtime.json''),
     (''conversation'', ''lightagent-conversation.json''), (''status'', ''git-status.txt''),
     (''task_session'', ''task-session.json''), (''evidence'', ''evidence.json''),
     (''artifact_manifest'', ''artifacts.json''), (''context'', ''context-state.json'')]"

definition get_artifact :: "service \<Rightarrow> string \<Rightarrow> string \<Rightarrow> pytext result" where
  "get_artifact s i artifact =
     bindE (load_or_404 s i) (\<lambda>r. case map_of ARTIFACTS artifact of
         None \<Rightarrow> Inl (HTTPException 404 ''unknown artifact'')
       | Some filename \<Rightarrow> read_artifact (ws_store s) (if artifact = ''conversation'' then root_run_id r else i) (u filename))"

definition log_char :: "int \<Rightarrow> bool" where
  "log_char c \<longleftrightarrow> is_alnum c \<or> c \<in> {46, 95, 45}"

definition safe_log_name :: "pytext \<Rightarrow> bool" where
  \<comment> \<open>\<open>[A-Za-z0-9][A-Za-z0-9._-]*\.log\<close>\<close>
  "safe_log_name t \<longleftrightarrow> 5 \<le> length t \<and> is_alnum (hd t) \<and> list_all log_char t \<and> ends_with (u ''.log'') t"

definition get_log :: "service \<Rightarrow> string \<Rightarrow> pytext \<Rightarrow> pytext result" where
  "get_log s i name =
     bindE (load_or_404 s i) (\<lambda>_. guardE (\<not> safe_log_name name) (HTTPException 404 ''unknown log'')
       (read_artifact (ws_store s) i (u ''logs/'' @ name)))"

definition screenshot_name :: "pytext \<Rightarrow> bool" where
  \<comment> \<open>\<open>screenshot-[1-9][0-9]*\.png\<close>\<close>
  "screenshot_name t \<longleftrightarrow> starts_with (u ''screenshot-'') t \<and> ends_with (u ''.png'') t \<and> 16 \<le> length t
     \<and> list_all is_digit (take (length t - 15) (drop 11 t)) \<and> hd (drop 11 t) \<noteq> 48"

definition get_browser_artifact :: "service \<Rightarrow> string \<Rightarrow> pytext \<Rightarrow> stored_file result" where
  "get_browser_artifact s i name =
     bindE (load_or_404 s i) (\<lambda>_. guardE (\<not> screenshot_name name) (HTTPException 404 ''unknown browser artifact'')
       (bindE (stored_at (ws_store s) i (u ''browser/'' @ name)) (\<lambda>f. case f of
           None \<Rightarrow> Inl (HTTPException 404 ''browser artifact not available'') | Some f \<Rightarrow> Inr f)))"

definition list_logs :: "service \<Rightarrow> string \<Rightarrow> (pytext \<times> nat) list result" where
  "list_logs s i =
     bindE (load_or_404 s i) (\<lambda>_. bindE (artifact_path i (u ''logs'')) (\<lambda>_.
       Inr (sort_key fst (map (\<lambda>((_, p), f). (last p, length (utf8 (file_view f))))
         (filter (\<lambda>((run, p), _). run = i \<and> length p = 2 \<and> hd p = u ''logs'' \<and> ends_with (u ''.log'') (last p)) (rs_files (ws_store s)))))))"

subsection \<open>Forking a task\<close>

definition FOREIGN :: "string list" where
  "FOREIGN = [''lightworker.'', ''job.'', ''agent.'', ''goal.'', ''control.'', ''capability.'']"

definition inherited :: "event \<Rightarrow> bool" where
  "inherited e \<longleftrightarrow> \<not> list_ex (\<lambda>p. take (length p) (ev_type e) = p) FOREIGN"

definition renumbered :: "event list \<Rightarrow> event list" where
  "renumbered es = map2 (\<lambda>n e. e\<lparr>ev_seq := n\<rparr>) [1..<Suc (length es)] es"

definition fork_session :: "lightagent \<Rightarrow> (session \<Rightarrow> string \<Rightarrow> json \<Rightarrow> session) \<Rightarrow> db \<Rightarrow> string \<Rightarrow> string \<Rightarrow> db result" where
  "fork_session la forked d i new =
     (case load d i of
        None \<Rightarrow> Inr d
      | Some native \<Rightarrow>
          (let fork = forked native new (obj [(''lightworker_source_run'', JStr (u i))]);
               fork = fork\<lparr>se_events := renumbered (filter inherited (se_events fork))\<rparr>
           in bindE (create la d fork) (\<lambda>(d', _). Inr d')))"

definition fork_task :: "(session \<Rightarrow> string \<Rightarrow> json \<Rightarrow> session) \<Rightarrow> service \<Rightarrow> string \<Rightarrow> pytext \<Rightarrow> string \<Rightarrow> service result" where
  \<comment> \<open>the new identifier comes from \<open>uuid4\<close>\<close>
  "fork_task forked s i message new =
     bindE (load_or_404 s i) (\<lambda>selected.
     bindE (prepare_followup (ws_web s) selected message new None) (\<lambda>(w, spec).
     bindE (fork_session (rs_la (ws_store s)) forked (rs_db (ws_store s)) i new) (\<lambda>d.
     bindE (submit_spec w (spec\<lparr>rn_parent := None, rn_root := Some new\<rparr>)) (\<lambda>w'.
       Inr (s\<lparr>ws_web := w', ws_store := (ws_store s)\<lparr>rs_db := d\<rparr>\<rparr>)))))"

definition add_checkpoint :: "service \<Rightarrow> string \<Rightarrow> (service \<times> event) result" where
  "add_checkpoint s i =
     bindE (load_or_404 s i) (\<lambda>_.
     bindE (append_event (ws_store s) i ''task.checkpoint'' (obj [(''through_sequence'', JInt (int (length (logged (ws_store s) i))))]) None)
       (\<lambda>(st, e). Inr (s\<lparr>ws_store := st\<rparr>, e)))"

subsection \<open>Decisions, reruns, steering\<close>

definition optional_json :: "rstore \<Rightarrow> string \<Rightarrow> pytext \<Rightarrow> (rstore \<times> json) result" where
  \<comment> \<open>a document that is missing or no JSON reads as \<open>None\<close>\<close>
  "optional_json st run name = (case read_json st run name of
      Inl FileNotFoundError \<Rightarrow> Inr (st, JNull)
    | Inl (ValueError ''invalid JSON'') \<Rightarrow> Inr (st, JNull)
    | r \<Rightarrow> r)"

definition load_flow_record :: "rstore \<Rightarrow> string \<Rightarrow> (rstore \<times> json) result" where
  "load_flow_record st run = bindE (optional_json st run (u ''flow/'' @ u run @ u ''.json'')) (\<lambda>(st, v). Inr (st, obj_or_empty v))"

definition broker_of :: "service \<Rightarrow> string \<Rightarrow> broker" where
  "broker_of s i = (case dget (ws_brokers s) i of None \<Rightarrow> empty_broker | Some b \<Rightarrow> b)"

definition decide_request :: "service \<Rightarrow> string \<Rightarrow> (service \<times> pytext) result" where
  \<comment> \<open>the request or step that the submitted job decides\<close>
  "decide_request s i =
     bindE (load_or_404 s i) (\<lambda>_.
       case pending_requests (broker_of s i) of
         rq # _ \<Rightarrow> bindE (submit_existing (ws_web s) i) (\<lambda>w. Inr (s\<lparr>ws_web := w\<rparr>, u (rq_id rq)))
       | [] \<Rightarrow>
           bindE (load_flow_record (ws_store s) i) (\<lambda>(st, flow).
           bindE (pending_approval flow) (\<lambda>a. case a of
               None \<Rightarrow> Inl (HTTPException 409 ''run has no pending approval'')
             | Some a \<Rightarrow> bindE (submit_existing (ws_web s) i) (\<lambda>w. Inr (s\<lparr>ws_web := w, ws_store := st\<rparr>, ap_step a)))))"

definition rerun_verify :: "service \<Rightarrow> string \<Rightarrow> service result" where
  "rerun_verify s i =
     bindE (load_or_404 s i) (\<lambda>r. guardE (rn_status r \<in> ACTIVE_STATUSES) (HTTPException 409 ''run is still active'')
       (bindE (submit_existing (ws_web s) i) (\<lambda>w. Inr (s\<lparr>ws_web := w\<rparr>))))"

definition review_run :: "service \<Rightarrow> string \<Rightarrow> string \<Rightarrow> pytext \<Rightarrow> pytext \<Rightarrow> (service \<times> json) result" where
  "review_run s i dec note now =
     bindE (load_or_404 s i) (\<lambda>r. guardE (rn_status r \<in> ACTIVE_STATUSES) (HTTPException 409 ''run is still active'')
       (bindE (has_text_artifact (ws_store s) i (u ''changes.patch'')) (\<lambda>ok.
          guardE (\<not> ok) (HTTPException 409 ''run has no patch to review'')
           (let v = obj [(''decision'', JStr (u dec)), (''note'', JStr (strip note)), (''recorded_at'', JStr now),
                  (''effect'', JStr (u ''audit_only; original repository was not modified''))]
            in bindE (write_json (ws_store s) i (u ''review-decision.json'') v) (\<lambda>st. Inr (s\<lparr>ws_store := st\<rparr>, v))))))"

definition steer_run :: "(event \<Rightarrow> json) \<Rightarrow> service \<Rightarrow> string \<Rightarrow> pytext \<Rightarrow> string \<Rightarrow> service result" where
  "steer_run stamp s i message now =
     bindE (load_or_404 s i) (\<lambda>r. guardE (rn_status r \<notin> ACTIVE_STATUSES) (HTTPException 409 ''only an active run accepts live steering'')
       (let w = ws_web s; (sanitized, credentials) = sanitize_and_capture_credentials [message]
        in bindE (vault_merge (wb_vault w) (u (root_run_id r)) credentials) (\<lambda>v.
             let (c, m) = add_steering (dget (wb_control w) i) (hd sanitized) now;
                 w' = w\<lparr>wb_vault := v, wb_control := dput i (control_state c) (wb_control w)\<rparr>
             in bindE (emit stamp (ws_store s) i (u ''steering_received'')
                    (obj [(''message'', JStr m), (''created_at'', JStr (u now)), (''consumed'', JBool False)])) (\<lambda>(st, _).
                  Inr (s\<lparr>ws_web := w', ws_store := st\<rparr>)))))"

subsection \<open>Jobs and goals\<close>

definition control_job :: "service \<Rightarrow> string \<Rightarrow> string \<Rightarrow> string \<Rightarrow> nat \<Rightarrow> string \<Rightarrow> nat \<Rightarrow> time \<Rightarrow> time \<Rightarrow> string \<Rightarrow> service result" where
  \<comment> \<open>\<open>n\<close> is the recursion limit of the cascade\<close>
  "control_job s i job action n me pid lease now today =
     bindE (load_or_404 s i) (\<lambda>_. case dget (ws_registries s) i of
         None \<Rightarrow> Inl (KeyError job)
       | Some reg \<Rightarrow> bindE (get_job reg job) (\<lambda>j.
           if j_kind j = ''task'' then
             (if action = ''resume'' then bindE (resume_run (ws_web s) i) (\<lambda>w. Inr (s\<lparr>ws_web := w\<rparr>))
              else if action = ''pause'' then bindE (control_run (ws_web s) i RPaused (u ''paused from task Job control'') today) (\<lambda>w. Inr (s\<lparr>ws_web := w\<rparr>))
              else if action = ''cancel'' then bindE (control_run (ws_web s) i RCancelled (u ''cancelled from task Job control'') today) (\<lambda>w. Inr (s\<lparr>ws_web := w\<rparr>))
              else Inl (HTTPException 400 ''unsupported task action''))
           else bindE (Jobs.control n reg me job action pid lease now) (\<lambda>reg'.
                  Inr (s\<lparr>ws_registries := dput i reg' (ws_registries s)\<rparr>))))"

record goal_update =
  gu_objective :: "pytext option"
  gu_criteria :: "pytext list option"
  gu_budget :: "budget option"

definition or_kept :: "'a option \<Rightarrow> 'a \<Rightarrow> 'a" where
  "or_kept v x = (case v of None \<Rightarrow> x | Some y \<Rightarrow> y)"

definition revised_goal :: "goal_update \<Rightarrow> goal \<Rightarrow> goal" where
  "revised_goal p g = g\<lparr>g_objective := or_kept (gu_objective p) (g_objective g),
     g_criteria := or_kept (map_option (filter (\<lambda>t. strip t \<noteq> [])) (gu_criteria p)) (g_criteria g),
     g_budget := or_kept (gu_budget p) (g_budget g)\<rparr>"

definition update_goal :: "service \<Rightarrow> string \<Rightarrow> goal_update \<Rightarrow> (service \<times> goal) result" where
  "update_goal s i p =
     bindE (load_or_404 s i) (\<lambda>_. case load_goal (dget (ws_goals s) i) of
         Inl _ \<Rightarrow> Inl (HTTPException 404 ''goal state not available'')
       | Inr g \<Rightarrow> (let g' = revised_goal p g in Inr (s\<lparr>ws_goals := dput i (stored_goal g') (ws_goals s)\<rparr>, g')))"

subsection \<open>The commands of a new task\<close>

definition autodetect_verification :: "bool \<Rightarrow> pytext list \<Rightarrow> verification_command list" where
  \<comment> \<open>whether \<open>tests\<close> is a directory, and the names that exist in the repository\<close>
  "autodetect_verification tests names =
     (if tests \<and> list_ex (\<lambda>n. u n \<in> set names) [''pyproject.toml'', ''pytest.ini'', ''setup.cfg'', ''tox.ini'']
      then [\<lparr>vc_name = u ''auto-pytest'', vc_argv = [u ''pytest'', u ''-q''], vc_kind = ''test''\<rparr>] else [])"

fun parse_commands :: "string \<Rightarrow> string \<Rightarrow> nat \<Rightarrow> pytext list \<Rightarrow> verification_command list result" where
  "parse_commands kind pre n [] = Inr []"
| "parse_commands kind pre n (raw # rs) =
     (if strip raw = [] then parse_commands kind pre (n + 1) rs
      else bindE (parse_verification_command raw kind n) (\<lambda>c.
        case validate_command (vc_argv c) of
          Inl (HelperError e) \<Rightarrow> Inl (HTTPException 422 e)
        | Inl e \<Rightarrow> Inl e
        | Inr _ \<Rightarrow> bindE (parse_commands kind pre (n + 1) rs) (\<lambda>cs. Inr (c\<lparr>vc_name := u pre @ 45 # nat_repr n\<rparr> # cs))))"


subsection \<open>Lemmas on served files\<close>

datatype file_request = Artifact string | LogFile pytext | Screenshot pytext

fun serve_file :: "service \<Rightarrow> string \<Rightarrow> file_request \<Rightarrow> pytext result" where
  "serve_file s i (Artifact a) = get_artifact s i a"
| "serve_file s i (LogFile n) = get_log s i n"
| "serve_file s i (Screenshot n) = bindE (get_browser_artifact s i n) (\<lambda>f. Inr (file_view f))"

definition viewable :: "pytext list \<Rightarrow> bool" where
  "viewable p \<longleftrightarrow> p \<in> set (map (\<lambda>(_, n). [u n]) ARTIFACTS)
     \<or> (\<exists>n. p = [u ''logs'', n] \<and> safe_log_name n) \<or> (\<exists>n. p = [u ''browser'', n] \<and> screenshot_name n)"

lemma split_on_plain: "s \<notin> set t \<Longrightarrow> split_on s t = [t]"
  by (induction t) auto

lemma split_on_dir: "s \<notin> set a \<Longrightarrow> split_on s (a @ s # t) = a # split_on s t"
  by (induction a) auto

lemma artifact_parts: "map_of ARTIFACTS a = Some n \<Longrightarrow> path_parts (u n) = [u n]"
proof -
  have "list_all (\<lambda>(_, n). path_parts (u n) = [u n]) ARTIFACTS" by code_simp
  then show "map_of ARTIFACTS a = Some n \<Longrightarrow> ?thesis" using map_of_SomeD by (fastforce simp: list_all_iff)
qed

lemma ends_with_suffix: "ends_with p t \<longleftrightarrow> suffix p t"
  by (simp add: ends_with_def starts_with_prefix suffix_to_prefix)

lemma log_name_parts: "safe_log_name n \<Longrightarrow> path_parts (u ''logs/'' @ n) = [u ''logs'', n]"
proof -
  assume n: "safe_log_name n"
  then have "slash \<notin> set n" by (auto simp: safe_log_name_def list_all_iff log_char_def slash_def is_alnum_def is_digit_def is_upper_def is_lower_def)
  moreover have "u ''logs/'' @ n = u ''logs'' @ slash # n" "slash \<notin> set (u ''logs'')" by (simp_all add: slash_def)
  ultimately have "split_on slash (u ''logs/'' @ n) = [u ''logs'', n]"
    by (simp add: split_on_dir split_on_plain del: u_Cons)
  moreover have "n \<noteq> []" "n \<noteq> u ''.''" using n by (auto simp: safe_log_name_def)
  ultimately show ?thesis by (simp add: path_parts_def)
qed

lemma cut_ends:
  assumes "n = p @ r" "n = q @ x" "length p + length x \<le> length n"
  shows "n = p @ take (length r - length x) r @ x"
proof -
  have "drop (length r - length x) r = drop (length p + (length r - length x)) n" using assms(1) by simp
  also have "length p + (length r - length x) = length q"
    using assms(3) arg_cong [OF assms(1), of length] arg_cong [OF assms(2), of length] by simp
  also have "drop (length q) n = x" using assms(2) by simp
  finally show ?thesis using assms(1) by (metis append_take_drop_id)
qed

lemma screenshot_chars: "screenshot_name n \<Longrightarrow> slash \<notin> set n \<and> n \<noteq> [] \<and> n \<noteq> u ''.''"
proof -
  assume n: "screenshot_name n"
  obtain r where r: "n = u ''screenshot-'' @ r" using n by (auto simp: screenshot_name_def starts_with_prefix prefix_def simp del: u_Cons)
  obtain q where q: "n = q @ u ''.png''" using n by (auto simp: screenshot_name_def ends_with_suffix suffix_def simp del: u_Cons)
  have len: "16 \<le> length n" using n by (simp add: screenshot_name_def)
  define ds where "ds = take (length r - length (u ''.png'')) r"
  have eq: "n = u ''screenshot-'' @ ds @ u ''.png''"
    unfolding ds_def by (rule cut_ends [OF r q]) (use len in simp)
  have "length n = length ds + 15" using arg_cong [OF eq, of length] by simp
  then have "take (length n - 15) (drop 11 n) = ds" using eq by simp
  then have "slash \<notin> set ds" using n by (auto simp: screenshot_name_def list_all_iff is_digit_def slash_def)
  moreover have "slash \<notin> set (u ''screenshot-'')" "slash \<notin> set (u ''.png'')" by (simp_all add: slash_def)
  ultimately have "slash \<notin> set n" unfolding eq by (simp del: u_Cons)
  moreover have "n \<noteq> []" "n \<noteq> u ''.''" using len by auto
  ultimately show ?thesis by simp
qed

lemma screenshot_parts: "screenshot_name n \<Longrightarrow> path_parts (u ''browser/'' @ n) = [u ''browser'', n]"
proof -
  assume n: "screenshot_name n"
  note c = screenshot_chars [OF n]
  have "u ''browser/'' @ n = u ''browser'' @ slash # n" "slash \<notin> set (u ''browser'')" by (simp_all add: slash_def)
  then have "split_on slash (u ''browser/'' @ n) = [u ''browser'', n]" using c
    by (simp add: split_on_dir split_on_plain del: u_Cons)
  then show ?thesis using c by (simp add: path_parts_def)
qed

lemma stored_at_Inr:
  "stored_at st run name = Inr (Some f) \<Longrightarrow> (\<exists>p. artifact_path run name = Inr p) \<and> dget (rs_files st) (run, path_parts name) = Some f"
  by (auto simp: stored_at_def bind_simps)

lemma read_artifact_Inr:
  "read_artifact st run name = Inr t \<Longrightarrow> \<exists>f p. artifact_path run name = Inr p \<and> dget (rs_files st) (run, path_parts name) = Some f \<and> t = file_view f"
  by (auto simp: read_artifact_def bind_simps stored_at_def split: option.splits)

lemma load_or_404_Inr: "load_or_404 s i = Inr r \<Longrightarrow> load_record (ws_web s) i = Some r"
  by (simp add: load_or_404_def split: option.splits)

subsection \<open>Lemmas on forks\<close>

definition fork_ok :: "(session \<Rightarrow> string \<Rightarrow> json \<Rightarrow> session) \<Rightarrow> bool" where
  \<comment> \<open>\<open>Session.fork\<close>: a session with the new identifier whose events stay distinct\<close>
  "fork_ok forked \<longleftrightarrow> (\<forall>n i m. se_id (forked n i m) = i
     \<and> (distinct (map ev_id (se_events n)) \<longrightarrow> distinct (map ev_id (se_events (forked n i m)))))"

lemma inherited_type: "ev_type e = ev_type e' \<Longrightarrow> inherited e = inherited e'"
  by (simp add: inherited_def)

lemma renumbered_types: "length (renumbered es) = length es \<and> map ev_type (renumbered es) = map ev_type es \<and> map ev_id (renumbered es) = map ev_id es"
  by (intro conjI nth_equalityI) (simp_all add: renumbered_def del: upt_Suc)

lemma additions_types: "ev_type ` set (additions k n es) \<subseteq> ev_type ` set es"
  by (induction k n es rule: additions.induct) auto

lemma types_inherited:
  assumes "ev_type ` set es \<subseteq> ev_type ` set xs" "\<forall>e\<in>set xs. inherited e"
  shows "\<forall>e\<in>set es. inherited e"
proof
  fix e assume "e \<in> set es"
  then obtain x where "x \<in> set xs" "ev_type e = ev_type x" using assms(1) by blast
  then show "inherited e" using assms(2) inherited_type [of e x] by blast
qed

lemma renumbered_inherited: "\<forall>e\<in>set (renumbered (filter inherited xs)). inherited e"
proof (rule types_inherited)
  have "map ev_type (renumbered (filter inherited xs)) = map ev_type (filter inherited xs)" using renumbered_types by simp
  from arg_cong [OF this, of set] show "ev_type ` set (renumbered (filter inherited xs)) \<subseteq> ev_type ` set (filter inherited xs)" by simp
qed simp

lemma state_not_inherited: "is_state name e \<Longrightarrow> \<not> inherited e"
  by (auto simp: is_state_def inherited_def STATE_UPDATED_def FOREIGN_def)

lemma fork_session_events:
  assumes "lightagent_ok la" "wf_db d" "fork_ok forked" "load d new = None" "fork_session la forked d i new = Inr d'"
  shows "list_all inherited (events d' new)" "other \<noteq> new \<Longrightarrow> events d' other = events d other" "wf_db d'"
proof -
  have none: "events d new = []" using assms(4) by (simp add: events_def)
  have "list_all inherited (events d' new) \<and> (other \<noteq> new \<longrightarrow> events d' other = events d other) \<and> wf_db d'"
  proof (cases "load d i")
    case None
    then show ?thesis using assms(2,5) none by (simp add: fork_session_def)
  next
    case (Some native)
    define es where "es = renumbered (filter inherited (se_events (forked native new (obj [(''lightworker_source_run'', JStr (u i))]))))"
    define fork where "fork = (forked native new (obj [(''lightworker_source_run'', JStr (u i))]))\<lparr>se_events := es\<rparr>"
    have "events d i = se_events native" using Some by (simp add: events_def)
    then have "distinct (map ev_id (se_events native))" using assms(2) events_seq(2) by (metis wf_db_def)
    then have dist: "distinct (map ev_id (se_events fork))" and id: "se_id fork = new"
      using assms(3) by (auto simp: fork_ok_def fork_def es_def renumbered_types distinct_map_filter)
    obtain x where sv: "save la d fork = Inr (d', x)"
      using assms(4,5) Some id by (auto simp: fork_session_def create_def Let_def bind_simps fork_def es_def)
    have "\<forall>e\<in>set es. inherited e" unfolding es_def by (rule renumbered_inherited)
    then have "\<forall>e\<in>set (additions k n es). inherited e" for k n
      by (rule types_inherited [OF additions_types])
    then show ?thesis
      using save_events [OF sv assms(2) dist] save_wf [OF sv assms(2) dist] none id by (simp add: list_all_iff fork_def)
  qed
  then show "list_all inherited (events d' new)" "other \<noteq> new \<Longrightarrow> events d' other = events d other" "wf_db d'" by auto
qed

subsection \<open>Properties\<close>

text \<open>
  C16. The service serves no file but a run's own: whatever is asked for by an artifact's name, a log's name or
  a screenshot's name, an answer is the text of a stored file of that run (or of the run its conversation
  began with) which the artifact table names, or which is a log or a screenshot in its own directory.
\<close>

theorem served_files_are_viewable:
  assumes "serve_file s i q = Inr t"
  shows "\<exists>r run p f. load_record (ws_web s) i = Some r \<and> run \<in> {i, root_run_id r} \<and> viewable p
    \<and> dget (rs_files (ws_store s)) (run, p) = Some f \<and> t = file_view f"
proof (cases q)
  case (Artifact a)
  then obtain r n where "load_record (ws_web s) i = Some r" and n: "map_of ARTIFACTS a = Some n"
    "read_artifact (ws_store s) (if a = ''conversation'' then root_run_id r else i) (u n) = Inr t"
    using assms load_or_404_Inr by (auto simp: get_artifact_def bind_simps split: option.splits)
  moreover have "viewable (path_parts (u n))"
    using artifact_parts [OF n(1)] image_eqI [of "[u n]" "\<lambda>(_, n). [u n]", OF _ map_of_SomeD [OF n(1)]] by (simp add: viewable_def)
  moreover obtain f where "dget (rs_files (ws_store s)) (if a = ''conversation'' then root_run_id r else i, path_parts (u n)) = Some f" "t = file_view f"
    using read_artifact_Inr [OF n(2)] by blast
  ultimately show ?thesis
    by (intro exI [of _ r] exI [of _ "if a = ''conversation'' then root_run_id r else i"] exI [of _ "path_parts (u n)"] exI [of _ f]) simp
next
  case (LogFile n)
  then obtain r where "load_record (ws_web s) i = Some r" and n: "safe_log_name n" "read_artifact (ws_store s) i (u ''logs/'' @ n) = Inr t"
    using assms load_or_404_Inr by (auto simp: get_log_def bind_simps simp del: u_Cons u_append)
  then show ?thesis using read_artifact_Inr [OF n(2)] log_name_parts [OF n(1)] by (auto simp: viewable_def simp del: u_Cons)
next
  case (Screenshot n)
  then obtain r f where "load_record (ws_web s) i = Some r" and n: "screenshot_name n"
    "stored_at (ws_store s) i (u ''browser/'' @ n) = Inr (Some f)" "t = file_view f"
    using assms load_or_404_Inr by (auto simp: get_browser_artifact_def bind_simps simp del: u_Cons u_append split: option.splits)
  then show ?thesis using stored_at_Inr [OF n(2)] screenshot_parts [OF n(1)] by (auto simp: viewable_def simp del: u_Cons)
qed



subsection \<open>Examples\<close>

definition example_history :: db where
  "example_history = \<lparr>db_sessions = [(''r1'', \<lparr>sr_meta = JObj [], sr_created = [], sr_updated = [], sr_version = 1\<rparr>)],
     db_events = [\<lparr>er_session = ''r1'', er_seq = 1, er_id = ''e'', er_payload = \<lparr>ev_id = ''e'', ev_seq = 1, ev_type = ''turn.user'', ev_data = JNull\<rparr>\<rparr>,
       \<lparr>er_session = ''r1'', er_seq = 2, er_id = ''f'', er_payload = \<lparr>ev_id = ''f'', ev_seq = 2, ev_type = STATE_UPDATED, ev_data = JNull\<rparr>\<rparr>]\<rparr>"

lemma example_history_wf: "wf_db example_history"
  by (simp add: wf_db_def wf_rows_def rows_def example_history_def)

definition example_service :: service where
  "example_service = \<lparr>ws_web = quiet_web,
     ws_store = \<lparr>rs_la = example_lightagent, rs_db = example_history,
       rs_files = [((''r1'', [u ''logs'', u ''a.log'']), FText (u ''done''))], rs_vault = []\<rparr>,
     ws_registries = [], ws_brokers = [], ws_goals = []\<rparr>"

definition example_forked :: "session \<Rightarrow> string \<Rightarrow> json \<Rightarrow> session" where
  "example_forked n i m = n\<lparr>se_id := i, se_meta := m\<rparr>"

lemma served_files_are_viewable_witness:
  "serve_file example_service ''r1'' (LogFile (u ''a.log'')) = Inr (u ''done'')
   \<and> (\<exists>run p. run \<in> {''r1''} \<and> viewable p \<and> dget (rs_files (ws_store example_service)) (run, p) = Some (FText (u ''done'')))"
proof -
  have "load_record (ws_web example_service) ''r1'' = Some first_run" "root_run_id first_run = ''r1''"
    by (simp_all add: example_service_def quiet_web_def load_record_def first_run_def root_run_id_def)
  moreover have "read_artifact (ws_store example_service) ''r1'' (u ''logs/'' @ u ''a.log'') = Inr (u ''done'')" "safe_log_name (u ''a.log'')"
    by code_simp+
  ultimately have served: "serve_file example_service ''r1'' (LogFile (u ''a.log'')) = Inr (u ''done'')"
    by (simp add: get_log_def load_or_404_def del: u_Cons u_append)
  from served_files_are_viewable [OF this]
  obtain run p f where "run \<in> {''r1''}" "viewable p" "dget (rs_files (ws_store example_service)) (run, p) = Some f"
    using \<open>load_record (ws_web example_service) ''r1'' = Some first_run\<close> \<open>root_run_id first_run = ''r1''\<close> by auto
  moreover from this(3) have "f = FText (u ''done'')" by (simp add: example_service_def split: if_splits)
  ultimately show ?thesis using served by blast
qed

lemma example_fork:
  "\<exists>d. fork_session example_lightagent example_forked example_history ''r1'' ''r2'' = Inr d"
  by (simp add: fork_session_def create_def save_def load_def rows_of_def example_history_def example_lightagent_def example_forked_def
      Let_def renumbered_def inherited_def FOREIGN_def STATE_UPDATED_def)


text \<open>A mutation from another origin is refused before its handler runs.\<close>

lemma cross_origin_mutation_refused:
  "cross_origin nfkc rq = Inr True \<Longrightarrow> serve_http nfkc rq handler s = (s, Inl (HTTPException 403 ''cross-origin mutation is not allowed''))"
  by (simp add: serve_http_def)

text \<open>
  The credentials of a fork's message go to the conversation it was forked from, not to the vault the
  fork reads.
\<close>

lemma fork_misses_its_credentials:
  assumes "prepare_followup w selected message new None = Inr (w', spec)" "u (rn_id (hd (conversation_records w selected))) \<noteq> u new"
  shows "dget (wb_vault w') (u new) = dget (wb_vault w) (u new)"
proof -
  obtain sanitized credentials where "sanitize_and_capture_credentials
      (map rn_task (conversation_records w selected) @ [message]) = (sanitized, credentials)" by force
  then show ?thesis using assms
    by (auto simp: prepare_followup_def Let_def bind_simps vault_merge_def dict_simps split: if_splits)
qed

text \<open>
  The update of a goal is not atomic: when usage is added between its read and its write, the goal that is
  written has the usage that was read.
\<close>

lemma goal_update_loses_usage:
  assumes "load_goal d = Inr g" and "add_usage d x = Inr (Some stored, now)" and "us_turns x \<noteq> 0"
  shows "g_usage (stored_goal (revised_goal p g)) = g_usage g \<and> g_usage stored \<noteq> g_usage g"
proof -
  have "us_turns (g_usage stored) = us_turns (g_usage g) + us_turns x"
    using assms(1,2) by (auto simp: add_usage_def Let_def bind_simps stored_goal_def)
  then show ?thesis using assms(3) by (auto simp: stored_goal_def revised_goal_def)
qed

end
