(* ===== verification/Lang_Tools.thy ===== *)
theory Lang_Tools
  imports Repo_Tools Sandbox_Helper
begin

text \<open>
  \<open>lsp_tools.py\<close> and the action \<open>lsp_request\<close> of \<open>sandbox_helper.py\<close>: symbols of a Python file, and one
  request to a language server that runs in the container, whose answers arrive framed by a
  \<open>Content-Length\<close> header in chunks of any size. Python's parser, the JSON parser and the server process are
  parameters.
\<close>

subsection \<open>Frames\<close>

definition CRLF2 :: "int list" where
  "CRLF2 = [13, 10, 13, 10]"

fun cut_header :: "int list \<Rightarrow> (int list \<times> int list) option" where
  \<comment> \<open>\<open>buffer.split(b"\r\n\r\n", 1)\<close>\<close>
  "cut_header [] = None"
| "cut_header (b # bs) =
     (if take 4 (b # bs) = CRLF2 then Some ([], drop 4 (b # bs)) else map_option (\<lambda>(h, r). (b # h, r)) (cut_header bs))"

definition byte_space :: "int \<Rightarrow> bool" where
  "byte_space b \<longleftrightarrow> b = 32 \<or> (9 \<le> b \<and> b \<le> 13)"

fun content_length :: "int list \<Rightarrow> nat option" where
  \<comment> \<open>\<open>re.search(rb"Content-Length:\s*(\d+)", header, re.I)\<close>\<close>
  "content_length [] = None"
| "content_length (b # bs) =
     (let digits = takeWhile is_digit (dropWhile byte_space (drop 15 (b # bs)))
      in if map lower_char (take 15 (b # bs)) = u ''content-length:'' \<and> digits \<noteq> [] then Some (digits_val digits)
         else content_length bs)"

datatype scan = Found json "int list" | Waiting "int list" | Broken exn

lemma cut_header_shorter: "cut_header bs = Some (h, r) \<Longrightarrow> length r < length bs"
proof (induction bs arbitrary: h)
  case (Cons b bs)
  show ?case
  proof (cases "take 4 (b # bs) = CRLF2")
    case True
    then show ?thesis using Cons.prems by auto
  next
    case False
    then obtain h' where "cut_header bs = Some (h', r)" using Cons.prems by auto
    then show ?thesis using Cons.IH by fastforce
  qed
qed simp

function deframe :: "(int list \<Rightarrow> json option) \<Rightarrow> int \<Rightarrow> int list \<Rightarrow> scan" where
  "deframe loads rid buffer =
     (case cut_header buffer of
        None \<Rightarrow> Waiting buffer
      | Some (header, body) \<Rightarrow> (case content_length header of
            None \<Rightarrow> Broken (HelperError ''invalid LSP response framing'')
          | Some n \<Rightarrow>
              (if length body < n then Waiting buffer
               else case loads (take n body) of
                   None \<Rightarrow> Broken (ValueError ''invalid JSON'')
                 | Some v \<Rightarrow>
                     if \<not> is_obj v then Broken (AttributeError ''object has no attribute get'')
                     else if py_eq (field ''id'' v) (JInt rid) then Found v (drop n body)
                     else deframe loads rid (drop n body))))"
  by pat_completeness auto
termination
  by (relation "measure (\<lambda>(_, _, b). length b)") (auto dest!: cut_header_shorter)

declare deframe.simps [simp del]

definition RESPONSE_LIMIT :: int where
  "RESPONSE_LIMIT = 1048576"

fun receive :: "(int list \<Rightarrow> json option) \<Rightarrow> int \<Rightarrow> int list \<Rightarrow> int list list \<Rightarrow> (json \<times> int list list) result" where
  \<comment> \<open>the chunks that arrive before the deadline, an empty one at the end of the stream; what is left of
      them is the second component, but the bytes that were read behind the response are dropped\<close>
  "receive loads rid buffer [] = Inl (HelperError ''language server request timed out'')"
| "receive loads rid buffer (c # cs) =
     (if c = [] then Inl (HelperError ''language server request timed out'')
      else if RESPONSE_LIMIT < int (length (buffer @ c)) then Inl (HelperError ''language server response exceeds limit'')
      else case deframe loads rid (buffer @ c) of
          Found v _ \<Rightarrow> Inr (v, cs)
        | Waiting b \<Rightarrow> receive loads rid b cs
        | Broken e \<Rightarrow> Inl e)"

subsection \<open>A request\<close>

definition LSP_METHODS :: "pytext list" where
  "LSP_METHODS = map u [''textDocument/definition'', ''textDocument/references'', ''textDocument/documentSymbol'',
     ''workspace/symbol'', ''textDocument/hover'', ''textDocument/completion'']"

record 'w lsp_server =
  ls_start :: "pytext list \<Rightarrow> ('w, nat) act"
  ls_send :: "nat \<Rightarrow> json \<Rightarrow> ('w, unit) act"
  ls_chunks :: "nat \<Rightarrow> 'w \<Rightarrow> 'w \<times> int list list"  \<comment> \<open>what arrives until the deadline or the end\<close>
  ls_stop :: "nat \<Rightarrow> 'w \<Rightarrow> 'w"  \<comment> \<open>terminate, then kill\<close>

definition lsp_message :: "int option \<Rightarrow> pytext \<Rightarrow> json \<Rightarrow> json" where
  "lsp_message i method params = obj ([(''jsonrpc'', JStr (u ''2.0''))] @ (case i of None \<Rightarrow> [] | Some n \<Rightarrow> [(''id'', JInt n)])
     @ [(''method'', JStr method), (''params'', params)])"

definition initialize_message :: json where
  "initialize_message = lsp_message (Some 1) (u ''initialize'')
     (obj [(''processId'', JNull), (''rootUri'', JStr (u ''file:///workspace'')), (''capabilities'', JObj [])])"

definition lsp_exchange :: "'w lsp_server \<Rightarrow> (int list \<Rightarrow> json option) \<Rightarrow> nat \<Rightarrow> pytext \<Rightarrow> json \<Rightarrow> ('w, json) act" where
  "lsp_exchange sv loads pid method params =
     bindA (ls_send sv pid initialize_message) (\<lambda>_.
     bindA (\<lambda>w. case ls_chunks sv pid w of (w', cs) \<Rightarrow> (w', receive loads 1 [] cs)) (\<lambda>(_, rest).
     bindA (ls_send sv pid (lsp_message None (u ''initialized'') (JObj []))) (\<lambda>_.
     bindA (ls_send sv pid (lsp_message (Some 2) method params)) (\<lambda>_.
     bindA (\<lambda>w. case ls_chunks sv pid w of (w', cs) \<Rightarrow> (w', receive loads 2 [] (rest @ cs))) (\<lambda>(v, _).
       ret (obj [(''response'', v)]))))))"

definition lsp_request :: "'w lsp_server \<Rightarrow> (int list \<Rightarrow> json option) \<Rightarrow> json \<Rightarrow> json \<Rightarrow> ('w, json) act" where
  "lsp_request sv loads params policy =
     bindA (liftA (argv_of params False ''invalid language server argv'')) (\<lambda>argv.
     bindA (liftA (validate_shell_command argv policy)) (\<lambda>_.
     bindA (liftA (require_string params ''method'')) (\<lambda>method.
     guardA (method \<notin> set LSP_METHODS) (HelperError ''LSP method is not read-only or is unsupported'')
    (bindA (ls_start sv argv) (\<lambda>pid.
       finallyA (lsp_exchange sv loads pid method (get_or ''params'' (JObj []) params))
         (\<lambda>w. (ls_stop sv pid w, Inr ())))))))"

subsection \<open>The tools\<close>

record symbol =
  sy_name :: pytext
  sy_kind :: pytext
  sy_line :: int
  sy_end :: int

definition symbol_json :: "symbol \<Rightarrow> json" where
  "symbol_json s = obj [(''name'', JStr (sy_name s)), (''kind'', JStr (sy_kind s)), (''line'', JInt (sy_line s)), (''end_line'', JInt (sy_end s))]"

definition symbols_reply :: "(pytext \<Rightarrow> (json \<times> json \<times> json) + symbol list) \<Rightarrow> json \<Rightarrow> json" where
  \<comment> \<open>the parser gives the place and the message of a syntax error, or the definitions of the module\<close>
  "symbols_reply parse p =
     (if field ''ok'' p = JBool False then p
      else case parse (py_str (get_or ''content'' (JStr []) p)) of
          Inl (line, column, message) \<Rightarrow> obj [(''ok'', JBool True), (''symbols'', JList []),
             (''diagnostics'', JList [obj [(''line'', line), (''column'', column), (''message'', message)]])]
        | Inr ss \<Rightarrow> obj [(''ok'', JBool True), (''symbols'', JList (map symbol_json ss)), (''diagnostics'', JList [])])"

definition code_symbols :: "(pytext \<Rightarrow> (json \<times> json \<times> json) + symbol list) \<Rightarrow> 'w sandbox \<Rightarrow> pytext \<Rightarrow> (('w, 'z) repo_scheme, json) act" where
  "code_symbols parse sb path = bindA (Repo_Tools.read_file sb path 1 0) (\<lambda>p. ret (symbols_reply parse p))"

definition lsp_tool :: "'w sandbox \<Rightarrow> json \<Rightarrow> pytext \<Rightarrow> json \<Rightarrow> (('w, 'z) repo_scheme, json) act" where
  "lsp_tool sb argv method params =
     call_sandbox sb ''lsp_request'' (obj [(''argv'', argv), (''method'', JStr method), (''params'', params)]) (Some 30)"

definition language_tools :: "'w sandbox \<Rightarrow> string list" where
  "language_tools sb = [''code_symbols''] @ (if sb_supports_shell sb then [''lsp_request''] else [])"

subsection \<open>Frames are found in any chunks\<close>

definition frame :: "(json \<Rightarrow> int list) \<Rightarrow> json \<Rightarrow> int list" where
  "frame body m = u ''Content-Length: '' @ nat_repr (length (body m)) @ CRLF2 @ body m"

lemma cut_header_clean: "13 \<notin> set h \<Longrightarrow> cut_header (h @ CRLF2 @ r) = Some (h, r)"
proof (induction h)
  case Nil
  then show ?case by (simp add: CRLF2_def)
next
  case (Cons b h)
  then have "take 4 (b # h @ CRLF2 @ r) \<noteq> CRLF2" by (auto simp: CRLF2_def)
  then show ?case using Cons by simp
qed

lemma cut_header_split: "cut_header bs = Some (h, r) \<Longrightarrow> bs = h @ CRLF2 @ r"
proof (induction bs arbitrary: h)
  case (Cons b bs)
  show ?case
  proof (cases "take 4 (b # bs) = CRLF2")
    case True
    then have "h = []" "r = drop 4 (b # bs)" using Cons.prems by auto
    then show ?thesis using append_take_drop_id [of 4 "b # bs"] unfolding True by simp
  next
    case False
    then obtain h' where "cut_header bs = Some (h', r)" "h = b # h'" using Cons.prems by auto
    then show ?thesis using Cons.IH by simp
  qed
qed simp

lemma cut_header_short:
  assumes "13 \<notin> set h" "prefix b (h @ CRLF2 @ r)" "length b < length h + 4"
  shows "cut_header b = None"
proof (rule ccontr)
  assume "cut_header b \<noteq> None"
  then obtain h' r' where "cut_header b = Some (h', r')" by auto
  then have b: "b = h' @ CRLF2 @ r'" by (rule cut_header_split)
  then have len: "length h' < length h" using assms(3) by (simp add: CRLF2_def)
  obtain zs where "h @ CRLF2 @ r = b @ zs" using assms(2) by (auto simp: prefix_def)
  then have e: "h @ CRLF2 @ r = h' @ 13 # [10, 13, 10] @ r' @ zs" using b by (simp add: CRLF2_def)
  have "(h @ CRLF2 @ r) ! length h' = 13" unfolding e by simp
  then have "h ! length h' = 13" using len by (simp add: nth_append)
  then show False using assms(1) len nth_mem by metis
qed

lemma length_header: "content_length (u ''Content-Length: '' @ nat_repr n) = Some n"
proof -
  have digits: "list_all is_digit (nat_repr n)" using nat_repr_digits [of n] by (simp add: is_digit_def list_all_iff)
  then have tw: "takeWhile is_digit (nat_repr n) = nat_repr n" by (simp add: takeWhile_eq_all_conv list_all_iff)
  have dw: "dropWhile byte_space (32 # nat_repr n) = nat_repr n"
    using digits nat_repr_nonempty [of n]
    by (cases "nat_repr n") (auto simp: byte_space_def is_digit_def)
  show ?thesis using nat_repr_nonempty [of n] digits_nat_repr [of n]
    by (simp add: lower_char_def Let_def tw dw del: dropWhile.simps)
qed

lemma header_clean: "13 \<notin> set (u ''Content-Length: '' @ nat_repr n)"
  using nat_repr_digits [of n] by (auto simp: list_all_iff)

lemma deframe_message:
  assumes "loads (body m) = Some m" "is_obj m"
  shows "deframe loads rid (frame body m @ rest) =
    (if py_eq (field ''id'' m) (JInt rid) then Found m rest else deframe loads rid rest)"
proof -
  have "cut_header (frame body m @ rest) = Some (u ''Content-Length: '' @ nat_repr (length (body m)), body m @ rest)"
    using cut_header_clean [OF header_clean, of "length (body m)" "body m @ rest"] by (simp add: frame_def del: u_Cons)
  then show ?thesis using assms length_header by (subst deframe.simps) (simp del: u_Cons)
qed

lemma long_enough:
  assumes "b @ rest = f @ r" "\<not> length b < length f"
  shows "b = f @ drop (length f) b"
proof -
  have "take (length f) (b @ rest) = f" using assms(1) by simp
  then have "take (length f) b = f" using assms(2) by simp
  then show ?thesis by (metis append_take_drop_id)
qed

lemma deframe_partial:
  assumes "prefix b (frame body m @ rest)" "length b < length (frame body m)"
  shows "deframe loads rid b = Waiting b"
proof -
  let ?h = "u ''Content-Length: '' @ nat_repr (length (body m))"
  have fr: "frame body m @ rest = ?h @ CRLF2 @ (body m @ rest)" by (simp add: frame_def del: u_Cons)
  show ?thesis
  proof (cases "length b < length ?h + 4")
    case True
    then have "cut_header b = None"
      using cut_header_short [OF header_clean] assms(1) unfolding fr by blast
    then show ?thesis by (simp add: deframe.simps)
  next
    case False
    obtain zs where "b @ zs = (?h @ CRLF2) @ body m @ rest" using assms(1) unfolding fr by (auto simp: prefix_def)
    moreover have "\<not> length b < length (?h @ CRLF2)" using False by (simp add: CRLF2_def del: u_Cons)
    ultimately have "b = (?h @ CRLF2) @ drop (length (?h @ CRLF2)) b" by (rule long_enough)
    then obtain r where b: "b = ?h @ CRLF2 @ r" by (metis append_assoc)
    then have "length r < length (body m)" using assms(2) by (simp add: frame_def CRLF2_def del: u_Cons)
    moreover have "cut_header b = Some (?h, r)" unfolding b by (rule cut_header_clean [OF header_clean])
    ultimately show ?thesis using length_header by (subst deframe.simps) (simp del: u_Cons)
  qed
qed

definition stream_of :: "(json \<Rightarrow> int list) \<Rightarrow> json list \<Rightarrow> int list" where
  "stream_of body ms = concat (map (frame body) ms)"

definition readable_message :: "(int list \<Rightarrow> json option) \<Rightarrow> (json \<Rightarrow> int list) \<Rightarrow> json \<Rightarrow> bool" where
  "readable_message loads body m \<longleftrightarrow> loads (body m) = Some m \<and> is_obj m"

definition has_id :: "int \<Rightarrow> json \<Rightarrow> bool" where
  "has_id rid m \<longleftrightarrow> py_eq (field ''id'' m) (JInt rid)"

lemma deframe_stream:
  assumes "b @ rest = stream_of body (pre @ m # post)"
    and "list_all (readable_message loads body) (pre @ [m])" "list_all (\<lambda>x. \<not> has_id rid x) pre" "has_id rid m"
  shows "(\<exists>r. deframe loads rid b = Found m r)
    \<or> (\<exists>b' pre'. deframe loads rid b = Waiting b' \<and> b' @ rest = stream_of body (pre' @ m # post)
         \<and> list_all (readable_message loads body) (pre' @ [m]) \<and> list_all (\<lambda>x. \<not> has_id rid x) pre'
         \<and> length b' < length (stream_of body (pre' @ [m])) \<and> length b' \<le> length b)"
  using assms
proof (induction pre arbitrary: b)
  case Nil
  show ?case
  proof (cases "length b < length (frame body m)")
    case True
    have "prefix b (frame body m @ stream_of body post)" using Nil.prems(1) by (auto simp: stream_of_def intro: prefixI [OF sym])
    then have "deframe loads rid b = Waiting b" using True by (rule deframe_partial)
    then show ?thesis using Nil True by (intro disjI2 exI [of _ b] exI [of _ "[]"]) (simp add: stream_of_def)
  next
    case False
    then obtain b2 where "b = frame body m @ b2"
      using long_enough [of b rest "frame body m" "stream_of body post"] Nil.prems(1) by (simp add: stream_of_def)
    then show ?thesis using Nil deframe_message [of loads body m rid b2] by (auto simp: readable_message_def has_id_def)
  qed
next
  case (Cons x pre)
  show ?case
  proof (cases "length b < length (frame body x)")
    case True
    have "prefix b (frame body x @ stream_of body (pre @ m # post))"
      using Cons.prems(1) by (auto simp: stream_of_def intro: prefixI [OF sym])
    then have "deframe loads rid b = Waiting b" using True by (rule deframe_partial)
    then show ?thesis using Cons.prems True by (intro disjI2 exI [of _ b] exI [of _ "x # pre"]) (simp add: stream_of_def)
  next
    case False
    then obtain b2 where b2: "b = frame body x @ b2"
      using long_enough [of b rest "frame body x" "stream_of body (pre @ m # post)"] Cons.prems(1) by (simp add: stream_of_def)
    then have "b2 @ rest = stream_of body (pre @ m # post)" using Cons.prems(1) by (simp add: stream_of_def)
    from Cons.IH [OF this] Cons.prems have ih: "(\<exists>r. deframe loads rid b2 = Found m r)
      \<or> (\<exists>b' pre'. deframe loads rid b2 = Waiting b' \<and> b' @ rest = stream_of body (pre' @ m # post)
         \<and> list_all (readable_message loads body) (pre' @ [m]) \<and> list_all (\<lambda>x. \<not> has_id rid x) pre'
         \<and> length b' < length (stream_of body (pre' @ [m])) \<and> length b' \<le> length b2)" by simp
    moreover have "deframe loads rid b = deframe loads rid b2"
      using b2 Cons.prems deframe_message [of loads body x rid b2] by (simp add: readable_message_def has_id_def)
    ultimately show ?thesis using b2 by fastforce
  qed
qed

lemma receive_stream:
  assumes "buffer @ concat cs = stream_of body (pre @ m # post)" "length buffer < length (stream_of body (pre @ [m]))"
    and "list_all (readable_message loads body) (pre @ [m])" "list_all (\<lambda>x. \<not> has_id rid x) pre" "has_id rid m"
    and "[] \<notin> set cs" "int (length buffer + length (concat cs)) \<le> RESPONSE_LIMIT"
  shows "\<exists>rest. receive loads rid buffer cs = Inr (m, rest)"
  using assms
proof (induction cs arbitrary: buffer pre)
  case Nil
  then show ?case by (simp add: stream_of_def)
next
  case (Cons c cs)
  have "(buffer @ c) @ concat cs = stream_of body (pre @ m # post)" using Cons.prems(1) by simp
  from deframe_stream [OF this Cons.prems(3-5)] show ?case
  proof (elim disjE exE conjE)
    fix r assume "deframe loads rid (buffer @ c) = Found m r"
    then show ?thesis using Cons.prems(6,7) by auto
  next
    fix b' pre' assume b': "deframe loads rid (buffer @ c) = Waiting b'" "b' @ concat cs = stream_of body (pre' @ m # post)"
      "list_all (readable_message loads body) (pre' @ [m])" "list_all (\<lambda>x. \<not> has_id rid x) pre'"
      "length b' < length (stream_of body (pre' @ [m]))" "length b' \<le> length (buffer @ c)"
    have "\<exists>rest. receive loads rid b' cs = Inr (m, rest)"
      by (rule Cons.IH [OF b'(2,5,3,4)]) (use Cons.prems(5-7) b'(6) in auto)
    then show ?thesis using b'(1) Cons.prems(6,7) by auto
  qed
qed

subsection \<open>Properties\<close>

text \<open>
  C19. The answer to a request is found however the server's output is cut into chunks: when the output is a
  sequence of framed messages within the limit, of which the first with the request's identifier is \<open>m\<close>, the
  helper returns \<open>m\<close>, for every division into non-empty chunks and whatever follows it.
\<close>

theorem response_is_found_in_any_chunks:
  assumes "concat chunks = stream_of body (pre @ m # post)" "[] \<notin> set chunks"
    and "list_all (readable_message loads body) (pre @ [m])" "list_all (\<lambda>x. \<not> has_id rid x) pre" "has_id rid m"
    and "int (length (concat chunks)) \<le> RESPONSE_LIMIT"
  shows "\<exists>rest. receive loads rid [] chunks = Inr (m, rest)"
proof -
  have "0 < length (stream_of body (pre @ [m]))" by (simp add: stream_of_def frame_def CRLF2_def)
  then show ?thesis using receive_stream [of "[]" chunks body pre m post] assms by simp
qed


definition sample_response :: "int \<Rightarrow> json" where
  "sample_response n = obj [(''id'', JInt n)]"

definition sample_note :: json where
  "sample_note = obj [(''method'', JStr (u ''ready''))]"

definition sample_body :: "json \<Rightarrow> int list" where
  "sample_body m = (if m = sample_note then [0] else if m = sample_response 1 then [1] else [2])"

definition sample_loads :: "int list \<Rightarrow> json option" where
  "sample_loads b = (if b = [0] then Some sample_note else if b = [1] then Some (sample_response 1)
     else if b = [2] then Some (sample_response 2) else None)"

lemma sample_stream:
  "stream_of sample_body ([sample_note] @ sample_response 1 # [sample_response 2]) =
     u ''Content-Length: 1'' @ CRLF2 @ [0] @ u ''Content-Length: 1'' @ CRLF2 @ [1] @ u ''Content-Length: 1'' @ CRLF2 @ [2]"
  by (simp add: stream_of_def frame_def sample_body_def sample_note_def sample_response_def obj_def nat_repr.simps)

lemma response_is_found_in_any_chunks_witness:
  "\<exists>rest. receive sample_loads 1 [] [take 19 (stream_of sample_body ([sample_note] @ sample_response 1 # [sample_response 2])),
      drop 19 (stream_of sample_body ([sample_note] @ sample_response 1 # [sample_response 2]))] = Inr (sample_response 1, rest)"
  by (rule response_is_found_in_any_chunks [where body = sample_body and pre = "[sample_note]" and post = "[sample_response 2]"],
      simp_all only: sample_stream)
     (simp_all add: CRLF2_def readable_message_def has_id_def sample_body_def sample_loads_def sample_note_def
        sample_response_def RESPONSE_LIMIT_def field_def obj_def py_eq_def)

text \<open>What a chunk holds behind the response is lost: the next message then begins in the middle of its frame.\<close>

lemma bytes_behind_response_are_lost:
  "receive sample_loads 1 [] [frame sample_body (sample_response 1) @ take 10 (frame sample_body (sample_response 2)),
      drop 10 (frame sample_body (sample_response 2))] = Inr (sample_response 1, [drop 10 (frame sample_body (sample_response 2))])
   \<and> receive sample_loads 2 [] [drop 10 (frame sample_body (sample_response 2))]
       = Inl (HelperError ''invalid LSP response framing'')"
  by code_simp

text \<open>The parser is handed the numbered lines of a reading, not the source: its first line always begins with
  \<open>1: \<close>, which is no Python statement.\<close>

lemma symbols_parse_numbered_text:
  assumes "ls \<noteq> []"
  shows "prefix (u ''1: '') (number_lines 1 ls)"
proof -
  obtain l rest where ls: "ls = l # rest" using assms by (cases ls) auto
  have one: "int_repr 1 = [49]" by (simp add: int_repr_def nat_repr.simps)
  have "[0..<length ls] = 0 # [1..<length ls]" unfolding ls by (simp add: upt_rec)
  then have "zip (map (\<lambda>i. 1 + int i) [0..<length ls]) ls = (1, l) # zip (map (\<lambda>i. 1 + int i) [1..<length ls]) rest"
    by (simp add: ls)
  then have e: "number_lines 1 ls = join [10] ((49 # 58 # 32 # l)
      # map (\<lambda>p. int_repr (fst p) @ 58 # 32 # snd p) (zip (map (\<lambda>i. 1 + int i) [1..<length ls]) rest))"
    by (simp add: number_lines_def one)
  have "prefix x (join s (x # xs))" for x s :: pytext and xs by (cases xs) simp_all
  from this [of "49 # 58 # 32 # l"] show ?thesis unfolding e by (auto simp: prefix_def)
qed

text \<open>The server is stopped on every path once it was started.\<close>

lemma server_is_stopped:
  assumes "argv_of params False ''invalid language server argv'' = Inr argv" "validate_shell_command argv policy = Inr v"
    and "require_string params ''method'' = Inr method" "method \<in> set LSP_METHODS" "ls_start sv argv w = (w1, Inr pid)"
  shows "fst (lsp_request sv loads params policy w) =
    ls_stop sv pid (fst (lsp_exchange sv loads pid method (get_or ''params'' (JObj []) params) w1))"
  using assms by (simp add: lsp_request_def bindA_def liftA_def guardA_def finallyA_def split: prod.splits sum.splits)

end
