(* ===== verification/Spec2Isabelle.thy ===== *)
theory Spec2Isabelle
  imports Storage Jobs Schedules Control Goals Message_Queue Tool_Protocol Code_Mode Sandbox_Helper Docker_Sandbox Read_Only Conversations Task_Scheduler Context Workflow_Run Rag_Index Memory Continuation
    Agentic Evidence Http_Tools Coding_Flow Task_Runner Snapshots Plugins Skills Browser Providers Mcp Run_View Ui_Events Shlex Settings Service Lang_Tools
begin

text \<open>
  LightWorker: a durable runner of tool-using agents. The development models its Python core; this
  header is completed as components are added.
\<close>

end
